(* ===== verification/MQ_Prelude.thy ===== *)
theory MQ_Prelude
  imports Main "HOL-Library.Word" "HOL-Library.AList" "HOL-Library.List_Lexorder"
begin

text \<open>
  Shared vocabulary of the development: bytes and big-endian integers, a result type for
  code that may panic, hash maps and hash sets as lists with distinct keys, and ordered
  sets that compare their elements by a time stamp only.  Nothing here is specific to one
  component of the program; the component theories import it and use the collections
  \<open>mq_defs\<close> (definitions that are unfolded) and \<open>mq_simps\<close> (rewrite rules about the
  containers).
\<close>

named_theorems mq_defs \<open>definitions unfolded by the component proofs\<close>
named_theorems mq_simps \<open>rewrite rules of the shared containers\<close>

section \<open>Bytes and big-endian integers\<close>

type_synonym byte = "8 word"
type_synonym bytes = "8 word list"
type_synonym u32 = "32 word"
type_synonym u64 = "64 word"

text \<open>\<open>to_be_bytes\<close> and \<open>from_be_bytes\<close> of Rust's unsigned integers, on the value.\<close>

primrec nat_to_be :: "nat \<Rightarrow> nat \<Rightarrow> bytes" where
  "nat_to_be 0 x = []"
| "nat_to_be (Suc n) x = nat_to_be n (x div 256) @ [word_of_nat (x mod 256)]"

definition nat_of_be :: "bytes \<Rightarrow> nat" where
  "nat_of_be bs = foldl (\<lambda>a b. a * 256 + unat b) 0 bs"

definition u32_to_be_bytes :: "u32 \<Rightarrow> bytes" where
  "u32_to_be_bytes w = nat_to_be 4 (unat w)"

definition u32_from_be_bytes :: "bytes \<Rightarrow> u32" where
  "u32_from_be_bytes bs = word_of_nat (nat_of_be bs)"

definition u64_to_be_bytes :: "u64 \<Rightarrow> bytes" where
  "u64_to_be_bytes w = nat_to_be 8 (unat w)"

lemma length_nat_to_be [simp]: "length (nat_to_be n x) = n"
  by (induction n arbitrary: x) simp_all

lemma length_u32_to_be_bytes [simp]: "length (u32_to_be_bytes w) = 4"
  by (simp add: u32_to_be_bytes_def)

lemma length_u64_to_be_bytes [simp]: "length (u64_to_be_bytes w) = 8"
  by (simp add: u64_to_be_bytes_def)

lemma unat_byte_of_nat_mod [simp]: "unat (word_of_nat (x mod 256) :: byte) = x mod 256"
  by (simp add: unat_of_nat)

lemma nat_of_be_append_one: "nat_of_be (bs @ [b]) = nat_of_be bs * 256 + unat b"
  by (simp add: nat_of_be_def)

lemma nat_of_be_to_be: "nat_of_be (nat_to_be n x) = x mod 256 ^ n"
proof (induction n arbitrary: x)
  case 0
  then show ?case by (simp add: nat_of_be_def)
next
  case (Suc n)
  have "nat_of_be (nat_to_be (Suc n) x) = (x div 256 mod 256 ^ n) * 256 + x mod 256"
    by (simp add: nat_of_be_append_one Suc.IH)
  also have "\<dots> = x mod (256 * 256 ^ n)"
    by (simp add: mod_mult2_eq mult.commute)
  finally show ?case by simp
qed

lemma u32_from_to_be [simp]: "u32_from_be_bytes (u32_to_be_bytes w) = w"
proof -
  have "unat w < 2 ^ 32"
    using unsigned_less [of w] by simp
  then show ?thesis
    by (simp add: u32_from_be_bytes_def u32_to_be_bytes_def nat_of_be_to_be)
qed

lemma u32_to_be_bytes_inject: "u32_to_be_bytes a = u32_to_be_bytes b \<longleftrightarrow> a = b"
  using u32_from_to_be by metis

lemma u64_to_be_bytes_inject: "u64_to_be_bytes a = u64_to_be_bytes b \<longleftrightarrow> a = b"
proof
  assume "u64_to_be_bytes a = u64_to_be_bytes b"
  then have "nat_of_be (u64_to_be_bytes a) = nat_of_be (u64_to_be_bytes b)"
    by simp
  moreover have "unat a < 2 ^ 64" "unat b < 2 ^ 64"
    using unsigned_less [of a] unsigned_less [of b] by simp_all
  ultimately have "unat a = unat b"
    by (simp add: u64_to_be_bytes_def nat_of_be_to_be)
  then show "a = b" by (rule unsigned_word_eqI)
qed simp

section \<open>Results of code that may panic\<close>

text \<open>
  A Rust panic ends the task that runs the code.  It is a value here: \<open>Inl\<close> of the reason.
\<close>

datatype panic =
    QueueEmpty          \<comment> \<open>\<open>expect("queue at least one element")\<close>\<close>
  | Unimplemented       \<comment> \<open>\<open>unimplemented!(..)\<close>\<close>
  | MissingIndex        \<comment> \<open>\<open>map[&key]\<close> with no such key\<close>
  | ArithOverflow       \<comment> \<open>checked integer arithmetic left the range of the type\<close>
  | TopicCodeNotSet     \<comment> \<open>\<open>expect("topic code not set")\<close>\<close>
  | SliceLength         \<comment> \<open>\<open>copy_from_slice\<close> between slices of different lengths\<close>
  | AssertFailed        \<comment> \<open>\<open>assert!\<close>\<close>
  | BadRange            \<comment> \<open>\<open>BTreeMap::range\<close> with the start behind the end\<close>
  | DecodeFailed        \<comment> \<open>\<open>unwrap\<close> or \<open>expect\<close> on an error\<close>
  | HeaderNotSet        \<comment> \<open>\<open>expect("header is set")\<close>\<close>

type_synonym 'a outcome = "panic + 'a"

fun and_then :: "'a outcome \<Rightarrow> ('a \<Rightarrow> 'b outcome) \<Rightarrow> 'b outcome" where
  "and_then (Inl p) f = Inl p"
| "and_then (Inr x) f = f x"

lemma and_then_Inr_iff: "and_then r f = Inr y \<longleftrightarrow> (\<exists>x. r = Inr x \<and> f x = Inr y)"
  by (cases r) auto

lemma and_then_assoc: "and_then (and_then r f) g = and_then r (\<lambda>x. and_then (f x) g)"
  by (cases r) simp_all

lemma and_then_cong [fundef_cong]:
  "r = r' \<Longrightarrow> (\<And>x. r' = Inr x \<Longrightarrow> f x = g x) \<Longrightarrow> and_then r f = and_then r' g"
  by (cases r') auto

text \<open>A loop over a list that stops at the first panic.\<close>

fun fold_outcome :: "('x \<Rightarrow> 's \<Rightarrow> 's outcome) \<Rightarrow> 'x list \<Rightarrow> 's \<Rightarrow> 's outcome" where
  "fold_outcome f [] s = Inr s"
| "fold_outcome f (x # xs) s = and_then (f x s) (fold_outcome f xs)"

lemma fold_outcome_cong [fundef_cong]:
  "xs = ys \<Longrightarrow> s = t \<Longrightarrow> (\<And>x u. x \<in> set ys \<Longrightarrow> f x u = g x u)
    \<Longrightarrow> fold_outcome f xs s = fold_outcome g ys t"
proof (induction ys arbitrary: xs s t)
  case (Cons y ys)
  have "fold_outcome f ys u = fold_outcome g ys u" for u
    using Cons.IH [OF refl refl] Cons.prems(3) by simp
  then have "fold_outcome f ys = fold_outcome g ys"
    by blast
  with Cons.prems show ?case by simp
qed simp

lemma fold_outcome_invariant:
  assumes step: "\<And>x s. x \<in> set xs \<Longrightarrow> P s \<Longrightarrow> \<exists>t. f x s = Inr t \<and> P t"
    and init: "P s"
  shows "\<exists>t. fold_outcome f xs s = Inr t \<and> P t"
  using step init
proof (induction xs arbitrary: s)
  case (Cons x xs)
  then obtain t where "f x s = Inr t" "P t"
    by (metis list.set_intros(1))
  with Cons.IH [of t] Cons.prems(1) show ?case by simp
qed simp

section \<open>Hash maps and hash sets\<close>

text \<open>
  A \<open>HashMap\<close> is an association list with distinct keys: \<open>map_of\<close> looks a key up, the order
  of the list is the order in which an iterator yields the entries.  Rust leaves that order
  unspecified, so a fact that matters about the program is stated through \<open>map_of\<close> or for
  every list.  A \<open>HashSet\<close> that is iterated is a distinct list, one that is only queried a set.
\<close>

type_synonym ('k, 'v) hash_map = "('k \<times> 'v) list"

abbreviation hm_get :: "('k, 'v) hash_map \<Rightarrow> 'k \<Rightarrow> 'v option" where
  "hm_get \<equiv> map_of"

abbreviation hm_insert :: "'k \<Rightarrow> 'v \<Rightarrow> ('k, 'v) hash_map \<Rightarrow> ('k, 'v) hash_map" where
  "hm_insert \<equiv> AList.update"

abbreviation hm_remove :: "'k \<Rightarrow> ('k, 'v) hash_map \<Rightarrow> ('k, 'v) hash_map" where
  "hm_remove \<equiv> AList.delete"

abbreviation hm_keys :: "('k, 'v) hash_map \<Rightarrow> 'k list" where
  "hm_keys \<equiv> map fst"

abbreviation hm_wf :: "('k, 'v) hash_map \<Rightarrow> bool" where
  "hm_wf m \<equiv> distinct (map fst m)"

text \<open>\<open>get_mut\<close> followed by an assignment through the reference; nothing when the key is absent.\<close>

definition hm_modify :: "'k \<Rightarrow> ('v \<Rightarrow> 'v) \<Rightarrow> ('k, 'v) hash_map \<Rightarrow> ('k, 'v) hash_map" where
  "hm_modify k f m = (case map_of m k of None \<Rightarrow> m | Some v \<Rightarrow> AList.update k (f v) m)"

text \<open>\<open>values_mut\<close> or \<open>iter_mut\<close>: every value is replaced in place.\<close>

definition hm_map_values :: "('k \<Rightarrow> 'v \<Rightarrow> 'w) \<Rightarrow> ('k, 'v) hash_map \<Rightarrow> ('k, 'w) hash_map" where
  "hm_map_values f m = map (\<lambda>(k, v). (k, f k v)) m"

text \<open>The contract of a map, as the components rely on it.\<close>

locale keyed_map =
  fixes empty :: "'m"
    and get :: "'m \<Rightarrow> 'k \<Rightarrow> 'v option"
    and ins :: "'k \<Rightarrow> 'v \<Rightarrow> 'm \<Rightarrow> 'm"
    and del :: "'k \<Rightarrow> 'm \<Rightarrow> 'm"
    and keys :: "'m \<Rightarrow> 'k list"
    and wf :: "'m \<Rightarrow> bool"
  assumes get_empty: "get empty = Map.empty"
    and get_ins: "get (ins k v m) = (get m)(k \<mapsto> v)"
    and get_del: "get (del k m) = (get m)(k := None)"
    and set_keys: "set (keys m) = dom (get m)"
    and distinct_keys: "wf m \<Longrightarrow> distinct (keys m)"
    and wf_empty: "wf empty"
    and wf_ins: "wf m \<Longrightarrow> wf (ins k v m)"
    and wf_del: "wf m \<Longrightarrow> wf (del k m)"
begin

lemma length_keys: "wf m \<Longrightarrow> length (keys m) = card (dom (get m))"
  by (metis distinct_card distinct_keys set_keys)

lemma finite_dom_get: "finite (dom (get m))"
  by (metis List.finite_set set_keys)

lemma length_keys_ins:
  "wf m \<Longrightarrow> length (keys (ins k v m)) = (if get m k = None then Suc (length (keys m)) else length (keys m))"
  by (auto simp: length_keys wf_ins get_ins finite_dom_get card_insert_if domIff)

lemma length_keys_del:
  "wf m \<Longrightarrow> length (keys (del k m)) = (if get m k = None then length (keys m) else length (keys m) - 1)"
  by (auto simp: length_keys wf_del get_del finite_dom_get card_Diff_singleton_if domIff)

lemma length_keys_pos: "get m k = Some v \<Longrightarrow> 0 < length (keys m)"
  by (metis domI length_pos_if_in_set set_keys)

end

lemma distinct_keys_update [simp]: "hm_wf m \<Longrightarrow> hm_wf (hm_insert k v m)"
  by (rule distinct_update)

lemma distinct_keys_delete [simp]: "hm_wf m \<Longrightarrow> hm_wf (hm_remove k m)"
  by (rule distinct_delete)

interpretation hm: keyed_map "[]" map_of AList.update AList.delete "map fst" "\<lambda>m. distinct (map fst m)"
  by unfold_locales
    (simp_all add: update_conv' delete_conv' dom_map_of_conv_image_fst)

lemmas hm_lookup [simp] = hm.get_ins hm.get_del

lemma hm_len_insert [mq_simps]:
  "hm_wf m \<Longrightarrow> length (hm_insert k v m) = (if hm_get m k = None then Suc (length m) else length m)"
  using hm.length_keys_ins [of m k v] by (simp only: length_map)

lemma hm_len_remove [mq_simps]:
  "hm_wf m \<Longrightarrow> length (hm_remove k m) = (if hm_get m k = None then length m else length m - 1)"
  using hm.length_keys_del [of m k] by (simp only: length_map)

lemma hm_get_modify [simp]: "hm_get (hm_modify k f m) = (hm_get m)(k := map_option f (hm_get m k))"
  by (auto simp: hm_modify_def fun_eq_iff split: option.split)

lemma hm_keys_update_Some: "hm_get m k = Some w \<Longrightarrow> hm_keys (hm_insert k v m) = hm_keys m"
  by (metis map_of_SomeD update_keys fst_conv image_eqI list.set_map)

lemma hm_keys_modify [simp]: "hm_keys (hm_modify k f m) = hm_keys m"
  by (simp add: hm_modify_def hm_keys_update_Some split: option.split)

lemma hm_get_map_values [simp]: "hm_get (hm_map_values f m) k = map_option (f k) (hm_get m k)"
  by (induction m) (auto simp: hm_map_values_def)

lemma hm_keys_map_values [simp]: "hm_keys (hm_map_values f m) = hm_keys m"
  by (induction m) (auto simp: hm_map_values_def)

lemma hm_in_set_iff: "hm_wf m \<Longrightarrow> (k, v) \<in> set m \<longleftrightarrow> hm_get m k = Some v"
  by (simp add: map_of_eq_Some_iff)

section \<open>Ordered maps\<close>

text \<open>A \<open>BTreeMap\<close> is the list of its entries in the order of the keys.\<close>

type_synonym ('k, 'v) btree_map = "('k \<times> 'v) list"

fun bt_insert :: "'k :: linorder \<Rightarrow> 'v \<Rightarrow> ('k, 'v) btree_map \<Rightarrow> ('k, 'v) btree_map" where
  "bt_insert k v [] = [(k, v)]"
| "bt_insert k v ((j, w) # r) =
    (if k < j then (k, v) # (j, w) # r
     else if k = j then (k, v) # r
     else (j, w) # bt_insert k v r)"

definition bt_remove :: "'k \<Rightarrow> ('k, 'v) btree_map \<Rightarrow> ('k, 'v) btree_map" where
  "bt_remove k m = filter (\<lambda>p. fst p \<noteq> k) m"

abbreviation bt_sorted :: "('k :: linorder, 'v) btree_map \<Rightarrow> bool" where
  "bt_sorted m \<equiv> sorted_wrt (\<lambda>a b. fst a < fst b) m"

lemma set_bt_insert: "fst ` set (bt_insert k v m) = insert k (fst ` set m)"
  by (induction k v m rule: bt_insert.induct) auto

lemma bt_sorted_insert: "bt_sorted m \<Longrightarrow> bt_sorted (bt_insert k v m)"
proof (induction k v m rule: bt_insert.induct)
  case (2 k v j w r)
  have "\<forall>p \<in> set (bt_insert k v r). fst p = k \<or> fst p \<in> fst ` set r"
    using set_bt_insert [of k v r] by blast
  with 2 show ?case by fastforce
qed simp

lemma map_of_bt_insert: "map_of (bt_insert k v m) = (map_of m)(k \<mapsto> v)"
  by (induction k v m rule: bt_insert.induct) auto

lemma bt_sorted_distinct: "bt_sorted m \<Longrightarrow> distinct (map fst m)"
  by (induction m) auto

lemma map_of_filter_keys: "map_of (filter (\<lambda>p. P (fst p)) m) k = (if P k then map_of m k else None)"
  by (induction m) auto

lemma fold_bt_remove: "fold bt_remove ks m = filter (\<lambda>p. fst p \<notin> set ks) m"
  by (induction ks arbitrary: m) (auto simp: bt_remove_def intro: filter_cong)

lemma map_of_bt_remove: "map_of (bt_remove k m) = (map_of m)(k := None)"
  by (rule ext) (simp add: bt_remove_def map_of_filter_keys [of "\<lambda>x. x \<noteq> k"])

interpretation bt: keyed_map "[] :: ('k :: linorder, 'v) btree_map" map_of bt_insert bt_remove "map fst" bt_sorted
  by unfold_locales
    (simp_all add: map_of_bt_insert map_of_bt_remove bt_sorted_insert bt_sorted_distinct dom_map_of_conv_image_fst,
     simp add: bt_remove_def sorted_wrt_filter)

section \<open>Pools of waiting requests\<close>

text \<open>
  Three components answer a request later: each keeps a map from an identifier to a one-shot
  sender, registers the sender when the request goes out and takes it out when the answer
  comes in.  The contract they share, and what it gives: an answer reaches the sender
  registered under its identifier, at most once, and disturbs no other request.
\<close>

locale wait_pool =
  fixes reg :: "'id \<Rightarrow> 'tx \<Rightarrow> 'p \<Rightarrow> 'p"
    and take_out :: "'id \<Rightarrow> 'p \<Rightarrow> 'tx option \<times> 'p"
    and waiting :: "'p \<Rightarrow> 'id \<Rightarrow> 'tx option"
  assumes waiting_reg: "waiting (reg i t p) = (waiting p)(i \<mapsto> t)"
    and fst_take_out: "fst (take_out i p) = waiting p i"
    and waiting_take_out: "waiting (snd (take_out i p)) = (waiting p)(i := None)"
begin

lemma answer_after_register: "fst (take_out i (reg i t p)) = Some t"
  by (simp add: fst_take_out waiting_reg)

lemma answered_at_most_once: "fst (take_out i (snd (take_out i p))) = None"
  by (simp add: fst_take_out waiting_take_out)

lemma answer_frame: "i \<noteq> j \<Longrightarrow> waiting (snd (take_out i p)) j = waiting p j"
  by (simp add: waiting_take_out)

lemma register_frame: "i \<noteq> j \<Longrightarrow> fst (take_out j (reg i t p)) = waiting p j"
  by (simp add: fst_take_out waiting_reg)

lemma answers_in_any_order:
  "i \<noteq> j \<Longrightarrow> fst (take_out i (snd (take_out j (reg j u (reg i t p))))) = Some t"
  by (simp add: fst_take_out waiting_take_out waiting_reg)

end

text \<open>The map of one-shot senders all three use.\<close>

definition pool_take :: "'id \<Rightarrow> ('id, 'tx) hash_map \<Rightarrow> 'tx option \<times> ('id, 'tx) hash_map" where
  "pool_take i p = (hm_get p i, hm_remove i p)"

interpretation pool: wait_pool AList.update pool_take map_of
  by unfold_locales (simp_all add: pool_take_def)

end
