(* ===== verification/MQ_Model.thy ===== *)
theory MQ_Model
  imports MQ_Prelude
begin

text \<open>
  The \<open>model\<close> crate: the data the cluster nodes, the edge nodes and the SDK exchange, in the
  order of \<open>src/model/src\<close> (\<open>message.rs\<close>, \<open>endpoint.rs\<close>, \<open>node.rs\<close>, \<open>topic.rs\<close>,
  \<open>durable.rs\<close>, \<open>proposal.rs\<close>, \<open>codec.rs\<close>, \<open>util.rs\<close>).  Message states and what an
  acknowledgement means, the 16-byte identifiers and their snowflake layouts, headers and
  their builder.  The base64 engine and the SHA-256 digest are crates of their own: they are
  arguments of the definitions that call them.
\<close>

section \<open>Message states (message.rs)\<close>

datatype message_status_kind =
  Sending | Unsent | Sent | Received | Processed | Failed | Unreachable

datatype message_ack_expect_kind = AckSent | AckReceived | AckProcessed

text \<open>The discriminants of the two \<open>repr(u8)\<close> enums.\<close>

fun status_to_u8 :: "message_status_kind \<Rightarrow> byte" where
  "status_to_u8 Sending = 0xfe"
| "status_to_u8 Unsent = 0xff"
| "status_to_u8 Sent = 0x00"
| "status_to_u8 Received = 0x01"
| "status_to_u8 Processed = 0x02"
| "status_to_u8 Failed = 0x80"
| "status_to_u8 Unreachable = 0x81"

definition status_try_from_u8 :: "byte \<Rightarrow> message_status_kind option" where
  "status_try_from_u8 v =
    (if v = 0xfe then Some Sending
     else if v = 0xff then Some Unsent
     else if v = 0x00 then Some Sent
     else if v = 0x01 then Some Received
     else if v = 0x02 then Some Processed
     else if v = 0x80 then Some Failed
     else if v = 0x81 then Some Unreachable
     else None)"

fun ack_to_u8 :: "message_ack_expect_kind \<Rightarrow> byte" where
  "ack_to_u8 AckSent = 0x00"
| "ack_to_u8 AckReceived = 0x01"
| "ack_to_u8 AckProcessed = 0x02"

definition ack_try_from_u8 :: "byte \<Rightarrow> message_ack_expect_kind option" where
  "ack_try_from_u8 v =
    (if v = 0x00 then Some AckSent
     else if v = 0x01 then Some AckReceived
     else if v = 0x02 then Some AckProcessed
     else None)"

fun status_from_ack :: "message_ack_expect_kind \<Rightarrow> message_status_kind" where
  "status_from_ack AckSent = Sent"
| "status_from_ack AckReceived = Received"
| "status_from_ack AckProcessed = Processed"

definition is_unsent :: "message_status_kind \<Rightarrow> bool" where
  "is_unsent s \<longleftrightarrow> s = Unsent"

fun is_reached :: "message_status_kind \<Rightarrow> message_ack_expect_kind \<Rightarrow> bool" where
  "is_reached s AckSent \<longleftrightarrow> s = Sent \<or> s = Received \<or> s = Processed"
| "is_reached s AckReceived \<longleftrightarrow> s = Received \<or> s = Processed"
| "is_reached s AckProcessed \<longleftrightarrow> s = Processed"

definition is_failed :: "message_status_kind \<Rightarrow> bool" where
  "is_failed s \<longleftrightarrow> s = Failed \<or> s = Unreachable"

definition status_is_resolved :: "message_status_kind \<Rightarrow> message_ack_expect_kind \<Rightarrow> bool" where
  "status_is_resolved s condition \<longleftrightarrow> is_failed s \<or> is_reached s condition"

datatype message_target_kind = Durable | Online | Available | Push

definition target_kind_from_u8 :: "byte \<Rightarrow> message_target_kind" where
  "target_kind_from_u8 kind =
    (if kind = 0 then Durable else if kind = 1 then Online
     else if kind = 2 then Available else Push)"

fun target_kind_to_u8 :: "message_target_kind \<Rightarrow> byte" where
  "target_kind_to_u8 Durable = 0"
| "target_kind_to_u8 Online = 1"
| "target_kind_to_u8 Available = 2"
| "target_kind_to_u8 Push = 3"

section \<open>Identifiers\<close>

datatype message_id = MessageId (message_id_bytes: bytes)
datatype endpoint_addr = EndpointAddr (endpoint_addr_bytes: bytes)
datatype node_id = NodeId (node_id_bytes: bytes)
datatype topic_code = TopicCode (topic_code_bytes: bytes)
datatype subject = Subject (subject_bytes: bytes)
datatype interest = Interest (interest_bytes: bytes)

text \<open>\<open>MessageId\<close> and \<open>NodeId\<close> derive \<open>Ord\<close>: lexicographic on the bytes.\<close>

instantiation node_id :: linorder
begin

definition less_eq_node_id :: "node_id \<Rightarrow> node_id \<Rightarrow> bool" where
  "less_eq_node_id a b \<longleftrightarrow> node_id_bytes a \<le> node_id_bytes b"

definition less_node_id :: "node_id \<Rightarrow> node_id \<Rightarrow> bool" where
  "less_node_id a b \<longleftrightarrow> node_id_bytes a < node_id_bytes b"

instance
  by standard (auto simp: less_eq_node_id_def less_node_id_def intro: node_id.expand)

end

instantiation message_id :: linorder
begin

definition less_eq_message_id :: "message_id \<Rightarrow> message_id \<Rightarrow> bool" where
  "less_eq_message_id a b \<longleftrightarrow> message_id_bytes a \<le> message_id_bytes b"

definition less_message_id :: "message_id \<Rightarrow> message_id \<Rightarrow> bool" where
  "less_message_id a b \<longleftrightarrow> message_id_bytes a < message_id_bytes b"

instance
  by standard (auto simp: less_eq_message_id_def less_message_id_def intro: message_id.expand)

end

instantiation endpoint_addr :: linorder
begin

definition less_eq_endpoint_addr :: "endpoint_addr \<Rightarrow> endpoint_addr \<Rightarrow> bool" where
  "less_eq_endpoint_addr a b \<longleftrightarrow> endpoint_addr_bytes a \<le> endpoint_addr_bytes b"

definition less_endpoint_addr :: "endpoint_addr \<Rightarrow> endpoint_addr \<Rightarrow> bool" where
  "less_endpoint_addr a b \<longleftrightarrow> endpoint_addr_bytes a < endpoint_addr_bytes b"

instance
  by standard (auto simp: less_eq_endpoint_addr_def less_endpoint_addr_def intro: endpoint_addr.expand)

end

text \<open>
  \<open>copy_from_slice\<close> into a field of an array: it panics unless the two slices have the same
  length.
\<close>

definition copy_from_slice :: "nat \<Rightarrow> nat \<Rightarrow> bytes \<Rightarrow> bytes \<Rightarrow> bytes outcome" where
  "copy_from_slice lo hi src dst =
    (if length src = hi - lo then Inr (take lo dst @ src @ drop hi dst) else Inl SliceLength)"

text \<open>
  Base64: the engine is a parameter (\<open>encode\<close>, and \<open>decode\<close> with \<open>None\<close> for a decoding
  error).  \<open>MessageId\<close> checks the length before it copies; \<open>NodeId\<close> copies at once.
\<close>

datatype base64_error = DecodeError | InvalidLength nat

definition message_id_to_base64 :: "(bytes \<Rightarrow> string) \<Rightarrow> message_id \<Rightarrow> string" where
  "message_id_to_base64 encode m = encode (message_id_bytes m)"

definition message_id_from_base64 ::
  "(string \<Rightarrow> bytes option) \<Rightarrow> string \<Rightarrow> (base64_error + message_id) outcome" where
  "message_id_from_base64 decode s =
    (case decode s of
       None \<Rightarrow> Inr (Inl DecodeError)
     | Some bs \<Rightarrow>
         if length bs \<noteq> 16 then Inr (Inl (InvalidLength (length bs)))
         else and_then (copy_from_slice 0 16 bs (replicate 16 0)) (\<lambda>addr. Inr (Inr (MessageId addr))))"

definition node_id_to_base64 :: "(bytes \<Rightarrow> string) \<Rightarrow> node_id \<Rightarrow> string" where
  "node_id_to_base64 encode n = encode (node_id_bytes n)"

definition node_id_from_base64 ::
  "(string \<Rightarrow> bytes option) \<Rightarrow> string \<Rightarrow> (base64_error + node_id) outcome" where
  "node_id_from_base64 decode s =
    (case decode s of
       None \<Rightarrow> Inr (Inl DecodeError)
     | Some bs \<Rightarrow> and_then (copy_from_slice 0 16 bs (replicate 16 0)) (\<lambda>b. Inr (Inr (NodeId b))))"

text \<open>The human-readable serialisation of an \<open>EndpointAddr\<close> (endpoint.rs).\<close>

definition endpoint_addr_serialize :: "(bytes \<Rightarrow> string) \<Rightarrow> endpoint_addr \<Rightarrow> string" where
  "endpoint_addr_serialize encode ep = encode (endpoint_addr_bytes ep)"

definition endpoint_addr_deserialize ::
  "(string \<Rightarrow> bytes option) \<Rightarrow> string \<Rightarrow> (base64_error + endpoint_addr) outcome" where
  "endpoint_addr_deserialize decode s =
    (case decode s of
       None \<Rightarrow> Inr (Inl DecodeError)
     | Some bs \<Rightarrow>
         if length bs \<noteq> 16 then Inr (Inl (InvalidLength (length bs)))
         else and_then (copy_from_slice 0 16 bs (replicate 16 0)) (\<lambda>addr. Inr (Inr (EndpointAddr addr))))"

section \<open>Snowflake identifiers\<close>

text \<open>
  \<open>new_snowflake\<close> reads the clock (\<open>timestamp_sec\<close>), a thread-local counter and the digest of
  thread and machine; it returns the identifier and leaves the counter advanced by a wrapping
  addition.
\<close>

definition message_id_new_snowflake :: "u64 \<Rightarrow> u64 \<Rightarrow> u32 \<Rightarrow> message_id outcome \<times> u32" where
  "message_id_new_snowflake timestamp digest counter =
    (let eid = (ucast digest :: u32) in
     (and_then (copy_from_slice 0 4 (u32_to_be_bytes eid) (replicate 16 0)) (\<lambda>b.
      and_then (copy_from_slice 4 12 (u64_to_be_bytes timestamp) b) (\<lambda>b.
      and_then (copy_from_slice 12 16 (u32_to_be_bytes counter) b) (\<lambda>b.
      Inr (MessageId b)))),
      counter + 1))"

definition endpoint_addr_new_snowflake :: "u64 \<Rightarrow> u64 \<Rightarrow> u32 \<Rightarrow> endpoint_addr outcome \<times> u32" where
  "endpoint_addr_new_snowflake timestamp digest counter =
    (let eid = (ucast digest :: u32) in
     (and_then (copy_from_slice 0 8 (u64_to_be_bytes timestamp) (replicate 16 0)) (\<lambda>b.
      and_then (copy_from_slice 8 12 (u32_to_be_bytes counter) b) (\<lambda>b.
      and_then (copy_from_slice 12 16 (u32_to_be_bytes eid) b) (\<lambda>b.
      Inr (EndpointAddr b)))),
      counter + 1))"

text \<open>One thread draws identifiers while the clock reads \<open>ts\<close>.\<close>

fun draw_ids ::
  "(u64 \<Rightarrow> u64 \<Rightarrow> u32 \<Rightarrow> 'id outcome \<times> u32) \<Rightarrow> u64 \<Rightarrow> u64 list \<Rightarrow> u32 \<Rightarrow> 'id outcome list" where
  "draw_ids mk digest [] counter = []"
| "draw_ids mk digest (t # ts) counter =
    (case mk t digest counter of (r, counter') \<Rightarrow> r # draw_ids mk digest ts counter')"

text \<open>Identifiers of a node: by index, by digest of a name, by snowflake.\<close>

definition node_id_new_indexed :: "u64 \<Rightarrow> node_id" where
  "node_id_new_indexed i = NodeId ([0x00] @ u64_to_be_bytes i @ replicate 7 0)"

definition node_id_sha256 :: "(bytes \<Rightarrow> bytes) \<Rightarrow> bytes \<Rightarrow> node_id outcome" where
  "node_id_sha256 sha256 name =
    and_then (copy_from_slice 1 16 (take 15 (sha256 name)) ((replicate 16 0)[0 := 0x01]))
      (\<lambda>b. Inr (NodeId b))"

definition node_id_snowflake :: "u64 \<Rightarrow> u64 \<Rightarrow> byte \<Rightarrow> node_id outcome \<times> byte" where
  "node_id_snowflake timestamp digest instance_id =
     (and_then (copy_from_slice 1 9 (u64_to_be_bytes digest) ((replicate 16 0)[0 := 0x02])) (\<lambda>b.
      and_then (copy_from_slice 9 10 [instance_id] b) (\<lambda>b.
      and_then (copy_from_slice 10 16 (drop 2 (u64_to_be_bytes timestamp)) b) (\<lambda>b.
      Inr (NodeId b)))),
      instance_id + 1)"

section \<open>Printing identifiers (util.rs)\<close>

definition hex_digit :: "nat \<Rightarrow> char" where
  "hex_digit n = (''0123456789abcdef'' ! n)"

definition hex :: "bytes \<Rightarrow> string" where
  "hex bs = concat (map (\<lambda>b. [hex_digit (unat b div 16), hex_digit (unat b mod 16)]) bs)"

fun dashed :: "string list \<Rightarrow> string" where
  "dashed [] = []"
| "dashed [x] = x"
| "dashed (x # y # xs) = x @ ''-'' @ dashed (y # xs)"

definition sub_slice :: "nat \<Rightarrow> nat \<Rightarrow> 'a list \<Rightarrow> 'a list" where
  "sub_slice lo hi xs = take (hi - lo) (drop lo xs)"

definition message_id_display :: "message_id \<Rightarrow> string" where
  "message_id_display m =
    (let b = message_id_bytes m in
     hex (sub_slice 0 4 b) @ ''-'' @ hex (sub_slice 4 12 b) @ ''-'' @ hex (sub_slice 12 16 b))"

definition message_id_debug :: "message_id \<Rightarrow> string" where
  "message_id_debug m =
    (let b = message_id_bytes m in
     ''MessageId('' @ dashed [hex (sub_slice 0 4 b), hex (sub_slice 4 12 b), hex (sub_slice 12 16 b)] @ '')'')"

definition node_id_display :: "node_id \<Rightarrow> string" where
  "node_id_display n =
    (let b = node_id_bytes n in
     hex (sub_slice 0 1 b) @ ''-'' @ hex (sub_slice 1 9 b) @ ''-'' @ hex (sub_slice 9 10 b) @ ''-''
       @ hex (sub_slice 10 16 b))"

definition endpoint_addr_debug :: "endpoint_addr \<Rightarrow> string" where
  "endpoint_addr_debug ep =
    (let b = endpoint_addr_bytes ep in
     ''EndpointAddr('' @ dashed [hex (sub_slice 0 8 b), hex (sub_slice 8 12 b), hex (sub_slice 12 16 b)] @ '')'')"

section \<open>Messages\<close>

type_synonym time = int \<comment> \<open>\<open>DateTime<Utc>\<close>\<close>

record message_durable_config =
  expire :: time
  max_receiver :: "u32 option"

record message_header =
  message_id :: message_id
  ack_kind :: message_ack_expect_kind
  target_kind :: message_target_kind
  durability :: "message_durable_config option"
  subjects :: "subject list"

record message =
  header :: message_header
  payload :: bytes

definition message_new :: "message_header \<Rightarrow> bytes \<Rightarrow> message" where
  "message_new h p = \<lparr>header = h, payload = p\<rparr>"

abbreviation msg_id :: "message \<Rightarrow> message_id" where
  "msg_id m \<equiv> message_id (header m)"

abbreviation msg_ack_kind :: "message \<Rightarrow> message_ack_expect_kind" where
  "msg_ack_kind m \<equiv> ack_kind (header m)"

record message_ack =
  ack_to :: message_id
  ack_topic_code :: topic_code
  ack_from :: endpoint_addr
  ack_status :: message_status_kind

definition header_ack :: "message_header \<Rightarrow> topic_code \<Rightarrow> endpoint_addr \<Rightarrow> message_status_kind \<Rightarrow> message_ack"
  where
  "header_ack h code from kind =
    \<lparr>ack_to = message_id h, ack_topic_code = code, ack_from = from, ack_status = kind\<rparr>"

definition ack_received :: "message_header \<Rightarrow> topic_code \<Rightarrow> endpoint_addr \<Rightarrow> message_ack" where
  "ack_received h code from = header_ack h code from Received"

definition ack_processed :: "message_header \<Rightarrow> topic_code \<Rightarrow> endpoint_addr \<Rightarrow> message_ack" where
  "ack_processed h code from = header_ack h code from Processed"

definition ack_failed :: "message_header \<Rightarrow> topic_code \<Rightarrow> endpoint_addr \<Rightarrow> message_ack" where
  "ack_failed h code from = header_ack h code from Failed"

text \<open>The header builder.\<close>

record message_header_builder =
  b_ack_kind :: message_ack_expect_kind
  b_target_kind :: message_target_kind
  b_durability :: "message_durable_config option"
  b_subjects :: "subject list"

definition header_builder_new :: "subject list \<Rightarrow> message_header_builder" where
  "header_builder_new subs =
    \<lparr>b_ack_kind = AckSent, b_target_kind = Push, b_durability = None, b_subjects = subs\<rparr>"

definition builder_ack_kind ::
  "message_ack_expect_kind \<Rightarrow> message_header_builder \<Rightarrow> message_header_builder" where
  "builder_ack_kind k b = b\<lparr>b_ack_kind := k\<rparr>"

definition builder_mode_online :: "message_header_builder \<Rightarrow> message_header_builder" where
  "builder_mode_online b = b\<lparr>b_target_kind := Online\<rparr>"

definition builder_mode_durable ::
  "message_durable_config \<Rightarrow> message_header_builder \<Rightarrow> message_header_builder" where
  "builder_mode_durable config b = b\<lparr>b_target_kind := Durable, b_durability := Some config\<rparr>"

definition builder_mode_push :: "message_header_builder \<Rightarrow> message_header_builder" where
  "builder_mode_push b = b\<lparr>b_target_kind := Push\<rparr>"

definition builder_build :: "message_id \<Rightarrow> message_header_builder \<Rightarrow> message_header" where
  "builder_build fresh b =
    \<lparr>message_id = fresh, ack_kind = b_ack_kind b, target_kind = b_target_kind b,
     durability = b_durability b, subjects = b_subjects b\<rparr>"

section \<open>Acknowledgement results and proposals of the model crate (topic.rs, proposal.rs)\<close>

type_synonym status_map = "(endpoint_addr, message_status_kind) hash_map"

datatype wait_ack_error_exception = MessageDropped | Overflow | NoAvailableTarget

record wait_ack_error =
  err_status :: status_map
  err_exception :: "wait_ack_error_exception option"

record wait_ack_success =
  ok_status :: status_map

type_synonym wait_ack_result = "wait_ack_error + wait_ack_success"

definition wait_ack_error_of :: "wait_ack_error_exception \<Rightarrow> wait_ack_error" where
  "wait_ack_error_of e = \<lparr>err_status = [], err_exception = Some e\<rparr>"

record message_state_update =
  upd_message_id :: message_id
  upd_status :: status_map

definition state_update_new :: "message_id \<Rightarrow> status_map \<Rightarrow> message_state_update" where
  "state_update_new i st = \<lparr>upd_message_id = i, upd_status = st\<rparr>"

definition state_update_new_empty :: "message_id \<Rightarrow> message_state_update" where
  "state_update_new_empty i = \<lparr>upd_message_id = i, upd_status = []\<rparr>"

record set_state =
  ss_topic :: topic_code
  ss_update :: message_state_update

record endpoint_interest =
  ei_topic_code :: topic_code
  ei_endpoint :: endpoint_addr
  ei_interests :: "interest list"

section \<open>Properties\<close>

subsection \<open>States and their discriminants\<close>

text \<open>
  The status byte of the wire format: \<open>try_from_u8\<close> accepts exactly the seven
  discriminants of \<open>MessageStatusKind\<close> and inverts them.
\<close>

theorem status_u8_roundtrip: "status_try_from_u8 v = Some s \<longleftrightarrow> v = status_to_u8 s"
  by (cases s) (auto simp: status_try_from_u8_def split: if_splits)

lemma ack_u8_roundtrip: "ack_try_from_u8 v = Some k \<longleftrightarrow> v = ack_to_u8 k"
  by (cases k) (auto simp: ack_try_from_u8_def split: if_splits)

lemma ack_u8_is_status_u8: "status_try_from_u8 (ack_to_u8 k) = Some (status_from_ack k)"
  by (cases k) (simp_all add: status_try_from_u8_def)

lemma target_kind_u8_roundtrip: "target_kind_from_u8 (target_kind_to_u8 k) = k"
  by (cases k) (simp_all add: target_kind_from_u8_def)

text \<open>
  What an acknowledgement level asks for: a status that reaches a level reaches every lower
  one, the level itself is reached by the status of its name, and a status that is still on
  its way (\<open>Unsent\<close>, \<open>Sending\<close>) resolves nothing.
\<close>

lemma is_reached_processed: "is_reached s AckProcessed \<Longrightarrow> is_reached s k"
  by (cases k) auto

lemma is_reached_received: "is_reached s AckReceived \<Longrightarrow> is_reached s AckSent"
  by auto

lemma is_reached_own_level [simp]: "is_reached (status_from_ack k) k"
  by (cases k) auto

lemma is_reached_not_failed: "is_reached s k \<Longrightarrow> \<not> is_failed s"
  by (cases k) (auto simp: is_failed_def)

lemma unsent_not_resolved [simp]:
  "\<not> status_is_resolved Unsent k" "\<not> status_is_resolved Sending k"
  by (cases k; simp add: status_is_resolved_def is_failed_def)+

lemma failed_is_resolved [simp]: "is_failed s \<Longrightarrow> status_is_resolved s k"
  by (simp add: status_is_resolved_def)

lemma processed_is_resolved [simp]: "status_is_resolved Processed k"
  by (cases k) (simp_all add: status_is_resolved_def)

subsection \<open>Slices\<close>

lemma copy_from_slice_ok [simp]:
  "length src = hi - lo \<Longrightarrow> copy_from_slice lo hi src dst = Inr (take lo dst @ src @ drop hi dst)"
  by (simp add: copy_from_slice_def)

lemma copy_from_slice_whole: "length src = n \<Longrightarrow> length dst = n \<Longrightarrow> copy_from_slice 0 n src dst = Inr src"
  by simp

subsection \<open>Snowflakes\<close>

text \<open>
  The contract of a snowflake generator: it never panics, advances its counter by one and
  lays time stamp, digest and counter out without loss.
\<close>

locale snowflake =
  fixes mk :: "u64 \<Rightarrow> u64 \<Rightarrow> u32 \<Rightarrow> 'id outcome \<times> u32"
    and lay :: "u64 \<Rightarrow> u32 \<Rightarrow> u32 \<Rightarrow> 'id"
  assumes mk_eq: "mk t d c = (Inr (lay t (ucast d) c), c + 1)"
    and lay_inj: "lay t e c = lay t' e' c' \<Longrightarrow> t = t' \<and> e = e' \<and> c = c'"
begin

lemma draw_ids_nth:
  "i < length ts \<Longrightarrow> draw_ids mk d ts c ! i = Inr (lay (ts ! i) (ucast d) (c + of_nat i))"
proof (induction ts arbitrary: c i)
  case (Cons t ts)
  show ?case
  proof (cases i)
    case (Suc j)
    with Cons show ?thesis by (simp add: mk_eq algebra_simps)
  qed (simp add: mk_eq)
qed simp

lemma length_draw_ids: "length (draw_ids mk d ts c) = length ts"
  by (induction ts arbitrary: c) (simp_all add: mk_eq)

text \<open>Two draws agree exactly when the clock reads the same and the counter has gone round in between.\<close>

lemma draw_ids_eq_iff:
  assumes "i < length ts" "j < length ts"
  shows "draw_ids mk d ts c ! i = draw_ids mk d ts c ! j \<longleftrightarrow> ts ! i = ts ! j \<and> i mod 2 ^ 32 = j mod 2 ^ 32"
proof -
  have "(of_nat i :: u32) = of_nat j \<longleftrightarrow> i mod 2 ^ 32 = j mod 2 ^ 32"
    by (simp add: word_unat_eq_iff unat_of_nat)
  then show ?thesis using assms by (auto simp: draw_ids_nth dest: lay_inj)
qed

lemma draw_ids_distinct:
  assumes "length ts \<le> 2 ^ 32"
  shows "distinct (draw_ids mk d ts c)"
  using assms by (auto simp: distinct_conv_nth length_draw_ids draw_ids_eq_iff)

lemma draw_ids_other_thread:
  assumes "(ucast d :: u32) \<noteq> ucast d'"
  shows "set (draw_ids mk d ts c) \<inter> set (draw_ids mk d' ts' c') = {}"
  using assms by (force simp: in_set_conv_nth length_draw_ids draw_ids_nth dest: lay_inj)

end

definition message_id_layout :: "u64 \<Rightarrow> u32 \<Rightarrow> u32 \<Rightarrow> message_id" where
  "message_id_layout t e c = MessageId (u32_to_be_bytes e @ u64_to_be_bytes t @ u32_to_be_bytes c)"

definition endpoint_addr_layout :: "u64 \<Rightarrow> u32 \<Rightarrow> u32 \<Rightarrow> endpoint_addr" where
  "endpoint_addr_layout t e c =
    EndpointAddr (u64_to_be_bytes t @ u32_to_be_bytes c @ u32_to_be_bytes e)"

interpretation mid: snowflake message_id_new_snowflake message_id_layout
  by unfold_locales
    (simp_all add: message_id_new_snowflake_def message_id_layout_def
      u32_to_be_bytes_inject u64_to_be_bytes_inject)

interpretation epa: snowflake endpoint_addr_new_snowflake endpoint_addr_layout
  by unfold_locales
    (simp_all add: endpoint_addr_new_snowflake_def endpoint_addr_layout_def
      u32_to_be_bytes_inject u64_to_be_bytes_inject)

text \<open>
  (C39) Message identifiers: two identifiers a thread draws are the same exactly when the clock reads
  the same and a multiple of $2^{32}$ draws lies between them, so the counter has wrapped around.
  In particular any $2^{32}$ in a row are pairwise distinct, even while the clock stands still or
  goes back.  No draw panics, and each identifier has its sixteen bytes.
\<close>

theorem message_ids_unique:
  assumes "i < length ts" "j < length ts"
  shows "(draw_ids message_id_new_snowflake digest ts counter ! i = draw_ids message_id_new_snowflake digest ts counter ! j
      \<longleftrightarrow> ts ! i = ts ! j \<and> i mod 2 ^ 32 = j mod 2 ^ 32) \<and>
    (\<exists>b. draw_ids message_id_new_snowflake digest ts counter ! i = Inr (MessageId b) \<and> length b = 16)"
proof
  show "\<exists>b. draw_ids message_id_new_snowflake digest ts counter ! i = Inr (MessageId b) \<and> length b = 16"
    using assms(1) by (simp add: mid.draw_ids_nth message_id_layout_def)
qed (rule mid.draw_ids_eq_iff [OF assms])

theorem message_ids_unique_witness:
  "draw_ids message_id_new_snowflake 1 [7, 7, 5] 0xffffffff ! 0 \<noteq> draw_ids message_id_new_snowflake 1 [7, 7, 5] 0xffffffff ! 1"
  using message_ids_unique [of 0 "[7, 7, 5]" 1 1 "0xffffffff"] by simp

lemma endpoint_addrs_unique:
  "length ts \<le> 2 ^ 32 \<Longrightarrow> distinct (draw_ids endpoint_addr_new_snowflake digest ts counter)"
  by (rule epa.draw_ids_distinct)

subsection \<open>Node identifiers\<close>

lemma replicate_16_set_first: "(replicate 16 (0::byte))[0 := k] = k # replicate 15 0"
  by (simp add: eval_nat_numeral)

lemma node_id_new_indexed_inject: "node_id_new_indexed i = node_id_new_indexed j \<longleftrightarrow> i = j"
  by (simp add: node_id_new_indexed_def u64_to_be_bytes_inject)

text \<open>
  The first byte of a node identifier tells how it was made: an indexed identifier is
  never that of a digest or of a snowflake, and a digest never that of a snowflake (given a
  digest of at least 15 bytes; SHA-256 has 32).
\<close>

theorem node_id_kinds_disjoint:
  assumes "\<And>name. length (sha256 name) = 32"
  shows "Inr (node_id_new_indexed i) \<noteq> node_id_sha256 sha256 name
    \<and> Inr (node_id_new_indexed i) \<noteq> fst (node_id_snowflake t d k)
    \<and> node_id_sha256 sha256 name \<noteq> fst (node_id_snowflake t d k)"
  by (simp add: node_id_new_indexed_def node_id_sha256_def node_id_snowflake_def assms replicate_16_set_first)

theorem node_id_kinds_disjoint_witness:
  "(\<forall>name. length ((\<lambda>_. replicate 32 0) name :: bytes) = 32)
    \<and> node_id_sha256 (\<lambda>_. replicate 32 0) [1] \<noteq> fst (node_id_snowflake 5 6 7)"
  using node_id_kinds_disjoint [of "\<lambda>_. replicate 32 0"] by simp

subsection \<open>Printing\<close>

lemma hex_digit_inject: "n < 16 \<Longrightarrow> m < 16 \<Longrightarrow> hex_digit n = hex_digit m \<longleftrightarrow> n = m"
  unfolding hex_digit_def by (rule nth_eq_iff_index_eq) simp_all

lemma byte_from_nibbles:
  assumes "unat (a :: byte) div 16 = unat b div 16" "unat a mod 16 = unat b mod 16"
  shows "a = b"
proof -
  have "unat a = unat b" using assms by (metis div_mult_mod_eq)
  then show ?thesis by (rule unsigned_word_eqI)
qed

lemma length_hex [simp]: "length (hex bs) = 2 * length bs"
  by (induction bs) (simp_all add: hex_def)

lemma hex_inject: "length a = length b \<Longrightarrow> hex a = hex b \<longleftrightarrow> a = b"
proof (induction a b rule: list_induct2)
  case (Cons x xs y ys)
  have bound: "unat x < 256" "unat y < 256"
    using unsigned_less [of x] unsigned_less [of y] by simp_all
  have "hex_digit (unat x div 16) = hex_digit (unat y div 16) \<longleftrightarrow> unat x div 16 = unat y div 16"
    "hex_digit (unat x mod 16) = hex_digit (unat y mod 16) \<longleftrightarrow> unat x mod 16 = unat y mod 16"
    using bound by (auto simp: hex_digit_inject)
  with Cons.IH show ?case
    by (auto simp: hex_def dest: byte_from_nibbles)
qed simp

lemma length_sub_slice [simp]: "length (sub_slice lo hi xs) = min (hi - lo) (length xs - lo)"
  by (simp add: sub_slice_def)

lemma slices_4_12_16:
  assumes "length b = 16"
  shows "b = sub_slice 0 4 b @ sub_slice 4 12 b @ sub_slice 12 16 b"
proof -
  have "sub_slice 4 12 b @ sub_slice 12 16 b = take 8 (drop 4 b) @ drop 8 (drop 4 b)"
    using assms by (simp add: sub_slice_def)
  also have "\<dots> = drop 4 b" by (rule append_take_drop_id)
  finally show ?thesis by (simp add: sub_slice_def)
qed

text \<open>
  The printed form of a message identifier (\<open>Display\<close>) determines it: two identifiers of
  16 bytes that print the same are the same.
\<close>

theorem message_id_display_injective:
  assumes "length (message_id_bytes m) = 16" "length (message_id_bytes n) = 16"
    and "message_id_display m = message_id_display n"
  shows "m = n"
proof -
  let ?a = "message_id_bytes m" and ?b = "message_id_bytes n"
  have "sub_slice 0 4 ?a = sub_slice 0 4 ?b" "sub_slice 4 12 ?a = sub_slice 4 12 ?b" "sub_slice 12 16 ?a = sub_slice 12 16 ?b"
    using assms by (auto simp: message_id_display_def Let_def hex_inject)
  then have "?a = ?b"
    using slices_4_12_16 assms(1,2) by metis
  then show ?thesis by (rule message_id.expand)
qed

theorem message_id_display_injective_witness:
  "length (message_id_bytes (MessageId (replicate 16 7))) = 16
    \<and> message_id_display (MessageId (replicate 16 7)) = message_id_display (MessageId (replicate 16 7))
    \<and> MessageId (replicate 16 (7::byte)) = MessageId (replicate 16 7)"
proof -
  have h: "length (message_id_bytes (MessageId (replicate 16 7))) = 16" by simp
  show ?thesis using h message_id_display_injective [OF h h refl] by blast
qed

subsection \<open>Base64\<close>

text \<open>
  Message identifiers survive the human-readable form: decoding what \<open>to_base64\<close> wrote
  gives the identifier back, for every base64 engine that decodes what it encodes; and a
  string that decodes to the wrong length is refused with \<open>InvalidLength\<close>, never a panic.
\<close>

theorem message_id_base64_roundtrip:
  assumes "\<And>b. decode (encode b) = Some b"
    and "length (message_id_bytes m) = 16"
  shows "message_id_from_base64 decode (message_id_to_base64 encode m) = Inr (Inr m)
    \<and> (\<forall>s bs. decode s = Some bs \<longrightarrow> length bs \<noteq> 16
          \<longrightarrow> message_id_from_base64 decode s = Inr (Inl (InvalidLength (length bs))))"
  using assms by (simp add: message_id_from_base64_def message_id_to_base64_def)

definition char_codec_encode :: "bytes \<Rightarrow> string" where
  "char_codec_encode bs = map (\<lambda>b. char_of (unat b)) bs"

definition char_codec_decode :: "string \<Rightarrow> bytes option" where
  "char_codec_decode s = Some (map (\<lambda>c. of_char c) s)"

lemma char_codec_inverse: "char_codec_decode (char_codec_encode b) = Some b"
proof -
  have "of_char (char_of (unat x) :: char) = x" for x :: byte
  proof -
    have "unat x < 256" using unsigned_less [of x] by simp
    then have "(of_nat (of_char (char_of (unat x) :: char)) :: byte) = x" by simp
    then show ?thesis by (simp only: of_nat_of_char)
  qed
  then show ?thesis
    by (simp add: char_codec_decode_def char_codec_encode_def comp_def)
qed

theorem message_id_base64_roundtrip_witness:
  "(\<forall>b. char_codec_decode (char_codec_encode b) = Some b)
    \<and> message_id_from_base64 char_codec_decode
        (message_id_to_base64 char_codec_encode (MessageId (replicate 16 3)))
      = Inr (Inr (MessageId (replicate 16 3)))"
  using message_id_base64_roundtrip [of char_codec_decode char_codec_encode "MessageId (replicate 16 3)"]
  by (simp add: char_codec_inverse)

text \<open>
  \<open>NodeId::from_base64\<close> has no such check: on every string that decodes to a length other
  than 16 it panics in \<open>copy_from_slice\<close> instead of returning an error.
\<close>

theorem node_id_from_base64_panics:
  assumes "decode s = Some bs"
  shows "node_id_from_base64 decode s = Inl SliceLength \<longleftrightarrow> length bs \<noteq> 16"
  using assms by (simp add: node_id_from_base64_def copy_from_slice_def)

theorem node_id_from_base64_panics_witness:
  "char_codec_decode ''AB'' = Some [65, 66]
    \<and> node_id_from_base64 char_codec_decode ''AB'' = Inl SliceLength"
proof -
  have h: "char_codec_decode ''AB'' = Some [65, 66]"
    by (simp add: char_codec_decode_def of_char_def)
  show ?thesis using h node_id_from_base64_panics [of char_codec_decode "''AB''" "[65, 66]"] by simp
qed

end
