(* ===== verification/MQ_Interest.thy ===== *)
theory MQ_Interest
  imports MQ_Model
begin

text \<open>
  Subjects, interests and the routing index between them: \<open>src/model/src/interest.rs\<close> (how a
  subject and an interest are cut into segments) and \<open>src/server/src/protocol/interest.rs\<close>
  (the radix tree \<open>InterestRadixTreeNode\<close> and the map \<open>InterestMap\<close> around it).  The tree is
  shown to implement a plain relation: after any sequence of insertions and deletions, a
  lookup returns exactly the values one of whose interests matches the subject, where
  matching is a function on segment lists.
\<close>

section \<open>Cutting subjects and interests into segments\<close>

abbreviation slash :: byte where
  "slash \<equiv> 0x2f"

text \<open>The two scanning loops of \<open>SubjectSegments::next\<close>.\<close>

fun index_of_slash :: "bytes \<Rightarrow> nat option" where
  "index_of_slash [] = None"
| "index_of_slash (b # bs) = (if b = slash then Some 0 else map_option Suc (index_of_slash bs))"

fun index_of_non_slash :: "bytes \<Rightarrow> nat option" where
  "index_of_non_slash [] = None"
| "index_of_non_slash (b # bs) = (if b \<noteq> slash then Some 0 else map_option Suc (index_of_non_slash bs))"

definition segments_next :: "bytes \<Rightarrow> (bytes \<times> bytes) option" where
  "segments_next inner =
    (if inner = [] then None
     else case index_of_slash inner of
            Some slash_index \<Rightarrow>
              (let next_seg = take slash_index inner in
               case index_of_non_slash (drop slash_index inner) of
                 Some bias \<Rightarrow> Some (next_seg, drop (slash_index + bias) inner)
               | None \<Rightarrow> Some (next_seg, []))
          | None \<Rightarrow> Some (inner, []))"

lemma index_of_slash_Some:
  "index_of_slash bs = Some i \<Longrightarrow> i < length bs \<and> bs ! i = slash \<and> slash \<notin> set (take i bs)"
proof (induction bs arbitrary: i)
  case (Cons b bs)
  then show ?case by (cases i) (auto split: if_splits)
qed simp

lemma index_of_non_slash_Some:
  "index_of_non_slash bs = Some i \<Longrightarrow> i < length bs \<and> bs ! i \<noteq> slash"
proof (induction bs arbitrary: i)
  case (Cons b bs)
  then show ?case by (cases i) (auto split: if_splits)
qed simp

lemma segments_next_shrinks:
  assumes "segments_next inner = Some (seg, rest)"
  shows "length rest < length inner"
proof -
  have ne: "inner \<noteq> []" using assms by (auto simp: segments_next_def)
  show ?thesis
  proof (cases "index_of_slash inner")
    case (Some i)
    then have i: "i < length inner" "inner ! i = slash"
      by (auto dest: index_of_slash_Some)
    show ?thesis
    proof (cases "index_of_non_slash (drop i inner)")
      case (Some b)
      then have "0 < b"
        using i by (cases b) (auto dest: index_of_non_slash_Some)
      then show ?thesis
        using assms i ne Some \<open>index_of_slash inner = Some i\<close>
        by (auto simp: segments_next_def Let_def)
    qed (use assms ne \<open>index_of_slash inner = Some i\<close> in \<open>auto simp: segments_next_def Let_def\<close>)
  qed (use assms ne in \<open>auto simp: segments_next_def\<close>)
qed

text \<open>\<open>Subject::segments\<close>, run to its end.\<close>

function subject_segments_from :: "bytes \<Rightarrow> bytes list" where
  "subject_segments_from inner =
    (case segments_next inner of
       None \<Rightarrow> []
     | Some (seg, rest) \<Rightarrow> seg # subject_segments_from rest)"
  by pat_completeness auto
termination
  by (relation "measure length") (auto dest: segments_next_shrinks)

declare subject_segments_from.simps [simp del]

definition subject_segments :: "subject \<Rightarrow> bytes list" where
  "subject_segments s = subject_segments_from (subject_bytes s)"

text \<open>\<open>slice::split\<close> on the slash, and \<open>trim_ascii\<close>.\<close>

fun split_slash :: "bytes \<Rightarrow> bytes list" where
  "split_slash [] = [[]]"
| "split_slash (b # bs) =
    (if b = slash then [] # split_slash bs
     else case split_slash bs of [] \<Rightarrow> [[b]] | s # ss \<Rightarrow> (b # s) # ss)"

definition is_ascii_whitespace :: "byte \<Rightarrow> bool" where
  "is_ascii_whitespace b \<longleftrightarrow> b \<in> {0x20, 0x09, 0x0a, 0x0c, 0x0d}"

definition trim_ascii :: "bytes \<Rightarrow> bytes" where
  "trim_ascii bs =
    rev (dropWhile is_ascii_whitespace (rev (dropWhile is_ascii_whitespace bs)))"

datatype interest_segment = Specific bytes | Any | RecursiveAny

definition interest_segment_of :: "bytes \<Rightarrow> interest_segment" where
  "interest_segment_of seg =
    (let t = trim_ascii seg in
     if t = [0x2a] then Any else if t = [0x2a, 0x2a] then RecursiveAny else Specific t)"

definition as_segments :: "interest \<Rightarrow> interest_segment list" where
  "as_segments i =
    List.map_filter (\<lambda>seg. if seg = [] then None else Some (interest_segment_of seg))
      (split_slash (interest_bytes i))"

section \<open>The radix tree\<close>

datatype 'a radix_node = RadixNode
  (node_value: "'a set")
  (node_children: "(bytes, 'a radix_node) hash_map")
  (any_child: "'a radix_node option")
  (recursive_any_child: "'a radix_node option")

definition radix_default :: "'a radix_node" where
  "radix_default = RadixNode {} [] None None"

fun insert_recursive :: "interest_segment list \<Rightarrow> 'a \<Rightarrow> 'a radix_node \<Rightarrow> 'a radix_node" where
  "insert_recursive (Specific seg # path) v (RadixNode val ch ac rac) =
    (case hm_get ch seg of
       Some child \<Rightarrow> RadixNode val (hm_insert seg (insert_recursive path v child) ch) ac rac
     | None \<Rightarrow> RadixNode val (hm_insert seg (insert_recursive path v radix_default) ch) ac rac)"
| "insert_recursive (Any # path) v (RadixNode val ch ac rac) =
    RadixNode val ch
      (Some (insert_recursive path v (case ac of None \<Rightarrow> radix_default | Some child \<Rightarrow> child))) rac"
| "insert_recursive (RecursiveAny # path) v (RadixNode val ch ac rac) =
    RadixNode val ch ac
      (Some (insert_recursive path v (case rac of None \<Rightarrow> radix_default | Some child \<Rightarrow> child)))"
| "insert_recursive [] v (RadixNode val ch ac rac) = RadixNode (insert v val) ch ac rac"

fun delete_recursive :: "interest_segment list \<Rightarrow> 'a \<Rightarrow> 'a radix_node \<Rightarrow> 'a radix_node" where
  "delete_recursive (Specific seg # path) v (RadixNode val ch ac rac) =
    (case hm_get ch seg of
       Some child \<Rightarrow> RadixNode val (hm_insert seg (delete_recursive path v child) ch) ac rac
     | None \<Rightarrow> RadixNode val ch ac rac)"
| "delete_recursive (Any # path) v (RadixNode val ch ac rac) =
    RadixNode val ch (case ac of None \<Rightarrow> None | Some child \<Rightarrow> Some (delete_recursive path v child)) rac"
| "delete_recursive (RecursiveAny # path) v (RadixNode val ch ac rac) =
    RadixNode val ch ac (case rac of None \<Rightarrow> None | Some child \<Rightarrow> Some (delete_recursive path v child))"
| "delete_recursive [] v (RadixNode val ch ac rac) = RadixNode (val - {v}) ch ac rac"

text \<open>
  The lookup with its collector.  \<open>find_rest\<close> is the \<open>while let\<close> loop over the remaining path
  below a \<open>**\<close> node.
\<close>

fun find_all_recursive :: "'a radix_node \<Rightarrow> bytes list \<Rightarrow> 'a set \<Rightarrow> 'a set"
  and find_rest :: "'a radix_node \<Rightarrow> bytes list \<Rightarrow> 'a set \<Rightarrow> 'a set" where
  "find_all_recursive n (seg # path) collector =
    (let c1 = (case recursive_any_child n of
                 Some rac \<Rightarrow> find_rest rac path (collector \<union> node_value rac)
               | None \<Rightarrow> collector);
         c2 = (case any_child n of Some ac \<Rightarrow> find_all_recursive ac path c1 | None \<Rightarrow> c1)
     in case hm_get (node_children n) seg of
          Some child \<Rightarrow> find_all_recursive child path c2
        | None \<Rightarrow> c2)"
| "find_all_recursive n [] collector = collector \<union> node_value n"
| "find_rest rac (recursive_seg # rest_path) collector =
    find_rest rac rest_path
      (case hm_get (node_children rac) recursive_seg of
         Some matched \<Rightarrow> find_all_recursive matched rest_path collector
       | None \<Rightarrow> collector)"
| "find_rest rac [] collector = collector"

section \<open>The interest map\<close>

record 'a interest_map =
  root :: "'a radix_node"
  raw :: "('a, interest list) hash_map"

definition interest_map_new :: "'a interest_map" where
  "interest_map_new = \<lparr>root = radix_default, raw = []\<rparr>"

definition interest_map_insert :: "interest \<Rightarrow> 'a \<Rightarrow> 'a interest_map \<Rightarrow> 'a interest_map" where
  "interest_map_insert i v m =
    \<lparr>root = insert_recursive (as_segments i) v (root m),
     raw = hm_insert v (List.insert i (case hm_get (raw m) v of None \<Rightarrow> [] | Some is \<Rightarrow> is)) (raw m)\<rparr>"

definition interest_map_find :: "'a interest_map \<Rightarrow> subject \<Rightarrow> 'a set" where
  "interest_map_find m s = find_all_recursive (root m) (subject_segments s) {}"

definition interest_map_delete :: "'a \<Rightarrow> 'a interest_map \<Rightarrow> 'a interest_map" where
  "interest_map_delete v m =
    (case hm_get (raw m) v of
       Some interests \<Rightarrow>
         \<lparr>root = fold (\<lambda>i. delete_recursive (as_segments i) v) interests (root m),
          raw = hm_remove v (raw m)\<rparr>
     | None \<Rightarrow> m)"

definition interest_of :: "'a interest_map \<Rightarrow> 'a \<Rightarrow> interest list option" where
  "interest_of m v = hm_get (raw m) v"

fun from_raw_entry :: "'a \<times> interest list \<Rightarrow> 'a interest_map \<Rightarrow> 'a interest_map" where
  "from_raw_entry (v, interests) m =
    \<lparr>root = fold (\<lambda>i. insert_recursive (as_segments i) v) interests (root m),
     raw = hm_insert v interests (raw m)\<rparr>"

definition interest_map_from_raw :: "('a, interest list) hash_map \<Rightarrow> 'a interest_map" where
  "interest_map_from_raw rw = fold from_raw_entry rw interest_map_new"

text \<open>\<open>Serialize\<close> writes the raw map only, \<open>Deserialize\<close> rebuilds the tree from it.\<close>

definition interest_map_serialize :: "'a interest_map \<Rightarrow> ('a, interest list) hash_map" where
  "interest_map_serialize m = raw m"

definition interest_map_deserialize :: "('a, interest list) hash_map \<Rightarrow> 'a interest_map" where
  "interest_map_deserialize rw = interest_map_from_raw rw"

section \<open>What matching means\<close>

text \<open>
  A specification over segment lists, with no tree.  \<open>*\<close> stands for one segment.  \<open>**\<close> takes
  at least one segment; it ends the interest, or the next segment of the interest is a
  specific one that occurs somewhere behind.
\<close>

fun seg_matches :: "interest_segment list \<Rightarrow> bytes list \<Rightarrow> bool"
  and seg_matches_behind :: "interest_segment list \<Rightarrow> bytes list \<Rightarrow> bool" where
  "seg_matches [] ss \<longleftrightarrow> ss = []"
| "seg_matches (p # ps) [] \<longleftrightarrow> False"
| "seg_matches (Specific x # ps) (s # ss) \<longleftrightarrow> x = s \<and> seg_matches ps ss"
| "seg_matches (Any # ps) (s # ss) \<longleftrightarrow> seg_matches ps ss"
| "seg_matches (RecursiveAny # ps) (s # ss) \<longleftrightarrow> ps = [] \<or> seg_matches_behind ps ss"
| "seg_matches_behind (Specific x # ps) (s # ss) \<longleftrightarrow>
     x = s \<and> seg_matches ps ss \<or> seg_matches_behind (Specific x # ps) ss"
| "seg_matches_behind ps ss \<longleftrightarrow> False"

definition interest_matches :: "interest \<Rightarrow> subject \<Rightarrow> bool" where
  "interest_matches i s \<longleftrightarrow> seg_matches (as_segments i) (subject_segments s)"

text \<open>The values stored at one path of the tree: the abstraction function.\<close>

fun stored_at :: "'a radix_node \<Rightarrow> interest_segment list \<Rightarrow> 'a set" where
  "stored_at n [] = node_value n"
| "stored_at n (Specific x # p) =
    (case hm_get (node_children n) x of None \<Rightarrow> {} | Some child \<Rightarrow> stored_at child p)"
| "stored_at n (Any # p) = (case any_child n of None \<Rightarrow> {} | Some child \<Rightarrow> stored_at child p)"
| "stored_at n (RecursiveAny # p) =
    (case recursive_any_child n of None \<Rightarrow> {} | Some child \<Rightarrow> stored_at child p)"

lemma seg_matches_behind_iff:
  "seg_matches_behind (Specific x # ps) ss \<longleftrightarrow> (\<exists>pre post. ss = pre @ x # post \<and> seg_matches ps post)"
proof (induction ss)
  case (Cons s ss)
  show ?case
  proof
    assume "seg_matches_behind (Specific x # ps) (s # ss)"
    then consider "x = s" "seg_matches ps ss" | "seg_matches_behind (Specific x # ps) ss" by auto
    then show "\<exists>pre post. s # ss = pre @ x # post \<and> seg_matches ps post"
      by cases (metis append_Nil, metis Cons.IH append_Cons)
  next
    assume "\<exists>pre post. s # ss = pre @ x # post \<and> seg_matches ps post"
    then obtain pre post where eq: "s # ss = pre @ x # post" and "seg_matches ps post" by blast
    then show "seg_matches_behind (Specific x # ps) (s # ss)"
      using Cons.IH by (cases pre) auto
  qed
qed simp

lemma seg_path_cases [case_names Nil Specific Any RecursiveAny]:
  obtains "p = []" | x q where "p = Specific x # q" | q where "p = Any # q"
  | q where "p = RecursiveAny # q"
  by (metis interest_segment.exhaust list.exhaust)

lemma stored_at_default [simp]: "stored_at radix_default p = {}"
  by (cases p rule: seg_path_cases) (auto simp: radix_default_def)

lemma stored_at_insert:
  "stored_at (insert_recursive p v n) q = (if q = p then insert v (stored_at n q) else stored_at n q)"
proof (induction p v n arbitrary: q rule: insert_recursive.induct)
  case (1 seg path v val ch ac rac)
  then show ?case
    by (cases q rule: seg_path_cases) (auto split: option.split)
next
  case (2 path v val ch ac rac)
  then show ?case
    by (cases q rule: seg_path_cases) (auto split: option.split)
next
  case (3 path v val ch ac rac)
  then show ?case
    by (cases q rule: seg_path_cases) (auto split: option.split)
next
  case (4 v val ch ac rac)
  then show ?case
    by (cases q rule: seg_path_cases) auto
qed

lemma stored_at_delete:
  "stored_at (delete_recursive p v n) q = (if q = p then stored_at n q - {v} else stored_at n q)"
proof (induction p v n arbitrary: q rule: delete_recursive.induct)
  case (1 seg path v val ch ac rac)
  then show ?case
    by (cases q rule: seg_path_cases) (auto split: option.split)
next
  case (2 path v val ch ac rac)
  then show ?case
    by (cases q rule: seg_path_cases) (auto split: option.split)
next
  case (3 path v val ch ac rac)
  then show ?case
    by (cases q rule: seg_path_cases) (auto split: option.split)
next
  case (4 v val ch ac rac)
  then show ?case
    by (cases q rule: seg_path_cases) auto
qed

definition found :: "'a radix_node \<Rightarrow> bytes list \<Rightarrow> 'a set" where
  "found n ss = {v. \<exists>p. v \<in> stored_at n p \<and> seg_matches p ss}"

definition found_behind :: "'a radix_node \<Rightarrow> bytes list \<Rightarrow> 'a set" where
  "found_behind n ss = {v. \<exists>p. v \<in> stored_at n p \<and> seg_matches_behind p ss}"

lemma found_Nil: "found n [] = node_value n"
proof -
  have "seg_matches p [] \<longleftrightarrow> p = []" for p by (cases p) auto
  then show ?thesis by (auto simp: found_def)
qed

lemma found_behind_Cons:
  "found_behind n (s # ss) = found_behind n ss \<union>
    (case hm_get (node_children n) s of None \<Rightarrow> {} | Some child \<Rightarrow> found child ss)"
proof -
  have split: "seg_matches_behind p (s # ss) \<longleftrightarrow>
      seg_matches_behind p ss \<or> (\<exists>q. p = Specific s # q \<and> seg_matches q ss)" for p
    by (cases p rule: seg_path_cases) auto
  have "found_behind n (s # ss) = found_behind n ss \<union>
      {v. \<exists>q. v \<in> stored_at n (Specific s # q) \<and> seg_matches q ss}"
    unfolding found_behind_def split by blast
  then show ?thesis by (auto simp: found_def split: option.split)
qed

lemma found_Cons:
  "found n (s # ss) =
    (case recursive_any_child n of None \<Rightarrow> {} | Some c \<Rightarrow> node_value c \<union> found_behind c ss)
    \<union> (case any_child n of None \<Rightarrow> {} | Some c \<Rightarrow> found c ss)
    \<union> (case hm_get (node_children n) s of None \<Rightarrow> {} | Some c \<Rightarrow> found c ss)"
proof -
  have cases: "seg_matches p (s # ss) \<longleftrightarrow>
      (\<exists>q. p = RecursiveAny # q \<and> (q = [] \<or> seg_matches_behind q ss))
      \<or> (\<exists>q. p = Any # q \<and> seg_matches q ss)
      \<or> (\<exists>q. p = Specific s # q \<and> seg_matches q ss)" for p
    by (cases p rule: seg_path_cases) auto
  have "found n (s # ss) =
      {v. \<exists>q. v \<in> stored_at n (RecursiveAny # q) \<and> (q = [] \<or> seg_matches_behind q ss)}
      \<union> {v. \<exists>q. v \<in> stored_at n (Any # q) \<and> seg_matches q ss}
      \<union> {v. \<exists>q. v \<in> stored_at n (Specific s # q) \<and> seg_matches q ss}"
    unfolding found_def cases by blast
  also have "{v. \<exists>q. v \<in> stored_at n (RecursiveAny # q) \<and> (q = [] \<or> seg_matches_behind q ss)} =
      (case recursive_any_child n of None \<Rightarrow> {} | Some c \<Rightarrow> node_value c \<union> found_behind c ss)"
    by (cases "recursive_any_child n") (auto simp: found_behind_def intro: exI [of _ "[]"])
  finally show ?thesis
    by (simp add: found_def split: option.split)
qed

lemma find_all_recursive_found:
  "find_all_recursive n ss c = c \<union> found n ss"
  "find_rest n ss c = c \<union> found_behind n ss"
proof (induction ss arbitrary: n c)
  case Nil
  {
    case 1
    show ?case by (simp add: found_Nil)
  next
    case 2
    have "\<not> seg_matches_behind p []" for p
      by (cases p rule: seg_path_cases) auto
    then show ?case by (simp add: found_behind_def)
  }
next
  case (Cons s ss)
  {
    case 1
    show ?case
      by (cases "recursive_any_child n"; cases "any_child n"; cases "hm_get (node_children n) s")
        (simp_all add: Cons.IH found_Cons Un_ac)
  next
    case 2
    show ?case
      by (cases "hm_get (node_children n) s") (simp_all add: Cons.IH found_behind_Cons Un_ac)
  }
qed

text \<open>
  The radix tree is exact: starting from any node and any collector,
  \<open>find_all_recursive\<close> adds precisely the values stored under a path that matches the
  subject's segments.
\<close>

theorem find_all_recursive_exact:
  "find_all_recursive n ss collector
    = collector \<union> {v. \<exists>p. v \<in> stored_at n p \<and> seg_matches p ss}"
  using find_all_recursive_found(1) unfolding found_def .

section \<open>The interest map implements a subscription relation\<close>

text \<open>
  The contract a routing index offers to its clients: it holds, for every value, a set of
  interests; a lookup returns the values with a matching one.
\<close>

locale interest_index =
  fixes new :: "'m"
    and ins :: "interest \<Rightarrow> 'a \<Rightarrow> 'm \<Rightarrow> 'm"
    and del :: "'a \<Rightarrow> 'm \<Rightarrow> 'm"
    and lookup :: "'m \<Rightarrow> subject \<Rightarrow> 'a set"
    and subscribed :: "'m \<Rightarrow> 'a \<Rightarrow> interest set"
    and matching :: "interest \<Rightarrow> subject \<Rightarrow> bool"
    and inv :: "'m \<Rightarrow> bool"
  assumes inv_new: "inv new"
    and inv_ins: "inv m \<Longrightarrow> inv (ins i v m)"
    and inv_del: "inv m \<Longrightarrow> inv (del v m)"
    and subscribed_new: "subscribed new v = {}"
    and subscribed_ins: "subscribed (ins i v m) = (subscribed m)(v := insert i (subscribed m v))"
    and subscribed_del: "subscribed (del v m) = (subscribed m)(v := {})"
    and lookup_eq: "inv m \<Longrightarrow> lookup m s = {v. \<exists>i \<in> subscribed m v. matching i s}"
begin

lemma inv_ins_all: "inv m \<Longrightarrow> inv (fold (\<lambda>i. ins i v) is m)"
  by (induction "is" arbitrary: m) (simp_all add: inv_ins)

lemma subscribed_ins_all:
  "subscribed (fold (\<lambda>i. ins i v) is m) = (subscribed m)(v := set is \<union> subscribed m v)"
  by (induction "is" arbitrary: m) (auto simp: subscribed_ins fun_eq_iff)

lemma lookup_del: "inv m \<Longrightarrow> lookup (del v m) s = lookup m s - {v}"
  by (auto simp: lookup_eq inv_del subscribed_del)

lemma lookup_ins: "inv m \<Longrightarrow> lookup (ins i v m) s = (if matching i s then insert v (lookup m s) else lookup m s)"
  by (auto simp: lookup_eq inv_ins subscribed_ins)

lemma lookup_ins_all:
  "inv m \<Longrightarrow> lookup (fold (\<lambda>i. ins i v) is m) s
    = lookup m s \<union> (if \<exists>i \<in> set is. matching i s then {v} else {})"
  by (auto simp: lookup_eq inv_ins_all subscribed_ins_all)

lemma lookup_replace:
  "inv m \<Longrightarrow> w \<in> lookup (fold (\<lambda>i. ins i v) is (del v m)) s \<longleftrightarrow>
    (if w = v then \<exists>i \<in> set is. matching i s else w \<in> lookup m s)"
  by (auto simp: lookup_ins_all lookup_del inv_del)

end

definition map_subscribed :: "'a interest_map \<Rightarrow> 'a \<Rightarrow> interest set" where
  "map_subscribed m v = (case hm_get (raw m) v of None \<Rightarrow> {} | Some is \<Rightarrow> set is)"

text \<open>The invariant: the tree stores, under each path, the values with an interest of that path.\<close>

definition interest_map_inv :: "'a interest_map \<Rightarrow> bool" where
  "interest_map_inv m \<longleftrightarrow> hm_wf (raw m) \<and>
    (\<forall>p. stored_at (root m) p = {v. \<exists>i \<in> map_subscribed m v. as_segments i = p})"

lemma map_subscribed_insert:
  "map_subscribed (interest_map_insert i v m)
    = (map_subscribed m)(v := insert i (map_subscribed m v))"
  by (auto simp: map_subscribed_def interest_map_insert_def fun_eq_iff split: option.split)

lemma map_subscribed_delete:
  "map_subscribed (interest_map_delete v m) = (map_subscribed m)(v := {})"
  by (auto simp: map_subscribed_def interest_map_delete_def fun_eq_iff split: option.split)

lemma stored_at_insert_all:
  "stored_at (fold (\<lambda>i. insert_recursive (as_segments i) v) is n) p
    = (if p \<in> as_segments ` set is then insert v (stored_at n p) else stored_at n p)"
  by (induction "is" arbitrary: n) (auto simp: stored_at_insert)

lemma stored_at_delete_all:
  "stored_at (fold (\<lambda>i. delete_recursive (as_segments i) v) is n) p
    = (if p \<in> as_segments ` set is then stored_at n p - {v} else stored_at n p)"
  by (induction "is" arbitrary: n) (auto simp: stored_at_delete)

lemma interest_map_inv_insert:
  "interest_map_inv m \<Longrightarrow> interest_map_inv (interest_map_insert i v m)"
  by (auto simp: interest_map_inv_def map_subscribed_insert)
    (auto simp: interest_map_insert_def stored_at_insert split: if_splits)

lemma interest_map_inv_delete:
  assumes "interest_map_inv m"
  shows "interest_map_inv (interest_map_delete v m)"
proof (cases "hm_get (raw m) v")
  case None
  then show ?thesis using assms by (simp add: interest_map_delete_def)
next
  case (Some interests)
  have "stored_at (root (interest_map_delete v m)) p =
      {w. \<exists>i \<in> map_subscribed (interest_map_delete v m) w. as_segments i = p}" for p
    using assms Some unfolding map_subscribed_delete
    by (auto simp: interest_map_inv_def interest_map_delete_def stored_at_delete_all)
      (auto simp: map_subscribed_def)
  moreover have "hm_wf (raw (interest_map_delete v m))"
    using assms Some by (simp add: interest_map_inv_def interest_map_delete_def)
  ultimately show ?thesis by (simp add: interest_map_inv_def)
qed

lemma interest_map_find_eq:
  assumes "interest_map_inv m"
  shows "interest_map_find m s = {v. \<exists>i \<in> map_subscribed m v. interest_matches i s}"
  using assms
  by (auto simp: interest_map_find_def interest_map_inv_def interest_matches_def
      find_all_recursive_found found_def)

lemma interest_map_inv_new: "interest_map_inv interest_map_new"
  by (simp add: interest_map_inv_def interest_map_new_def map_subscribed_def)

interpretation imap: interest_index interest_map_new interest_map_insert interest_map_delete
  interest_map_find map_subscribed interest_matches interest_map_inv
  by unfold_locales
    (simp_all add: interest_map_inv_new interest_map_inv_insert interest_map_inv_delete
      map_subscribed_insert map_subscribed_delete interest_map_find_eq,
     simp add: map_subscribed_def interest_map_new_def)

subsection \<open>Sequences of operations\<close>

datatype 'a index_op = OpInsert interest 'a | OpDelete 'a

fun index_exec :: "'a index_op \<Rightarrow> 'a interest_map \<Rightarrow> 'a interest_map" where
  "index_exec (OpInsert i v) m = interest_map_insert i v m"
| "index_exec (OpDelete v) m = interest_map_delete v m"

fun index_spec :: "'a index_op \<Rightarrow> ('a \<Rightarrow> interest set) \<Rightarrow> ('a \<Rightarrow> interest set)" where
  "index_spec (OpInsert i v) f = f(v := insert i (f v))"
| "index_spec (OpDelete v) f = f(v := {})"

lemma index_exec_refines:
  "interest_map_inv m \<Longrightarrow> interest_map_inv (fold index_exec ops m)
    \<and> map_subscribed (fold index_exec ops m) = fold index_spec ops (map_subscribed m)"
proof (induction ops arbitrary: m)
  case (Cons op ops)
  have "interest_map_inv (index_exec op m)"
    "map_subscribed (index_exec op m) = index_spec op (map_subscribed m)"
    using Cons.prems
    by (cases op; simp add: imap.inv_ins imap.inv_del imap.subscribed_ins imap.subscribed_del)+
  with Cons.IH show ?case by simp
qed simp

text \<open>
  (C6) Refinement of the whole index: after any sequence of \<open>insert\<close> and \<open>delete\<close> on a new
  \<open>InterestMap\<close>, \<open>find\<close> returns exactly the values that hold, in the abstract subscription
  relation driven by the same operations, an interest matching the subject.
\<close>

theorem interest_map_refines_subscriptions:
  fixes ops :: "'a index_op list"
  shows "interest_map_find (fold index_exec ops interest_map_new) s
    = {v. \<exists>i \<in> fold index_spec ops (\<lambda>_. {}) v. interest_matches i s}"
proof -
  have "map_subscribed (interest_map_new :: 'a interest_map) = (\<lambda>_. {})"
    by (simp add: fun_eq_iff imap.subscribed_new)
  then show ?thesis
    using index_exec_refines [OF imap.inv_new, of ops] by (simp add: imap.lookup_eq)
qed

subsection \<open>Serialisation\<close>

lemma from_raw_entry_inv:
  "interest_map_inv m \<Longrightarrow> hm_get (raw m) v = None \<Longrightarrow> interest_map_inv (from_raw_entry (v, sub) m)"
  by (auto simp: interest_map_inv_def map_subscribed_def stored_at_insert_all split: if_splits)

lemma from_raw_fold:
  assumes "interest_map_inv m" "hm_wf rw" "\<forall>v \<in> fst ` set rw. hm_get (raw m) v = None"
  shows "interest_map_inv (fold from_raw_entry rw m)
    \<and> (\<forall>w. hm_get (raw (fold from_raw_entry rw m)) w =
          (case hm_get rw w of None \<Rightarrow> hm_get (raw m) w | Some sub \<Rightarrow> Some sub))"
  using assms
proof (induction rw arbitrary: m)
  case (Cons e rw)
  obtain v sub where e: "e = (v, sub)" by (cases e)
  have fresh: "hm_get rw v = None"
    using Cons.prems(2) e by (simp add: map_of_eq_None_iff)
  have "interest_map_inv (from_raw_entry e m)"
    using Cons.prems e by (simp del: from_raw_entry.simps add: from_raw_entry_inv)
  moreover have "\<forall>w \<in> fst ` set rw. hm_get (raw (from_raw_entry e m)) w = None"
    using Cons.prems e by auto
  ultimately have "interest_map_inv (fold from_raw_entry rw (from_raw_entry e m))
      \<and> (\<forall>w. hm_get (raw (fold from_raw_entry rw (from_raw_entry e m))) w =
          (case hm_get rw w of None \<Rightarrow> hm_get (raw (from_raw_entry e m)) w | Some sub \<Rightarrow> Some sub))"
    using Cons.IH Cons.prems(2) by simp
  then show ?case using fresh e by (auto split: option.split)
qed simp

lemma interest_map_serde:
  assumes "interest_map_inv m"
  shows "interest_map_inv (interest_map_deserialize (interest_map_serialize m))"
    "hm_get (raw (interest_map_deserialize (interest_map_serialize m))) = hm_get (raw m)"
    "interest_map_find (interest_map_deserialize (interest_map_serialize m)) = interest_map_find m"
proof -
  let ?m = "interest_map_deserialize (interest_map_serialize m)"
  have "hm_wf (raw m)" using assms by (simp add: interest_map_inv_def)
  then show inv: "interest_map_inv ?m" and get: "hm_get (raw ?m) = hm_get (raw m)"
    using from_raw_fold [OF imap.inv_new, of "raw m"]
    by (auto simp: interest_map_deserialize_def interest_map_serialize_def
        interest_map_from_raw_def interest_map_new_def fun_eq_iff split: option.split)
  from get have "map_subscribed ?m = map_subscribed m"
    by (simp add: map_subscribed_def fun_eq_iff)
  with inv assms show "interest_map_find ?m = interest_map_find m"
    by (simp add: imap.lookup_eq fun_eq_iff)
qed

text \<open>
  A snapshot loses nothing of the index: serialising an interest map (its raw part) and
  deserialising it (\<open>from_raw\<close>) gives a map that answers every lookup alike and records the
  same interests.
\<close>

theorem interest_map_serde_roundtrip:
  assumes "interest_map_inv m"
  shows "interest_map_inv (interest_map_deserialize (interest_map_serialize m))
    \<and> interest_map_find (interest_map_deserialize (interest_map_serialize m)) s = interest_map_find m s
    \<and> interest_of (interest_map_deserialize (interest_map_serialize m)) v = interest_of m v"
  using interest_map_serde [OF assms] by (simp add: interest_of_def)

theorem interest_map_serde_roundtrip_witness:
  "interest_map_inv (interest_map_insert (Interest [0x61]) (1::nat) interest_map_new)
    \<and> interest_map_find (interest_map_deserialize (interest_map_serialize
        (interest_map_insert (Interest [0x61]) (1::nat) interest_map_new))) (Subject [0x61])
      = interest_map_find (interest_map_insert (Interest [0x61]) (1::nat) interest_map_new) (Subject [0x61])"
proof -
  have h: "interest_map_inv (interest_map_insert (Interest [0x61]) (1::nat) interest_map_new)"
    by (intro imap.inv_ins imap.inv_new)
  show ?thesis using h interest_map_serde_roundtrip [OF h] by blast
qed

section \<open>Segments and wildcards\<close>

subsection \<open>Subjects\<close>

lemma index_of_slash_None: "slash \<notin> set bs \<Longrightarrow> index_of_slash bs = None"
  by (induction bs) auto

lemma index_of_slash_append: "slash \<notin> set a \<Longrightarrow> index_of_slash (a @ slash # r) = Some (length a)"
  by (induction a) auto

lemma index_of_non_slash_drop:
  "(case index_of_non_slash r of None \<Rightarrow> [] | Some k \<Rightarrow> drop k r) = dropWhile (\<lambda>b. b = slash) r"
  by (induction r) (auto split: option.splits)

lemma segments_next_no_slash: "bs \<noteq> [] \<Longrightarrow> slash \<notin> set bs \<Longrightarrow> segments_next bs = Some (bs, [])"
  by (simp add: segments_next_def index_of_slash_None)

lemma segments_next_slash:
  "slash \<notin> set a \<Longrightarrow> segments_next (a @ slash # r) = Some (a, dropWhile (\<lambda>b. b = slash) r)"
  using index_of_non_slash_drop [of r]
  by (simp add: segments_next_def index_of_slash_append split: option.splits)

lemma split_slash_no_slash: "slash \<notin> set a \<Longrightarrow> split_slash a = [a]"
  by (induction a) auto

lemma split_slash_append: "slash \<notin> set a \<Longrightarrow> split_slash (a @ slash # r) = a # split_slash r"
  by (induction a) auto

lemma split_slash_drop_slashes:
  "filter (\<lambda>s. s \<noteq> []) (split_slash (dropWhile (\<lambda>b. b = slash) r)) = filter (\<lambda>s. s \<noteq> []) (split_slash r)"
  by (induction r) auto

lemma subject_segments_from_Nil: "subject_segments_from [] = []"
  by (simp add: subject_segments_from.simps [of "[]"] segments_next_def)

lemma subject_segments_from_slash:
  "slash \<notin> set a \<Longrightarrow>
    subject_segments_from (a @ slash # r) = a # subject_segments_from (dropWhile (\<lambda>b. b = slash) r)"
  by (simp add: subject_segments_from.simps [of "a @ slash # r"] segments_next_slash)

lemma subject_segments_from_eq:
  "(bs \<noteq> [] \<Longrightarrow> hd bs \<noteq> slash) \<Longrightarrow>
    subject_segments_from bs = filter (\<lambda>s. s \<noteq> []) (split_slash bs)"
proof (induction bs rule: length_induct)
  case (1 bs)
  show ?case
  proof (cases "slash \<in> set bs")
    case True
    then obtain a r where bs: "bs = a @ slash # r" and a: "slash \<notin> set a"
      by (metis split_list_first)
    let ?rest = "dropWhile (\<lambda>b. b = slash) r"
    have "length ?rest < length bs"
      using length_dropWhile_le [of _ r] by (simp add: bs le_imp_less_Suc trans_le_add2)
    moreover have "?rest \<noteq> [] \<Longrightarrow> hd ?rest \<noteq> slash" by (rule hd_dropWhile)
    ultimately have "subject_segments_from ?rest = filter (\<lambda>s. s \<noteq> []) (split_slash ?rest)"
      using "1.IH" by blast
    moreover have "a \<noteq> []" using "1.prems" by (auto simp: bs)
    ultimately show ?thesis
      by (simp add: bs a subject_segments_from_slash split_slash_append split_slash_drop_slashes)
  next
    case False
    then show ?thesis
      by (cases "bs = []")
        (simp_all add: subject_segments_from_Nil subject_segments_from.simps [of bs]
          segments_next_no_slash split_slash_no_slash)
  qed
qed

text \<open>
  The hand-written segment iterator of a subject agrees with splitting on the slash and
  dropping the empty pieces, the way an interest is cut, except that a subject with a leading
  slash yields one empty segment first.
\<close>

theorem subject_segments_split:
  "subject_segments (Subject bs) =
    (if bs \<noteq> [] \<and> hd bs = slash then [] # filter (\<lambda>s. s \<noteq> []) (split_slash bs)
     else filter (\<lambda>s. s \<noteq> []) (split_slash bs))"
proof (cases "bs \<noteq> [] \<and> hd bs = slash")
  case True
  then obtain r where bs: "bs = slash # r" by (metis list.collapse)
  have "subject_segments_from (dropWhile (\<lambda>b. b = slash) r)
      = filter (\<lambda>s. s \<noteq> []) (split_slash (dropWhile (\<lambda>b. b = slash) r))"
    by (rule subject_segments_from_eq) (rule hd_dropWhile)
  then show ?thesis
    using subject_segments_from_slash [of "[]" r] split_slash_drop_slashes [of r]
    by (simp add: bs subject_segments_def)
next
  case False
  then have "subject_segments_from bs = filter (\<lambda>s. s \<noteq> []) (split_slash bs)"
    by (intro subject_segments_from_eq) blast
  with False show ?thesis by (auto simp: subject_segments_def)
qed

lemma subject_segments_leading_slash:
  "subject_segments (Subject (slash # bs)) = [] # filter (\<lambda>s. s \<noteq> []) (split_slash bs)"
  by (simp add: subject_segments_split)

subsection \<open>Wildcards\<close>

lemma seg_matches_specific: "seg_matches (map Specific xs) ss \<longleftrightarrow> ss = xs"
proof (induction xs arbitrary: ss)
  case (Cons x xs)
  then show ?case by (cases ss) auto
qed simp

lemma seg_matches_specific_append:
  "seg_matches (map Specific xs @ p # ps) ss \<longleftrightarrow> (\<exists>r. ss = xs @ r \<and> seg_matches (p # ps) r)"
proof (induction xs arbitrary: ss)
  case (Cons x xs)
  then show ?case by (cases ss) auto
qed simp

text \<open>
  A trailing \<open>**\<close> is a strict prefix subscription: the interest \<open>x1/../xn/**\<close> matches
  exactly the subjects that continue \<open>x1/../xn\<close> by at least one segment, in particular not
  \<open>x1/../xn\<close> itself.
\<close>

theorem trailing_double_star_is_strict_prefix:
  "seg_matches (map Specific xs @ [RecursiveAny]) ss \<longleftrightarrow> (\<exists>s rest. ss = xs @ s # rest)"
proof -
  have "seg_matches [RecursiveAny] r \<longleftrightarrow> (\<exists>s rest. r = s # rest)" for r
    by (cases r) auto
  then show ?thesis by (auto simp: seg_matches_specific_append)
qed

text \<open>
  An inner \<open>**\<close> skips one or more segments up to an occurrence of the specific segment
  behind it, and every such occurrence is tried.
\<close>

theorem inner_double_star_matches:
  "seg_matches (RecursiveAny # Specific x # ps) ss \<longleftrightarrow>
    (\<exists>s skipped rest. ss = s # skipped @ x # rest \<and> seg_matches ps rest)"
  by (cases ss) (auto simp: seg_matches_behind_iff)

lemma double_star_then_wildcard:
  assumes "p = Any \<or> p = RecursiveAny"
  shows "\<not> seg_matches (qs @ RecursiveAny # p # ps) ss"
    and "\<not> seg_matches_behind (qs @ RecursiveAny # p # ps) ss"
proof -
  have behind: "\<not> seg_matches_behind (p # ps) ss" for ss
    using assms by (cases ss) auto
  have *: "\<not> seg_matches (qs @ RecursiveAny # p # ps) ss \<and>
    \<not> seg_matches_behind (qs @ RecursiveAny # p # ps) ss" for ss
  proof (induction ss arbitrary: qs)
    case Nil
    show ?case by (cases qs; cases "hd qs") auto
  next
    case (Cons s ss)
    show ?case
    proof (cases qs rule: seg_path_cases)
      case Nil
      then show ?thesis using behind by simp
    next
      case (Specific x q)
      then show ?thesis using Cons.IH [of q] Cons.IH [of "Specific x # q"] by simp
    next
      case (Any q)
      then show ?thesis using Cons.IH [of q] by simp
    next
      case (RecursiveAny q)
      then show ?thesis using Cons.IH [of q] by simp
    qed
  qed
  show "\<not> seg_matches (qs @ RecursiveAny # p # ps) ss"
    "\<not> seg_matches_behind (qs @ RecursiveAny # p # ps) ss"
    using * by blast+
qed

text \<open>
  A wildcard directly behind \<open>**\<close> (as in \<open>event/**/*\<close>) makes an interest dead: no subject
  whatever is delivered to a value that holds only such interests.
\<close>

theorem wildcard_behind_double_star_is_dead:
  assumes "interest_map_inv m"
    and "\<forall>i \<in> map_subscribed m v. \<exists>qs p ps. as_segments i = qs @ RecursiveAny # p # ps \<and> p \<in> {Any, RecursiveAny}"
  shows "v \<notin> interest_map_find m s"
  using assms double_star_then_wildcard(1)
  by (fastforce simp: imap.lookup_eq interest_matches_def)

lemma as_segments_ex: "as_segments (Interest [0x61, 0x2f, 0x2a, 0x2a, 0x2f, 0x2a]) = [Specific [0x61], RecursiveAny, Any]"
  by (simp add: as_segments_def map_filter_def interest_segment_of_def trim_ascii_def is_ascii_whitespace_def)

theorem wildcard_behind_double_star_is_dead_witness:
  "interest_map_inv (interest_map_insert (Interest [0x61, 0x2f, 0x2a, 0x2a, 0x2f, 0x2a]) (1::nat) interest_map_new)
    \<and> 1 \<notin> interest_map_find
        (interest_map_insert (Interest [0x61, 0x2f, 0x2a, 0x2a, 0x2f, 0x2a]) (1::nat) interest_map_new)
        (Subject [0x61, 0x2f, 0x62, 0x2f, 0x63])"
proof -
  let ?i = "Interest [0x61, 0x2f, 0x2a, 0x2a, 0x2f, 0x2a]"
  have h: "interest_map_inv (interest_map_insert ?i (1::nat) interest_map_new)"
    by (intro imap.inv_ins imap.inv_new)
  have sub: "map_subscribed (interest_map_insert ?i (1::nat) interest_map_new) 1 = {?i}"
    by (simp add: imap.subscribed_ins imap.subscribed_new)
  have "as_segments ?i = [Specific [0x61]] @ RecursiveAny # Any # []"
    by (simp add: as_segments_ex)
  with sub have "\<forall>i \<in> map_subscribed (interest_map_insert ?i (1::nat) interest_map_new) 1.
      \<exists>qs p ps. as_segments i = qs @ RecursiveAny # p # ps \<and> p \<in> {Any, RecursiveAny}"
    by (metis insertI1 singletonD)
  from wildcard_behind_double_star_is_dead [OF h this] h show ?thesis by blast
qed

text \<open>The test in \<open>protocol/interest.rs\<close>, evaluated on the model.\<close>

definition test_interest_map :: bool where
  "test_interest_map =
    (let m = interest_map_new :: nat interest_map;
         m = interest_map_insert (Interest (map of_char ''event/**/user/a'')) 1 m;
         m = interest_map_insert (Interest (map of_char ''event/**/user/*'')) 2 m;
         values = interest_map_find m (Subject (map of_char ''event/hello-world/user/a''))
     in 1 \<in> values \<and> 2 \<in> values)"

lemma test_interest_map_passes: test_interest_map
  by code_simp

text \<open>
  A leading slash is not optional on the subject side: no interest without wildcards
  matches a subject that starts with a slash, unless one of its segments is blank.
\<close>

theorem leading_slash_subject_unmatched:
  assumes "as_segments i = map Specific xs" and "[] \<notin> set xs"
  shows "\<not> interest_matches i (Subject (slash # bs))"
  using assms
  by (auto simp: interest_matches_def seg_matches_specific subject_segments_leading_slash)

theorem leading_slash_subject_unmatched_witness:
  "as_segments (Interest [0x2f, 0x61]) = map Specific [[0x61]] \<and> [] \<notin> set [[0x61 :: byte]]
    \<and> \<not> interest_matches (Interest [0x2f, 0x61]) (Subject [0x2f, 0x61])"
proof -
  have h: "as_segments (Interest [0x2f, 0x61]) = map Specific [[0x61]]"
    by (simp add: as_segments_def map_filter_def interest_segment_of_def trim_ascii_def
        is_ascii_whitespace_def)
  show ?thesis using h leading_slash_subject_unmatched [OF h, of "[0x61]"] by simp
qed

end
