(* ===== verification/MQ_Context.thy ===== *)
theory MQ_Context
  imports MQ_Interest
begin

text \<open>
  What a proposal sees while the replicated state machine applies it: the configuration of a
  topic (\<open>config.rs\<close>), the proposals themselves (\<open>raft/proposal.rs\<close> and its directory), the
  durable commands (\<open>topic/durable_message.rs\<close>), the part of \<open>NodeInner\<close> (\<open>node.rs\<close>) that the
  proposals touch, and \<open>ProposalContext\<close> with its operations.

  The code runs side effects in spawned tasks.  A task is a value of the datatype \<open>task\<close> that
  the operation appends to the node's list of spawned tasks; what a task does when it runs is
  modelled where its effect is.  The clock (\<open>Utc::now\<close>), the hash function (\<open>DefaultHasher\<close>,
  whose algorithm the standard library leaves open) and the iteration order of hash sets are
  the fields of the record \<open>platform\<close>: the model holds for every choice of them.
\<close>

section \<open>Topic configuration (config.rs)\<close>

datatype topic_overflow_policy = RejectNew | DropOld

record topic_overflow_config =
  policy :: topic_overflow_policy
  overflow_size :: u32 \<comment> \<open>\<open>NonZeroU32\<close>\<close>

definition overflow_config_size :: "topic_overflow_config \<Rightarrow> nat" where
  "overflow_config_size c = unat (overflow_size c)"

text \<open>\<open>NonZeroU32::new(size).unwrap_or(NonZeroU32::MAX)\<close>\<close>

definition non_zero_or_max :: "u32 \<Rightarrow> u32" where
  "non_zero_or_max n = (if n = 0 then 0xffffffff else n)"

definition new_reject_new :: "u32 \<Rightarrow> topic_overflow_config" where
  "new_reject_new n = \<lparr>policy = RejectNew, overflow_size = non_zero_or_max n\<rparr>"

definition new_drop_old :: "u32 \<Rightarrow> topic_overflow_config" where
  "new_drop_old n = \<lparr>policy = DropOld, overflow_size = non_zero_or_max n\<rparr>"

record topic_config =
  cfg_code :: topic_code
  cfg_blocking :: bool
  overflow_config :: "topic_overflow_config option"

definition topic_config_from_code :: "topic_code \<Rightarrow> topic_config" where
  "topic_config_from_code code = \<lparr>cfg_code = code, cfg_blocking = False, overflow_config = None\<rparr>"

section \<open>Durable messages and proposals\<close>

record durable_message =
  dm_message :: message
  dm_status :: status_map
  dm_time :: time

datatype durable_command =
    Create message
  | UpdateStatus message_state_update
  | Archive message_id

record delegate_message =
  dg_topic :: topic_code
  dg_message :: message

record load_topic =
  lt_config :: topic_config
  lt_queue :: "durable_message list"

definition load_topic_from_config :: "topic_config \<Rightarrow> load_topic" where
  "load_topic_from_config c = \<lparr>lt_config = c, lt_queue = []\<rparr>"

record endpoint_online =
  on_topic_code :: topic_code
  on_endpoint :: endpoint_addr
  on_interests :: "interest list"
  on_host :: node_id

record endpoint_offline =
  off_topic_code :: topic_code
  off_endpoint :: endpoint_addr
  off_host :: node_id

datatype proposal =
    DelegateMessage delegate_message
  | SetState set_state
  | LoadTopic load_topic
  | UnloadTopic topic_code
  | EpOnline endpoint_online
  | EpOffline endpoint_offline
  | EpInterest endpoint_interest

section \<open>The node as the proposals see it\<close>

record platform =
  hash64_id :: "message_id \<Rightarrow> u64"
  hash64_ep :: "endpoint_addr \<Rightarrow> u64"
  clock :: "nat \<Rightarrow> time"                        \<comment> \<open>the n-th reading of \<open>Utc::now\<close>\<close>
  ep_order :: "endpoint_addr set \<Rightarrow> endpoint_addr list"
  id_order :: "message_id set \<Rightarrow> message_id list"

text \<open>An iterator yields every element of a hash set once.\<close>

definition platform_ok :: "platform \<Rightarrow> bool" where
  "platform_ok pl \<longleftrightarrow>
    (\<forall>S. finite S \<longrightarrow> set (ep_order pl S) = S \<and> distinct (ep_order pl S)) \<and>
    (\<forall>S. finite S \<longrightarrow> set (id_order pl S) = S \<and> distinct (id_order pl S))"

text \<open>
  Tasks the operations spawn.  A task holds the topic handle it captured (an index into the
  node's store of handles), not the topic's code.
\<close>

datatype task =
    ResolveAckTask nat message_id wait_ack_result
  | DispatchTask nat topic_code message endpoint_addr
  | CommitTask topic_code
  | ProposeTask proposal

text \<open>\<open>TopicInner\<close>: the pool of senders that wait for acknowledgements, and the local endpoints.\<close>

record topic_inner =
  ti_code :: topic_code
  ack_waiting_pool :: "(message_id, nat) hash_map"
  local_endpoints :: "(endpoint_addr, nat) hash_map"

record node_inner =
  node_config_id :: node_id
  node_durable :: bool                     \<comment> \<open>a durable service is configured\<close>
  node_topics :: "(topic_code, nat) hash_map"
  topic_handles :: "(nat, topic_inner) hash_map"
  next_handle :: nat
  durable_commands_queue :: "durable_command list"
  spawned :: "task list"
  node_platform :: platform
  clock_reads :: nat

definition utc_now :: "node_inner \<Rightarrow> time \<times> node_inner" where
  "utc_now n = (clock (node_platform n) (clock_reads n), n\<lparr>clock_reads := Suc (clock_reads n)\<rparr>)"

definition spawn_task :: "task \<Rightarrow> node_inner \<Rightarrow> node_inner" where
  "spawn_task t n = n\<lparr>spawned := spawned n @ [t]\<rparr>"

definition get_topic :: "node_inner \<Rightarrow> topic_code \<Rightarrow> nat option" where
  "get_topic n code = hm_get (node_topics n) code"

definition push_durable_commands :: "durable_command list \<Rightarrow> node_inner \<Rightarrow> node_inner" where
  "push_durable_commands cs n = n\<lparr>durable_commands_queue := durable_commands_queue n @ cs\<rparr>"

definition swap_out_durable_commands :: "node_inner \<Rightarrow> durable_command list \<times> node_inner" where
  "swap_out_durable_commands n = (durable_commands_queue n, n\<lparr>durable_commands_queue := []\<rparr>)"

section \<open>ProposalContext\<close>

record proposal_context =
  ctx_node :: node_inner
  ctx_topic_code :: "topic_code option"

definition proposal_context_new :: "node_inner \<Rightarrow> proposal_context" where
  "proposal_context_new n = \<lparr>ctx_node = n, ctx_topic_code = None\<rparr>"

definition set_topic_code :: "topic_code \<Rightarrow> proposal_context \<Rightarrow> proposal_context" where
  "set_topic_code code c = c\<lparr>ctx_topic_code := Some code\<rparr>"

definition push_durable_command :: "durable_command \<Rightarrow> proposal_context \<Rightarrow> proposal_context" where
  "push_durable_command cmd c = c\<lparr>ctx_node := push_durable_commands [cmd] (ctx_node c)\<rparr>"

definition commit_durable_commands :: "proposal_context \<Rightarrow> proposal_context outcome" where
  "commit_durable_commands c =
    (if node_durable (ctx_node c) then
       (case ctx_topic_code c of
          None \<Rightarrow> Inl TopicCodeNotSet
        | Some code \<Rightarrow>
            (case get_topic (ctx_node c) code of
               None \<Rightarrow> Inr c
             | Some _ \<Rightarrow> Inr (c\<lparr>ctx_node := spawn_task (CommitTask code) (ctx_node c)\<rparr>)))
     else Inr c)"

definition resolve_ack :: "message_id \<Rightarrow> wait_ack_result \<Rightarrow> proposal_context \<Rightarrow> proposal_context" where
  "resolve_ack i result c =
    (case ctx_topic_code c of
       None \<Rightarrow> c
     | Some code \<Rightarrow>
         (case get_topic (ctx_node c) code of
            None \<Rightarrow> c
          | Some topic \<Rightarrow> c\<lparr>ctx_node := spawn_task (ResolveAckTask topic i result) (ctx_node c)\<rparr>))"

definition dispatch_message :: "message \<Rightarrow> endpoint_addr \<Rightarrow> proposal_context \<Rightarrow> proposal_context" where
  "dispatch_message m ep c =
    (case ctx_topic_code c of
       None \<Rightarrow> c
     | Some code \<Rightarrow>
         (case get_topic (ctx_node c) code of
            None \<Rightarrow> c
          | Some topic \<Rightarrow> c\<lparr>ctx_node := spawn_task (DispatchTask topic code m ep) (ctx_node c)\<rparr>))"

text \<open>\<open>Utc::now\<close> inside an operation that has the context.\<close>

definition ctx_now :: "proposal_context \<Rightarrow> time \<times> proposal_context" where
  "ctx_now c = (let (t, n) = utc_now (ctx_node c) in (t, c\<lparr>ctx_node := n\<rparr>))"

section \<open>What the context operations leave alone\<close>

text \<open>
  The fixed part of a context: everything but the spawned tasks, the queued durable commands
  and the clock.
\<close>

definition ctx_frame :: "proposal_context \<Rightarrow> proposal_context \<Rightarrow> bool" where
  "ctx_frame c d \<longleftrightarrow>
    ctx_topic_code d = ctx_topic_code c \<and>
    node_config_id (ctx_node d) = node_config_id (ctx_node c) \<and>
    node_durable (ctx_node d) = node_durable (ctx_node c) \<and>
    node_topics (ctx_node d) = node_topics (ctx_node c) \<and>
    topic_handles (ctx_node d) = topic_handles (ctx_node c) \<and>
    next_handle (ctx_node d) = next_handle (ctx_node c) \<and>
    node_platform (ctx_node d) = node_platform (ctx_node c)"

lemma ctx_frame_refl [simp]: "ctx_frame c c"
  by (simp add: ctx_frame_def)

lemma ctx_frame_trans: "ctx_frame a b \<Longrightarrow> ctx_frame b c \<Longrightarrow> ctx_frame a c"
  by (simp add: ctx_frame_def)

lemma ctx_frame_push [simp]: "ctx_frame c (push_durable_command cmd c)"
  by (simp add: ctx_frame_def push_durable_command_def push_durable_commands_def)

lemma ctx_frame_resolve [simp]: "ctx_frame c (resolve_ack i r c)"
  by (simp add: ctx_frame_def resolve_ack_def spawn_task_def split: option.split)

lemma ctx_frame_dispatch [simp]: "ctx_frame c (dispatch_message m ep c)"
  by (simp add: ctx_frame_def dispatch_message_def spawn_task_def split: option.split)

lemma ctx_frame_now [simp]: "ctx_frame c (snd (ctx_now c))"
  by (simp add: ctx_frame_def ctx_now_def utc_now_def)

text \<open>The topic the context works for, when it is registered at the node.\<close>

definition ctx_handle :: "proposal_context \<Rightarrow> nat option" where
  "ctx_handle c = (case ctx_topic_code c of None \<Rightarrow> None | Some code \<Rightarrow> get_topic (ctx_node c) code)"

lemma ctx_frame_handle: "ctx_frame c d \<Longrightarrow> ctx_handle d = ctx_handle c"
  by (simp add: ctx_frame_def ctx_handle_def get_topic_def split: option.split)

text \<open>The acknowledgements a run of operations has sent out, in order.\<close>

fun task_ack :: "task \<Rightarrow> (message_id \<times> wait_ack_result) option" where
  "task_ack (ResolveAckTask _ i r) = Some (i, r)"
| "task_ack _ = None"

fun task_dispatch :: "task \<Rightarrow> (message_id \<times> endpoint_addr) option" where
  "task_dispatch (DispatchTask _ _ m ep) = Some (msg_id m, ep)"
| "task_dispatch _ = None"

definition acks :: "proposal_context \<Rightarrow> (message_id \<times> wait_ack_result) list" where
  "acks c = List.map_filter task_ack (spawned (ctx_node c))"

definition dispatches :: "proposal_context \<Rightarrow> (message_id \<times> endpoint_addr) list" where
  "dispatches c = List.map_filter task_dispatch (spawned (ctx_node c))"

definition archived :: "proposal_context \<Rightarrow> message_id list" where
  "archived c = List.map_filter
    (\<lambda>cmd. case cmd of Archive i \<Rightarrow> Some i | _ \<Rightarrow> None) (durable_commands_queue (ctx_node c))"

lemma map_filter_append_one:
  "List.map_filter f (xs @ [x]) = List.map_filter f xs @ (case f x of None \<Rightarrow> [] | Some y \<Rightarrow> [y])"
  by (simp add: map_filter_def split: option.split)

lemma acks_push [simp]: "acks (push_durable_command cmd c) = acks c"
  by (simp add: acks_def push_durable_command_def push_durable_commands_def)

lemma acks_resolve:
  "acks (resolve_ack i r c) = acks c @ (if ctx_handle c = None then [] else [(i, r)])"
  by (simp add: acks_def resolve_ack_def ctx_handle_def spawn_task_def map_filter_append_one
      split: option.split)

lemma acks_dispatch [simp]: "acks (dispatch_message m ep c) = acks c"
  by (simp add: acks_def dispatch_message_def spawn_task_def map_filter_append_one split: option.split)

lemma acks_now [simp]: "acks (snd (ctx_now c)) = acks c"
  by (simp add: acks_def ctx_now_def utc_now_def)

lemma dispatches_push [simp]: "dispatches (push_durable_command cmd c) = dispatches c"
  by (simp add: dispatches_def push_durable_command_def push_durable_commands_def)

lemma dispatches_resolve [simp]: "dispatches (resolve_ack i r c) = dispatches c"
  by (simp add: dispatches_def resolve_ack_def spawn_task_def map_filter_append_one split: option.split)

lemma dispatches_dispatch:
  "dispatches (dispatch_message m ep c) =
    dispatches c @ (if ctx_handle c = None then [] else [(msg_id m, ep)])"
  by (simp add: dispatches_def dispatch_message_def ctx_handle_def spawn_task_def
      map_filter_append_one split: option.split)

lemma dispatches_now [simp]: "dispatches (snd (ctx_now c)) = dispatches c"
  by (simp add: dispatches_def ctx_now_def utc_now_def)

lemma archived_push:
  "archived (push_durable_command cmd c) =
    archived c @ (case cmd of Archive i \<Rightarrow> [i] | _ \<Rightarrow> [])"
  by (simp add: archived_def push_durable_command_def push_durable_commands_def map_filter_append_one
      split: durable_command.split)

lemma archived_resolve [simp]: "archived (resolve_ack i r c) = archived c"
  by (simp add: archived_def resolve_ack_def spawn_task_def split: option.split)

lemma archived_dispatch [simp]: "archived (dispatch_message m ep c) = archived c"
  by (simp add: archived_def dispatch_message_def spawn_task_def split: option.split)

lemma archived_now [simp]: "archived (snd (ctx_now c)) = archived c"
  by (simp add: archived_def ctx_now_def utc_now_def)

section \<open>A concrete platform\<close>

text \<open>
  Used by the witnesses: sets are iterated in the order of the addresses, the clock ticks by
  one per reading, the hashes are constant.  The node has one topic, under handle 0.
\<close>

definition example_platform :: platform where
  "example_platform =
    \<lparr>hash64_id = (\<lambda>_. 5), hash64_ep = (\<lambda>_. 0), clock = int,
     ep_order = sorted_list_of_set, id_order = sorted_list_of_set\<rparr>"

definition example_topic :: topic_code where
  "example_topic = TopicCode [116]"

definition example_node :: node_inner where
  "example_node =
    \<lparr>node_config_id = NodeId [1], node_durable = True, node_topics = [(example_topic, 0)],
     topic_handles = [(0, \<lparr>ti_code = example_topic, ack_waiting_pool = [], local_endpoints = []\<rparr>)],
     next_handle = 1, durable_commands_queue = [], spawned = [],
     node_platform = example_platform, clock_reads = 10\<rparr>"

definition example_context :: proposal_context where
  "example_context = \<lparr>ctx_node = example_node, ctx_topic_code = Some example_topic\<rparr>"

lemma example_platform_ok [simp]: "platform_ok example_platform"
  by (simp add: platform_ok_def example_platform_def)

lemma example_platform_clock [simp]: "clock example_platform n = int n"
  by (simp add: example_platform_def)

lemma example_context_simps [simp]:
  "node_platform (ctx_node example_context) = example_platform"
  "ctx_handle example_context = Some 0" "fst (ctx_now example_context) = 10"
  "strict_mono (clock example_platform)"
  by (simp_all add: example_context_def example_node_def ctx_handle_def get_topic_def ctx_now_def
      utc_now_def example_platform_def strict_mono_def)

end
