(* ===== verification/MQ_Queue.thy ===== *)
theory MQ_Queue
  imports MQ_Context
begin

text \<open>
  The message queue of a topic: \<open>Timed\<close> (\<open>src/server/src/util.rs\<close>), \<open>WaitAck\<close>
  (\<open>state_machine/topic/wait_ack.rs\<close>), \<open>HoldMessage\<close> and \<open>MessageQueue\<close>
  (\<open>state_machine/topic/message_queue.rs\<close>).  Then its invariant, that no operation panics
  under it, and what the queue promises: acknowledgement states, polling, first-in first-out
  flushing of a blocking queue, exactly one answer for every message that leaves the queue.
\<close>

section \<open>Timed (util.rs)\<close>

text \<open>
  \<open>BTreeSet<Timed<MessageId>>\<close> is ordered by \<open>Ord for Timed\<close>, which compares the time only.
  Elements of equal time are equal to the set: the second is not inserted, and removing one
  removes the other.
\<close>

type_synonym timed_set = "(time \<times> message_id) list"

fun timed_insert :: "time \<Rightarrow> message_id \<Rightarrow> timed_set \<Rightarrow> timed_set" where
  "timed_insert t i [] = [(t, i)]"
| "timed_insert t i ((u, j) # r) =
    (if t < u then (t, i) # (u, j) # r
     else if t = u then (u, j) # r
     else (u, j) # timed_insert t i r)"

fun timed_remove :: "time \<Rightarrow> timed_set \<Rightarrow> timed_set" where
  "timed_remove t [] = []"
| "timed_remove t ((u, j) # r) = (if t = u then r else (u, j) # timed_remove t r)"

section \<open>WaitAck (wait_ack.rs) and HoldMessage\<close>

record wait_ack =
  expect :: message_ack_expect_kind
  wa_status :: status_map

definition wait_ack_new :: "message_ack_expect_kind \<Rightarrow> endpoint_addr list \<Rightarrow> wait_ack" where
  "wait_ack_new e ep_list = \<lparr>expect = e, wa_status = map (\<lambda>ep. (ep, Unsent)) ep_list\<rparr>"

record hold_message =
  held_message :: message
  held_wait_ack :: wait_ack

abbreviation held_status :: "hold_message \<Rightarrow> status_map" where
  "held_status hm \<equiv> wa_status (held_wait_ack hm)"

abbreviation held_id :: "hold_message \<Rightarrow> message_id" where
  "held_id hm \<equiv> msg_id (held_message hm)"

abbreviation set_held_status :: "status_map \<Rightarrow> hold_message \<Rightarrow> hold_message" where
  "set_held_status st hm \<equiv> hm\<lparr>held_wait_ack := (held_wait_ack hm)\<lparr>wa_status := st\<rparr>\<rparr>"

text \<open>The loop of \<open>send_unsent\<close> over the entries of the status map.\<close>

fun send_unsent_loop ::
  "message \<Rightarrow> endpoint_addr set \<Rightarrow> status_map \<Rightarrow> proposal_context \<Rightarrow> status_map \<times> proposal_context" where
  "send_unsent_loop m reachable [] c = ([], c)"
| "send_unsent_loop m reachable ((ep, st) # r) c =
    (if is_unsent st \<and> ep \<in> reachable then
       (let (r', c') = send_unsent_loop m reachable r (dispatch_message m ep c)
        in ((ep, Sending) # r', c'))
     else
       (let (r', c') = send_unsent_loop m reachable r c in ((ep, st) # r', c')))"

definition send_unsent ::
  "endpoint_addr set \<Rightarrow> hold_message \<Rightarrow> proposal_context \<Rightarrow> hold_message \<times> proposal_context" where
  "send_unsent reachable hm c =
    (let (st, c') = send_unsent_loop (held_message hm) reachable (held_status hm) c
     in (set_held_status st hm, c'))"

definition hold_is_resolved :: "hold_message \<Rightarrow> proposal_context \<Rightarrow> bool \<times> proposal_context" where
  "hold_is_resolved hm c =
    (case target_kind (header (held_message hm)) of
       Durable \<Rightarrow>
         (case durability (header (held_message hm)) of
            None \<Rightarrow> (True, c)
          | Some config \<Rightarrow>
              (let (now, c') = ctx_now c in
               if now > expire config then (True, c')
               else (case max_receiver config of
                       Some n \<Rightarrow> (if length (held_status hm) \<ge> unat n then (True, c') else (False, c'))
                     | None \<Rightarrow> (False, c'))))
     | _ \<Rightarrow> (\<forall>st \<in> set (map snd (held_status hm)). status_is_resolved st (expect (held_wait_ack hm)), c))"

definition hold_resolve :: "hold_message \<Rightarrow> wait_ack_result" where
  "hold_resolve hm =
    (if \<exists>(ep, st) \<in> set (held_status hm). is_failed st
     then Inl \<lparr>err_status = held_status hm, err_exception = None\<rparr>
     else Inr \<lparr>ok_status = held_status hm\<rparr>)"

section \<open>MessageQueue (message_queue.rs)\<close>

record message_queue =
  blocking :: bool
  hold_messages :: "(message_id, hold_message) hash_map"
  time_id :: timed_set
  id_time :: "(message_id, time) hash_map"
  resolved :: "message_id set"
  mq_size :: nat

definition default_capacity :: nat where
  "default_capacity = 1024"

definition queue_new :: "bool \<Rightarrow> nat \<Rightarrow> message_queue" where
  "queue_new b capacity =
    \<lparr>blocking = b, hold_messages = [], time_id = [], id_time = [], resolved = {}, mq_size = 0\<rparr>"

definition queue_push ::
  "hold_message \<Rightarrow> message_queue \<Rightarrow> proposal_context \<Rightarrow> message_queue \<times> proposal_context" where
  "queue_push hm q c =
    (let i = held_id hm; (time, c') = ctx_now c in
     (q\<lparr>hold_messages := hm_insert i hm (hold_messages q),
        time_id := timed_insert time i (time_id q),
        id_time := hm_insert i time (id_time q),
        mq_size := mq_size q + 1\<rparr>, c'))"

definition push_durable_message :: "durable_message \<Rightarrow> message_queue \<Rightarrow> message_queue" where
  "push_durable_message dm q =
    (let i = msg_id (dm_message dm) in
     q\<lparr>hold_messages := hm_insert i
          \<lparr>held_message = dm_message dm,
           held_wait_ack = \<lparr>expect = msg_ack_kind (dm_message dm), wa_status = dm_status dm\<rparr>\<rparr>
          (hold_messages q),
       time_id := timed_insert (dm_time dm) i (time_id q),
       id_time := hm_insert i (dm_time dm) (id_time q),
       mq_size := mq_size q + 1\<rparr>)"

text \<open>\<open>size -= 1\<close> on a \<open>usize\<close>; the subtraction is checked.\<close>

definition usize_dec :: "nat \<Rightarrow> nat outcome" where
  "usize_dec n = (if n = 0 then Inl ArithOverflow else Inr (n - 1))"

definition queue_pop :: "message_queue \<Rightarrow> (hold_message option \<times> message_queue) outcome" where
  "queue_pop q =
    (case time_id q of
       [] \<Rightarrow> Inr (None, q)
     | (t, i) # rest \<Rightarrow>
         and_then (usize_dec (mq_size q)) (\<lambda>size'.
         Inr (hm_get (hold_messages q) i,
           q\<lparr>time_id := rest, id_time := hm_remove i (id_time q), resolved := resolved q - {i},
             mq_size := size', hold_messages := hm_remove i (hold_messages q)\<rparr>)))"

definition get_front :: "message_queue \<Rightarrow> hold_message option" where
  "get_front q =
    (case time_id q of [] \<Rightarrow> None | (t, i) # _ \<Rightarrow> hm_get (hold_messages q) i)"

definition queue_remove ::
  "message_id \<Rightarrow> message_queue \<Rightarrow> (hold_message option \<times> message_queue) outcome" where
  "queue_remove i q =
    (case hm_get (hold_messages q) i of
       Some hm \<Rightarrow>
         (case hm_get (id_time q) i of
            None \<Rightarrow> Inl MissingIndex
          | Some t \<Rightarrow>
              and_then (usize_dec (mq_size q)) (\<lambda>size'.
              Inr (Some hm,
                q\<lparr>hold_messages := hm_remove i (hold_messages q), time_id := timed_remove t (time_id q),
                  id_time := hm_remove i (id_time q), mq_size := size'\<rparr>)))
     | None \<Rightarrow> Inr (None, q))"

text \<open>
  \<open>update_ack\<close> on one held message: the guarded assignment of the \<open>match\<close> first, then, unless a
  \<open>return\<close> was taken, the unconditional insertion behind it.
\<close>

definition update_ack_match :: "message_status_kind \<Rightarrow> message_status_kind \<Rightarrow> message_status_kind option" where
  "update_ack_match status kind =
    (case status of
       Processed \<Rightarrow> None
     | Received \<Rightarrow> Some (if kind = Processed \<or> kind = Failed then kind else status)
     | Sent \<Rightarrow> Some (if kind \<noteq> Unsent \<or> kind \<noteq> Sending then kind else status)
     | Sending \<Rightarrow> Some (if kind \<noteq> Unsent then kind else status)
     | Unsent \<Rightarrow> Some kind
     | _ \<Rightarrow> Some status)"

definition update_ack_held ::
  "endpoint_addr \<Rightarrow> message_status_kind \<Rightarrow> hold_message \<Rightarrow> hold_message" where
  "update_ack_held from kind hm =
    (case hm_get (held_status hm) from of
       Some status \<Rightarrow>
         if status_is_resolved status (expect (held_wait_ack hm)) then hm
         else (case update_ack_match status kind of
                 None \<Rightarrow> hm
               | Some status' \<Rightarrow>
                   set_held_status (hm_insert from kind (hm_insert from status' (held_status hm))) hm)
     | None \<Rightarrow> set_held_status (hm_insert from kind (held_status hm)) hm)"

definition update_ack ::
  "message_id \<Rightarrow> endpoint_addr \<Rightarrow> message_status_kind \<Rightarrow> message_queue \<Rightarrow> message_queue" where
  "update_ack i from kind q =
    q\<lparr>hold_messages := hm_modify i (update_ack_held from kind) (hold_messages q)\<rparr>"

datatype poll = Ready | Pending

definition poll_message_inner ::
  "message_id \<Rightarrow> endpoint_addr set \<Rightarrow> message_queue \<Rightarrow> proposal_context
    \<Rightarrow> poll option \<times> message_queue \<times> proposal_context" where
  "poll_message_inner i reachable q c =
    (let poll_held =
       (case hm_get (hold_messages q) i of
          None \<Rightarrow> (None, q, c)
        | Some hm \<Rightarrow>
            (let (hm', c') = send_unsent reachable hm c;
                 q' = q\<lparr>hold_messages := hm_insert i hm' (hold_messages q)\<rparr>;
                 (done, c'') = hold_is_resolved hm' c'
             in (Some (if done then Ready else Pending), q', c'')))
     in if blocking q then
          (case get_front q of
             None \<Rightarrow> (None, q, c)
           | Some front \<Rightarrow> if held_id front \<noteq> i then (Some Pending, q, c) else poll_held)
        else poll_held)"

definition poll_message ::
  "message_id \<Rightarrow> endpoint_addr set \<Rightarrow> message_queue \<Rightarrow> proposal_context
    \<Rightarrow> poll option \<times> message_queue \<times> proposal_context" where
  "poll_message i reachable q c =
    (if i \<in> resolved q then (Some Ready, q, c)
     else case poll_message_inner i reachable q c of
            (None, q', c') \<Rightarrow> (None, q', c')
          | (Some Ready, q', c') \<Rightarrow> (Some Ready, q'\<lparr>resolved := insert i (resolved q')\<rparr>, c')
          | (Some Pending, q', c') \<Rightarrow> (Some Pending, q', c'))"

definition queue_len :: "message_queue \<Rightarrow> nat" where
  "queue_len q = mq_size q"

definition swap_out_resolved :: "message_queue \<Rightarrow> message_id set \<times> message_queue" where
  "swap_out_resolved q = (resolved q, q\<lparr>resolved := {}\<rparr>)"

definition blocking_pop ::
  "endpoint_addr set \<Rightarrow> message_queue \<Rightarrow> proposal_context
    \<Rightarrow> (hold_message option \<times> message_queue \<times> proposal_context) outcome" where
  "blocking_pop reachable q c =
    (case get_front q of
       None \<Rightarrow> Inr (None, q, c)
     | Some front \<Rightarrow>
         (case poll_message (held_id front) reachable q c of
            (Some Ready, q', c') \<Rightarrow> and_then (queue_pop q') (\<lambda>(m, q''). Inr (m, q'', c'))
          | (_, q', c') \<Rightarrow> Inr (None, q', c')))"

text \<open>What \<open>flush\<close> does with a message it took out.\<close>

definition settle :: "message_id \<Rightarrow> hold_message \<Rightarrow> proposal_context \<Rightarrow> proposal_context" where
  "settle i m c = push_durable_command (Archive i) (resolve_ack i (hold_resolve m) c)"

lemma poll_message_inner_time_id:
  "poll_message_inner i reachable q c = (r, q', c') \<Longrightarrow> time_id q' = time_id q"
  by (auto simp: poll_message_inner_def Let_def split: option.splits prod.splits if_splits)

lemma poll_message_time_id:
  "poll_message i reachable q c = (r, q', c') \<Longrightarrow> time_id q' = time_id q"
  by (auto simp: poll_message_def dest: poll_message_inner_time_id
      split: option.splits prod.splits poll.splits if_splits)

lemma blocking_pop_shrinks:
  assumes "blocking_pop reachable q c = Inr (Some m, q', c')"
  shows "length (time_id q') < length (time_id q)"
  using assms
  by (auto simp: blocking_pop_def queue_pop_def and_then_Inr_iff dest!: poll_message_time_id
      split: option.splits prod.splits poll.splits list.splits)

text \<open>The \<open>while let\<close> loop of \<open>flush\<close> on a blocking queue.\<close>

function flush_blocking ::
  "endpoint_addr set \<Rightarrow> message_queue \<Rightarrow> proposal_context
    \<Rightarrow> (message_queue \<times> proposal_context) outcome" where
  "flush_blocking reachable q c =
    (case blocking_pop reachable q c of
       Inl p \<Rightarrow> Inl p
     | Inr (None, q', c') \<Rightarrow> Inr (q', c')
     | Inr (Some m, q', c') \<Rightarrow> flush_blocking reachable q' (settle (held_id m) m c'))"
  by pat_completeness auto
termination
  by (relation "measure (\<lambda>(_, q, _). length (time_id q))") (auto dest: blocking_pop_shrinks)

declare flush_blocking.simps [simp del]

text \<open>The \<open>for\<close> loop of \<open>flush\<close> over the ids that were marked resolved.\<close>

fun flush_ids ::
  "message_id list \<Rightarrow> message_queue \<Rightarrow> proposal_context
    \<Rightarrow> (message_queue \<times> proposal_context) outcome" where
  "flush_ids [] q c = Inr (q, c)"
| "flush_ids (i # is) q c =
    and_then (queue_remove i q) (\<lambda>(m, q').
      flush_ids is q' (case m of Some m \<Rightarrow> settle i m c | None \<Rightarrow> c))"

definition flush ::
  "endpoint_addr set \<Rightarrow> message_queue \<Rightarrow> proposal_context
    \<Rightarrow> (message_queue \<times> proposal_context) outcome" where
  "flush reachable q c =
    (if blocking q then flush_blocking reachable q c
     else (let (swap_out, q') = swap_out_resolved q
           in flush_ids (id_order (node_platform (ctx_node c)) swap_out) q' c))"

section \<open>The invariant of the queue\<close>

abbreviation timed_sorted :: "timed_set \<Rightarrow> bool" where
  "timed_sorted s \<equiv> sorted_wrt (\<lambda>a b. fst a < fst b) s"

lemma set_timed_insert:
  "set (timed_insert t i s) \<subseteq> insert (t, i) (set s)"
  "t \<notin> fst ` set s \<Longrightarrow> set (timed_insert t i s) = insert (t, i) (set s)"
  by (induction t i s rule: timed_insert.induct) auto

lemma timed_sorted_insert: "timed_sorted s \<Longrightarrow> timed_sorted (timed_insert t i s)"
proof (induction t i s rule: timed_insert.induct)
  case (2 t i u j r)
  have "\<forall>p \<in> set (timed_insert t i r). p = (t, i) \<or> p \<in> set r"
    using set_timed_insert(1) by fast
  with 2 show ?case by fastforce
qed simp

lemma timed_insert_last: "\<forall>p \<in> set s. fst p < t \<Longrightarrow> timed_insert t i s = s @ [(t, i)]"
  by (induction t i s rule: timed_insert.induct) auto

lemma timed_insert_same_time: "timed_sorted s \<Longrightarrow> t \<in> fst ` set s \<Longrightarrow> timed_insert t i s = s"
  by (induction t i s rule: timed_insert.induct) auto

lemma set_timed_remove: "timed_sorted s \<Longrightarrow> set (timed_remove t s) = {p \<in> set s. fst p \<noteq> t}"
  by (induction t s rule: timed_remove.induct) auto

lemma timed_remove_filter: "timed_sorted s \<Longrightarrow> timed_remove t s = filter (\<lambda>p. fst p \<noteq> t) s"
proof (induction t s rule: timed_remove.induct)
  case (2 t u j r)
  have "t = u \<Longrightarrow> filter (\<lambda>p. fst p \<noteq> t) r = r"
    using 2(2) by (auto intro!: filter_True)
  with 2 show ?case by auto
qed simp

lemma timed_sorted_remove: "timed_sorted s \<Longrightarrow> timed_sorted (timed_remove t s)"
  by (simp add: timed_remove_filter sorted_wrt_filter)

lemma timed_sorted_distinct: "timed_sorted s \<Longrightarrow> distinct s"
  by (induction s) auto

lemma timed_sorted_inj: "timed_sorted s \<Longrightarrow> (t, i) \<in> set s \<Longrightarrow> (t, j) \<in> set s \<Longrightarrow> j = i"
  by (induction s) fastforce+

text \<open>
  The three maps describe the same messages: \<open>time_id\<close> is the inverse of \<open>id_time\<close> in the order
  of time, \<open>size\<close> counts the held messages, every message is held under its own id with a
  status map, and what is marked resolved is held.
\<close>

definition queue_inv :: "message_queue \<Rightarrow> bool" where
  "queue_inv q \<longleftrightarrow>
    hm_wf (hold_messages q) \<and> hm_wf (id_time q) \<and> timed_sorted (time_id q) \<and>
    (\<forall>t i. (t, i) \<in> set (time_id q) \<longleftrightarrow> hm_get (id_time q) i = Some t) \<and>
    dom (hm_get (id_time q)) = dom (hm_get (hold_messages q)) \<and>
    mq_size q = length (hold_messages q) \<and>
    (\<forall>i hm. hm_get (hold_messages q) i = Some hm \<longrightarrow> held_id hm = i \<and> hm_wf (held_status hm)) \<and>
    resolved q \<subseteq> dom (hm_get (hold_messages q))"

lemma queue_invD:
  assumes "queue_inv q"
  shows "hm_wf (hold_messages q)" "hm_wf (id_time q)" "timed_sorted (time_id q)"
    "(t, i) \<in> set (time_id q) \<longleftrightarrow> hm_get (id_time q) i = Some t"
    "dom (hm_get (id_time q)) = dom (hm_get (hold_messages q))"
    "mq_size q = length (hold_messages q)"
    "hm_get (hold_messages q) i = Some hm \<Longrightarrow> held_id hm = i"
    "hm_get (hold_messages q) i = Some hm \<Longrightarrow> hm_wf (held_status hm)"
    "resolved q \<subseteq> dom (hm_get (hold_messages q))"
  using assms by (auto simp: queue_inv_def)

lemma queue_inv_new: "queue_inv (queue_new b n)"
  by (simp add: queue_inv_def queue_new_def)

lemma queue_inv_id_time:
  "queue_inv q \<Longrightarrow> (\<exists>t. hm_get (id_time q) i = Some t) \<longleftrightarrow> (\<exists>hm. hm_get (hold_messages q) i = Some hm)"
  using queue_invD(5) [of q] by (auto simp: domIff dom_def set_eq_iff)

text \<open>A queue entry is fresh when neither its id nor its time is in use.\<close>

definition entry_fresh :: "message_id \<Rightarrow> time \<Rightarrow> message_queue \<Rightarrow> bool" where
  "entry_fresh i t q \<longleftrightarrow> hm_get (hold_messages q) i = None \<and> t \<notin> fst ` set (time_id q)"

lemma queue_inv_add:
  assumes inv: "queue_inv q" and fresh: "entry_fresh i t q"
    and hm: "held_id hm = i" "hm_wf (held_status hm)"
  shows "queue_inv (q\<lparr>hold_messages := hm_insert i hm (hold_messages q),
    time_id := timed_insert t i (time_id q), id_time := hm_insert i t (id_time q),
    mq_size := mq_size q + 1\<rparr>)"
proof -
  have none: "hm_get (id_time q) i = None"
    using queue_inv_id_time [OF inv, of i] fresh by (auto simp: entry_fresh_def)
  have "set (timed_insert t i (time_id q)) = insert (t, i) (set (time_id q))"
    using fresh by (simp add: entry_fresh_def set_timed_insert(2))
  moreover have "(u, i) \<notin> set (time_id q)" for u
    using none queue_invD(4) [OF inv] by simp
  ultimately show ?thesis
    using queue_invD [OF inv] fresh hm
    by (auto simp: queue_inv_def entry_fresh_def timed_sorted_insert hm_len_insert)
qed

lemma queue_inv_push:
  assumes "queue_inv q" "entry_fresh (held_id hm) (fst (ctx_now c)) q" "hm_wf (held_status hm)"
  shows "queue_inv (fst (queue_push hm q c))"
  using queue_inv_add [OF assms(1,2) refl assms(3)] by (simp add: queue_push_def Let_def case_prod_unfold)

lemma queue_inv_push_durable:
  assumes "queue_inv q" "entry_fresh (msg_id (dm_message dm)) (dm_time dm) q" "hm_wf (dm_status dm)"
  shows "queue_inv (push_durable_message dm q)"
  using queue_inv_add [OF assms(1,2), of "\<lparr>held_message = dm_message dm,
      held_wait_ack = \<lparr>expect = msg_ack_kind (dm_message dm), wa_status = dm_status dm\<rparr>\<rparr>"] assms(3)
  by (simp add: push_durable_message_def Let_def)

lemma queue_inv_drop:
  assumes inv: "queue_inv q" and i: "hm_get (id_time q) i = Some t"
    and tid: "set tid = {p \<in> set (time_id q). fst p \<noteq> t}" "timed_sorted tid"
    and r: "r \<subseteq> dom (hm_get (hold_messages q)) - {i}"
  shows "queue_inv (q\<lparr>time_id := tid, id_time := hm_remove i (id_time q), resolved := r,
    mq_size := mq_size q - 1, hold_messages := hm_remove i (hold_messages q)\<rparr>)"
proof -
  obtain hm where hm: "hm_get (hold_messages q) i = Some hm"
    using queue_inv_id_time [OF inv, of i] i by auto
  have "(t, i) \<in> set (time_id q)"
    using queue_invD(4) [OF inv] i by simp
  then have only: "(t, j) \<notin> set (time_id q)" if "j \<noteq> i" for j
    using that queue_invD(3) [OF inv] timed_sorted_inj by blast
  have "(u, j) \<in> set tid \<longleftrightarrow> hm_get (hm_remove i (id_time q)) j = Some u" for u j
  proof (cases "j = i")
    case True
    then show ?thesis by (simp add: tid(1) queue_invD(4) [OF inv] i)
  next
    case False
    with only [OF False] show ?thesis
      by (auto simp: tid(1) queue_invD(4) [OF inv] simp del: fst_conv) simp
  qed
  then show ?thesis
    using queue_invD [OF inv] hm tid(2) r
    by (auto simp: queue_inv_def hm_len_remove)
qed

lemma usize_dec_held: "queue_inv q \<Longrightarrow> hm_get (hold_messages q) i = Some hm \<Longrightarrow>
  usize_dec (mq_size q) = Inr (mq_size q - 1)"
  using queue_invD(6) [of q] hm.length_keys_pos [of "hold_messages q" i hm] by (auto simp: usize_dec_def)

lemma queue_pop_Cons:
  assumes inv: "queue_inv q" and tid: "time_id q = (t, i) # rest"
  obtains hm q' where "hm_get (hold_messages q) i = Some hm" "get_front q = Some hm" "held_id hm = i"
    "queue_pop q = Inr (Some hm, q')" "queue_inv q'" "time_id q' = rest" "blocking q' = blocking q"
    "hm_get (hold_messages q') = (hm_get (hold_messages q))(i := None)"
    "resolved q' = resolved q - {i}"
proof -
  have it: "hm_get (id_time q) i = Some t"
    using queue_invD(4) [OF inv, of t i] tid by simp
  then obtain hm where hm: "hm_get (hold_messages q) i = Some hm"
    using queue_inv_id_time [OF inv, of i] by auto
  have sorted: "timed_sorted rest" "\<forall>p \<in> set rest. t < fst p"
    using queue_invD(3) [OF inv] tid by auto
  then have rest: "set rest = {p \<in> set (time_id q). fst p \<noteq> t}"
    using tid by auto
  show ?thesis
  proof (rule that [OF hm])
    show "get_front q = Some hm" using hm tid by (simp add: get_front_def)
    show "held_id hm = i" using queue_invD(7) [OF inv hm] .
    show "queue_pop q = Inr (Some hm, q\<lparr>time_id := rest, id_time := hm_remove i (id_time q),
        resolved := resolved q - {i}, mq_size := mq_size q - 1,
        hold_messages := hm_remove i (hold_messages q)\<rparr>)"
      using hm tid usize_dec_held [OF inv hm] by (simp add: queue_pop_def)
    show "queue_inv (q\<lparr>time_id := rest, id_time := hm_remove i (id_time q),
        resolved := resolved q - {i}, mq_size := mq_size q - 1,
        hold_messages := hm_remove i (hold_messages q)\<rparr>)"
      by (rule queue_inv_drop [OF inv it rest sorted(1)]) (rule Diff_mono [OF queue_invD(9) [OF inv] order_refl])
  qed simp_all
qed

lemma queue_remove_Some:
  assumes inv: "queue_inv q" and hm: "hm_get (hold_messages q) i = Some hm" and r: "i \<notin> resolved q"
  obtains q' t where "queue_remove i q = Inr (Some hm, q')" "queue_inv q'" "blocking q' = blocking q"
    "hm_get (hold_messages q') = (hm_get (hold_messages q))(i := None)"
    "hm_get (id_time q) i = Some t" "time_id q' = timed_remove t (time_id q)" "resolved q' = resolved q"
proof -
  obtain t where it: "hm_get (id_time q) i = Some t"
    using queue_inv_id_time [OF inv, of i] hm by auto
  show ?thesis
  proof (rule that [where t = t])
    show "queue_remove i q = Inr (Some hm, q\<lparr>hold_messages := hm_remove i (hold_messages q),
        time_id := timed_remove t (time_id q), id_time := hm_remove i (id_time q),
        mq_size := mq_size q - 1\<rparr>)"
      using hm it usize_dec_held [OF inv hm] by (simp add: queue_remove_def)
    have "resolved q \<subseteq> dom (hm_get (hold_messages q)) - {i}"
      using queue_invD(9) [OF inv] r by blast
    then have "queue_inv (q\<lparr>time_id := timed_remove t (time_id q), id_time := hm_remove i (id_time q),
        resolved := resolved q, mq_size := mq_size q - 1,
        hold_messages := hm_remove i (hold_messages q)\<rparr>)"
      using queue_invD(3) [OF inv]
      by (intro queue_inv_drop [OF inv it]) (simp_all add: set_timed_remove timed_sorted_remove)
    also have "q\<lparr>time_id := timed_remove t (time_id q), id_time := hm_remove i (id_time q),
        resolved := resolved q, mq_size := mq_size q - 1, hold_messages := hm_remove i (hold_messages q)\<rparr>
      = q\<lparr>hold_messages := hm_remove i (hold_messages q), time_id := timed_remove t (time_id q),
        id_time := hm_remove i (id_time q), mq_size := mq_size q - 1\<rparr>"
      by simp
    finally show "queue_inv (q\<lparr>hold_messages := hm_remove i (hold_messages q),
        time_id := timed_remove t (time_id q), id_time := hm_remove i (id_time q),
        mq_size := mq_size q - 1\<rparr>)" .
  qed (use it in simp_all)
qed

lemma queue_inv_update_held:
  assumes inv: "queue_inv q"
    and keys: "hm_keys h = hm_keys (hold_messages q)"
    and held: "\<And>i hm. hm_get h i = Some hm \<Longrightarrow> held_id hm = i \<and> hm_wf (held_status hm)"
    and r: "r \<subseteq> dom (hm_get (hold_messages q))"
  shows "queue_inv (q\<lparr>hold_messages := h, resolved := r\<rparr>)"
proof -
  have "dom (hm_get h) = dom (hm_get (hold_messages q))"
    using keys by (metis hm.set_keys)
  moreover have "length h = length (hold_messages q)"
    using keys by (metis length_map)
  moreover have "hm_wf h"
    using keys queue_invD(1) [OF inv] by simp
  ultimately show ?thesis
    using inv held r unfolding queue_inv_def by simp
qed

text \<open>Held messages change their status only.\<close>

lemma hm_wf_send_unsent_loop:
  "send_unsent_loop m reachable st c = (st', c') \<Longrightarrow> hm_keys st' = hm_keys st"
  by (induction m reachable st c arbitrary: st' c' rule: send_unsent_loop.induct)
    (auto split: prod.splits if_splits)

lemma send_unsent_held:
  assumes "send_unsent reachable hm c = (hm', c')"
  shows "held_message hm' = held_message hm" "hm_keys (held_status hm') = hm_keys (held_status hm)"
    "expect (held_wait_ack hm') = expect (held_wait_ack hm)"
  using assms by (auto simp: send_unsent_def dest: hm_wf_send_unsent_loop split: prod.splits)

lemma update_ack_held_id [simp]: "held_message (update_ack_held from kind hm) = held_message hm"
  by (simp add: update_ack_held_def split: option.split)

lemma update_ack_held_wf:
  "hm_wf (held_status hm) \<Longrightarrow> hm_wf (held_status (update_ack_held from kind hm))"
  by (simp add: update_ack_held_def split: option.split)

lemma queue_inv_update_ack:
  assumes "queue_inv q"
  shows "queue_inv (update_ack i from kind q)"
proof -
  have "queue_inv (q\<lparr>hold_messages := hm_modify i (update_ack_held from kind) (hold_messages q),
      resolved := resolved q\<rparr>)"
    using queue_invD(7,8,9) [OF assms]
    by (intro queue_inv_update_held [OF assms])
      (auto simp: update_ack_held_wf split: if_splits)
  then show ?thesis by (simp add: update_ack_def)
qed

section \<open>Polling\<close>

text \<open>An operation is quiet when it answers nobody and archives nothing.\<close>

definition ctx_quiet :: "proposal_context \<Rightarrow> proposal_context \<Rightarrow> bool" where
  "ctx_quiet c d \<longleftrightarrow> ctx_frame c d \<and> acks d = acks c \<and> archived d = archived c"

lemma ctx_quiet_refl [simp]: "ctx_quiet c c"
  by (simp add: ctx_quiet_def)

lemma ctx_quiet_trans: "ctx_quiet a b \<Longrightarrow> ctx_quiet b c \<Longrightarrow> ctx_quiet a c"
  by (auto simp: ctx_quiet_def intro: ctx_frame_trans)

lemma ctx_quiet_dispatch: "ctx_quiet (dispatch_message m ep c) d \<Longrightarrow> ctx_quiet c d"
  by (auto simp: ctx_quiet_def intro: ctx_frame_trans [OF ctx_frame_dispatch])

lemma ctx_quiet_now [simp]: "ctx_quiet c (snd (ctx_now c))"
  by (simp add: ctx_quiet_def)

abbreviation send_status :: "endpoint_addr set \<Rightarrow> endpoint_addr \<Rightarrow> message_status_kind \<Rightarrow> message_status_kind"
  where "send_status reachable ep st \<equiv> (if is_unsent st \<and> ep \<in> reachable then Sending else st)"

abbreviation to_send :: "endpoint_addr set \<Rightarrow> status_map \<Rightarrow> endpoint_addr list" where
  "to_send reachable st \<equiv> map fst (filter (\<lambda>(ep, s). is_unsent s \<and> ep \<in> reachable) st)"

lemma send_unsent_loop_eq:
  "send_unsent_loop m reachable st c = (st', c') \<Longrightarrow>
    st' = map (\<lambda>(ep, s). (ep, send_status reachable ep s)) st \<and> ctx_quiet c c'
    \<and> dispatches c' = dispatches c @
        (if ctx_handle c = None then [] else map (\<lambda>ep. (msg_id m, ep)) (to_send reachable st))"
proof (induction m reachable st c arbitrary: st' c' rule: send_unsent_loop.induct)
  case (2 m reachable ep st r c)
  show ?case
  proof (cases "is_unsent st \<and> ep \<in> reachable")
    case True
    with 2 show ?thesis
      by (auto simp: dispatches_dispatch ctx_frame_handle [OF ctx_frame_dispatch]
          intro: ctx_quiet_dispatch split: prod.splits)
  next
    case False
    with 2 show ?thesis by (auto split: prod.splits)
  qed
qed simp

lemma send_unsent_eq:
  assumes "send_unsent reachable hm c = (hm', c')"
  shows "hm' = set_held_status (map (\<lambda>(ep, s). (ep, send_status reachable ep s)) (held_status hm)) hm"
    "ctx_quiet c c'"
    "dispatches c' = dispatches c @ (if ctx_handle c = None then []
       else map (\<lambda>ep. (held_id hm, ep)) (to_send reachable (held_status hm)))"
  using assms send_unsent_loop_eq
  by (auto simp: send_unsent_def split: prod.splits)

lemma hold_is_resolved_quiet:
  assumes "hold_is_resolved hm c = (b, c')"
  shows "ctx_quiet c c'" "dispatches c' = dispatches c"
  using assms ctx_quiet_now [of c] dispatches_now [of c]
  by (auto simp: hold_is_resolved_def Let_def case_prod_unfold simp del: ctx_quiet_now dispatches_now
      split: message_target_kind.splits option.splits if_splits)

text \<open>What polling does to the queue and the context, whatever it answers.\<close>

definition poll_effect ::
  "message_id \<Rightarrow> message_queue \<Rightarrow> proposal_context \<Rightarrow> poll option \<Rightarrow> message_queue \<Rightarrow> proposal_context \<Rightarrow> bool"
  where
  "poll_effect i q c r q' c' \<longleftrightarrow>
    queue_inv q' \<and> ctx_quiet c c' \<and> blocking q' = blocking q \<and> time_id q' = time_id q \<and>
    id_time q' = id_time q \<and> hm_keys (hold_messages q') = hm_keys (hold_messages q) \<and>
    (\<forall>j. j \<noteq> i \<longrightarrow> hm_get (hold_messages q') j = hm_get (hold_messages q) j) \<and>
    (\<forall>j. map_option held_message (hm_get (hold_messages q') j)
       = map_option held_message (hm_get (hold_messages q) j)) \<and>
    resolved q' = (if r = Some Ready then insert i (resolved q) else resolved q) \<and>
    (r = Some Ready \<longrightarrow> i \<in> dom (hm_get (hold_messages q)))"

lemma poll_held_effect:
  assumes inv: "queue_inv q" and hm: "hm_get (hold_messages q) i = Some hm"
    and send: "send_unsent reachable hm c = (hm', c1)" and res: "hold_is_resolved hm' c1 = (b, c2)"
  shows "poll_effect i q c (Some (if b then Ready else Pending))
    (q\<lparr>hold_messages := hm_insert i hm' (hold_messages q),
       resolved := (if b then insert i (resolved q) else resolved q)\<rparr>) c2"
proof -
  note sent = send_unsent_held [OF send]
  have quiet: "ctx_quiet c c2"
    using ctx_quiet_trans [OF send_unsent_eq(2) [OF send] hold_is_resolved_quiet(1) [OF res]] .
  have keys: "hm_keys (hm_insert i hm' (hold_messages q)) = hm_keys (hold_messages q)"
    using hm by (rule hm_keys_update_Some)
  have "hm_wf (held_status hm')" "held_id hm' = i"
    using sent queue_invD(7,8) [OF inv hm] by simp_all
  then have "held_id h = j \<and> hm_wf (held_status h)"
    if "hm_get (hm_insert i hm' (hold_messages q)) j = Some h" for j h
    using that queue_invD(7,8) [OF inv] by (auto split: if_splits)
  moreover have "(if b then insert i (resolved q) else resolved q) \<subseteq> dom (hm_get (hold_messages q))"
    using queue_invD(9) [OF inv] hm by auto
  ultimately have "queue_inv (q\<lparr>hold_messages := hm_insert i hm' (hold_messages q),
       resolved := (if b then insert i (resolved q) else resolved q)\<rparr>)"
    by (intro queue_inv_update_held [OF inv keys])
  with quiet keys hm sent(1) show ?thesis by (auto simp: poll_effect_def)
qed

lemma poll_message_effect:
  assumes inv: "queue_inv q" and poll: "poll_message i reachable q c = (r, q', c')"
  shows "poll_effect i q c r q' c'"
proof (cases "i \<in> resolved q")
  case True
  then show ?thesis
    using poll inv queue_invD(9) [OF inv]
    by (auto simp: poll_message_def poll_effect_def)
next
  case False
  have idle: "poll_effect i q c None q c" "poll_effect i q c (Some Pending) q c"
    using inv by (simp_all add: poll_effect_def)
  show ?thesis
  proof (cases "hm_get (hold_messages q) i")
    case None
    then show ?thesis
      using poll False idle
      by (auto simp: poll_message_def poll_message_inner_def Let_def split: option.splits if_splits)
  next
    case (Some hm)
    obtain hm' c1 where send: "send_unsent reachable hm c = (hm', c1)" by fastforce
    obtain b c2 where res: "hold_is_resolved hm' c1 = (b, c2)" by fastforce
    show ?thesis
      using poll False idle poll_held_effect [OF inv Some send res] Some send res
      by (auto simp: poll_message_def poll_message_inner_def Let_def split: option.splits if_splits)
  qed
qed

lemma poll_message_blocked:
  assumes "blocking q" "get_front q = Some front" "held_id front \<noteq> i" "i \<notin> resolved q"
  shows "poll_message i reachable q c = (Some Pending, q, c)"
  using assms by (simp add: poll_message_def poll_message_inner_def Let_def)

lemma poll_message_held:
  assumes inv: "queue_inv q" and open_: "blocking q \<Longrightarrow> \<exists>f. get_front q = Some f \<and> held_id f = i"
    and hm: "hm_get (hold_messages q) i = Some hm" "i \<notin> resolved q"
    and send: "send_unsent reachable hm c = (hm', c1)" and res: "hold_is_resolved hm' c1 = (b, c2)"
  shows "poll_message i reachable q c =
    (Some (if b then Ready else Pending),
     q\<lparr>hold_messages := hm_insert i hm' (hold_messages q),
       resolved := (if b then insert i (resolved q) else resolved q)\<rparr>, c2)"
  using open_ hm send res by (auto simp: poll_message_def poll_message_inner_def Let_def)

section \<open>Releasing messages\<close>

text \<open>
  The contract of every operation that lets messages go: the queue released exactly the
  messages \<open>ms\<close>, in this order.  Each was held, its sender is answered once with the result of
  its final status map, it is archived once, a message that is not \<open>Durable\<close> goes only when
  every endpoint reached the expected state, and the messages that stay are the same messages
  in the same order.
\<close>

definition statuses_resolved :: "hold_message \<Rightarrow> bool" where
  "statuses_resolved hm \<longleftrightarrow>
    (\<forall>st \<in> snd ` set (held_status hm). status_is_resolved st (expect (held_wait_ack hm)))"

definition may_release :: "hold_message \<Rightarrow> bool" where
  "may_release hm \<longleftrightarrow> target_kind (header (held_message hm)) = Durable \<or> statuses_resolved hm"

definition answers :: "proposal_context \<Rightarrow> hold_message list \<Rightarrow> (message_id \<times> wait_ack_result) list" where
  "answers c ms = (if ctx_handle c = None then [] else map (\<lambda>m. (held_id m, hold_resolve m)) ms)"

definition same_message :: "hold_message option \<Rightarrow> hold_message option \<Rightarrow> bool" where
  "same_message a b \<longleftrightarrow> map_option held_message a = map_option held_message b"

definition releases ::
  "message_queue \<Rightarrow> proposal_context \<Rightarrow> hold_message list \<Rightarrow> message_queue \<Rightarrow> proposal_context \<Rightarrow> bool" where
  "releases q c ms q' c' \<longleftrightarrow>
    queue_inv q' \<and> ctx_frame c c' \<and> blocking q' = blocking q \<and>
    acks c' = acks c @ answers c ms \<and> archived c' = archived c @ map held_id ms \<and>
    distinct (map held_id ms) \<and>
    time_id q' = filter (\<lambda>p. snd p \<notin> held_id ` set ms) (time_id q) \<and>
    (\<forall>m \<in> set ms. same_message (hm_get (hold_messages q) (held_id m)) (Some m) \<and> may_release m) \<and>
    (\<forall>j. same_message (hm_get (hold_messages q') j)
           (if j \<in> held_id ` set ms then None else hm_get (hold_messages q) j))"

lemma same_message_simps [simp]:
  "same_message a a" "same_message None b \<longleftrightarrow> b = None" "same_message a None \<longleftrightarrow> a = None"
  "same_message (Some m) (Some m') \<longleftrightarrow> held_message m = held_message m'"
  by (auto simp: same_message_def)

lemma same_message_trans: "same_message a b \<Longrightarrow> same_message b c \<Longrightarrow> same_message a c"
  by (simp add: same_message_def)

lemma answers_simps [simp]: "answers c [] = []" "answers c (ms @ ns) = answers c ms @ answers c ns"
  by (simp_all add: answers_def)

lemma answers_frame: "ctx_frame c d \<Longrightarrow> answers d ms = answers c ms"
  by (simp add: answers_def ctx_frame_handle)

lemma releases_refl: "queue_inv q \<Longrightarrow> releases q c [] q c"
  by (simp add: releases_def)

lemma releasesD:
  assumes "releases q c ms q' c'"
  shows "queue_inv q'" "ctx_frame c c'" "blocking q' = blocking q" "acks c' = acks c @ answers c ms"
    "archived c' = archived c @ map held_id ms" "distinct (map held_id ms)"
    "time_id q' = filter (\<lambda>p. snd p \<notin> held_id ` set ms) (time_id q)"
    "\<forall>m \<in> set ms. same_message (hm_get (hold_messages q) (held_id m)) (Some m) \<and> may_release m"
    "\<forall>j. same_message (hm_get (hold_messages q') j)
      (if j \<in> held_id ` set ms then None else hm_get (hold_messages q) j)"
  using assms unfolding releases_def by blast+

lemma releases_trans:
  assumes 1: "releases q c ms q1 c1" and 2: "releases q1 c1 ns q2 c2"
  shows "releases q c (ms @ ns) q2 c2"
proof -
  have kept: "same_message (hm_get (hold_messages q1) j)
      (if j \<in> held_id ` set ms then None else hm_get (hold_messages q) j)" for j
    using 1 by (simp add: releases_def)
  have held: "same_message (hm_get (hold_messages q1) (held_id m)) (Some m)" "may_release m"
    if "m \<in> set ns" for m using 2 that by (simp_all add: releases_def)
  have new: "held_id m \<notin> held_id ` set ms \<and> same_message (hm_get (hold_messages q) (held_id m)) (Some m)"
    if "m \<in> set ns" for m
    using held(1) [OF that] kept [of "held_id m"]
    by (auto simp: same_message_def split: if_splits dest!: sym [of "Some _"])
  have "same_message (hm_get (hold_messages q2) j)
      (if j \<in> held_id ` set (ms @ ns) then None else hm_get (hold_messages q) j)" for j
  proof -
    have "same_message (hm_get (hold_messages q2) j)
        (if j \<in> held_id ` set ns then None else hm_get (hold_messages q1) j)"
      using 2 by (simp add: releases_def)
    with kept [of j] show ?thesis by (auto simp: image_Un same_message_def split: if_splits)
  qed
  moreover have "held_id ` set ms \<inter> held_id ` set ns = {}"
    using new [THEN conjunct1] by (simp add: disjoint_iff image_iff) metis
  then have "distinct (map held_id (ms @ ns))"
    using releasesD(6) [OF 1] releasesD(6) [OF 2] by simp
  moreover have "time_id q2 = filter (\<lambda>p. snd p \<notin> held_id ` set (ms @ ns)) (time_id q)"
    unfolding releasesD(7) [OF 2] releasesD(7) [OF 1] filter_filter by (rule filter_cong) auto
  moreover have "\<forall>m \<in> set (ms @ ns). same_message (hm_get (hold_messages q) (held_id m)) (Some m) \<and> may_release m"
    using releasesD(8) [OF 1] new held(2) by auto
  moreover have "acks c2 = acks c @ answers c (ms @ ns)" "archived c2 = archived c @ map held_id (ms @ ns)"
    using releasesD(4,5) [OF 1] releasesD(4,5) [OF 2] answers_frame [OF releasesD(2) [OF 1]] by simp_all
  moreover have "blocking q2 = blocking q" "ctx_frame c c2"
    using releasesD(3) [OF 1] releasesD(3) [OF 2] ctx_frame_trans [OF releasesD(2) [OF 1] releasesD(2) [OF 2]]
    by simp_all
  ultimately show ?thesis
    unfolding releases_def using releasesD(1) [OF 2] by blast
qed

lemma settle_effect:
  "ctx_frame c (settle i m c)" "archived (settle i m c) = archived c @ [i]"
  "acks (settle i m c) = acks c @ (if ctx_handle c = None then [] else [(i, hold_resolve m)])"
  unfolding settle_def
  by (rule ctx_frame_trans [OF ctx_frame_resolve ctx_frame_push]) (simp_all add: archived_push acks_resolve)

lemma releases_quiet:
  assumes "queue_inv q'" "ctx_quiet c c'" "blocking q' = blocking q" "time_id q' = time_id q"
    "\<And>j. same_message (hm_get (hold_messages q') j) (hm_get (hold_messages q) j)"
  shows "releases q c [] q' c'"
  using assms by (simp add: releases_def ctx_quiet_def)

lemma releases_poll:
  assumes "poll_effect i q c r q' c'"
  shows "releases q c [] q' c'"
  using assms by (intro releases_quiet) (simp_all add: poll_effect_def same_message_def)

lemma time_id_drop:
  assumes inv: "queue_inv q" and it: "hm_get (id_time q) i = Some t"
  shows "filter (\<lambda>p. fst p \<noteq> t) (time_id q) = filter (\<lambda>p. snd p \<noteq> i) (time_id q)"
proof (rule filter_cong [OF refl])
  fix p assume p: "p \<in> set (time_id q)"
  have "(t, i) \<in> set (time_id q)"
    using it queue_invD(4) [OF inv] by simp
  with p show "(fst p \<noteq> t) = (snd p \<noteq> i)"
    using queue_invD(4) [OF inv, of "fst p" i] queue_invD(3) [OF inv] it timed_sorted_inj
    by (cases p) auto
qed

lemma releases_pop:
  assumes inv: "queue_inv q" and tid: "time_id q = (t, i) # rest"
    and hm: "get_front q = Some hm" and rel: "may_release hm"
  obtains q' where "queue_pop q = Inr (Some hm, q')" "releases q c [hm] q' (settle (held_id hm) hm c)"
    "resolved q' = resolved q - {i}" "time_id q' = rest" "held_id hm = i"
proof -
  from queue_pop_Cons [OF inv tid] obtain q' where q':
    "hm_get (hold_messages q) i = Some hm" "held_id hm = i" "queue_pop q = Inr (Some hm, q')"
    "queue_inv q'" "time_id q' = rest" "blocking q' = blocking q"
    "hm_get (hold_messages q') = (hm_get (hold_messages q))(i := None)"
    "resolved q' = resolved q - {i}"
    using hm by (metis option.inject)
  have it: "hm_get (id_time q) i = Some t"
    using queue_invD(4) [OF inv, of t i] tid by simp
  have "rest = filter (\<lambda>p. fst p \<noteq> t) (time_id q)"
    using queue_invD(3) [OF inv] tid by (auto intro!: filter_True [symmetric])
  then have "time_id q' = filter (\<lambda>p. snd p \<noteq> i) (time_id q)"
    using time_id_drop [OF inv it] q'(5) by simp
  then have "releases q c [hm] q' (settle (held_id hm) hm c)"
    using q' rel by (simp add: releases_def settle_effect answers_def)
  with that q' show thesis by blast
qed

lemma releases_remove:
  assumes inv: "queue_inv q" and hm: "hm_get (hold_messages q) i = Some hm" "i \<notin> resolved q"
    and rel: "may_release hm"
  obtains q' where "queue_remove i q = Inr (Some hm, q')" "releases q c [hm] q' (settle i hm c)"
    "resolved q' = resolved q" "\<And>j. j \<noteq> i \<Longrightarrow> hm_get (hold_messages q') j = hm_get (hold_messages q) j"
proof -
  from queue_remove_Some [OF inv hm] obtain q' t where q': "queue_remove i q = Inr (Some hm, q')"
    "queue_inv q'" "blocking q' = blocking q"
    "hm_get (hold_messages q') = (hm_get (hold_messages q))(i := None)"
    "hm_get (id_time q) i = Some t" "time_id q' = timed_remove t (time_id q)" "resolved q' = resolved q"
    by metis
  have "time_id q' = filter (\<lambda>p. snd p \<noteq> i) (time_id q)"
    using q'(6) time_id_drop [OF inv q'(5)] queue_invD(3) [OF inv] by (simp add: timed_remove_filter)
  then have "releases q c [hm] q' (settle i hm c)"
    using q' hm rel queue_invD(7) [OF inv hm(1)] by (simp add: releases_def settle_effect answers_def)
  with that q' show thesis by auto
qed

text \<open>What is marked resolved may go.\<close>

definition resolved_ready :: "message_queue \<Rightarrow> bool" where
  "resolved_ready q \<longleftrightarrow>
    (\<forall>i \<in> resolved q. \<forall>hm. hm_get (hold_messages q) i = Some hm \<longrightarrow> may_release hm)"

lemma hold_is_resolved_may_release: "hold_is_resolved hm c = (True, c') \<Longrightarrow> may_release hm"
  by (auto simp: hold_is_resolved_def may_release_def statuses_resolved_def
      split: message_target_kind.splits)

lemma poll_message_resolved_ready:
  assumes "poll_message i reachable q c = (r, q', c')" "resolved_ready q"
  shows "resolved_ready q'"
proof (cases "i \<in> resolved q")
  case True
  then show ?thesis using assms by (simp add: poll_message_def)
next
  case False
  then show ?thesis
    using assms hold_is_resolved_may_release
    by (fastforce simp: poll_message_def poll_message_inner_def Let_def resolved_ready_def
        split: option.splits if_splits prod.splits poll.splits)
qed

text \<open>On a blocking queue at most the front is marked resolved.\<close>

definition resolved_front :: "message_queue \<Rightarrow> bool" where
  "resolved_front q \<longleftrightarrow> (\<forall>i \<in> resolved q. \<exists>f. get_front q = Some f \<and> held_id f = i)"

text \<open>
  A message is stuck when it is done but still in the queue, although nothing is in front of it
  that it has to wait for.
\<close>

definition stuck :: "message_queue \<Rightarrow> message_id set" where
  "stuck q = {i. \<exists>hm. hm_get (hold_messages q) i = Some hm \<and>
    target_kind (header (held_message hm)) \<noteq> Durable \<and> statuses_resolved hm \<and>
    (blocking q \<longrightarrow> get_front q = Some hm)}"

lemma get_front_held:
  assumes "queue_inv q" "get_front q = Some f"
  shows "hm_get (hold_messages q) (held_id f) = Some f"
  using assms(2) queue_invD(7) [OF assms(1)]
  by (cases "time_id q") (auto simp: get_front_def)

lemma hold_is_resolved_not_done:
  "hold_is_resolved hm c = (False, c') \<Longrightarrow> target_kind (header (held_message hm)) \<noteq> Durable \<Longrightarrow>
    \<not> statuses_resolved hm"
  by (auto simp: hold_is_resolved_def statuses_resolved_def split: message_target_kind.splits)

lemma stuck_blocking: "queue_inv q \<Longrightarrow> blocking q \<Longrightarrow> get_front q = Some f \<Longrightarrow> stuck q \<subseteq> {held_id f}"
  using queue_invD(7) by (fastforce simp: stuck_def)

lemma stuck_other:
  assumes "queue_inv q'" "time_id q' = time_id q" "blocking q' = blocking q"
    "\<And>j. j \<noteq> i \<Longrightarrow> hm_get (hold_messages q') j = hm_get (hold_messages q) j"
  shows "stuck q' - {i} \<subseteq> stuck q"
proof
  fix j assume "j \<in> stuck q' - {i}"
  then obtain hm where hm: "j \<noteq> i" "hm_get (hold_messages q') j = Some hm"
    "target_kind (header (held_message hm)) \<noteq> Durable" "statuses_resolved hm"
    "blocking q' \<longrightarrow> get_front q' = Some hm" by (auto simp: stuck_def)
  have "get_front q = Some hm" if front: "get_front q' = Some hm"
  proof -
    obtain t k rest where tid: "time_id q' = (t, k) # rest"
      using front by (cases "time_id q'") (auto simp: get_front_def)
    with front have "hm_get (hold_messages q') k = Some hm" by (simp add: get_front_def)
    then have "k = j" using hm(2) queue_invD(7) [OF assms(1)] by metis
    with front tid hm(1) show ?thesis by (simp add: get_front_def assms(2) [symmetric] flip: assms(4))
  qed
  with hm show "j \<in> stuck q" by (auto simp: stuck_def assms(3) simp flip: assms(4))
qed

lemma stuck_removed:
  assumes "\<not> blocking q" "\<not> blocking q'" "hm_get (hold_messages q') i = None"
    "\<And>j. j \<noteq> i \<Longrightarrow> hm_get (hold_messages q') j = hm_get (hold_messages q) j"
  shows "stuck q' \<subseteq> stuck q - {i}"
proof
  fix j assume j: "j \<in> stuck q'"
  then have "j \<noteq> i" using assms(3) by (auto simp: stuck_def)
  with j show "j \<in> stuck q - {i}" using assms(1,2,4) by (simp add: stuck_def)
qed

lemma poll_message_stuck:
  assumes inv: "queue_inv q" and poll: "poll_message i reachable q c = (r, q', c')" and r: "r \<noteq> Some Ready"
  shows "stuck q' \<subseteq> stuck q - {i}"
proof -
  have i: "i \<notin> resolved q" using poll r by (auto simp: poll_message_def)
  consider (behind) f where "blocking q" "get_front q = Some f" "held_id f \<noteq> i"
    | (absent) "hm_get (hold_messages q) i = None"
    | (held) hm where "blocking q \<Longrightarrow> get_front q = Some hm" "hm_get (hold_messages q) i = Some hm"
  proof (cases "hm_get (hold_messages q) i")
    case (Some hm)
    have "(i \<in> snd ` set (time_id q))"
      using Some queue_inv_id_time [OF inv, of i] queue_invD(4) [OF inv, of _ i] by force
    then obtain t j rest where "time_id q = (t, j) # rest" by (cases "time_id q") auto
    then obtain f where "get_front q = Some f" using queue_pop_Cons [OF inv] by metis
    with get_front_held [OF inv this] Some that(1,3) show thesis by (metis option.inject)
  qed
  then show ?thesis
  proof cases
    case behind
    then show ?thesis
      using poll_message_blocked [OF behind i] poll stuck_blocking [OF inv behind(1,2)] by auto
  next
    case absent
    then have "q' = q" using poll i
      by (auto simp: poll_message_def poll_message_inner_def Let_def split: option.splits if_splits)
    with absent show ?thesis by (auto simp: stuck_def)
  next
    case held
    obtain hm' c1 where send: "send_unsent reachable hm c = (hm', c1)" by fastforce
    obtain b c2 where res: "hold_is_resolved hm' c1 = (b, c2)" by fastforce
    have "held_id hm = i" using queue_invD(7) [OF inv held(2)] .
    note p = poll_message_held [OF inv _ held(2) i send res]
    have b: "\<not> b" and q': "q' = q\<lparr>hold_messages := hm_insert i hm' (hold_messages q)\<rparr>"
      using p held(1) \<open>held_id hm = i\<close> poll r by (auto split: if_splits)
    have "i \<notin> stuck q'"
      using b hold_is_resolved_not_done res by (auto simp: stuck_def q')
    moreover have "j \<in> stuck q" if "j \<in> stuck q'" "j \<noteq> i" for j
    proof (cases "blocking q")
      case True
      have "queue_inv q'" using poll_message_effect [OF inv poll] by (simp add: poll_effect_def)
      moreover have "get_front q' = Some hm'"
        using held(1) [OF True] queue_invD(7) [OF inv, of "snd (hd (time_id q))" hm] \<open>held_id hm = i\<close>
        by (cases "time_id q") (auto simp: get_front_def q')
      ultimately show ?thesis
        using stuck_blocking [of q' hm'] that True send_unsent_held(1) [OF send] \<open>held_id hm = i\<close>
        by (auto simp: q')
    next
      case False
      with that show ?thesis by (auto simp: stuck_def q')
    qed
    ultimately show ?thesis by blast
  qed
qed

lemma poll_front_only:
  assumes "queue_inv q" "poll_message i reachable q c = (r, q', c')" "blocking q'" "resolved q = {}"
  shows "resolved_front q'"
proof (cases "r = Some Ready")
  case True
  note eff = poll_message_effect [OF assms(1,2)]
  have "blocking q" using eff assms(3) by (simp add: poll_effect_def)
  with assms(2,4) True obtain f where f: "get_front q = Some f" "held_id f = i"
    by (auto simp: poll_message_def poll_message_inner_def Let_def split: option.splits if_splits)
  then obtain t j rest where tid: "time_id q = (t, j) # rest"
    by (cases "time_id q") (auto simp: get_front_def)
  have "j = i" using f tid queue_pop_Cons [OF assms(1) tid] by (metis option.inject)
  moreover have "queue_inv q'" "time_id q' = (t, j) # rest"
    using eff tid by (simp_all add: poll_effect_def)
  ultimately have "\<exists>f. get_front q' = Some f \<and> held_id f = i" using queue_pop_Cons by metis
  then show ?thesis using eff assms(4) True by (simp add: resolved_front_def poll_effect_def)
next
  case False
  then show ?thesis
    using poll_message_effect [OF assms(1,2)] assms(4) by (simp add: poll_effect_def resolved_front_def)
qed

text \<open>
  The loop of a blocking queue returns, it releases a prefix of the queue in the order of time,
  and it stops with nothing marked resolved, at a front message that is not ready.
\<close>

lemma blocking_pop_cases:
  assumes inv: "queue_inv q" and ready: "resolved_ready q" and front: "resolved_front q"
  obtains (stop) q' c' where "blocking_pop reachable q c = Inr (None, q', c')"
      "releases q c [] q' c'" "resolved q' = {}" "time_id q' = time_id q" "blocking q \<Longrightarrow> stuck q' = {}"
  | (go) m q' c' t where "blocking_pop reachable q c = Inr (Some m, q', c')"
      "releases q c [m] q' (settle (held_id m) m c')" "resolved q' = {}"
      "time_id q = (t, held_id m) # time_id q'"
proof (cases "time_id q")
  case Nil
  then have "get_front q = None" "resolved q = {}"
    using front by (auto simp: get_front_def resolved_front_def)
  then show thesis
    using stop [of q c] releases_refl [OF inv] by (simp add: blocking_pop_def stuck_def)
next
  case (Cons p rest)
  obtain t i where tid: "time_id q = (t, i) # rest" using Cons by (cases p) simp
  obtain f where f: "get_front q = Some f" "held_id f = i"
    using queue_pop_Cons [OF inv tid] by metis
  obtain r q1 c1 where poll: "poll_message i reachable q c = (r, q1, c1)" by (metis prod_cases3)
  note eff = poll_message_effect [OF inv poll]
  have rel: "releases q c [] q1 c1" and inv1: "queue_inv q1" and tid1: "time_id q1 = (t, i) # rest"
    using releases_poll [OF eff] eff tid by (simp_all add: poll_effect_def)
  have res: "resolved q \<subseteq> {i}" using front f by (auto simp: resolved_front_def)
  show thesis
  proof (cases "r = Some Ready")
    case True
    from queue_pop_Cons [OF inv1 tid1] obtain f1 where f1: "get_front q1 = Some f1"
      "hm_get (hold_messages q1) i = Some f1" by metis
    have "may_release f1"
      using poll_message_resolved_ready [OF poll ready] eff True f1(2)
      by (auto simp: resolved_ready_def poll_effect_def)
    from releases_pop [OF inv1 tid1 f1(1) this] obtain q2 where q2: "queue_pop q1 = Inr (Some f1, q2)"
      "releases q1 c1 [f1] q2 (settle (held_id f1) f1 c1)" "resolved q2 = resolved q1 - {i}"
      "time_id q2 = rest" "held_id f1 = i" by metis
    have "blocking_pop reachable q c = Inr (Some f1, q2, c1)"
      using f poll True q2(1) by (simp add: blocking_pop_def)
    moreover have "resolved q2 = {}"
      using q2(3) eff res by (auto simp: poll_effect_def)
    ultimately show thesis
      using go [of f1 q2 c1 t] releases_trans [OF rel q2(2)] q2(4,5) tid by simp
  next
    case False
    have "blocking_pop reachable q c = Inr (None, q1, c1)"
      using f poll False by (simp add: blocking_pop_def split: option.split poll.split)
    moreover have "i \<notin> resolved q" using poll False by (auto simp: poll_message_def)
    then have "resolved q1 = {}" using eff res False by (auto simp: poll_effect_def)
    moreover have "stuck q1 = {}" if "blocking q"
      using poll_message_stuck [OF inv poll False] stuck_blocking [OF inv that f(1)] f(2) by blast
    ultimately show thesis using stop rel tid tid1 by simp
  qed
qed

lemma flush_blocking_releases:
  assumes "queue_inv q" "resolved_ready q" "resolved_front q"
  shows "\<exists>ms q' c'. flush_blocking reachable q c = Inr (q', c') \<and> releases q c ms q' c' \<and>
    resolved q' = {} \<and> (blocking q \<longrightarrow> stuck q' = {}) \<and>
    map snd (time_id q) = map held_id ms @ map snd (time_id q')"
  using assms
proof (induction reachable q c rule: flush_blocking.induct)
  case (1 reachable q c)
  from 1(2-4) show ?case
  proof (cases rule: blocking_pop_cases [where reachable = reachable and c = c])
    case (stop q' c')
    then have "flush_blocking reachable q c = Inr (q', c')"
      by (simp add: flush_blocking.simps [of reachable q c])
    with stop show ?thesis by (intro exI [of _ "[]"]) simp
  next
    case (go m q' c' t)
    have "queue_inv q'" "resolved_ready q'" "resolved_front q'"
      using go by (simp_all add: releases_def resolved_ready_def resolved_front_def)
    from 1(1) [OF go(1) refl refl refl this] obtain ms q2 c2 where
      IH: "flush_blocking reachable q' (settle (held_id m) m c') = Inr (q2, c2)"
      "releases q' (settle (held_id m) m c') ms q2 c2" "resolved q2 = {}"
      "blocking q' \<longrightarrow> stuck q2 = {}"
      "map snd (time_id q') = map held_id ms @ map snd (time_id q2)" by blast
    have "flush_blocking reachable q c = Inr (q2, c2)"
      by (simp add: flush_blocking.simps [of reachable q c] go(1) IH(1))
    moreover have "releases q c (m # ms) q2 c2" using releases_trans [OF go(2) IH(2)] by simp
    ultimately show ?thesis using IH(3-5) go(4) releasesD(3) [OF go(2)] by (intro exI [of _ "m # ms"]) simp
  qed
qed

lemma flush_ids_releases:
  assumes "queue_inv q" "resolved q = {}" "distinct is"
    "\<And>i. i \<in> set is \<Longrightarrow> \<exists>hm. hm_get (hold_messages q) i = Some hm \<and> may_release hm"
  shows "\<exists>ms q' c'. flush_ids is q c = Inr (q', c') \<and> releases q c ms q' c' \<and> resolved q' = {} \<and>
    map held_id ms = is \<and>
    (\<forall>j. j \<notin> set is \<longrightarrow> hm_get (hold_messages q') j = hm_get (hold_messages q) j)"
  using assms
proof (induction "is" q c rule: flush_ids.induct)
  case (1 q c)
  then show ?case using releases_refl by fastforce
next
  case (2 i "is" q c)
  obtain hm where hm: "hm_get (hold_messages q) i = Some hm" "may_release hm"
    using 2(5) [of i] by auto
  from releases_remove [OF 2(2) hm(1) _ hm(2), where c = c] 2(3) obtain q1 where
    q1: "queue_remove i q = Inr (Some hm, q1)" "releases q c [hm] q1 (settle i hm c)"
      "resolved q1 = resolved q" "\<And>j. j \<noteq> i \<Longrightarrow> hm_get (hold_messages q1) j = hm_get (hold_messages q) j"
    by (metis empty_iff)
  have "\<exists>h. hm_get (hold_messages q1) j = Some h \<and> may_release h" if "j \<in> set is" for j
    using 2(4) 2(5) [of j] that q1(4) [of j] by (cases "j = i") auto
  with 2(1) [of "(Some hm, q1)" "Some hm" q1] q1 2(3,4) obtain ms q2 c2 where
    IH: "flush_ids is q1 (settle i hm c) = Inr (q2, c2)" "releases q1 (settle i hm c) ms q2 c2"
      "resolved q2 = {}" "map held_id ms = is"
      "\<forall>j. j \<notin> set is \<longrightarrow> hm_get (hold_messages q2) j = hm_get (hold_messages q1) j"
    by (auto simp: releases_def)
  have "held_id hm = i" using queue_invD(7) [OF 2(2) hm(1)] .
  then show ?case
    using releases_trans [OF q1(2) IH(2)] IH q1(1,4) by (intro exI [of _ "hm # ms"]) simp
qed

lemma releases_resolved_irrelevant [simp]:
  "releases (q\<lparr>resolved := r\<rparr>) c ms q' c' \<longleftrightarrow> releases q c ms q' c'"
  by (simp add: releases_def cong: if_cong)

lemma flush_releases_aux:
  assumes inv: "queue_inv q" and ready: "resolved_ready q" and front: "blocking q \<Longrightarrow> resolved_front q"
    and pl: "platform_ok (node_platform (ctx_node c))"
  shows "\<exists>ms q' c'. flush reachable q c = Inr (q', c') \<and> releases q c ms q' c' \<and> resolved q' = {} \<and>
    (if blocking q then map snd (time_id q) = map held_id ms @ map snd (time_id q') \<and> stuck q' = {}
     else set (map held_id ms) = resolved q \<and>
       (\<forall>j. j \<notin> resolved q \<longrightarrow> hm_get (hold_messages q') j = hm_get (hold_messages q) j))"
proof (cases "blocking q")
  case True
  then show ?thesis
    using flush_blocking_releases [OF inv ready front [OF True], of reachable c] by (auto simp: flush_def)
next
  case False
  let ?q = "q\<lparr>resolved := {}\<rparr>" and ?is = "id_order (node_platform (ctx_node c)) (resolved q)"
  have "finite (resolved q)"
    using queue_invD(9) [OF inv] finite_dom_map_of by (rule finite_subset)
  then have ids: "set ?is = resolved q" "distinct ?is"
    using pl by (simp_all add: platform_ok_def)
  have q: "queue_inv ?q" using inv by (simp add: queue_inv_def)
  have "\<exists>hm. hm_get (hold_messages ?q) i = Some hm \<and> may_release hm" if "i \<in> set ?is" for i
    using that ids(1) ready queue_invD(9) [OF inv] by (auto simp: resolved_ready_def)
  from flush_ids_releases [OF q _ ids(2) this, of c] obtain ms q' c' where
    "flush_ids ?is ?q c = Inr (q', c')" "releases ?q c ms q' c'" "resolved q' = {}" "map held_id ms = ?is"
    "\<forall>j. j \<notin> resolved q \<longrightarrow> hm_get (hold_messages q') j = hm_get (hold_messages q) j"
    using ids(1) by auto
  then show ?thesis
    using False ids(1)
    by (intro exI [of _ ms] exI [of _ q'] exI [of _ c'])
      (simp add: flush_def swap_out_resolved_def)
qed

section \<open>What the queue promises\<close>

text \<open>
  (C5) \<open>MessageQueue::flush\<close> returns (its loop ends, no index is missing, no counter underflows)
  and releases exactly the right messages: on a blocking queue a prefix in the order of time,
  on a non-blocking queue exactly those marked resolved.  Each released message is answered and
  archived once, the others stay in order, and nothing is left marked.
\<close>

theorem flush_releases:
  assumes "queue_inv q" "resolved_ready q" "blocking q \<longrightarrow> resolved_front q"
    "platform_ok (node_platform (ctx_node c))"
  shows "\<exists>ms q' c'. flush reachable q c = Inr (q', c') \<and> releases q c ms q' c' \<and> resolved q' = {} \<and>
    (if blocking q then map snd (time_id q) = map held_id ms @ map snd (time_id q')
     else set (map held_id ms) = resolved q)"
  using flush_releases_aux [of q c reachable] assms by (cases "blocking q") auto

text \<open>
  (C29) \<open>update_ack\<close> touches the acknowledged message only.  There, the status of the sender is
  replaced by the reported one, whatever it was, unless it was already resolved; the guards of
  the \<open>match\<close> on the old status have no effect.
\<close>

theorem update_ack_status:
  "hm_get (hold_messages (update_ack i from kind q)) j =
    (if j = i then map_option (\<lambda>hm. set_held_status
       (if case hm_get (held_status hm) from of None \<Rightarrow> False
             | Some st \<Rightarrow> status_is_resolved st (expect (held_wait_ack hm))
        then held_status hm else hm_insert from kind (held_status hm)) hm)
       (hm_get (hold_messages q) i)
     else hm_get (hold_messages q) j)"
proof -
  have "update_ack_held from kind = (\<lambda>hm. set_held_status
     (if case hm_get (held_status hm) from of None \<Rightarrow> False
           | Some st \<Rightarrow> status_is_resolved st (expect (held_wait_ack hm))
      then held_status hm else hm_insert from kind (held_status hm)) hm)"
    by (rule ext)
      (auto simp: update_ack_held_def update_ack_match_def is_failed_def
        split: message_status_kind.splits option.splits)
  then show ?thesis by (simp add: update_ack_def)
qed

text \<open>
  (C28) \<open>send_unsent\<close> hands the message to exactly the endpoints that are reachable from this
  node and had not been sent to, once each, and marks exactly those \<open>Sending\<close>.
\<close>

theorem send_unsent_exact:
  assumes "hm_wf (held_status hm)" "ctx_handle c \<noteq> None"
  shows "\<exists>hm' c' eps. send_unsent reachable hm c = (hm', c') \<and>
    dispatches c' = dispatches c @ map (\<lambda>ep. (held_id hm, ep)) eps \<and> distinct eps \<and>
    set eps = {ep. hm_get (held_status hm) ep = Some Unsent \<and> ep \<in> reachable} \<and>
    held_message hm' = held_message hm \<and>
    (\<forall>ep. hm_get (held_status hm') ep =
       (if ep \<in> set eps then Some Sending else hm_get (held_status hm) ep))"
proof -
  let ?eps = "to_send reachable (held_status hm)"
  obtain hm' c' where send: "send_unsent reachable hm c = (hm', c')" by fastforce
  have "distinct ?eps"
    using assms(1) by (rule distinct_map_filter)
  moreover have eps: "set ?eps = {ep. hm_get (held_status hm) ep = Some Unsent \<and> ep \<in> reachable}"
    using hm_in_set_iff [OF assms(1)] by (force simp: is_unsent_def)
  moreover have "hm_get (held_status hm') ep =
       (if ep \<in> set ?eps then Some Sending else hm_get (held_status hm) ep)" for ep
    unfolding eps using send_unsent_eq(1) [OF send]
      hm_get_map_values [of "send_status reachable" "held_status hm" ep]
    by (cases "hm_get (held_status hm) ep") (simp_all add: hm_map_values_def is_unsent_def)
  moreover have "dispatches c' = dispatches c @ map (\<lambda>ep. (held_id hm, ep)) ?eps"
    using send_unsent_eq(3) [OF send] assms(2) by simp
  ultimately show ?thesis
    using send send_unsent_held(1) [OF send]
    by (intro exI [of _ hm'] exI [of _ c'] exI [of _ ?eps] conjI allI)
qed

text \<open>
  Head-of-line blocking: on a blocking queue, polling a message that is not at the front
  (and was not marked before) changes nothing and sends nothing, so no message is handed out
  before its predecessors were released.
\<close>

theorem blocking_queue_head_of_line:
  assumes "queue_inv q" "blocking q" "time_id q = (t, j) # rest" "i \<noteq> j" "i \<notin> resolved q"
  shows "poll_message i reachable q c = (Some Pending, q, c)"
proof -
  obtain f where "get_front q = Some f" "held_id f = j"
    using queue_pop_Cons [OF assms(1,3)] by metis
  then show ?thesis using poll_message_blocked assms(2,4,5) by metis
qed

text \<open>
  Two messages that read the same clock value: \<open>Timed\<close> compares times only, so the second
  is held and counted but never enters the order of time.  \<open>pop\<close> and \<open>get_front\<close> cannot see it,
  and the invariant of the queue is lost.
\<close>

theorem same_time_message_lost:
  assumes "queue_inv q" "fst (ctx_now c) \<in> fst ` set (time_id q)"
    "hm_get (hold_messages q) (held_id hm) = None"
  shows "time_id (fst (queue_push hm q c)) = time_id q \<and>
    hm_get (hold_messages (fst (queue_push hm q c))) (held_id hm) = Some hm \<and>
    queue_len (fst (queue_push hm q c)) = queue_len q + 1 \<and>
    get_front (fst (queue_push hm q c)) = get_front q \<and>
    \<not> queue_inv (fst (queue_push hm q c))"
proof -
  let ?q = "fst (queue_push hm q c)" and ?i = "held_id hm"
  have tid: "time_id ?q = time_id q"
    using timed_insert_same_time [OF queue_invD(3) [OF assms(1)] assms(2)]
    by (simp add: queue_push_def Let_def case_prod_unfold)
  have held: "hm_get (hold_messages ?q) = (hm_get (hold_messages q))(?i \<mapsto> hm)"
    and len: "queue_len ?q = queue_len q + 1"
    by (simp_all add: queue_push_def Let_def case_prod_unfold queue_len_def)
  have none: "hm_get (id_time q) ?i = None"
    using queue_inv_id_time [OF assms(1), of ?i] assms(3) by auto
  then have not_in: "(t, ?i) \<notin> set (time_id q)" for t
    using queue_invD(4) [OF assms(1)] by simp
  have "get_front ?q = get_front q"
    using not_in [of "fst (hd (time_id q))"]
    by (auto simp: get_front_def tid held split: list.split prod.split)
  moreover have "\<not> queue_inv ?q"
  proof
    assume "queue_inv ?q"
    from queue_inv_id_time [OF this, of ?i] queue_invD(4) [OF this, of _ ?i] held tid not_in
    show False by auto
  qed
  ultimately show ?thesis using tid held len by simp
qed

section \<open>The queue as a first-in first-out queue\<close>

text \<open>
  The interface of a first-in first-out queue of a state \<open>'s\<close>: \<open>contents\<close> lists what is held,
  oldest first, \<open>fresh\<close> tells which element may be added.
\<close>

locale fifo =
  fixes inv :: "'s \<Rightarrow> bool" and contents :: "'s \<Rightarrow> 'a list" and fresh :: "'a \<Rightarrow> 'a list \<Rightarrow> bool"
    and push :: "'a \<Rightarrow> 's \<Rightarrow> 's" and pop :: "'s \<Rightarrow> ('a option \<times> 's) outcome"
  assumes push_inv: "inv s \<Longrightarrow> fresh x (contents s) \<Longrightarrow> inv (push x s)"
    and push_contents: "inv s \<Longrightarrow> fresh x (contents s) \<Longrightarrow> contents (push x s) = contents s @ [x]"
    and pop_empty: "inv s \<Longrightarrow> contents s = [] \<Longrightarrow> pop s = Inr (None, s)"
    and pop_first: "inv s \<Longrightarrow> contents s = x # xs \<Longrightarrow>
      \<exists>s'. pop s = Inr (Some x, s') \<and> inv s' \<and> contents s' = xs"
begin

fun fresh_all :: "'a list \<Rightarrow> 'a list \<Rightarrow> bool" where
  "fresh_all [] old \<longleftrightarrow> True"
| "fresh_all (x # xs) old \<longleftrightarrow> fresh x old \<and> fresh_all xs (old @ [x])"

lemma push_all:
  "inv s \<Longrightarrow> fresh_all xs (contents s) \<Longrightarrow>
    inv (fold push xs s) \<and> contents (fold push xs s) = contents s @ xs"
proof (induction xs arbitrary: s)
  case (Cons x xs)
  then have "inv (push x s)" "contents (push x s) = contents s @ [x]"
    by (simp_all add: push_inv push_contents)
  with Cons.IH [of "push x s"] Cons.prems(2) show ?case by simp
qed simp

lemma pop_in_order:
  assumes "inv s" "contents s = xs @ ys"
  shows "\<exists>s'. fold_outcome (\<lambda>_ (out, s). and_then (pop s) (\<lambda>(x, s'). Inr (out @ [x], s')))
      (replicate (length xs) ()) (out, s) = Inr (out @ map Some xs, s') \<and> inv s' \<and> contents s' = ys"
  using assms
proof (induction xs arbitrary: s out)
  case (Cons x xs)
  obtain s1 where "pop s = Inr (Some x, s1)" "inv s1" "contents s1 = xs @ ys"
    using pop_first [OF Cons.prems(1), of x "xs @ ys"] Cons.prems(2) by auto
  with Cons.IH [of s1 "out @ [Some x]"] show ?case by simp
qed simp

lemma first_in_first_out:
  assumes "inv s" "contents s = []" "fresh_all xs []"
  shows "\<exists>s'. fold_outcome (\<lambda>_ (out, s). and_then (pop s) (\<lambda>(x, s'). Inr (out @ [x], s')))
      (replicate (length xs) ()) ([], fold push xs s) = Inr (map Some xs, s') \<and> contents s' = []"
  using push_all [OF assms(1)] pop_in_order [of "fold push xs s" xs "[]" "[]"] assms(2,3) by auto

end

text \<open>
  The message queue is one, as long as the clock moves forward strictly: the state is the queue
  with the context whose clock it reads.
\<close>

definition clocked_inv :: "message_queue \<times> proposal_context \<Rightarrow> bool" where
  "clocked_inv s \<longleftrightarrow> queue_inv (fst s) \<and> strict_mono (clock (node_platform (ctx_node (snd s)))) \<and>
    (\<forall>p \<in> set (time_id (fst s)). fst p < fst (ctx_now (snd s)))"

definition queue_contents :: "message_queue \<Rightarrow> hold_message list" where
  "queue_contents q = map (\<lambda>p. the (hm_get (hold_messages q) (snd p))) (time_id q)"

definition fresh_message :: "hold_message \<Rightarrow> hold_message list \<Rightarrow> bool" where
  "fresh_message hm old \<longleftrightarrow> held_id hm \<notin> held_id ` set old \<and> hm_wf (held_status hm)"

abbreviation clocked_push :: "hold_message \<Rightarrow> message_queue \<times> proposal_context \<Rightarrow> message_queue \<times> proposal_context"
  where "clocked_push hm s \<equiv> queue_push hm (fst s) (snd s)"

abbreviation clocked_pop ::
  "message_queue \<times> proposal_context \<Rightarrow> (hold_message option \<times> message_queue \<times> proposal_context) outcome"
  where "clocked_pop s \<equiv> and_then (queue_pop (fst s)) (\<lambda>(m, q). Inr (m, q, snd s))"

lemma queue_contents_ids:
  assumes "queue_inv q"
  shows "map held_id (queue_contents q) = map snd (time_id q)"
proof -
  have "held_id (the (hm_get (hold_messages q) i)) = i" if "(t, i) \<in> set (time_id q)" for t i
    using that queue_invD(4) [OF assms, of t i] queue_inv_id_time [OF assms, of i] queue_invD(7) [OF assms]
    by auto
  then show ?thesis by (auto simp: queue_contents_def)
qed

lemma queue_inv_held_iff:
  assumes "queue_inv q"
  shows "hm_get (hold_messages q) i = None \<longleftrightarrow> i \<notin> snd ` set (time_id q)"
proof -
  have "(\<exists>t. (t, i) \<in> set (time_id q)) \<longleftrightarrow> (\<exists>hm. hm_get (hold_messages q) i = Some hm)"
    using queue_invD(4) [OF assms, of _ i] queue_inv_id_time [OF assms, of i] by simp
  then show ?thesis by force
qed

lemma queue_contents_cong:
  assumes "\<And>p. p \<in> set s \<Longrightarrow> hm_get h (snd p) = hm_get k (snd p)"
  shows "map (\<lambda>p. the (hm_get h (snd p))) s = map (\<lambda>p. the (hm_get k (snd p))) s"
  using assms by simp

lemma clocked_push_fresh:
  assumes inv: "clocked_inv s" and fresh: "fresh_message hm (queue_contents (fst s))"
  shows "clocked_inv (clocked_push hm s)"
    "queue_contents (fst (clocked_push hm s)) = queue_contents (fst s) @ [hm]"
proof -
  obtain q c where s: "s = (q, c)" by (cases s)
  let ?t = "fst (ctx_now c)" and ?c = "snd (ctx_now c)" and ?i = "held_id hm"
  have q: "queue_inv q" and late: "\<forall>p \<in> set (time_id q). fst p < ?t"
    and mono: "strict_mono (clock (node_platform (ctx_node c)))"
    using inv by (simp_all add: clocked_inv_def s)
  have new: "?i \<notin> snd ` set (time_id q)"
    using fresh queue_contents_ids [OF q] by (simp add: fresh_message_def s flip: set_map)
  have wf: "hm_wf (held_status hm)" using fresh by (simp add: fresh_message_def)
  have "entry_fresh ?i ?t q"
    using new late queue_inv_held_iff [OF q] by (auto simp: entry_fresh_def)
  note pushed = queue_inv_push [OF q this wf]
  have tid: "time_id (fst (queue_push hm q c)) = time_id q @ [(?t, ?i)]"
    using timed_insert_last [OF late] by (simp add: queue_push_def Let_def case_prod_unfold)
  have now: "?t < fst (ctx_now ?c)" "node_platform (ctx_node ?c) = node_platform (ctx_node c)"
    using mono by (simp_all add: ctx_now_def utc_now_def strict_mono_def)
  have "snd (queue_push hm q c) = ?c" by (simp add: queue_push_def Let_def case_prod_unfold)
  then show "clocked_inv (clocked_push hm s)"
    using pushed tid now late mono by (auto simp: clocked_inv_def s)
  have "hm_get (hold_messages (fst (queue_push hm q c))) = (hm_get (hold_messages q))(?i \<mapsto> hm)"
    by (simp add: queue_push_def Let_def case_prod_unfold)
  with new show "queue_contents (fst (clocked_push hm s)) = queue_contents (fst s) @ [hm]"
    by (force simp: queue_contents_def s tid)
qed

lemma clocked_pop_first:
  assumes inv: "clocked_inv s" and first: "queue_contents (fst s) = x # xs"
  shows "\<exists>s'. clocked_pop s = Inr (Some x, s') \<and> clocked_inv s' \<and> queue_contents (fst s') = xs"
proof -
  obtain q c where s: "s = (q, c)" by (cases s)
  have q: "queue_inv q" using inv by (simp add: clocked_inv_def s)
  obtain t i rest where tid: "time_id q = (t, i) # rest"
    using first by (cases "time_id q") (auto simp: queue_contents_def s)
  from queue_pop_Cons [OF q tid] obtain hm q' where pop: "hm_get (hold_messages q) i = Some hm"
    "queue_pop q = Inr (Some hm, q')" "queue_inv q'" "time_id q' = rest"
    "hm_get (hold_messages q') = (hm_get (hold_messages q))(i := None)" by metis
  have i: "i \<notin> snd ` set rest"
    using queue_inv_held_iff [OF pop(3), of i] pop(4,5) by simp
  have "queue_contents q' = map (\<lambda>p. the (hm_get (hold_messages q) (snd p))) rest"
    unfolding queue_contents_def pop(4) using i by (intro queue_contents_cong) (auto simp: pop(5))
  with first tid pop(1) have "x = hm" "queue_contents q' = xs"
    by (simp_all add: queue_contents_def s)
  then show ?thesis
    using pop inv tid by (simp add: s clocked_inv_def)
qed

interpretation lq: fifo clocked_inv "\<lambda>s. queue_contents (fst s)" fresh_message clocked_push clocked_pop
proof unfold_locales
  show "clocked_pop s = Inr (None, s)" if "queue_contents (fst s) = []" for s
    using that by (auto simp: queue_contents_def queue_pop_def)
qed (rule clocked_push_fresh clocked_pop_first; assumption)+

lemma fresh_all_distinct:
  "distinct (map held_id (old @ xs)) \<Longrightarrow> \<forall>x \<in> set xs. hm_wf (held_status x) \<Longrightarrow> lq.fresh_all xs old"
  by (induction xs arbitrary: old) (auto simp: fresh_message_def)

text \<open>
  (C27) The queue is first-in first-out: messages with different ids that are pushed into a new
  queue while the clock moves forward come out of \<open>pop\<close> in the order they went in, and leave it
  empty.
\<close>

theorem queue_first_in_first_out:
  assumes "strict_mono (clock (node_platform (ctx_node c)))"
    "distinct (map held_id xs)" "\<forall>x \<in> set xs. hm_wf (held_status x)"
  shows "\<exists>q' c'. fold_outcome (\<lambda>_ (out, q, c). and_then (queue_pop q) (\<lambda>(x, q'). Inr (out @ [x], q', c)))
      (replicate (length xs) ()) ([], fold (\<lambda>hm (q, c). queue_push hm q c) xs (queue_new b n, c))
    = Inr (map Some xs, q', c') \<and> time_id q' = []"
proof -
  have "clocked_inv (queue_new b n, c)"
    using assms(1) queue_inv_new by (simp add: clocked_inv_def queue_new_def)
  moreover have "lq.fresh_all xs []"
    using assms(2,3) by (intro fresh_all_distinct) simp_all
  moreover have "(\<lambda>_ (out, s). and_then (clocked_pop s) (\<lambda>(x, s'). Inr (out @ [x], s'))) =
      (\<lambda>(_::unit) (out, q, c). and_then (queue_pop q) (\<lambda>(x, q'). Inr (out @ [x], q', c)))"
    by (auto simp: fun_eq_iff and_then_assoc case_prod_unfold)
  moreover have "(\<lambda>hm (q, c). queue_push hm q c) = clocked_push" by (auto simp: fun_eq_iff)
  ultimately show ?thesis
    using lq.first_in_first_out [of "(queue_new b n, c)" xs] by (fastforce simp: queue_contents_def queue_new_def)
qed

section \<open>Witnesses\<close>

definition example_message :: "nat \<Rightarrow> message_target_kind \<Rightarrow> message" where
  "example_message n k =
    \<lparr>header = \<lparr>message_id = MessageId [of_nat n], ack_kind = AckReceived, target_kind = k,
       durability = None, subjects = [Subject [97]]\<rparr>, payload = [1]\<rparr>"

lemma example_message_kind [simp]: "target_kind (header (example_message n k)) = k"
  by (simp add: example_message_def)

definition example_held :: "nat \<Rightarrow> status_map \<Rightarrow> hold_message" where
  "example_held n st =
    \<lparr>held_message = example_message n Online, held_wait_ack = \<lparr>expect = AckReceived, wa_status = st\<rparr>\<rparr>"

text \<open>Two messages: the first is received by its endpoint, the second waits to be sent.\<close>

definition example_queue :: "bool \<Rightarrow> message_queue" where
  "example_queue b =
    \<lparr>blocking = b,
     hold_messages = [(MessageId [1], example_held 1 [(EndpointAddr [1], Received)]),
                      (MessageId [2], example_held 2 [(EndpointAddr [1], Unsent), (EndpointAddr [2], Sent)])],
     time_id = [(3, MessageId [1]), (10, MessageId [2])],
     id_time = [(MessageId [1], 3), (MessageId [2], 10)], resolved = {MessageId [1]}, mq_size = 2\<rparr>"

lemma example_held_simps [simp]:
  "held_id (example_held n st) = MessageId [of_nat n]" "held_status (example_held n st) = st"
  "expect (held_wait_ack (example_held n st)) = AckReceived"
  by (simp_all add: example_held_def example_message_def)

lemma example_queue_ok [simp]:
  "queue_inv (example_queue b)" "resolved_ready (example_queue b)" "resolved_front (example_queue b)"
  by (auto simp: queue_inv_def example_queue_def resolved_ready_def may_release_def
      statuses_resolved_def status_is_resolved_def resolved_front_def get_front_def split: if_splits)

lemma example_queue_simps [simp]:
  "blocking (example_queue b) = b" "resolved (example_queue b) = {MessageId [1]}"
  "time_id (example_queue b) = [(3, MessageId [1]), (10, MessageId [2])]"
  by (simp_all add: example_queue_def)

theorem flush_releases_witness:
  "\<exists>ms q' c'. flush {} (example_queue False) example_context = Inr (q', c') \<and>
    set (map held_id ms) = {MessageId [1]} \<and> archived c' = archived example_context @ map held_id ms"
  using flush_releases [of "example_queue False" example_context "{}"] by (auto simp: releases_def)

theorem send_unsent_exact_witness:
  "\<exists>hm' c' eps. send_unsent {EndpointAddr [1], EndpointAddr [2]}
      (example_held 2 [(EndpointAddr [1], Unsent), (EndpointAddr [2], Sent)]) example_context = (hm', c') \<and>
    set eps = {EndpointAddr [1]} \<and>
    dispatches c' = dispatches example_context @ map (\<lambda>ep. (MessageId [2], ep)) eps"
proof -
  let ?hm = "example_held 2 [(EndpointAddr [1], Unsent), (EndpointAddr [2], Sent)]"
  have "{ep. hm_get (held_status ?hm) ep = Some Unsent \<and> ep \<in> {EndpointAddr [1], EndpointAddr [2]}}
      = {EndpointAddr [1]}" by auto
  then show ?thesis
    using send_unsent_exact [of ?hm example_context "{EndpointAddr [1], EndpointAddr [2]}"] by auto
qed

theorem blocking_queue_head_of_line_witness:
  "queue_inv (example_queue True) \<and> MessageId [2] \<notin> resolved (example_queue True) \<and>
    poll_message (MessageId [2]) {EndpointAddr [1]} (example_queue True) example_context
    = (Some Pending, example_queue True, example_context)"
  using blocking_queue_head_of_line [of "example_queue True" 3 "MessageId [1]" "[(10, MessageId [2])]"
      "MessageId [2]"]
  by simp

theorem same_time_message_lost_witness:
  "queue_inv (example_queue False) \<and>
    time_id (fst (queue_push (example_held 3 []) (example_queue False) example_context))
      = time_id (example_queue False) \<and>
    \<not> queue_inv (fst (queue_push (example_held 3 []) (example_queue False) example_context))"
proof -
  have "fst (ctx_now example_context) \<in> fst ` set (time_id (example_queue False))"
    "hm_get (hold_messages (example_queue False)) (held_id (example_held 3 [])) = None"
    by (simp_all add: example_queue_def)
  from same_time_message_lost [OF _ this] show ?thesis by simp
qed

theorem queue_first_in_first_out_witness:
  "\<exists>q' c'. fold_outcome (\<lambda>_ (out, q, c). and_then (queue_pop q) (\<lambda>(x, q'). Inr (out @ [x], q', c)))
      (replicate 2 ()) ([], fold (\<lambda>hm (q, c). queue_push hm q c)
        [example_held 2 [], example_held 1 []] (queue_new True 8, example_context))
    = Inr ([Some (example_held 2 []), Some (example_held 1 [])], q', c')"
  using queue_first_in_first_out [of example_context "[example_held 2 [], example_held 1 []]" True 8]
  by (auto simp: numeral_2_eq_2)

end
