(* ===== verification/MQ_Topic.thy ===== *)
theory MQ_Topic
  imports MQ_Queue "HOL-Library.Multiset"
begin

text \<open>
  A topic of the replicated state machine: \<open>TopicData\<close>
  (\<open>raft/state_machine/topic.rs\<close>) with its operations: loading, accepting a message and
  choosing its targets, applying a status update, and endpoints that come, change their
  interests and go.  Then the invariant of a topic and what each operation does under it: none
  panics (the unsupported target kind apart), messages leave only when they are done, and every
  sender is answered exactly once.
\<close>

section \<open>TopicData\<close>

record topic_data =
  td_config :: topic_config
  ep_routing_table :: "(node_id, endpoint_addr set) hash_map"
  ep_interest_map :: "endpoint_addr interest_map"
  td_queue :: message_queue

definition topic_from_durable :: "topic_config \<Rightarrow> durable_message list \<Rightarrow> topic_data" where
  "topic_from_durable config messages =
    \<lparr>td_config = config, ep_routing_table = [], ep_interest_map = interest_map_new,
     td_queue = fold push_durable_message (sort_key dm_time messages)
       (queue_new (cfg_blocking config)
         (case overflow_config config of Some x \<Rightarrow> overflow_config_size x | None \<Rightarrow> default_capacity))\<rparr>"

definition collect_addr_by_subjects :: "topic_data \<Rightarrow> subject list \<Rightarrow> endpoint_addr set" where
  "collect_addr_by_subjects d subs =
    fold (\<lambda>s ep_collect. ep_collect \<union> interest_map_find (ep_interest_map d) s) subs {}"

definition reachable_eps :: "topic_data \<Rightarrow> node_id \<Rightarrow> endpoint_addr set" where
  "reachable_eps d node =
    (case hm_get (ep_routing_table d) node of Some eps \<Rightarrow> eps | None \<Rightarrow> {})"

definition update_and_flush ::
  "message_state_update \<Rightarrow> topic_data \<Rightarrow> proposal_context \<Rightarrow> (topic_data \<times> proposal_context) outcome" where
  "update_and_flush update d c =
    (let reachable = reachable_eps d (node_config_id (ctx_node c));
         c1 = push_durable_command (UpdateStatus update) c;
         q1 = fold (\<lambda>(from, status). update_ack (upd_message_id update) from status)
                (upd_status update) (td_queue d)
     in case poll_message (upd_message_id update) reachable q1 c1 of
          (Some Ready, q2, c2) \<Rightarrow>
            and_then (flush reachable q2 c2) (\<lambda>(q3, c3). Inr (d\<lparr>td_queue := q3\<rparr>, c3))
        | (_, q2, c2) \<Rightarrow> Inr (d\<lparr>td_queue := q2\<rparr>, c2))"

text \<open>The end of \<open>hold_new_message\<close>: the message enters the queue and is polled.\<close>

definition enqueue_message ::
  "hold_message \<Rightarrow> topic_data \<Rightarrow> proposal_context \<Rightarrow> (topic_data \<times> proposal_context) outcome" where
  "enqueue_message hm d c =
    (let (q', c') = queue_push hm (td_queue d) c
     in update_and_flush (state_update_new_empty (held_id hm)) (d\<lparr>td_queue := q'\<rparr>)
          (push_durable_command (Create (held_message hm)) c'))"

text \<open>\<open>hold_new_message\<close> from the point where the targets are known: the overflow policy.\<close>

definition put_in_queue ::
  "hold_message \<Rightarrow> topic_data \<Rightarrow> proposal_context \<Rightarrow> (topic_data \<times> proposal_context) outcome" where
  "put_in_queue hm d c =
    (case overflow_config (td_config d) of
       None \<Rightarrow> enqueue_message hm d c
     | Some oc \<Rightarrow>
         if queue_len (td_queue d) \<ge> overflow_config_size oc then
           (case policy oc of
              RejectNew \<Rightarrow>
                Inr (d, resolve_ack (held_id hm) (Inl (wait_ack_error_of Overflow)) c)
            | DropOld \<Rightarrow>
                and_then (queue_pop (td_queue d)) (\<lambda>(old, q').
                  case old of
                    None \<Rightarrow> Inl QueueEmpty
                  | Some old \<Rightarrow>
                      enqueue_message hm (d\<lparr>td_queue := q'\<rparr>)
                        (resolve_ack (held_id old) (Inl (wait_ack_error_of Overflow)) c)))
         else enqueue_message hm d c)"

text \<open>The hash ring of a \<open>Push\<close> message, and its choice.\<close>

definition hash_ring :: "platform \<Rightarrow> endpoint_addr set \<Rightarrow> (u64 \<times> endpoint_addr) list" where
  "hash_ring pl ep_collect =
    sort_key fst (map (\<lambda>ep. (hash64_ep pl ep, ep)) (ep_order pl ep_collect))"

definition hold_for ::
  "endpoint_addr set \<Rightarrow> message \<Rightarrow> topic_data \<Rightarrow> proposal_context \<Rightarrow> (topic_data \<times> proposal_context) outcome"
  where
  "hold_for eps m d c =
    put_in_queue
      \<lparr>held_message = m,
       held_wait_ack = wait_ack_new (msg_ack_kind m) (ep_order (node_platform (ctx_node c)) eps)\<rparr> d c"

definition hold_new_message ::
  "message \<Rightarrow> topic_data \<Rightarrow> proposal_context \<Rightarrow> (topic_data \<times> proposal_context) outcome" where
  "hold_new_message m d c =
    (case target_kind (header m) of
       Available \<Rightarrow> Inl Unimplemented
     | Push \<Rightarrow>
         (let pl = node_platform (ctx_node c);
              ring = hash_ring pl (collect_addr_by_subjects d (subjects (header m)))
          in if ring = [] then
               Inr (d, resolve_ack (msg_id m) (Inl (wait_ack_error_of NoAvailableTarget)) c)
             else hold_for {snd (ring ! (unat (hash64_id pl (msg_id m)) mod length ring))} m d c)
     | _ \<Rightarrow> hold_for (collect_addr_by_subjects d (subjects (header m))) m d c)"

text \<open>The closing loops of the three operations below: every collected message is polled again.\<close>

definition flush_messages ::
  "message_id set \<Rightarrow> topic_data \<Rightarrow> proposal_context \<Rightarrow> (topic_data \<times> proposal_context) outcome" where
  "flush_messages need_poll d c =
    fold_outcome (\<lambda>i (d, c). update_and_flush (state_update_new_empty i) d c)
      (id_order (node_platform (ctx_node c)) need_poll) (d, c)"

text \<open>The body of the loop over the held messages in \<open>update_ep_interest\<close>.\<close>

definition offer_interest ::
  "endpoint_addr \<Rightarrow> endpoint_addr interest_map \<Rightarrow> hold_message \<Rightarrow> hold_message \<times> bool" where
  "offer_interest ep imap hm =
    (if target_kind (header (held_message hm)) = Durable then
       fold (\<lambda>s (hm, need).
           if ep \<in> interest_map_find imap s then
             (if hm_get (held_status hm) ep = None
              then set_held_status (hm_insert ep Unsent (held_status hm)) hm else hm, True)
           else (hm, need))
         (subjects (header (held_message hm))) (hm, False)
     else (hm, False))"

definition update_ep_interest ::
  "endpoint_addr \<Rightarrow> interest list \<Rightarrow> topic_data \<Rightarrow> proposal_context
    \<Rightarrow> (topic_data \<times> proposal_context) outcome" where
  "update_ep_interest ep interests d c =
    (let imap = fold (\<lambda>i. interest_map_insert i ep) interests (interest_map_delete ep (ep_interest_map d));
         held = hold_messages (td_queue d);
         need_poll = set (map fst (filter (\<lambda>(i, hm). snd (offer_interest ep imap hm)) held))
     in flush_messages need_poll
          (d\<lparr>ep_interest_map := imap,
             td_queue := (td_queue d)\<lparr>hold_messages :=
               hm_map_values (\<lambda>_ hm. fst (offer_interest ep imap hm)) held\<rparr>\<rparr>) c)"

text \<open>The body of the loop over the held messages in \<open>ep_online\<close>.\<close>

definition offer_online ::
  "endpoint_addr \<Rightarrow> endpoint_addr interest_map \<Rightarrow> hold_message \<Rightarrow> hold_message \<times> bool" where
  "offer_online ep imap hm =
    (if target_kind (header (held_message hm)) = Durable \<and> hm_get (held_status hm) ep = None \<and>
        (\<exists>s \<in> set (subjects (header (held_message hm))). ep \<in> interest_map_find imap s)
     then (set_held_status (hm_insert ep Unsent (held_status hm)) hm, True)
     else (hm, False))"

definition ep_online ::
  "endpoint_addr \<Rightarrow> interest list \<Rightarrow> node_id \<Rightarrow> topic_data \<Rightarrow> proposal_context
    \<Rightarrow> (topic_data \<times> proposal_context) outcome" where
  "ep_online ep interests host d c =
    (let routing = hm_insert host (insert ep (reachable_eps d host)) (ep_routing_table d);
         imap = fold (\<lambda>i. interest_map_insert i ep) interests (ep_interest_map d);
         held = hold_messages (td_queue d);
         need_poll = set (map fst (filter (\<lambda>(i, hm). snd (offer_online ep imap hm)) held))
     in flush_messages need_poll
          (d\<lparr>ep_routing_table := routing, ep_interest_map := imap,
             td_queue := (td_queue d)\<lparr>hold_messages :=
               hm_map_values (\<lambda>_ hm. fst (offer_online ep imap hm)) held\<rparr>\<rparr>) c)"

text \<open>The body of the loop over the held messages in \<open>ep_offline\<close>.\<close>

definition set_unreachable :: "endpoint_addr \<Rightarrow> hold_message \<Rightarrow> hold_message" where
  "set_unreachable ep hm =
    (case hm_get (held_status hm) ep of
       Some _ \<Rightarrow> set_held_status (hm_insert ep Unreachable (held_status hm)) hm
     | None \<Rightarrow> hm)"

definition ep_offline ::
  "node_id \<Rightarrow> endpoint_addr \<Rightarrow> topic_data \<Rightarrow> proposal_context \<Rightarrow> (topic_data \<times> proposal_context) outcome"
  where
  "ep_offline host ep d c =
    (let routing = hm_insert host (reachable_eps d host - {ep}) (ep_routing_table d);
         held = hold_messages (td_queue d);
         need_poll = set (map (\<lambda>(i, hm). held_id hm)
           (filter (\<lambda>(i, hm). hm_get (held_status hm) ep \<noteq> None) held))
     in flush_messages need_poll
          (d\<lparr>ep_routing_table := routing, ep_interest_map := interest_map_delete ep (ep_interest_map d),
             td_queue := (td_queue d)\<lparr>hold_messages :=
               hm_map_values (\<lambda>_ hm. set_unreachable ep hm) held\<rparr>\<rparr>) c)"

section \<open>The invariant of a topic\<close>

text \<open>
  Between two operations nothing is marked resolved: a message that is done leaves the queue
  within the operation that completes it.
\<close>

definition topic_inv :: "topic_data \<Rightarrow> bool" where
  "topic_inv d \<longleftrightarrow> queue_inv (td_queue d) \<and> resolved (td_queue d) = {} \<and>
    interest_map_inv (ep_interest_map d)"

abbreviation ctx_ok :: "proposal_context \<Rightarrow> bool" where
  "ctx_ok c \<equiv> platform_ok (node_platform (ctx_node c))"

lemma ctx_ok_frame: "ctx_frame c d \<Longrightarrow> ctx_ok c \<Longrightarrow> ctx_ok d"
  by (simp add: ctx_frame_def)

lemma update_acks_effect:
  assumes "queue_inv q"
  shows "queue_inv (fold (\<lambda>(from, st). update_ack i from st) sts q)"
    "time_id (fold (\<lambda>(from, st). update_ack i from st) sts q) = time_id q"
    "blocking (fold (\<lambda>(from, st). update_ack i from st) sts q) = blocking q"
    "resolved (fold (\<lambda>(from, st). update_ack i from st) sts q) = resolved q"
    "hm_get (hold_messages (fold (\<lambda>(from, st). update_ack i from st) sts q)) =
      (hm_get (hold_messages q))(i := map_option (fold (\<lambda>(from, st). update_ack_held from st) sts)
         (hm_get (hold_messages q) i))"
  using assms
proof (induction sts arbitrary: q)
  case (Cons p sts)
  {
    case 1
    with Cons.IH(1) show ?case by (simp add: queue_inv_update_ack case_prod_unfold)
  next
    case 2
    with Cons.IH(2) [of "update_ack i (fst p) (snd p) q"] show ?case
      by (simp add: queue_inv_update_ack case_prod_unfold) (simp add: update_ack_def)
  next
    case 3
    with Cons.IH(3) [of "update_ack i (fst p) (snd p) q"] show ?case
      by (simp add: queue_inv_update_ack case_prod_unfold) (simp add: update_ack_def)
  next
    case 4
    with Cons.IH(4) [of "update_ack i (fst p) (snd p) q"] show ?case
      by (simp add: queue_inv_update_ack case_prod_unfold) (simp add: update_ack_def)
  next
    case 5
    with Cons.IH(5) [of "update_ack i (fst p) (snd p) q"] show ?case
      by (simp add: queue_inv_update_ack case_prod_unfold)
        (auto simp: update_ack_def fun_eq_iff option.map_comp comp_def)
  }
qed (simp_all add: option.map_id0)

lemma update_acks_same_message: "held_message (fold (\<lambda>(from, st). update_ack_held from st) sts hm) = held_message hm"
  by (induction sts arbitrary: hm) (auto simp: case_prod_unfold)

lemma ctx_quiet_update_status [simp]: "ctx_quiet c (push_durable_command (UpdateStatus u) c)"
  by (simp add: ctx_quiet_def archived_push)

lemma ctx_quiet_create [simp]: "ctx_quiet c (push_durable_command (Create m) c)"
  by (simp add: ctx_quiet_def archived_push)

section \<open>Status updates\<close>

lemma update_and_flush_releases:
  assumes inv: "topic_inv d" and pl: "ctx_ok c"
  shows "\<exists>ms q' c'. update_and_flush u d c = Inr (d\<lparr>td_queue := q'\<rparr>, c') \<and>
    releases (td_queue d) c ms q' c' \<and> topic_inv (d\<lparr>td_queue := q'\<rparr>) \<and>
    stuck q' \<subseteq> stuck (td_queue d) - {upd_message_id u}"
proof -
  let ?i = "upd_message_id u" and ?r = "reachable_eps d (node_config_id (ctx_node c))"
  let ?c1 = "push_durable_command (UpdateStatus u) c"
  let ?q1 = "fold (\<lambda>(from, st). update_ack ?i from st) (upd_status u) (td_queue d)"
  have q: "queue_inv (td_queue d)" "resolved (td_queue d) = {}" using inv by (simp_all add: topic_inv_def)
  note q1 = update_acks_effect [OF q(1), of ?i "upd_status u"]
  have "releases (td_queue d) c [] ?q1 ?c1"
    using q1 by (intro releases_quiet) (simp_all add: same_message_def option.map_comp comp_def update_acks_same_message)
  moreover obtain r q2 c2 where poll: "poll_message ?i ?r ?q1 ?c1 = (r, q2, c2)" by (metis prod_cases3)
  note eff = poll_message_effect [OF q1(1) poll]
  ultimately have rel2: "releases (td_queue d) c [] q2 c2"
    using releases_trans [OF _ releases_poll [OF eff]] by fastforce
  have stuck1: "stuck ?q1 - {?i} \<subseteq> stuck (td_queue d)"
    by (rule stuck_other) (use q1 in simp_all)
  show ?thesis
  proof (cases "r = Some Ready")
    case False
    then have "update_and_flush u d c = Inr (d\<lparr>td_queue := q2\<rparr>, c2)"
      using poll by (simp add: update_and_flush_def Let_def split: option.split poll.split)
    moreover have "resolved q2 = {}" using eff False q1(4) q(2) by (simp add: poll_effect_def)
    moreover have "stuck q2 \<subseteq> stuck (td_queue d) - {?i}"
      using poll_message_stuck [OF q1(1) poll False] stuck1 by blast
    ultimately show ?thesis
      using rel2 inv releasesD(1) [OF rel2]
      by (intro exI [of _ "[]"] exI [of _ q2] exI [of _ c2]) (simp add: topic_inv_def)
  next
    case True
    have ready: "resolved_ready q2"
      using poll_message_resolved_ready [OF poll] q1(4) q(2) by (simp add: resolved_ready_def)
    have "ctx_ok c2" using ctx_ok_frame [OF releasesD(2) [OF rel2] pl] .
    moreover have "resolved_front q2" if "blocking q2"
      using poll_front_only [OF q1(1) poll] that q1(4) q(2) by simp
    ultimately obtain ms q3 c3 where f: "flush ?r q2 c2 = Inr (q3, c3)" "releases q2 c2 ms q3 c3" "resolved q3 = {}"
      "if blocking q2 then stuck q3 = {}
       else \<forall>j. j \<notin> resolved q2 \<longrightarrow> hm_get (hold_messages q3) j = hm_get (hold_messages q2) j"
      "\<not> blocking q2 \<Longrightarrow> set (map held_id ms) = resolved q2"
      using flush_releases_aux [OF releasesD(1) [OF rel2] ready, of c2 ?r] by (cases "blocking q2") auto
    have "stuck q3 \<subseteq> stuck (td_queue d) - {?i}"
    proof (cases "blocking q2")
      case False
      have i: "resolved q2 = {?i}" using eff True q1(4) q(2) by (simp add: poll_effect_def)
      then have "?i \<in> held_id ` set ms" using f(5) [OF False] by simp
      then have "hm_get (hold_messages q3) ?i = None"
        using releasesD(9) [OF f(2), THEN spec, of ?i] by simp
      moreover have "hm_get (hold_messages q3) j = hm_get (hold_messages ?q1) j" if "j \<noteq> ?i" for j
        using f(4) False i that eff by (simp add: poll_effect_def)
      ultimately have "stuck q3 \<subseteq> stuck ?q1 - {?i}"
        using False releasesD(3) [OF f(2)] eff by (intro stuck_removed) (simp_all add: poll_effect_def)
      then show ?thesis using stuck1 by blast
    qed (use f(4) in simp)
    moreover have "update_and_flush u d c = Inr (d\<lparr>td_queue := q3\<rparr>, c3)"
      using poll True f(1) by (simp add: update_and_flush_def Let_def)
    ultimately show ?thesis
      using f(3) releases_trans [OF rel2 f(2)] inv releasesD(1) [OF f(2)]
      by (intro exI [of _ ms] exI [of _ q3] exI [of _ c3]) (simp add: topic_inv_def)
  qed
qed

text \<open>The closing loop: every message of the list is polled, the rest of the topic is unchanged.\<close>

lemma flush_list_releases:
  assumes "topic_inv d" "ctx_ok c"
  shows "\<exists>ms q' c'. fold_outcome (\<lambda>i (d, c). update_and_flush (state_update_new_empty i) d c) is (d, c)
      = Inr (d\<lparr>td_queue := q'\<rparr>, c') \<and>
    releases (td_queue d) c ms q' c' \<and> topic_inv (d\<lparr>td_queue := q'\<rparr>) \<and>
    stuck q' \<subseteq> stuck (td_queue d) - set is"
  using assms
proof (induction "is" arbitrary: d c)
  case Nil
  then show ?case using releases_refl by (fastforce simp: topic_inv_def)
next
  case (Cons i "is")
  obtain ms q1 c1 where 1: "update_and_flush (state_update_new_empty i) d c = Inr (d\<lparr>td_queue := q1\<rparr>, c1)"
    "releases (td_queue d) c ms q1 c1" "topic_inv (d\<lparr>td_queue := q1\<rparr>)" "stuck q1 \<subseteq> stuck (td_queue d) - {i}"
    using update_and_flush_releases [OF Cons.prems, of "state_update_new_empty i"]
    by (auto simp: state_update_new_empty_def)
  obtain ns q2 c2 where 2: "fold_outcome (\<lambda>i (d, c). update_and_flush (state_update_new_empty i) d c) is
      (d\<lparr>td_queue := q1\<rparr>, c1) = Inr (d\<lparr>td_queue := q2\<rparr>, c2)"
    "releases q1 c1 ns q2 c2" "topic_inv (d\<lparr>td_queue := q2\<rparr>)" "stuck q2 \<subseteq> stuck q1 - set is"
    using Cons.IH [OF 1(3) ctx_ok_frame [OF releasesD(2) [OF 1(2)] Cons.prems(2)]] by auto
  have "stuck q2 \<subseteq> stuck (td_queue d) - set (i # is)" using 1(4) 2(4) by auto
  with 1(1) 2(1,3) releases_trans [OF 1(2) 2(2)] show ?case
    by (intro exI [of _ "ms @ ns"] exI [of _ q2] exI [of _ c2]) simp
qed

text \<open>Held messages that change their status in place, before the loop.\<close>

lemma map_held_inv:
  assumes inv: "queue_inv q" and r: "resolved q = {}"
    and f: "\<And>hm. held_message (f hm) = held_message hm"
      "\<And>hm. hm_wf (held_status hm) \<Longrightarrow> hm_wf (held_status (f hm))"
  shows "queue_inv (q\<lparr>hold_messages := hm_map_values (\<lambda>_. f) (hold_messages q)\<rparr>)"
    "releases q c [] (q\<lparr>hold_messages := hm_map_values (\<lambda>_. f) (hold_messages q)\<rparr>) c"
proof -
  have "queue_inv (q\<lparr>hold_messages := hm_map_values (\<lambda>_. f) (hold_messages q), resolved := {}\<rparr>)"
  proof (rule queue_inv_update_held [OF inv])
    fix i hm assume "hm_get (hm_map_values (\<lambda>_. f) (hold_messages q)) i = Some hm"
    then obtain h where "hm_get (hold_messages q) i = Some h" "hm = f h" by auto
    with queue_invD(7,8) [OF inv this(1)] f [of h] show "held_id hm = i \<and> hm_wf (held_status hm)" by simp
  qed simp_all
  then show q: "queue_inv (q\<lparr>hold_messages := hm_map_values (\<lambda>_. f) (hold_messages q)\<rparr>)"
    using r by (cases q) simp
  show "releases q c [] (q\<lparr>hold_messages := hm_map_values (\<lambda>_. f) (hold_messages q)\<rparr>) c"
    by (rule releases_quiet) (use q f(1) in \<open>simp_all add: same_message_def option.map_comp comp_def\<close>)
qed

section \<open>Endpoints come, change and go\<close>

text \<open>
  What the endpoint operations share: the topic stays well-formed, messages are released as
  \<open>releases\<close> says, and no message is stuck afterwards that was not stuck before.
\<close>

definition topic_step ::
  "topic_data \<Rightarrow> proposal_context \<Rightarrow> hold_message list \<Rightarrow> topic_data \<Rightarrow> proposal_context \<Rightarrow> bool" where
  "topic_step d c ms d' c' \<longleftrightarrow> topic_inv d' \<and> td_config d' = td_config d \<and>
    releases (td_queue d) c ms (td_queue d') c' \<and> stuck (td_queue d') \<subseteq> stuck (td_queue d)"

lemma offer_interest_eq:
  "offer_interest ep im hm =
    (if target_kind (header (held_message hm)) = Durable \<and>
        (\<exists>s \<in> set (subjects (header (held_message hm))). ep \<in> interest_map_find im s)
     then (if hm_get (held_status hm) ep = None
           then set_held_status (hm_insert ep Unsent (held_status hm)) hm else hm, True)
     else (hm, False))"
proof -
  let ?add = "\<lambda>h. if hm_get (held_status h) ep = None
    then set_held_status (hm_insert ep Unsent (held_status h)) h else h"
  have "fold (\<lambda>s (hm, need). if ep \<in> interest_map_find im s then (?add hm, True) else (hm, need)) subs (h, b)
      = (if \<exists>s \<in> set subs. ep \<in> interest_map_find im s then (?add h, True) else (h, b))" for subs h b
    by (induction subs arbitrary: h b) auto
  then show ?thesis by (simp add: offer_interest_def)
qed

lemma offer_held [simp]:
  "held_message (fst (offer_interest ep im hm)) = held_message hm"
  "hm_wf (held_status hm) \<Longrightarrow> hm_wf (held_status (fst (offer_interest ep im hm)))"
  "held_message (fst (offer_online ep im hm)) = held_message hm"
  "hm_wf (held_status hm) \<Longrightarrow> hm_wf (held_status (fst (offer_online ep im hm)))"
  "target_kind (header (held_message hm)) \<noteq> Durable \<Longrightarrow> fst (offer_interest ep im hm) = hm"
  "target_kind (header (held_message hm)) \<noteq> Durable \<Longrightarrow> fst (offer_online ep im hm) = hm"
  by (simp_all add: offer_interest_eq offer_online_def)

lemma set_unreachable_held [simp]:
  "held_message (set_unreachable ep hm) = held_message hm"
  "hm_wf (held_status hm) \<Longrightarrow> hm_wf (held_status (set_unreachable ep hm))"
  "hm_get (held_status hm) ep = None \<Longrightarrow> set_unreachable ep hm = hm"
  "hm_get (held_status (set_unreachable ep hm)) e =
    (if e = ep \<and> hm_get (held_status hm) ep \<noteq> None then Some Unreachable else hm_get (held_status hm) e)"
  by (auto simp: set_unreachable_def split: option.split)

lemma get_front_map_held:
  "get_front (q\<lparr>hold_messages := hm_map_values (\<lambda>_. f) (hold_messages q)\<rparr>) = map_option f (get_front q)"
  by (simp add: get_front_def split: list.split prod.split)

lemma stuck_map_held:
  assumes inv: "queue_inv q" and f: "\<And>hm. held_message (f hm) = held_message hm"
  shows "stuck (q\<lparr>hold_messages := hm_map_values (\<lambda>_. f) (hold_messages q)\<rparr>)
    \<subseteq> stuck q \<union> {i. \<exists>hm. hm_get (hold_messages q) i = Some hm \<and>
        target_kind (header (held_message hm)) \<noteq> Durable \<and> f hm \<noteq> hm}"
proof
  fix i assume "i \<in> stuck (q\<lparr>hold_messages := hm_map_values (\<lambda>_. f) (hold_messages q)\<rparr>)"
  then obtain h where h: "hm_get (hold_messages q) i = Some h"
    "target_kind (header (held_message h)) \<noteq> Durable" "statuses_resolved (f h)"
    "blocking q \<longrightarrow> (\<exists>g. get_front q = Some g \<and> f g = f h)"
    by (auto simp: stuck_def get_front_map_held f)
  have "g = h" if g: "get_front q = Some g" "f g = f h" for g
  proof -
    have "held_id g = i" using f [of g] f [of h] g(2) queue_invD(7) [OF inv h(1)] by metis
    then show ?thesis using get_front_held [OF inv g(1)] h(1) by simp
  qed
  with h(4) have "blocking q \<longrightarrow> get_front q = Some h" by blast
  then show "i \<in> stuck q \<union> {i. \<exists>hm. hm_get (hold_messages q) i = Some hm \<and>
        target_kind (header (held_message hm)) \<noteq> Durable \<and> f hm \<noteq> hm}"
  proof (cases "f h = h")
    case True
    with h(1-3) \<open>blocking q \<longrightarrow> get_front q = Some h\<close> show ?thesis by (auto simp: stuck_def)
  qed (use h in blast)
qed

text \<open>
  The common shape: the held messages change in place, the interests and the routing table are
  replaced, and the messages that were touched are polled.
\<close>

lemma change_and_flush:
  assumes inv: "topic_inv d" and pl: "ctx_ok c" and im: "interest_map_inv im"
    and f: "\<And>hm. held_message (f hm) = held_message hm"
      "\<And>hm. hm_wf (held_status hm) \<Longrightarrow> hm_wf (held_status (f hm))"
    and S: "finite S" "\<And>i hm. hm_get (hold_messages (td_queue d)) i = Some hm \<Longrightarrow>
      target_kind (header (held_message hm)) \<noteq> Durable \<Longrightarrow> f hm \<noteq> hm \<Longrightarrow> i \<in> S"
  shows "\<exists>ms q' c'. flush_messages S (d\<lparr>ep_routing_table := rt, ep_interest_map := im,
        td_queue := (td_queue d)\<lparr>hold_messages := hm_map_values (\<lambda>_. f) (hold_messages (td_queue d))\<rparr>\<rparr>) c
      = Inr (d\<lparr>ep_routing_table := rt, ep_interest_map := im, td_queue := q'\<rparr>, c') \<and>
    topic_step d c ms (d\<lparr>ep_routing_table := rt, ep_interest_map := im, td_queue := q'\<rparr>) c'"
proof -
  let ?q = "(td_queue d)\<lparr>hold_messages := hm_map_values (\<lambda>_. f) (hold_messages (td_queue d))\<rparr>"
  let ?d = "d\<lparr>ep_routing_table := rt, ep_interest_map := im, td_queue := ?q\<rparr>"
  have q: "queue_inv (td_queue d)" "resolved (td_queue d) = {}" using inv by (simp_all add: topic_inv_def)
  note m = map_held_inv [OF q, of f, OF f]
  have "topic_inv ?d" using m(1) q(2) im by (simp add: topic_inv_def)
  from flush_list_releases [OF this pl, of "id_order (node_platform (ctx_node c)) S"]
  obtain ms q' c' where r: "flush_messages S ?d c = Inr (?d\<lparr>td_queue := q'\<rparr>, c')"
    "releases ?q c ms q' c'" "topic_inv (?d\<lparr>td_queue := q'\<rparr>)"
    "stuck q' \<subseteq> stuck ?q - S"
    using S(1) pl by (auto simp: flush_messages_def platform_ok_def)
  have "stuck ?q \<subseteq> stuck (td_queue d) \<union> S"
    using stuck_map_held [where f = f, OF q(1) f(1)] S(2) by blast
  with r releases_trans [OF m(2) r(2)] show ?thesis
    by (intro exI [of _ ms] exI [of _ q'] exI [of _ c']) (auto simp: topic_step_def)
qed

lemma ep_online_step:
  assumes "topic_inv d" "ctx_ok c"
  shows "\<exists>ms q' c'. ep_online ep interests host d c =
      Inr (d\<lparr>ep_routing_table := hm_insert host (insert ep (reachable_eps d host)) (ep_routing_table d),
        ep_interest_map := fold (\<lambda>i. interest_map_insert i ep) interests (ep_interest_map d), td_queue := q'\<rparr>, c') \<and>
    topic_step d c ms (d\<lparr>ep_routing_table := hm_insert host (insert ep (reachable_eps d host)) (ep_routing_table d),
        ep_interest_map := fold (\<lambda>i. interest_map_insert i ep) interests (ep_interest_map d), td_queue := q'\<rparr>) c'"
proof -
  have im: "interest_map_inv (ep_interest_map d)" using assms(1) by (simp add: topic_inv_def)
  show ?thesis
    unfolding ep_online_def Let_def
    by (rule change_and_flush [OF assms imap.inv_ins_all [OF im]]) simp_all
qed

text \<open>
  (C25) An endpoint comes online: the operation returns, the endpoint is reachable at its host
  and nowhere else it was not, it is found for exactly the subjects its interests match besides
  those it was found for before, and the messages are accounted for.
\<close>

theorem ep_online_correct:
  assumes "topic_inv d" "ctx_ok c"
  shows "\<exists>ms d' c'. ep_online ep interests host d c = Inr (d', c') \<and> topic_step d c ms d' c' \<and>
    (\<forall>h. reachable_eps d' h = (if h = host then insert ep (reachable_eps d host) else reachable_eps d h)) \<and>
    (\<forall>s. interest_map_find (ep_interest_map d') s = interest_map_find (ep_interest_map d) s \<union>
       (if \<exists>i \<in> set interests. interest_matches i s then {ep} else {}))"
proof -
  have im: "interest_map_inv (ep_interest_map d)" using assms(1) by (simp add: topic_inv_def)
  show ?thesis
    using ep_online_step [OF assms, of ep interests host] imap.lookup_ins_all [OF im, of ep interests]
    by (fastforce simp: reachable_eps_def)
qed

lemma update_ep_interest_step:
  assumes "topic_inv d" "ctx_ok c"
  shows "\<exists>ms q' c'. update_ep_interest ep interests d c =
      Inr (d\<lparr>ep_interest_map := fold (\<lambda>i. interest_map_insert i ep) interests
        (interest_map_delete ep (ep_interest_map d)), td_queue := q'\<rparr>, c') \<and>
    topic_step d c ms (d\<lparr>ep_interest_map := fold (\<lambda>i. interest_map_insert i ep) interests
        (interest_map_delete ep (ep_interest_map d)), td_queue := q'\<rparr>) c'"
proof -
  let ?rt = "ep_routing_table d"
  have im: "interest_map_inv (ep_interest_map d)" using assms(1) by (simp add: topic_inv_def)
  have "d\<lparr>ep_interest_map := im, td_queue := q\<rparr> = d\<lparr>ep_routing_table := ?rt, ep_interest_map := im, td_queue := q\<rparr>"
    for im q by simp
  then show ?thesis
    unfolding update_ep_interest_def Let_def
    by (simp only:) (rule change_and_flush [OF assms imap.inv_ins_all [OF imap.inv_del [OF im]]], simp_all)
qed

text \<open>
  An endpoint changes its interests: the operation returns and replaces them, so that the
  endpoint is found for exactly the subjects the new interests match, every other endpoint as
  before.
\<close>

theorem update_ep_interest_correct:
  assumes "topic_inv d" "ctx_ok c"
  shows "\<exists>ms d' c'. update_ep_interest ep interests d c = Inr (d', c') \<and> topic_step d c ms d' c' \<and>
    reachable_eps d' = reachable_eps d \<and>
    (\<forall>s e. e \<in> interest_map_find (ep_interest_map d') s \<longleftrightarrow>
       (if e = ep then \<exists>i \<in> set interests. interest_matches i s
        else e \<in> interest_map_find (ep_interest_map d) s))"
proof -
  have im: "interest_map_inv (ep_interest_map d)" using assms(1) by (simp add: topic_inv_def)
  show ?thesis
    using update_ep_interest_step [OF assms, of ep interests] imap.lookup_replace [OF im]
    by (fastforce simp: reachable_eps_def fun_eq_iff)
qed

text \<open>Handing a message out changes no status but \<open>Unsent\<close> to \<open>Sending\<close>.\<close>

definition handed_out :: "hold_message \<Rightarrow> hold_message \<Rightarrow> bool" where
  "handed_out hm hm' \<longleftrightarrow> held_message hm' = held_message hm \<and>
    (\<forall>ep. hm_get (held_status hm') ep = hm_get (held_status hm) ep \<or>
       hm_get (held_status hm) ep = Some Unsent \<and> hm_get (held_status hm') ep = Some Sending)"

text \<open>What everything that polls and flushes does to the messages that are still held.\<close>

definition only_sends :: "message_queue \<Rightarrow> message_queue \<Rightarrow> bool" where
  "only_sends q q' \<longleftrightarrow> (\<forall>j hm'. hm_get (hold_messages q') j = Some hm' \<longrightarrow>
    (\<exists>hm. hm_get (hold_messages q) j = Some hm \<and> handed_out hm hm'))"

lemma handed_out_refl [simp]: "handed_out hm hm"
  by (simp add: handed_out_def)

lemma handed_out_trans: "handed_out a b \<Longrightarrow> handed_out b c \<Longrightarrow> handed_out a c"
  unfolding handed_out_def by (metis message_status_kind.distinct(1) option.inject)

lemma only_sends_refl [simp]: "only_sends q q"
  by (simp add: only_sends_def)

lemma only_sends_trans: "only_sends a b \<Longrightarrow> only_sends b c \<Longrightarrow> only_sends a c"
  unfolding only_sends_def by (meson handed_out_trans)

lemma only_sends_removed:
  "hm_get (hold_messages q') = (hm_get (hold_messages q))(i := None) \<Longrightarrow> only_sends q q'"
  by (auto simp: only_sends_def split: if_splits)

lemma only_sends_send:
  assumes "hm_get (hold_messages q) i = Some hm" "send_unsent reachable hm c = (hm', c')"
    "hold_messages q' = hm_insert i hm' (hold_messages q)"
  shows "only_sends q q'"
proof -
  have "hm_get (held_status hm') ep = map_option (send_status reachable ep) (hm_get (held_status hm) ep)" for ep
    using hm_get_map_values [of "send_status reachable" "held_status hm" ep] send_unsent_eq(1) [OF assms(2)]
    by (simp add: hm_map_values_def)
  then have "hm_get (held_status hm') ep = hm_get (held_status hm) ep \<or>
      hm_get (held_status hm) ep = Some Unsent \<and> hm_get (held_status hm') ep = Some Sending" for ep
    by (cases "hm_get (held_status hm) ep") (simp_all add: is_unsent_def)
  with assms(1,3) send_unsent_held(1) [OF assms(2)] show ?thesis by (auto simp: only_sends_def handed_out_def)
qed

lemma only_sends_poll:
  assumes "poll_message i reachable q c = (r, q', c')"
  shows "only_sends q q'"
proof (cases "q' = q")
  case False
  with assms have "i \<notin> resolved q" by (auto simp: poll_message_def)
  with assms False obtain hm hm' c1 where "hm_get (hold_messages q) i = Some hm"
    "send_unsent reachable hm c = (hm', c1)" "hold_messages q' = hm_insert i hm' (hold_messages q)"
    by (auto simp: poll_message_def poll_message_inner_def Let_def
        split: option.splits if_splits prod.splits poll.splits)
  then show ?thesis by (rule only_sends_send)
qed simp

lemma only_sends_pop: "queue_pop q = Inr (m, q') \<Longrightarrow> only_sends q q'"
  by (cases "time_id q") (auto simp: queue_pop_def and_then_Inr_iff intro!: only_sends_removed)

lemma only_sends_remove: "queue_remove i q = Inr (m, q') \<Longrightarrow> only_sends q q'"
  by (auto simp: queue_remove_def and_then_Inr_iff split: option.splits intro!: only_sends_removed)

lemma only_sends_blocking_pop: "blocking_pop reachable q c = Inr (m, q', c') \<Longrightarrow> only_sends q q'"
  by (auto simp: blocking_pop_def and_then_Inr_iff split: option.splits prod.splits poll.splits
      dest!: only_sends_poll only_sends_pop intro: only_sends_trans)

lemma only_sends_flush_blocking: "flush_blocking reachable q c = Inr (q', c') \<Longrightarrow> only_sends q q'"
proof (induction reachable q c rule: flush_blocking.induct)
  case (1 reachable q c)
  obtain m q1 c1 where pop: "blocking_pop reachable q c = Inr (m, q1, c1)"
    using 1(2) by (auto simp: flush_blocking.simps [of reachable q c] split: sum.splits)
  note s = only_sends_blocking_pop [OF pop]
  show ?case
  proof (cases m)
    case None
    with 1(2) pop s show ?thesis by (simp add: flush_blocking.simps [of reachable q c])
  next
    case (Some hm)
    with 1(2) pop have "flush_blocking reachable q1 (settle (held_id hm) hm c1) = Inr (q', c')"
      by (simp add: flush_blocking.simps [of reachable q c])
    from 1(1) [OF pop [unfolded Some] refl refl refl this] s show ?thesis by (rule only_sends_trans [rotated])
  qed
qed

lemma only_sends_flush_ids: "flush_ids is q c = Inr (q', c') \<Longrightarrow> only_sends q q'"
proof (induction "is" arbitrary: q c)
  case (Cons i "is")
  then show ?case
    by (auto simp: and_then_Inr_iff dest!: only_sends_remove Cons.IH intro: only_sends_trans)
qed simp

lemma only_sends_flush:
  assumes "flush reachable q c = Inr (q', c')"
  shows "only_sends q q'"
proof (cases "blocking q")
  case False
  have "only_sends q (q\<lparr>resolved := {}\<rparr>)" by (auto simp: only_sends_def)
  with False assms show ?thesis
    by (auto simp: flush_def swap_out_resolved_def dest: only_sends_flush_ids intro: only_sends_trans)
qed (use assms only_sends_flush_blocking in \<open>simp add: flush_def\<close>)

lemma only_sends_update:
  assumes "update_and_flush u d c = Inr (d', c')"
  shows "only_sends (fold (\<lambda>(from, st). update_ack (upd_message_id u) from st) (upd_status u) (td_queue d)) (td_queue d')"
proof -
  let ?r = "reachable_eps d (node_config_id (ctx_node c))"
  let ?q = "fold (\<lambda>(from, st). update_ack (upd_message_id u) from st) (upd_status u) (td_queue d)"
  obtain r q2 c2 where poll: "poll_message (upd_message_id u) ?r ?q (push_durable_command (UpdateStatus u) c) = (r, q2, c2)"
    by (metis prod_cases3)
  note p = only_sends_poll [OF poll]
  show ?thesis
  proof (cases "r = Some Ready")
    case True
    with assms poll obtain q3 where "flush ?r q2 c2 = Inr (q3, c')" "d' = d\<lparr>td_queue := q3\<rparr>"
      by (auto simp: update_and_flush_def and_then_Inr_iff)
    with only_sends_trans [OF p only_sends_flush] show ?thesis by auto
  next
    case False
    with assms poll p show ?thesis
      by (auto simp: update_and_flush_def split: option.splits poll.splits)
  qed
qed

lemma only_sends_update_and_flush:
  "update_and_flush (state_update_new_empty i) d c = Inr (d', c') \<Longrightarrow> only_sends (td_queue d) (td_queue d')"
  using only_sends_update [of "state_update_new_empty i"] by (simp add: state_update_new_empty_def)

lemma only_sends_flush_messages:
  assumes "flush_messages S d c = Inr (d', c')"
  shows "only_sends (td_queue d) (td_queue d')"
proof -
  have "only_sends (td_queue d) (td_queue d')"
    if "fold_outcome (\<lambda>i (d, c). update_and_flush (state_update_new_empty i) d c) is (d, c) = Inr (d', c')" for "is"
    using that
  proof (induction "is" arbitrary: d c)
    case (Cons i "is")
    then show ?case
      by (auto simp: and_then_Inr_iff dest!: only_sends_update_and_flush Cons.IH intro: only_sends_trans)
  qed simp
  with assms show ?thesis by (simp add: flush_messages_def)
qed

abbreviation mark_unreachable :: "endpoint_addr \<Rightarrow> message_queue \<Rightarrow> message_queue" where
  "mark_unreachable ep q \<equiv>
    q\<lparr>hold_messages := hm_map_values (\<lambda>_. set_unreachable ep) (hold_messages q)\<rparr>"

lemma ep_offline_step:
  assumes "topic_inv d" "ctx_ok c"
  shows "\<exists>ms q' c'. ep_offline host ep d c =
      Inr (d\<lparr>ep_routing_table := hm_insert host (reachable_eps d host - {ep}) (ep_routing_table d),
        ep_interest_map := interest_map_delete ep (ep_interest_map d), td_queue := q'\<rparr>, c') \<and>
    topic_step d c ms (d\<lparr>ep_routing_table := hm_insert host (reachable_eps d host - {ep}) (ep_routing_table d),
        ep_interest_map := interest_map_delete ep (ep_interest_map d), td_queue := q'\<rparr>) c' \<and>
    only_sends (mark_unreachable ep (td_queue d)) q'"
proof -
  let ?im = "interest_map_delete ep (ep_interest_map d)"
  let ?rt = "hm_insert host (reachable_eps d host - {ep}) (ep_routing_table d)"
  let ?S = "set (map (\<lambda>(i, hm). held_id hm)
    (filter (\<lambda>(i, hm). hm_get (held_status hm) ep \<noteq> None) (hold_messages (td_queue d))))"
  have im: "interest_map_inv (ep_interest_map d)" and q: "queue_inv (td_queue d)"
    using assms(1) by (simp_all add: topic_inv_def)
  have off: "ep_offline host ep d c = flush_messages ?S
      (d\<lparr>ep_routing_table := ?rt, ep_interest_map := ?im, td_queue := mark_unreachable ep (td_queue d)\<rparr>) c"
    by (simp add: ep_offline_def Let_def)
  have "i \<in> ?S" if "hm_get (hold_messages (td_queue d)) i = Some hm" "set_unreachable ep hm \<noteq> hm" for i hm
  proof -
    have "(i, hm) \<in> set (hold_messages (td_queue d))" using that(1) by (rule map_of_SomeD)
    moreover have "hm_get (held_status hm) ep \<noteq> None" using that(2) set_unreachable_held(3) by blast
    ultimately show ?thesis using queue_invD(7) [OF q that(1)] by force
  qed
  then obtain ms q' c' where r: "ep_offline host ep d c =
      Inr (d\<lparr>ep_routing_table := ?rt, ep_interest_map := ?im, td_queue := q'\<rparr>, c')"
    "topic_step d c ms (d\<lparr>ep_routing_table := ?rt, ep_interest_map := ?im, td_queue := q'\<rparr>) c'"
    using change_and_flush [OF assms imap.inv_del [OF im], of "set_unreachable ep" ?S ep ?rt]
    unfolding off by auto
  with only_sends_flush_messages [OF r(1) [unfolded off]] show ?thesis by auto
qed

text \<open>
  (C24) An endpoint goes offline: the operation returns, the endpoint is no longer reachable at
  the host that is named, the routes at other hosts are as before, no subject finds it, and no message waits for it: in every message still held
  its status is \<open>Unreachable\<close> or it is not a target.
\<close>

theorem ep_offline_correct:
  assumes "topic_inv d" "ctx_ok c"
  shows "\<exists>ms d' c'. ep_offline host ep d c = Inr (d', c') \<and> topic_step d c ms d' c' \<and>
    (\<forall>h. reachable_eps d' h = (if h = host then reachable_eps d host - {ep} else reachable_eps d h)) \<and>
    (\<forall>s. interest_map_find (ep_interest_map d') s = interest_map_find (ep_interest_map d) s - {ep}) \<and>
    (\<forall>i hm. hm_get (hold_messages (td_queue d')) i = Some hm \<longrightarrow>
       hm_get (held_status hm) ep \<in> {None, Some Unreachable})"
proof -
  have im: "interest_map_inv (ep_interest_map d)" using assms(1) by (simp add: topic_inv_def)
  have gone: "hm_get (held_status hm) ep \<in> {None, Some Unreachable}"
    if os: "only_sends (mark_unreachable ep (td_queue d)) q'" "hm_get (hold_messages q') i = Some hm" for q' i hm
  proof -
    obtain h where "hm_get (hold_messages (mark_unreachable ep (td_queue d))) i = Some h"
      "hm_get (held_status hm) ep = hm_get (held_status h) ep \<or>
       hm_get (held_status h) ep = Some Unsent \<and> hm_get (held_status hm) ep = Some Sending"
      using os unfolding only_sends_def handed_out_def by blast
    then show ?thesis by (auto split: if_splits)
  qed
  from ep_offline_step [OF assms, of host ep] gone imap.lookup_del [OF im] show ?thesis
    by (fastforce simp: reachable_eps_def)
qed

section \<open>Accounting\<close>

text \<open>
  From the messages \<open>S\<close> to the messages \<open>S'\<close>: every message that is gone was answered, exactly
  once, and nothing else was.
\<close>

definition accounts :: "message_id set \<Rightarrow> proposal_context \<Rightarrow> message_id set \<Rightarrow> proposal_context \<Rightarrow> bool" where
  "accounts S c S' c' \<longleftrightarrow> (\<exists>new. acks c' = acks c @ new \<and> distinct (map fst new) \<and>
    S = S' \<union> fst ` set new \<and> S' \<inter> fst ` set new = {})"

abbreviation held_ids :: "message_queue \<Rightarrow> message_id set" where
  "held_ids q \<equiv> dom (hm_get (hold_messages q))"

lemma accounts_quiet: "acks c' = acks c \<Longrightarrow> accounts S c S c'"
  by (simp add: accounts_def)

lemma accounts_answer:
  "i \<notin> S \<Longrightarrow> acks c' = acks c @ [(i, r)] \<Longrightarrow> accounts (insert i S) c S c'"
  by (auto simp: accounts_def)

lemma accounts_trans:
  assumes "accounts S c T d" "accounts T d U e"
  shows "accounts S c U e"
proof -
  obtain new where new: "acks d = acks c @ new" "distinct (map fst new)" "S = T \<union> fst ` set new"
    "T \<inter> fst ` set new = {}" using assms(1) by (auto simp: accounts_def)
  obtain old where old: "acks e = acks d @ old" "distinct (map fst old)" "T = U \<union> fst ` set old"
    "U \<inter> fst ` set old = {}" using assms(2) by (auto simp: accounts_def)
  have "distinct (map fst (new @ old))" using new old by auto
  then show ?thesis
    using new old by (intro accounts_def [THEN iffD2] exI [of _ "new @ old"]) auto
qed

lemma accounts_insert: "accounts S c T d \<Longrightarrow> i \<notin> S \<Longrightarrow> accounts (insert i S) c (insert i T) d"
  by (auto simp: accounts_def)

lemma releases_accounts:
  assumes rel: "releases q c ms q' c'" and handle: "ctx_handle c \<noteq> None"
  shows "accounts (held_ids q) c (held_ids q') c'"
proof -
  let ?new = "map (\<lambda>m. (held_id m, hold_resolve m)) ms"
  have "held_ids q = held_ids q' \<union> held_id ` set ms \<and> held_ids q' \<inter> held_id ` set ms = {}"
  proof -
    have "j \<in> held_ids q' \<longleftrightarrow> j \<in> held_ids q \<and> j \<notin> held_id ` set ms" for j
      using releasesD(9) [OF rel, THEN spec, of j] by (auto simp: same_message_def split: if_splits)
    moreover have "held_id m \<in> held_ids q" if "m \<in> set ms" for m
      using releasesD(8) [OF rel] that by (fastforce simp: same_message_def)
    ultimately show ?thesis by blast
  qed
  moreover have "acks c' = acks c @ ?new" using releasesD(4) [OF rel] handle by (simp add: answers_def)
  moreover have "distinct (map fst ?new)" using releasesD(6) [OF rel] by (simp add: comp_def)
  ultimately show ?thesis by (auto simp: accounts_def image_image intro!: exI [of _ ?new])
qed

text \<open>The length of the queue is the number of entries in the order of time.\<close>

lemma queue_len_eq:
  assumes "queue_inv q"
  shows "queue_len q = length (time_id q)"
proof -
  have "inj_on snd (set (time_id q))"
  proof (rule inj_onI)
    fix a b assume ab: "a \<in> set (time_id q)" "b \<in> set (time_id q)" "snd a = snd b"
    then have "(fst a, snd a) \<in> set (time_id q)" "(fst b, snd a) \<in> set (time_id q)" by (metis prod.collapse)+
    then have "hm_get (id_time q) (snd a) = Some (fst a)" "hm_get (id_time q) (snd a) = Some (fst b)"
      by (simp_all only: queue_invD(4) [OF assms])
    with ab(3) show "a = b" by (simp add: prod_eq_iff)
  qed
  moreover have "distinct (time_id q)"
    using queue_invD(3) [OF assms] by (rule timed_sorted_distinct)
  ultimately have "length (time_id q) = card (snd ` set (time_id q))"
    by (simp add: card_image distinct_card)
  also have "snd ` set (time_id q) = fst ` set (hold_messages q)"
    using queue_inv_held_iff [OF assms] dom_map_of_conv_image_fst [of "hold_messages q"]
    by (auto simp: set_eq_iff dom_def)
  also have "card \<dots> = length (hold_messages q)"
    using queue_invD(1) [OF assms] by (metis distinct_card length_map list.set_map)
  finally show ?thesis by (simp add: queue_len_def queue_invD(6) [OF assms])
qed

section \<open>Accepting a message\<close>

lemma wait_ack_new_wf: "platform_ok pl \<Longrightarrow> finite eps \<Longrightarrow> hm_wf (wa_status (wait_ack_new k (ep_order pl eps)))"
  by (simp add: wait_ack_new_def platform_ok_def comp_def)

lemma collect_addr_eq: "collect_addr_by_subjects d subs = (\<Union>s \<in> set subs. interest_map_find (ep_interest_map d) s)"
proof -
  have "fold (\<lambda>s acc. acc \<union> interest_map_find (ep_interest_map d) s) subs A
      = A \<union> (\<Union>s \<in> set subs. interest_map_find (ep_interest_map d) s)" for A
    by (induction subs arbitrary: A) auto
  then show ?thesis by (simp add: collect_addr_by_subjects_def)
qed

lemma finite_collect_addr:
  assumes "topic_inv d"
  shows "finite (collect_addr_by_subjects d subs)"
proof -
  have im: "interest_map_inv (ep_interest_map d)" using assms by (simp add: topic_inv_def)
  have "interest_map_find (ep_interest_map d) s \<subseteq> dom (hm_get (raw (ep_interest_map d)))" for s
    by (auto simp: interest_map_find_eq [OF im] map_subscribed_def split: option.splits)
  then show ?thesis
    unfolding collect_addr_eq using finite_dom_map_of by (auto intro: finite_subset)
qed

lemma timed_insert_hd:
  "timed_insert t i s \<noteq> [] \<and> (hd (timed_insert t i s) = (t, i) \<or> s \<noteq> [] \<and> hd (timed_insert t i s) = hd s)"
  by (induction t i s rule: timed_insert.induct) auto

lemma queue_push_effect:
  assumes inv: "queue_inv q" and fresh: "entry_fresh (held_id hm) (fst (ctx_now c)) q"
    and wf: "hm_wf (held_status hm)"
  obtains q' where "queue_push hm q c = (q', snd (ctx_now c))" "queue_inv q'" "resolved q' = resolved q"
    "blocking q' = blocking q" "held_ids q' = insert (held_id hm) (held_ids q)"
    "hm_get (hold_messages q') = (hm_get (hold_messages q))(held_id hm \<mapsto> hm)"
    "queue_len q' = queue_len q + 1" "stuck q' \<subseteq> insert (held_id hm) (stuck q)"
proof -
  let ?i = "held_id hm" and ?q = "fst (queue_push hm q c)"
  have held: "hm_get (hold_messages ?q) = (hm_get (hold_messages q))(?i \<mapsto> hm)"
    and tid: "time_id ?q = timed_insert (fst (ctx_now c)) ?i (time_id q)"
    and b: "blocking ?q = blocking q"
    by (simp_all add: queue_push_def Let_def case_prod_unfold)
  have "get_front q = Some h" if "get_front ?q = Some h" "hm_get (hold_messages ?q) j = Some h" "j \<noteq> ?i" for j h
  proof -
    obtain t k where hd: "hd (time_id ?q) = (t, k)" by fastforce
    then have k: "hm_get (hold_messages ?q) k = Some h" "k = j"
      using that(1,2) queue_invD(7) [OF queue_inv_push [OF inv fresh wf]]
      by (cases "time_id ?q"; auto simp: get_front_def)+
    with hd timed_insert_hd [of "fst (ctx_now c)" ?i "time_id q"] that(3)
    have "time_id q \<noteq> [] \<and> hd (time_id q) = (t, j)" by (auto simp: tid)
    with k that(3) show ?thesis by (cases "time_id q") (auto simp: get_front_def held)
  qed
  then have "stuck ?q \<subseteq> insert ?i (stuck q)"
    by (auto simp: stuck_def b) (simp add: held split: if_splits)+
  moreover have "held_ids ?q = insert ?i (held_ids q)" unfolding held by simp
  ultimately show thesis
    using that [of ?q] queue_inv_push [OF inv fresh wf] held b
    by (simp add: queue_push_def Let_def case_prod_unfold queue_len_def)
qed

lemma releases_len:
  assumes "queue_inv q" "releases q c ms q' c'"
  shows "queue_len q' \<le> queue_len q"
  using releasesD(7) [OF assms(2)] queue_len_eq [OF assms(1)] queue_len_eq [OF releasesD(1) [OF assms(2)]]
  by (simp add: length_filter_le)

text \<open>
  What accepting a message does, whatever the branch: the topic stays well-formed, the message
  is held or answered, the others are accounted for, and a bounded queue stays within its bound.
\<close>

definition accepts ::
  "message_id \<Rightarrow> topic_data \<Rightarrow> proposal_context \<Rightarrow> topic_data \<Rightarrow> proposal_context \<Rightarrow> bool" where
  "accepts i d c d' c' \<longleftrightarrow> topic_inv d' \<and> ctx_frame c c' \<and> td_config d' = td_config d \<and>
    ep_routing_table d' = ep_routing_table d \<and> ep_interest_map d' = ep_interest_map d \<and>
    blocking (td_queue d') = blocking (td_queue d) \<and>
    (\<not> blocking (td_queue d) \<longrightarrow> stuck (td_queue d') \<subseteq> stuck (td_queue d)) \<and>
    (ctx_handle c \<noteq> None \<longrightarrow>
      accounts (insert i (held_ids (td_queue d))) c (held_ids (td_queue d')) c') \<and>
    queue_len (td_queue d') \<le> queue_len (td_queue d) + 1"

lemma enqueue_message_accepts:
  assumes inv: "topic_inv d" and pl: "ctx_ok c" and wf: "hm_wf (held_status hm)"
    and fresh: "entry_fresh (held_id hm) (fst (ctx_now c)) (td_queue d)"
  shows "\<exists>d' c'. enqueue_message hm d c = Inr (d', c') \<and> accepts (held_id hm) d c d' c'"
proof -
  let ?i = "held_id hm" and ?c = "push_durable_command (Create (held_message hm)) (snd (ctx_now c))"
  have q: "queue_inv (td_queue d)" "resolved (td_queue d) = {}" using inv by (simp_all add: topic_inv_def)
  from queue_push_effect [OF q(1) fresh wf] obtain q1 where
    q1: "queue_push hm (td_queue d) c = (q1, snd (ctx_now c))" "queue_inv q1" "resolved q1 = resolved (td_queue d)"
      "held_ids q1 = insert ?i (held_ids (td_queue d))" "blocking q1 = blocking (td_queue d)"
      "queue_len q1 = queue_len (td_queue d) + 1" "stuck q1 \<subseteq> insert ?i (stuck (td_queue d))" by metis
  have quiet: "ctx_quiet c ?c" by (rule ctx_quiet_trans [OF ctx_quiet_now ctx_quiet_create])
  then have frame: "ctx_frame c ?c" "acks ?c = acks c" by (simp_all add: ctx_quiet_def)
  have "topic_inv (d\<lparr>td_queue := q1\<rparr>)" using inv q1(2,3) q(2) by (simp add: topic_inv_def)
  from update_and_flush_releases [OF this ctx_ok_frame [OF frame(1) pl], of "state_update_new_empty ?i"]
  obtain ms q2 c2 where r: "enqueue_message hm d c = Inr (d\<lparr>td_queue := q2\<rparr>, c2)"
    "releases q1 ?c ms q2 c2" "topic_inv (d\<lparr>td_queue := q2\<rparr>)" "stuck q2 \<subseteq> stuck q1 - {?i}"
    by (auto simp: enqueue_message_def q1(1) state_update_new_empty_def)
  have "accounts (insert ?i (held_ids (td_queue d))) c (held_ids q2) c2" if "ctx_handle c \<noteq> None"
    using releases_accounts [OF r(2)] that ctx_frame_handle [OF frame(1)] q1(4) frame(2)
    by (auto simp: accounts_def)
  then show ?thesis
    using r q1(5-7) releases_len [OF q1(2) r(2)] releasesD(3) [OF r(2)] ctx_frame_trans [OF frame(1) releasesD(2) [OF r(2)]]
    by (auto simp: accepts_def)
qed

lemma entry_fresh_removed:
  "entry_fresh i t q \<Longrightarrow> set (time_id q') \<subseteq> set (time_id q) \<Longrightarrow> held_ids q' \<subseteq> held_ids q \<Longrightarrow> entry_fresh i t q'"
  by (auto simp: entry_fresh_def domIff)

lemma ctx_now_resolve: "fst (ctx_now (resolve_ack i r c)) = fst (ctx_now c)"
  by (simp add: ctx_now_def utc_now_def resolve_ack_def spawn_task_def split: option.split)

text \<open>The bound of an overflow configuration is a \<open>NonZeroU32\<close>.\<close>

definition config_ok :: "topic_config \<Rightarrow> bool" where
  "config_ok cfg \<longleftrightarrow> (case overflow_config cfg of None \<Rightarrow> True | Some oc \<Rightarrow> overflow_size oc \<noteq> 0)"

lemma config_ok_new:
  "config_ok \<lparr>cfg_code = code, cfg_blocking = b, overflow_config = Some (new_reject_new n)\<rparr>"
  "config_ok \<lparr>cfg_code = code, cfg_blocking = b, overflow_config = Some (new_drop_old n)\<rparr>"
  by (simp_all add: config_ok_def new_reject_new_def new_drop_old_def non_zero_or_max_def)

lemma put_in_queue_accepts:
  assumes inv: "topic_inv d" and pl: "ctx_ok c" and wf: "hm_wf (held_status hm)"
    and fresh: "entry_fresh (held_id hm) (fst (ctx_now c)) (td_queue d)"
    and cfg: "config_ok (td_config d)"
  shows "\<exists>d' c'. put_in_queue hm d c = Inr (d', c') \<and> accepts (held_id hm) d c d' c' \<and>
    (\<forall>oc. overflow_config (td_config d) = Some oc \<longrightarrow> queue_len (td_queue d) \<le> overflow_config_size oc \<longrightarrow>
       queue_len (td_queue d') \<le> overflow_config_size oc)"
proof -
  have q: "queue_inv (td_queue d)" "resolved (td_queue d) = {}" using inv by (simp_all add: topic_inv_def)
  have new: "held_id hm \<notin> held_ids (td_queue d)" using fresh by (simp add: entry_fresh_def domIff)
  consider (room) "put_in_queue hm d c = enqueue_message hm d c"
      "\<forall>oc. overflow_config (td_config d) = Some oc \<longrightarrow> queue_len (td_queue d) < overflow_config_size oc"
    | (reject) "put_in_queue hm d c = Inr (d, resolve_ack (held_id hm) (Inl (wait_ack_error_of Overflow)) c)"
    | (drop) oc where "overflow_config (td_config d) = Some oc" "overflow_config_size oc \<le> queue_len (td_queue d)"
      "policy oc = DropOld"
  proof (cases "overflow_config (td_config d)")
    case (Some oc)
    then show thesis
      using that by (cases "policy oc"; cases "overflow_config_size oc \<le> queue_len (td_queue d)")
        (simp_all add: put_in_queue_def not_le)
  qed (use that in \<open>simp add: put_in_queue_def\<close>)
  then show ?thesis
  proof cases
    case room
    with enqueue_message_accepts [OF inv pl wf fresh] show ?thesis by (fastforce simp: accepts_def)
  next
    case reject
    then show ?thesis using inv new accounts_answer [OF new]
      by (auto simp: accepts_def acks_resolve)
  next
    case drop
    have "queue_len (td_queue d) \<noteq> 0"
      using drop(1,2) cfg unat_eq_zero [of "overflow_size oc"]
      by (auto simp: overflow_config_size_def config_ok_def)
    then obtain t k rest where tid: "time_id (td_queue d) = (t, k) # rest"
      using queue_len_eq [OF q(1)] by (cases "time_id (td_queue d)") auto
    from queue_pop_Cons [OF q(1) tid] obtain old q1 where pop: "held_id old = k"
      "queue_pop (td_queue d) = Inr (Some old, q1)" "queue_inv q1" "time_id q1 = rest"
      "blocking q1 = blocking (td_queue d)" "get_front (td_queue d) = Some old"
      "hm_get (hold_messages (td_queue d)) k = Some old"
      "hm_get (hold_messages q1) = (hm_get (hold_messages (td_queue d)))(k := None)"
      "resolved q1 = resolved (td_queue d) - {k}" by metis
    let ?c = "resolve_ack (held_id old) (Inl (wait_ack_error_of Overflow)) c"
    have ids: "held_ids (td_queue d) = insert k (held_ids q1)" "k \<notin> held_ids q1" "k \<noteq> held_id hm"
      using pop(7,8) new by auto
    have "topic_inv (d\<lparr>td_queue := q1\<rparr>)" using inv pop(3,9) q(2) by (simp add: topic_inv_def)
    moreover have "entry_fresh (held_id hm) (fst (ctx_now ?c)) q1"
    proof -
      have "set (time_id q1) \<subseteq> set (time_id (td_queue d))" using tid pop(4) by auto
      moreover have "held_ids q1 \<subseteq> held_ids (td_queue d)" unfolding ids(1) by blast
      ultimately show ?thesis unfolding ctx_now_resolve by (rule entry_fresh_removed [OF fresh])
    qed
    moreover have "ctx_ok ?c" using ctx_ok_frame [OF ctx_frame_resolve pl] .
    ultimately obtain d' c' where e: "enqueue_message hm (d\<lparr>td_queue := q1\<rparr>) ?c = Inr (d', c')"
      "accepts (held_id hm) (d\<lparr>td_queue := q1\<rparr>) ?c d' c'"
      using enqueue_message_accepts [of "d\<lparr>td_queue := q1\<rparr>" ?c hm] wf by auto
    have "put_in_queue hm d c = Inr (d', c')"
      using drop pop(2) e(1) by (simp add: put_in_queue_def)
    moreover have "stuck (td_queue d') \<subseteq> stuck (td_queue d)" if nb: "\<not> blocking (td_queue d)"
    proof -
      have "stuck q1 \<subseteq> stuck (td_queue d) - {k}"
        by (rule stuck_removed) (use nb pop(5,8) in simp_all)
      moreover have "stuck (td_queue d') \<subseteq> stuck q1" using e(2) nb pop(5) by (simp add: accepts_def)
      ultimately show ?thesis by blast
    qed
    moreover have "accounts (insert (held_id hm) (held_ids (td_queue d))) c (held_ids (td_queue d')) c'"
      if "ctx_handle c \<noteq> None"
    proof (rule accounts_trans)
      show "accounts (insert (held_id hm) (held_ids (td_queue d))) c (insert (held_id hm) (held_ids q1)) ?c"
        unfolding ids(1) insert_commute [of "held_id hm"]
        using ids(2,3) that by (intro accounts_answer) (auto simp: acks_resolve pop(1))
      show "accounts (insert (held_id hm) (held_ids q1)) ?c (held_ids (td_queue d')) c'"
        using e(2) that by (simp add: accepts_def ctx_frame_handle [OF ctx_frame_resolve])
    qed
    moreover have "queue_len q1 + 1 = queue_len (td_queue d)"
      using queue_len_eq [OF q(1)] queue_len_eq [OF pop(3)] tid pop(4) by simp
    ultimately show ?thesis
      using e(2) pop(5) ctx_frame_trans [OF ctx_frame_resolve, of "held_id old" "Inl (wait_ack_error_of Overflow)" c c']
      by (intro exI [of _ d'] exI [of _ c']) (simp add: accepts_def)
  qed
qed

lemma hold_for_accepts:
  assumes "topic_inv d" "ctx_ok c" "config_ok (td_config d)" "finite eps"
    "entry_fresh (msg_id m) (fst (ctx_now c)) (td_queue d)"
  shows "\<exists>d' c'. hold_for eps m d c = Inr (d', c') \<and> accepts (msg_id m) d c d' c' \<and>
    (\<forall>oc. overflow_config (td_config d) = Some oc \<longrightarrow> queue_len (td_queue d) \<le> overflow_config_size oc \<longrightarrow>
       queue_len (td_queue d') \<le> overflow_config_size oc)"
proof -
  let ?hm = "\<lparr>held_message = m,
    held_wait_ack = wait_ack_new (msg_ack_kind m) (ep_order (node_platform (ctx_node c)) eps)\<rparr>"
  show ?thesis
    using put_in_queue_accepts [OF assms(1,2), of ?hm] assms(3,5) wait_ack_new_wf [OF assms(2,4)]
    by (auto simp: hold_for_def)
qed

lemma hash_ring_set: "platform_ok pl \<Longrightarrow> finite eps \<Longrightarrow> snd ` set (hash_ring pl eps) = eps"
  by (simp add: hash_ring_def platform_ok_def image_image)

abbreviation stays_within :: "topic_data \<Rightarrow> topic_data \<Rightarrow> bool" where
  "stays_within d d' \<equiv> (\<forall>oc. overflow_config (td_config d) = Some oc \<longrightarrow>
     queue_len (td_queue d) \<le> overflow_config_size oc \<longrightarrow> queue_len (td_queue d') \<le> overflow_config_size oc)"

lemma push_without_target:
  assumes "ctx_ok c" "topic_inv d" "target_kind (header m) = Push"
    "collect_addr_by_subjects d (subjects (header m)) = {}"
  shows "hold_new_message m d c =
    Inr (d, resolve_ack (msg_id m) (Inl (wait_ack_error_of NoAvailableTarget)) c)"
  using assms hash_ring_set [OF assms(1) finite_collect_addr [OF assms(2)], of "subjects (header m)"]
  by (simp add: hold_new_message_def)

lemma hold_new_message_accepts:
  assumes inv: "topic_inv d" and pl: "ctx_ok c" and cfg: "config_ok (td_config d)"
    and kind: "target_kind (header m) \<noteq> Available"
    and fresh: "entry_fresh (msg_id m) (fst (ctx_now c)) (td_queue d)"
  shows "\<exists>d' c'. hold_new_message m d c = Inr (d', c') \<and> accepts (msg_id m) d c d' c' \<and> stays_within d d'"
proof -
  let ?eps = "collect_addr_by_subjects d (subjects (header m))"
  let ?pl = "node_platform (ctx_node c)" and ?ring = "hash_ring (node_platform (ctx_node c)) ?eps"
  have fin: "finite ?eps" using finite_collect_addr [OF inv] .
  have new: "msg_id m \<notin> held_ids (td_queue d)" using fresh by (simp add: entry_fresh_def domIff)
  note hold = hold_for_accepts [OF inv pl cfg _ fresh]
  consider (none) "target_kind (header m) = Push" "?ring = []"
    | (push) "target_kind (header m) = Push" "?ring \<noteq> []"
    | (all) "target_kind (header m) \<noteq> Push" by blast
  then show ?thesis
  proof cases
    case none
    have "accepts (msg_id m) d c d (resolve_ack (msg_id m) (Inl (wait_ack_error_of NoAvailableTarget)) c)"
      using inv accounts_answer [OF new] by (auto simp: accepts_def acks_resolve)
    with none show ?thesis by (simp add: hold_new_message_def)
  next
    case push
    with hold [of "{snd (?ring ! (unat (hash64_id ?pl (msg_id m)) mod length ?ring))}"]
    show ?thesis by (simp add: hold_new_message_def Let_def)
  next
    case all
    then have "hold_new_message m d c = hold_for ?eps m d c"
      using kind by (simp add: hold_new_message_def split: message_target_kind.split)
    with hold [OF fin] show ?thesis by simp
  qed
qed

text \<open>
  (C8) \<open>hold_new_message\<close> on a new message panics if its kind is \<open>Available\<close> and returns otherwise;
  then the message and all that were held are afterwards held or have been answered exactly
  once, the invariant is kept, and a queue within its overflow bound stays within it.  A \<open>Push\<close>
  message nobody is interested in is answered with \<open>NoAvailableTarget\<close> at once.
\<close>

theorem hold_new_message_correct:
  assumes "topic_inv d" "ctx_ok c" "config_ok (td_config d)"
    "entry_fresh (msg_id m) (fst (ctx_now c)) (td_queue d)"
  shows "if target_kind (header m) = Available then hold_new_message m d c = Inl Unimplemented
    else \<exists>d' c'. hold_new_message m d c = Inr (d', c') \<and> accepts (msg_id m) d c d' c' \<and> stays_within d d' \<and>
    (target_kind (header m) = Push \<longrightarrow> collect_addr_by_subjects d (subjects (header m)) = {} \<longrightarrow>
       d' = d \<and> c' = resolve_ack (msg_id m) (Inl (wait_ack_error_of NoAvailableTarget)) c)"
proof (cases "target_kind (header m) = Available")
  case True
  then show ?thesis by (simp add: hold_new_message_def)
next
  case False
  with hold_new_message_accepts [OF assms(1-3) False assms(4)] push_without_target [OF assms(2,1), of m]
  show ?thesis by fastforce
qed

section \<open>Targets\<close>

abbreviation interested :: "topic_data \<Rightarrow> subject list \<Rightarrow> endpoint_addr set" where
  "interested d subs \<equiv>
    {ep. \<exists>s \<in> set subs. \<exists>i \<in> map_subscribed (ep_interest_map d) ep. interest_matches i s}"

lemma collect_addr_interested:
  "topic_inv d \<Longrightarrow> collect_addr_by_subjects d subs = interested d subs"
  by (auto simp: collect_addr_eq topic_inv_def interest_map_find_eq)

lemma wait_ack_new_status:
  assumes "platform_ok pl" "finite eps"
  shows "hm_get (wa_status (wait_ack_new k (ep_order pl eps))) ep = (if ep \<in> eps then Some Unsent else None)"
  using assms by (simp add: wait_ack_new_def platform_ok_def map_of_map_restrict restrict_map_def)

lemma hold_new_message_targets:
  assumes inv: "topic_inv d" and pl: "ctx_ok c" and kind: "target_kind (header m) \<noteq> Available"
    and some: "target_kind (header m) = Push \<longrightarrow> interested d (subjects (header m)) \<noteq> {}"
  shows "\<exists>hm. hold_new_message m d c = put_in_queue hm d c \<and> held_message hm = m \<and>
    expect (held_wait_ack hm) = ack_kind (header m) \<and>
    (\<exists>eps. (\<forall>ep. hm_get (held_status hm) ep = (if ep \<in> eps then Some Unsent else None)) \<and>
      (if target_kind (header m) = Push
       then \<exists>ep \<in> interested d (subjects (header m)). eps = {ep}
       else eps = interested d (subjects (header m))))"
proof -
  let ?pl = "node_platform (ctx_node c)" and ?eps = "interested d (subjects (header m))"
  let ?hm = "\<lambda>eps. \<lparr>held_message = m, held_wait_ack = wait_ack_new (ack_kind (header m)) (ep_order ?pl eps)\<rparr>"
  let ?ring = "hash_ring ?pl ?eps"
  have eps: "collect_addr_by_subjects d (subjects (header m)) = ?eps" and fin: "finite ?eps"
    using collect_addr_interested [OF inv] finite_collect_addr [OF inv] by metis+
  have hold: "hold_for eps m d c = put_in_queue (?hm eps) d c" for eps by (simp add: hold_for_def)
  have status: "hm_get (held_status (?hm eps)) ep = (if ep \<in> eps then Some Unsent else None)"
    if "finite eps" for eps ep using wait_ack_new_status [OF pl that] by simp
  show ?thesis
  proof (cases "target_kind (header m) = Push")
    case True
    have ring: "snd ` set ?ring = ?eps" by (rule hash_ring_set [OF pl fin])
    with some True have ne: "?ring \<noteq> []" by (metis image_empty list.set(1))
    let ?ep = "snd (?ring ! (unat (hash64_id ?pl (msg_id m)) mod length ?ring))"
    have "?ep \<in> snd ` set ?ring" using ne by (intro imageI nth_mem) simp
    then have "?ep \<in> ?eps" by (simp only: ring)
    moreover have "hold_new_message m d c = put_in_queue (?hm {?ep}) d c"
      using True ne by (simp add: hold_new_message_def Let_def eps hold)
    ultimately show ?thesis
      using True status [of "{?ep}"]
      by (intro exI [of _ "?hm {?ep}"] conjI exI [of _ "{?ep}"]) (simp_all add: wait_ack_new_def)
  next
    case False
    then have "hold_new_message m d c = put_in_queue (?hm ?eps) d c"
      using kind by (simp add: hold_new_message_def eps hold split: message_target_kind.split)
    then show ?thesis
      using False status [OF fin]
      by (intro exI [of _ "?hm ?eps"] conjI exI [of _ ?eps]) (simp_all add: wait_ack_new_def)
  qed
qed

text \<open>
  (C26) Whom a message goes to: a message that is accepted enters the queue with the status
  \<open>Unsent\<close> for every endpoint with an interest that matches one of its subjects and for no
  other; a \<open>Push\<close> message for exactly one of them.
\<close>

theorem message_targets:
  assumes inv: "topic_inv d" and pl: "ctx_ok c" and kind: "target_kind (header m) \<noteq> Available"
    and some: "target_kind (header m) = Push \<longrightarrow> interested d (subjects (header m)) \<noteq> {}"
  shows "\<exists>hm. hold_new_message m d c = put_in_queue hm d c \<and> held_message hm = m \<and>
    expect (held_wait_ack hm) = ack_kind (header m) \<and>
    (\<exists>eps. (\<forall>ep. hm_get (held_status hm) ep = (if ep \<in> eps then Some Unsent else None)) \<and>
      (if target_kind (header m) = Push
       then \<exists>ep \<in> interested d (subjects (header m)). eps = {ep}
       else eps = interested d (subjects (header m))))"
  by (rule hold_new_message_targets [OF assms])

text \<open>
  The choice of a \<open>Push\<close> message's endpoint does not depend on the order in which a replica
  happens to iterate its hash set: replicas that hash alike, without collisions, build the same
  ring.
\<close>

theorem push_choice_replicated:
  assumes "platform_ok pl" "platform_ok pl'" "finite eps"
    and "hash64_ep pl' = hash64_ep pl" "inj_on (hash64_ep pl) eps"
  shows "hash_ring pl' eps = hash_ring pl eps"
proof -
  let ?l = "\<lambda>pl. map (\<lambda>ep. (hash64_ep pl ep, ep)) (ep_order pl eps)"
  have "mset (ep_order pl' eps) = mset (ep_order pl eps)"
    using assms(1-3) by (simp add: platform_ok_def set_eq_iff_mset_eq_distinct [symmetric])
  then have "mset (?l pl') = mset (hash_ring pl eps)"
    by (simp add: hash_ring_def assms(4))
  moreover have "inj_on fst (set (?l pl'))"
    using assms(2-5) by (auto simp: inj_on_def platform_ok_def)
  moreover have "sorted (map fst (hash_ring pl eps))" by (simp add: hash_ring_def)
  ultimately show ?thesis
    unfolding hash_ring_def [of pl'] by (rule sort_key_inj_key_eq)
qed

section \<open>Completion\<close>

lemma distinct_singleton_list: "set xs = {x} \<Longrightarrow> distinct xs \<Longrightarrow> xs = [x]"
  by (cases xs; cases "tl xs") auto

lemma id_order_single: "platform_ok pl \<Longrightarrow> id_order pl {i} = [i]"
  by (rule distinct_singleton_list) (simp_all add: platform_ok_def)

text \<open>Room in the queue of a topic.\<close>

definition has_room :: "topic_data \<Rightarrow> bool" where
  "has_room d \<longleftrightarrow>
    (case overflow_config (td_config d) of None \<Rightarrow> True | Some oc \<Rightarrow> queue_len (td_queue d) < overflow_config_size oc)"

lemma put_in_queue_room: "has_room d \<Longrightarrow> put_in_queue hm d c = enqueue_message hm d c"
  by (auto simp: put_in_queue_def has_room_def split: option.splits)

text \<open>
  When a message is finished: a \<open>Durable\<close> one when its configuration is missing, has expired, or
  names no more receivers than the message has; any other when every endpoint has reached what the
  sender expects, or has failed.
\<close>

definition finished_at :: "time \<Rightarrow> hold_message \<Rightarrow> bool" where
  "finished_at now hm \<longleftrightarrow>
    (if target_kind (header (held_message hm)) = Durable then
       (case durability (header (held_message hm)) of
          None \<Rightarrow> True
        | Some config \<Rightarrow> expire config < now \<or>
            (case max_receiver config of None \<Rightarrow> False | Some n \<Rightarrow> unat n \<le> length (held_status hm)))
     else statuses_resolved hm)"

text \<open>The message once it has been handed out to the endpoints that can be reached.\<close>

definition sent_out :: "endpoint_addr set \<Rightarrow> hold_message \<Rightarrow> hold_message" where
  "sent_out reachable hm =
    set_held_status (map (\<lambda>(ep, st). (ep, send_status reachable ep st)) (held_status hm)) hm"

abbreviation acknowledged :: "message_state_update \<Rightarrow> hold_message \<Rightarrow> hold_message" where
  "acknowledged u hm \<equiv> fold (\<lambda>(from, st). update_ack_held from st) (upd_status u) hm"

lemma sent_out_held [simp]:
  "held_message (sent_out R hm) = held_message hm" "expect (held_wait_ack (sent_out R hm)) = expect (held_wait_ack hm)"
  "held_status (sent_out R hm) = map (\<lambda>(ep, st). (ep, send_status R ep st)) (held_status hm)"
  by (simp_all add: sent_out_def)

lemma sent_out_done: "statuses_resolved hm \<Longrightarrow> sent_out R hm = hm"
proof -
  assume "statuses_resolved hm"
  then have "send_status R ep st = st" if "(ep, st) \<in> set (held_status hm)" for ep st
    using that by (force simp: statuses_resolved_def is_unsent_def)
  then have "map (\<lambda>(ep, st). (ep, send_status R ep st)) (held_status hm) = held_status hm"
    by (intro map_idI) auto
  then show ?thesis by (simp add: sent_out_def)
qed

lemma finished_sent_out [simp]: "finished_at now (sent_out R hm) = finished_at now hm"
proof -
  have "status_is_resolved (send_status R ep st) k = status_is_resolved st k" for ep st k
    by (cases k) (simp_all add: status_is_resolved_def is_failed_def is_unsent_def)
  then have "statuses_resolved (sent_out R hm) = statuses_resolved hm"
    by (simp only: statuses_resolved_def sent_out_held set_map image_image ball_simps(9) case_prod_unfold fst_conv snd_conv)
  then show ?thesis by (simp add: finished_at_def split: option.split)
qed

lemma hold_is_resolved_finished: "fst (hold_is_resolved hm c) = finished_at (fst (ctx_now c)) hm"
  by (auto simp: hold_is_resolved_def finished_at_def statuses_resolved_def case_prod_unfold Let_def
      split: message_target_kind.split option.split)

lemma send_unsent_clock:
  assumes "send_unsent reachable hm c = (hm', c')"
  shows "fst (ctx_now c') = fst (ctx_now c)"
proof -
  have d: "fst (ctx_now (dispatch_message m ep c)) = fst (ctx_now c)" for m ep c
    by (auto simp: dispatch_message_def ctx_now_def utc_now_def spawn_task_def split: option.split)
  have "send_unsent_loop m reachable st c = (st', c') \<Longrightarrow> fst (ctx_now c') = fst (ctx_now c)" for m st st' c c'
    by (induction m reachable st c arbitrary: st' c' rule: send_unsent_loop.induct)
      (auto simp: d split: if_splits prod.splits)
  with assms show ?thesis by (auto simp: send_unsent_def split: prod.splits)
qed

text \<open>
  A status update on a non-blocking topic: the statuses are entered, what can be sent is sent, and
  the message stays as it then is or, when that finishes it, leaves.
\<close>

lemma update_effect:
  assumes inv: "topic_inv d" and pl: "ctx_ok c" and nb: "\<not> blocking (td_queue d)"
    and hm: "hm_get (hold_messages (td_queue d)) (upd_message_id u) = Some hm"
  defines "fin \<equiv> finished_at (fst (ctx_now c)) (acknowledged u hm)"
    and "hm' \<equiv> sent_out (reachable_eps d (node_config_id (ctx_node c))) (acknowledged u hm)"
  shows "\<exists>q' c'. update_and_flush u d c = Inr (d\<lparr>td_queue := q'\<rparr>, if fin then settle (upd_message_id u) hm' c' else c') \<and>
    ctx_quiet c c' \<and> \<not> blocking q' \<and>
    hm_get (hold_messages q') = (hm_get (hold_messages (td_queue d)))(upd_message_id u := if fin then None else Some hm')"
proof -
  let ?i = "upd_message_id u" and ?r = "reachable_eps d (node_config_id (ctx_node c))"
  let ?c1 = "push_durable_command (UpdateStatus u) c"
  let ?q1 = "fold (\<lambda>(from, st). update_ack ?i from st) (upd_status u) (td_queue d)"
  have q: "queue_inv (td_queue d)" "resolved (td_queue d) = {}" using inv by (simp_all add: topic_inv_def)
  note q1 = update_acks_effect [OF q(1), of ?i "upd_status u"]
  have hm1: "hm_get (hold_messages ?q1) ?i = Some (acknowledged u hm)" using q1(5) hm by simp
  obtain x c2 where x: "send_unsent ?r (acknowledged u hm) ?c1 = (x, c2)" by (rule prod.exhaust)
  then have send: "send_unsent ?r (acknowledged u hm) ?c1 = (hm', c2)"
    using send_unsent_eq(1) [OF x] by (simp only: hm'_def sent_out_def)
  have "fst (ctx_now c2) = fst (ctx_now c)"
    using send_unsent_clock [OF send]
    by (simp add: push_durable_command_def push_durable_commands_def ctx_now_def utc_now_def)
  then have "fst (hold_is_resolved hm' c2) = fin"
    unfolding hold_is_resolved_finished by (simp only: fin_def hm'_def finished_sent_out)
  then obtain c3 where res: "hold_is_resolved hm' c2 = (fin, c3)" by (cases "hold_is_resolved hm' c2") simp
  let ?q2 = "?q1\<lparr>hold_messages := hm_insert ?i hm' (hold_messages ?q1), resolved := (if fin then {?i} else {})\<rparr>"
  have poll: "poll_message ?i ?r ?q1 ?c1 = (Some (if fin then Ready else poll.Pending), ?q2, c3)"
    using poll_message_held [OF q1(1) _ hm1 _ send res] nb q1(3,4) q(2) by simp
  have quiet: "ctx_quiet c c3"
    using ctx_quiet_trans [OF ctx_quiet_trans [OF ctx_quiet_update_status send_unsent_eq(2) [OF send]]
        hold_is_resolved_quiet(1) [OF res]] .
  show ?thesis
  proof (cases fin)
    case False
    then have "update_and_flush u d c = Inr (d\<lparr>td_queue := ?q2\<rparr>, c3)"
      using poll by (simp add: update_and_flush_def Let_def)
    with False quiet q1(3,5) nb show ?thesis by (intro exI [of _ ?q2] exI [of _ c3]) (simp add: fun_eq_iff)
  next
    case True
    have "queue_inv ?q2" using poll_message_effect [OF q1(1) poll] unfolding poll_effect_def by (elim conjE)
    then have q2: "queue_inv (?q2\<lparr>resolved := {}\<rparr>)" by (simp add: queue_inv_def)
    have "hm_get (hold_messages (?q2\<lparr>resolved := {}\<rparr>)) ?i = Some hm'" by simp
    from queue_remove_Some [OF q2 this] obtain q3 where
      rm: "queue_remove ?i (?q2\<lparr>resolved := {}\<rparr>) = Inr (Some hm', q3)"
        "hm_get (hold_messages q3) = (hm_get (hold_messages (?q2\<lparr>resolved := {}\<rparr>)))(?i := None)"
        "blocking q3 = blocking (?q2\<lparr>resolved := {}\<rparr>)" by auto
    have "id_order (node_platform (ctx_node c3)) {?i} = [?i]"
      using id_order_single pl quiet by (simp add: ctx_quiet_def ctx_frame_def)
    then have up: "update_and_flush u d c = Inr (d\<lparr>td_queue := q3\<rparr>, settle ?i hm' c3)"
      using poll rm(1) nb q1(3) True
      by (simp add: update_and_flush_def Let_def flush_def swap_out_resolved_def)
    have "\<not> blocking q3" using rm(3) q1(3) nb by simp
    moreover have "hm_get (hold_messages q3) = (hm_get (hold_messages (td_queue d)))(?i := None)"
      using rm(2) q1(5) by (simp add: fun_eq_iff)
    ultimately show ?thesis using up quiet True by auto
  qed
qed

text \<open>
  (C9) What a status update does to its message on a non-blocking topic, whatever its target kind:
  the statuses are entered and the endpoints that can be reached and are \<open>Unsent\<close> become \<open>Sending\<close>.
  If that finishes the message, it leaves the queue within the same operation, is
  archived and its sender, waiting at the handle of the topic, gets the status map, as a success or
  as an error; if not, it stays with the new statuses, and nobody is answered and nothing archived.
  A message that is not \<open>Durable\<close> is finished exactly when every endpoint has reached what the
  sender expects or has failed, a \<open>Durable\<close> one by its expiry or its number of receivers, whatever the
  statuses say.
\<close>

theorem status_update_completes:
  assumes inv: "topic_inv d" and pl: "ctx_ok c" and handle: "ctx_handle c \<noteq> None"
    and nb: "\<not> blocking (td_queue d)"
    and hm: "hm_get (hold_messages (td_queue d)) (upd_message_id u) = Some hm"
  shows "\<exists>d' c' hm'. update_and_flush u d c = Inr (d', c') \<and>
    hm' = sent_out (reachable_eps d (node_config_id (ctx_node c))) (acknowledged u hm) \<and>
    (statuses_resolved (acknowledged u hm) \<longrightarrow> hm' = acknowledged u hm) \<and>
    (if finished_at (fst (ctx_now c)) (acknowledged u hm) then
       acks c' = acks c @ [(upd_message_id u, hold_resolve hm')] \<and> archived c' = archived c @ [upd_message_id u] \<and>
       hm_get (hold_messages (td_queue d')) = (hm_get (hold_messages (td_queue d)))(upd_message_id u := None)
     else
       acks c' = acks c \<and> archived c' = archived c \<and>
       hm_get (hold_messages (td_queue d')) = (hm_get (hold_messages (td_queue d)))(upd_message_id u \<mapsto> hm'))"
proof -
  let ?fin = "finished_at (fst (ctx_now c)) (acknowledged u hm)"
  let ?hm = "sent_out (reachable_eps d (node_config_id (ctx_node c))) (acknowledged u hm)"
  obtain q' c' where u: "update_and_flush u d c =
      Inr (d\<lparr>td_queue := q'\<rparr>, if ?fin then settle (upd_message_id u) ?hm c' else c')" "ctx_quiet c c'"
    "hm_get (hold_messages q') = (hm_get (hold_messages (td_queue d)))(upd_message_id u := if ?fin then None else Some ?hm)"
    using update_effect [OF inv pl nb hm] by blast
  obtain h where "ctx_handle c' = Some h"
    using u(2) handle ctx_frame_handle [of c c'] by (auto simp: ctx_quiet_def)
  with u show ?thesis
    by (intro exI [of _ "d\<lparr>td_queue := q'\<rparr>"] exI [of _ "if ?fin then settle (upd_message_id u) ?hm c' else c'"] exI [of _ ?hm])
      (simp add: sent_out_done settle_effect ctx_quiet_def)
qed

text \<open>
  \<open>DropOld\<close> on a full blocking topic: the oldest message is dropped and the next one moves to
  the front, but nobody polls it.  It keeps its statuses, nothing is dispatched, and, since a
  blocking queue sends only its front, the whole topic waits until some other event polls it.
\<close>

theorem drop_old_starves_blocking_topic:
  assumes inv: "topic_inv d" and pl: "ctx_ok c" and b: "blocking (td_queue d)"
    and oc: "overflow_config (td_config d) = Some oc" "policy oc = DropOld"
      "overflow_config_size oc \<le> queue_len (td_queue d)"
    and tid: "time_id (td_queue d) = (t, i) # (v, j) # rest"
    and late: "\<forall>p \<in> set (time_id (td_queue d)). fst p < fst (ctx_now c)"
    and new: "hm_get (hold_messages (td_queue d)) (held_id hm) = None" "hm_wf (held_status hm)"
  shows "\<exists>d' c'. put_in_queue hm d c = Inr (d', c') \<and> dispatches c' = dispatches c \<and>
    time_id (td_queue d') = (v, j) # rest @ [(fst (ctx_now c), held_id hm)] \<and>
    hm_get (hold_messages (td_queue d')) j = hm_get (hold_messages (td_queue d)) j"
proof -
  let ?i = "held_id hm" and ?now = "fst (ctx_now c)"
  have q: "queue_inv (td_queue d)" "resolved (td_queue d) = {}" using inv by (simp_all add: topic_inv_def)
  from queue_pop_Cons [OF q(1) tid] obtain old q1 where pop: "held_id old = i"
    "queue_pop (td_queue d) = Inr (Some old, q1)" "queue_inv q1" "time_id q1 = (v, j) # rest"
    "blocking q1 = blocking (td_queue d)"
    "hm_get (hold_messages q1) = (hm_get (hold_messages (td_queue d)))(i := None)"
    "resolved q1 = resolved (td_queue d) - {i}" by metis
  let ?c = "resolve_ack (held_id old) (Inl (wait_ack_error_of Overflow)) c"
  have j: "j \<in> held_ids (td_queue d)" "j \<noteq> i"
    using queue_inv_held_iff [OF pop(3), of j] pop(4,6) by (auto split: if_splits)
  have "entry_fresh ?i (fst (ctx_now ?c)) q1"
    using new(1) late tid pop(4,6) by (auto simp: entry_fresh_def ctx_now_resolve)
  from queue_push_effect [OF pop(3) this new(2)] obtain q2 where
    q2: "queue_push hm q1 ?c = (q2, snd (ctx_now ?c))" "queue_inv q2" "resolved q2 = resolved q1"
      "blocking q2 = blocking q1" "hm_get (hold_messages q2) = (hm_get (hold_messages q1))(?i \<mapsto> hm)" by metis
  have "timed_insert ?now ?i ((v, j) # rest) = (v, j) # rest @ [(?now, ?i)]"
    using timed_insert_last [of "(v, j) # rest" ?now ?i] late tid by simp
  then have tid2: "time_id q2 = (v, j) # rest @ [(?now, ?i)]"
    using q2(1) pop(4) by (auto simp: queue_push_def Let_def case_prod_unfold ctx_now_resolve)
  obtain f where f: "get_front q2 = Some f" "held_id f = j" using queue_pop_Cons [OF q2(2) tid2] by metis
  have ne: "held_id f \<noteq> ?i" using f(2) j(1) new(1) by auto
  let ?c2 = "push_durable_command (UpdateStatus (state_update_new_empty ?i))
    (push_durable_command (Create (held_message hm)) (snd (ctx_now ?c)))"
  have "poll_message ?i r q2 ?c2 = (Some Pending, q2, ?c2)" for r
    using poll_message_blocked [OF _ f(1) ne] b pop(5,7) q2(3,4) q(2) by simp
  then have "put_in_queue hm d c = Inr (d\<lparr>td_queue := q2\<rparr>, ?c2)"
    using oc pop(2) q2(1)
    by (simp add: put_in_queue_def enqueue_message_def update_and_flush_def state_update_new_empty_def)
  then show ?thesis
    using tid2 q2(5) pop(6) j new(1) by (auto simp: domIff)
qed

section \<open>Loading\<close>

lemma hm_get_push_durable:
  "hm_get (hold_messages (push_durable_message dm q)) =
    (hm_get (hold_messages q))(msg_id (dm_message dm) \<mapsto>
      \<lparr>held_message = dm_message dm,
       held_wait_ack = \<lparr>expect = msg_ack_kind (dm_message dm), wa_status = dm_status dm\<rparr>\<rparr>)"
  "time_id (push_durable_message dm q) = timed_insert (dm_time dm) (msg_id (dm_message dm)) (time_id q)"
  "resolved (push_durable_message dm q) = resolved q" "blocking (push_durable_message dm q) = blocking q"
  by (simp_all add: push_durable_message_def Let_def)

lemma push_durable_all:
  assumes "queue_inv q" "sorted_wrt (<) (map dm_time ms)" "distinct (map (\<lambda>m. msg_id (dm_message m)) ms)"
    "\<forall>m \<in> set ms. hm_wf (dm_status m) \<and> msg_id (dm_message m) \<notin> held_ids q \<and>
       (\<forall>p \<in> set (time_id q). fst p < dm_time m)"
  shows "queue_inv (fold push_durable_message ms q) \<and>
    time_id (fold push_durable_message ms q)
      = time_id q @ map (\<lambda>m. (dm_time m, msg_id (dm_message m))) ms \<and>
    resolved (fold push_durable_message ms q) = resolved q \<and>
    blocking (fold push_durable_message ms q) = blocking q"
  using assms
proof (induction ms arbitrary: q)
  case (Cons m ms)
  have fresh: "entry_fresh (msg_id (dm_message m)) (dm_time m) q"
    using Cons.prems(4) by (fastforce simp: entry_fresh_def domIff)
  have inv: "queue_inv (push_durable_message m q)"
    using queue_inv_push_durable [OF Cons.prems(1) fresh] Cons.prems(4) by simp
  have tid: "time_id (push_durable_message m q) = time_id q @ [(dm_time m, msg_id (dm_message m))]"
    unfolding hm_get_push_durable using Cons.prems(4) by (intro timed_insert_last) simp
  have "\<forall>k \<in> set ms. hm_wf (dm_status k) \<and> msg_id (dm_message k) \<notin> held_ids (push_durable_message m q) \<and>
       (\<forall>p \<in> set (time_id (push_durable_message m q)). fst p < dm_time k)"
    using Cons.prems(2-4) unfolding tid by (auto simp: hm_get_push_durable image_iff)
  from Cons.IH [OF inv _ _ this] Cons.prems(2,3) tid show ?case by (simp add: hm_get_push_durable(3,4))
qed simp

text \<open>
  Loading a topic from its durable messages: messages with different ids and different times
  become a well-formed topic whose queue lists them by time, with nothing marked resolved, nobody
  routed and no interest.
\<close>

theorem topic_from_durable_correct:
  assumes "distinct (map dm_time ms)" "distinct (map (\<lambda>m. msg_id (dm_message m)) ms)"
    "\<forall>m \<in> set ms. hm_wf (dm_status m)"
  shows "topic_inv (topic_from_durable cfg ms) \<and>
    map snd (time_id (td_queue (topic_from_durable cfg ms)))
      = map (\<lambda>m. msg_id (dm_message m)) (sort_key dm_time ms) \<and>
    blocking (td_queue (topic_from_durable cfg ms)) = cfg_blocking cfg \<and>
    (\<forall>n. reachable_eps (topic_from_durable cfg ms) n = {}) \<and>
    (\<forall>s. interest_map_find (ep_interest_map (topic_from_durable cfg ms)) s = {})"
proof -
  let ?ms = "sort_key dm_time ms"
  have "sorted (map dm_time ?ms)" "distinct (map dm_time ?ms)" "distinct (map (\<lambda>m. msg_id (dm_message m)) ?ms)"
    using assms(1,2) by (simp_all add: distinct_map inj_on_def)
  then have "sorted_wrt (<) (map dm_time ?ms)" by (simp add: strict_sorted_iff)
  moreover have "interest_map_find (interest_map_new :: endpoint_addr interest_map) s = {}" for s
    by (simp add: interest_map_find_eq interest_map_inv_new map_subscribed_def) (simp add: interest_map_new_def)
  ultimately show ?thesis
    using push_durable_all [OF queue_inv_new, of ?ms "cfg_blocking cfg"
        "case overflow_config cfg of Some x \<Rightarrow> overflow_config_size x | None \<Rightarrow> default_capacity"]
      assms(3) \<open>distinct (map (\<lambda>m. msg_id (dm_message m)) ?ms)\<close>
    by (simp add: topic_from_durable_def topic_inv_def queue_new_def interest_map_inv_new
        reachable_eps_def comp_def)
qed

section \<open>The contract of a topic operation\<close>

text \<open>
  What every operation of a topic promises, where \<open>S\<close> are the messages it accepts.  The locale is
  what the state machine relies on; each operation is an instance.
\<close>

definition keeps ::
  "message_id set \<Rightarrow> topic_data \<Rightarrow> proposal_context \<Rightarrow> topic_data \<Rightarrow> proposal_context \<Rightarrow> bool" where
  "keeps S d c d' c' \<longleftrightarrow> topic_inv d' \<and> ctx_frame c c' \<and> td_config d' = td_config d \<and>
    blocking (td_queue d') = blocking (td_queue d) \<and>
    (\<not> blocking (td_queue d) \<longrightarrow> stuck (td_queue d') \<subseteq> stuck (td_queue d)) \<and>
    (ctx_handle c \<noteq> None \<longrightarrow> accounts (held_ids (td_queue d) \<union> S) c (held_ids (td_queue d')) c') \<and>
    stays_within d d'"

locale topic_operation =
  fixes op :: "topic_data \<Rightarrow> proposal_context \<Rightarrow> (topic_data \<times> proposal_context) outcome"
    and ok :: "topic_data \<Rightarrow> proposal_context \<Rightarrow> bool"
    and S :: "message_id set"
  assumes returns: "topic_inv d \<Longrightarrow> ctx_ok c \<Longrightarrow> config_ok (td_config d) \<Longrightarrow> ok d c \<Longrightarrow>
    \<exists>d' c'. op d c = Inr (d', c') \<and> keeps S d c d' c'"
begin

lemma no_panic: "topic_inv d \<Longrightarrow> ctx_ok c \<Longrightarrow> config_ok (td_config d) \<Longrightarrow> ok d c \<Longrightarrow> op d c \<noteq> Inl p"
  using returns by fastforce

lemma result_keeps:
  "topic_inv d \<Longrightarrow> ctx_ok c \<Longrightarrow> config_ok (td_config d) \<Longrightarrow> ok d c \<Longrightarrow> op d c = Inr (d', c') \<Longrightarrow> keeps S d c d' c'"
  using returns by fastforce

text \<open>After the operation the next one finds what it needs.\<close>

lemma ready_again:
  assumes "topic_inv d" "ctx_ok c" "config_ok (td_config d)" "ok d c" "op d c = Inr (d', c')"
  shows "topic_inv d'" "ctx_ok c'" "config_ok (td_config d')" "ctx_handle c' = ctx_handle c"
  using result_keeps [OF assms] assms(2,3) by (auto simp: keeps_def ctx_ok_frame ctx_frame_handle)

end

lemma topic_step_keeps:
  assumes "topic_inv d" "topic_step d c ms d' c'"
  shows "keeps {} d c d' c'"
proof -
  have rel: "releases (td_queue d) c ms (td_queue d') c'" and q: "queue_inv (td_queue d)"
    using assms by (simp_all add: topic_step_def topic_inv_def)
  show ?thesis
    using assms(2) releases_accounts [OF rel] releases_len [OF q rel] releasesD(2,3) [OF rel]
    unfolding topic_step_def keeps_def by auto
qed

lemma accepts_keeps:
  assumes "accepts i d c d' c'" "stays_within d d'"
  shows "keeps {i} d c d' c'"
  using assms by (simp add: accepts_def keeps_def)

abbreviation hold_ok :: "message \<Rightarrow> topic_data \<Rightarrow> proposal_context \<Rightarrow> bool" where
  "hold_ok m d c \<equiv> target_kind (header m) \<noteq> Available \<and> entry_fresh (msg_id m) (fst (ctx_now c)) (td_queue d)"

abbreviation always :: "topic_data \<Rightarrow> proposal_context \<Rightarrow> bool" where
  "always d c \<equiv> True"

interpretation hold: topic_operation "hold_new_message m" "hold_ok m" "{msg_id m}" for m
proof
  fix d c assume "topic_inv d" "ctx_ok c" "config_ok (td_config d)" "hold_ok m d c"
  then show "\<exists>d' c'. hold_new_message m d c = Inr (d', c') \<and> keeps {msg_id m} d c d' c'"
    using hold_new_message_accepts [of d c m] accepts_keeps by blast
qed

interpretation update: topic_operation "update_and_flush u" always "{}" for u
proof
  fix d c assume d: "topic_inv d" "ctx_ok c"
  then obtain ms q' c' where "update_and_flush u d c = Inr (d\<lparr>td_queue := q'\<rparr>, c')"
    "topic_step d c ms (d\<lparr>td_queue := q'\<rparr>) c'"
    using update_and_flush_releases [of d c u] by (auto simp: topic_step_def)
  then show "\<exists>d' c'. update_and_flush u d c = Inr (d', c') \<and> keeps {} d c d' c'"
    using topic_step_keeps [OF d(1)] by blast
qed

interpretation interest: topic_operation "update_ep_interest ep interests" always "{}" for ep interests
proof
  fix d c assume d: "topic_inv d" "ctx_ok c"
  show "\<exists>d' c'. update_ep_interest ep interests d c = Inr (d', c') \<and> keeps {} d c d' c'"
    using update_ep_interest_step [OF d, of ep interests] topic_step_keeps [OF d(1)] by blast
qed

interpretation online: topic_operation "ep_online ep interests host" always "{}" for ep interests host
proof
  fix d c assume d: "topic_inv d" "ctx_ok c"
  show "\<exists>d' c'. ep_online ep interests host d c = Inr (d', c') \<and> keeps {} d c d' c'"
    using ep_online_step [OF d, of ep interests host] topic_step_keeps [OF d(1)] by blast
qed

interpretation offline: topic_operation "ep_offline host ep" always "{}" for host ep
proof
  fix d c assume d: "topic_inv d" "ctx_ok c"
  show "\<exists>d' c'. ep_offline host ep d c = Inr (d', c') \<and> keeps {} d c d' c'"
    using ep_offline_step [OF d, of host ep] topic_step_keeps [OF d(1)] by blast
qed

section \<open>Runs of a topic\<close>

datatype topic_op =
    OpHold message
  | OpUpdate message_state_update
  | OpInterest endpoint_addr "interest list"
  | OpOnline endpoint_addr "interest list" node_id
  | OpOffline node_id endpoint_addr

fun topic_exec :: "topic_op \<Rightarrow> topic_data \<Rightarrow> proposal_context \<Rightarrow> (topic_data \<times> proposal_context) outcome" where
  "topic_exec (OpHold m) = hold_new_message m"
| "topic_exec (OpUpdate u) = update_and_flush u"
| "topic_exec (OpInterest ep interests) = update_ep_interest ep interests"
| "topic_exec (OpOnline ep interests host) = ep_online ep interests host"
| "topic_exec (OpOffline host ep) = ep_offline host ep"

fun op_accepts :: "topic_op \<Rightarrow> message_id set" where
  "op_accepts (OpHold m) = {msg_id m}"
| "op_accepts _ = {}"

fun op_ok :: "topic_op \<Rightarrow> topic_data \<Rightarrow> proposal_context \<Rightarrow> bool" where
  "op_ok (OpHold m) d c = hold_ok m d c"
| "op_ok _ d c = True"

lemma topic_exec_keeps:
  "topic_inv d \<Longrightarrow> ctx_ok c \<Longrightarrow> config_ok (td_config d) \<Longrightarrow> op_ok op d c \<Longrightarrow>
    \<exists>d' c'. topic_exec op d c = Inr (d', c') \<and> keeps (op_accepts op) d c d' c'"
  by (cases op) (simp_all add: hold.returns update.returns interest.returns online.returns offline.returns)

text \<open>
  A run: operations one after the other, each accepting only messages that are new, with the
  set of all messages accepted on the way.
\<close>

inductive topic_run ::
  "topic_data \<Rightarrow> proposal_context \<Rightarrow> message_id set \<Rightarrow> topic_data \<Rightarrow> proposal_context \<Rightarrow> bool"
  for d :: topic_data and c :: proposal_context where
  start: "topic_run d c {} d c"
| step: "topic_run d c A d1 c1 \<Longrightarrow> op_ok op d1 c1 \<Longrightarrow> op_accepts op \<inter> (A \<union> held_ids (td_queue d)) = {} \<Longrightarrow>
    topic_exec op d1 c1 = Inr (d2, c2) \<Longrightarrow> topic_run d c (A \<union> op_accepts op) d2 c2"

inductive_cases topic_runE: "topic_run d c A d' c'"

lemma accounts_union:
  assumes "accounts S c T d" "R \<inter> S = {}"
  shows "accounts (S \<union> R) c (T \<union> R) d"
  using assms by (auto simp: accounts_def)

lemma topic_run_keeps:
  assumes "topic_run d c A d' c'" "topic_inv d" "ctx_ok c" "config_ok (td_config d)"
  shows "keeps A d c d' c'"
  using assms
proof (induction rule: topic_run.induct)
  case start
  then show ?case by (simp add: keeps_def accounts_quiet)
next
  case (step A d1 c1 op d2 c2)
  have k1: "keeps A d c d1 c1" using step by simp
  then have d1: "topic_inv d1" "ctx_ok c1" "config_ok (td_config d1)" "ctx_handle c1 = ctx_handle c"
    using step.prems ctx_ok_frame ctx_frame_handle by (auto simp: keeps_def)
  from topic_exec_keeps [OF d1(1-3) step.hyps(2)] step.hyps(4)
  have k2: "keeps (op_accepts op) d1 c1 d2 c2" by auto
  have "accounts (held_ids (td_queue d) \<union> (A \<union> op_accepts op)) c (held_ids (td_queue d2)) c2"
    if h: "ctx_handle c \<noteq> None"
  proof (rule accounts_trans)
    have "accounts (held_ids (td_queue d) \<union> A) c (held_ids (td_queue d1)) c1"
      using k1 h by (simp add: keeps_def)
    from accounts_union [OF this, of "op_accepts op"] step.hyps(3)
    show "accounts (held_ids (td_queue d) \<union> (A \<union> op_accepts op)) c
        (held_ids (td_queue d1) \<union> op_accepts op) c1" by (simp add: Un_ac)
    show "accounts (held_ids (td_queue d1) \<union> op_accepts op) c1 (held_ids (td_queue d2)) c2"
      using k2 h d1(4) by (simp add: keeps_def)
  qed
  then show ?case
    using k1 k2 ctx_frame_trans [of c c1 c2] unfolding keeps_def by auto
qed

text \<open>
  (C1) Every message is answered exactly once or still held.  After any run of a topic, the
  messages it held at the start and those it accepted on the way are exactly the ones it holds
  now together with the ones answered, each once; the invariant holds, a bounded queue is
  within its bound, and on a non-blocking topic nothing that is done is left in the queue.
\<close>

theorem every_message_answered_once:
  assumes "topic_run d c A d' c'" "topic_inv d" "ctx_ok c" "config_ok (td_config d)" "ctx_handle c \<noteq> None"
  shows "topic_inv d' \<and> stays_within d d' \<and>
    (\<exists>answered. acks c' = acks c @ answered \<and> distinct (map fst answered) \<and>
      held_ids (td_queue d) \<union> A = held_ids (td_queue d') \<union> fst ` set answered \<and>
      held_ids (td_queue d') \<inter> fst ` set answered = {}) \<and>
    (\<not> blocking (td_queue d) \<and> stuck (td_queue d) = {} \<longrightarrow> stuck (td_queue d') = {})"
  using topic_run_keeps [OF assms(1-4)] assms(5) unfolding keeps_def accounts_def by auto

text \<open>
  (C2) No operation of a topic gets stuck: from every state of a run, each operation that is
  allowed there returns and continues the run.
\<close>

theorem topic_never_panics:
  assumes "topic_run d c A d' c'" "topic_inv d" "ctx_ok c" "config_ok (td_config d)"
    "op_ok op d' c'" "op_accepts op \<inter> (A \<union> held_ids (td_queue d)) = {}"
  shows "\<exists>d2 c2. topic_exec op d' c' = Inr (d2, c2) \<and> topic_run d c (A \<union> op_accepts op) d2 c2"
proof -
  have "topic_inv d'" "ctx_ok c'" "config_ok (td_config d')"
    using topic_run_keeps [OF assms(1-4)] assms(3,4) ctx_ok_frame by (auto simp: keeps_def)
  from topic_exec_keeps [OF this assms(5)] topic_run.step [OF assms(1,5,6)] show ?thesis by blast
qed

section \<open>Witnesses\<close>

text \<open>A bounded topic with the two messages of \<open>example_queue\<close>, and an endpoint with an interest.\<close>

definition example_topic_data :: "bool \<Rightarrow> topic_data" where
  "example_topic_data b =
    \<lparr>td_config = \<lparr>cfg_code = example_topic, cfg_blocking = b, overflow_config = Some (new_drop_old 2)\<rparr>,
     ep_routing_table = [(NodeId [1], {EndpointAddr [1]})],
     ep_interest_map = interest_map_insert (Interest [97]) (EndpointAddr [1]) interest_map_new,
     td_queue = (example_queue b)\<lparr>resolved := {}\<rparr>\<rparr>"

definition later_context :: proposal_context where
  "later_context = snd (ctx_now example_context)"

lemma later_context_simps [simp]:
  "ctx_ok later_context" "ctx_handle later_context = Some 0" "fst (ctx_now later_context) = 11"
  by (simp_all add: later_context_def ctx_now_def utc_now_def example_context_def example_node_def
      ctx_handle_def get_topic_def)

lemma example_topic_data_ok [simp]:
  "topic_inv (example_topic_data b)" "config_ok (td_config (example_topic_data b))"
proof -
  have "queue_inv ((example_queue b)\<lparr>resolved := {}\<rparr>)"
    using example_queue_ok(1) [of b] by (simp add: queue_inv_def)
  then show "topic_inv (example_topic_data b)"
    by (simp add: topic_inv_def example_topic_data_def interest_map_inv_insert interest_map_inv_new)
  show "config_ok (td_config (example_topic_data b))"
    by (simp add: example_topic_data_def config_ok_new)
qed

theorem ep_online_correct_witness:
  "topic_inv (example_topic_data False) \<and> ctx_ok later_context \<and>
    (\<exists>ms d' c'. ep_online (EndpointAddr [2]) [Interest [97]] (NodeId [2]) (example_topic_data False) later_context
        = Inr (d', c') \<and> topic_step (example_topic_data False) later_context ms d' c')"
  using ep_online_correct [of "example_topic_data False" later_context "EndpointAddr [2]" "[Interest [97]]" "NodeId [2]"]
  by auto

theorem update_ep_interest_correct_witness:
  "topic_inv (example_topic_data False) \<and> ctx_ok later_context \<and>
    (\<exists>ms d' c'. update_ep_interest (EndpointAddr [1]) [Interest [98]] (example_topic_data False) later_context
        = Inr (d', c') \<and> topic_step (example_topic_data False) later_context ms d' c')"
  using update_ep_interest_correct [of "example_topic_data False" later_context "EndpointAddr [1]" "[Interest [98]]"]
  by auto

theorem ep_offline_correct_witness:
  "topic_inv (example_topic_data True) \<and> ctx_ok later_context \<and>
    (\<exists>d' c'. ep_offline (NodeId [1]) (EndpointAddr [1]) (example_topic_data True) later_context = Inr (d', c') \<and>
      reachable_eps d' (NodeId [1]) = {})"
proof -
  have "reachable_eps (example_topic_data True) (NodeId [1]) = {EndpointAddr [1]}"
    by (simp add: reachable_eps_def example_topic_data_def)
  then show ?thesis
    using ep_offline_correct [of "example_topic_data True" later_context "NodeId [1]" "EndpointAddr [1]"] by fastforce
qed

lemma example_fresh [simp]:
  "entry_fresh (msg_id (example_message 3 k)) 11 (td_queue (example_topic_data b))"
  by (simp add: entry_fresh_def example_topic_data_def) (simp add: example_queue_def example_message_def)

theorem hold_new_message_correct_witness:
  "topic_inv (example_topic_data False) \<and> ctx_ok later_context \<and>
    (\<exists>d' c'. hold_new_message (example_message 3 Online) (example_topic_data False) later_context = Inr (d', c')
      \<and> accepts (msg_id (example_message 3 Online)) (example_topic_data False) later_context d' c')"
  using hold_new_message_correct [of "example_topic_data False" later_context "example_message 3 Online"]
  by auto

theorem message_targets_witness:
  "\<exists>hm. hold_new_message (example_message 3 Online) (example_topic_data False) later_context
      = put_in_queue hm (example_topic_data False) later_context \<and> held_message hm = example_message 3 Online"
  using message_targets [of "example_topic_data False" later_context "example_message 3 Online"]
  by auto

theorem push_choice_replicated_witness:
  "platform_ok example_platform \<and> inj_on (hash64_ep example_platform) {EndpointAddr [1]} \<and>
    hash_ring (example_platform\<lparr>clock := (\<lambda>n. 0)\<rparr>) {EndpointAddr [1]} = hash_ring example_platform {EndpointAddr [1]}"
proof -
  have "platform_ok (example_platform\<lparr>clock := (\<lambda>n. 0)\<rparr>)"
    using example_platform_ok by (simp add: platform_ok_def)
  then show ?thesis
    using push_choice_replicated [OF example_platform_ok, of "example_platform\<lparr>clock := (\<lambda>n. 0)\<rparr>" "{EndpointAddr [1]}"]
    by simp
qed

theorem status_update_completes_witness:
  "\<exists>d' c'. update_and_flush
      \<lparr>upd_message_id = MessageId [2],
       upd_status = [(EndpointAddr [1], Received), (EndpointAddr [2], Processed)]\<rparr>
      (example_topic_data False) later_context = Inr (d', c') \<and>
    archived c' = archived later_context @ [MessageId [2]] \<and> hm_get (hold_messages (td_queue d')) (MessageId [2]) = None"
proof -
  let ?u = "\<lparr>upd_message_id = MessageId [2],
    upd_status = [(EndpointAddr [1], Received), (EndpointAddr [2], Processed)]\<rparr>"
  let ?hm = "example_held 2 [(EndpointAddr [1], Unsent), (EndpointAddr [2], Sent)]"
  have h: "hm_get (hold_messages (td_queue (example_topic_data False))) (upd_message_id ?u) = Some ?hm"
    "\<not> blocking (td_queue (example_topic_data False))"
    by (simp_all add: example_topic_data_def) (simp add: example_queue_def)
  have fin: "finished_at (fst (ctx_now later_context)) (acknowledged ?u ?hm)"
    by (simp add: finished_at_def statuses_resolved_def update_ack_held_def update_ack_match_def status_is_resolved_def
        is_failed_def example_held_def example_message_def)
  have handle: "ctx_handle later_context \<noteq> None" by simp
  obtain d' c' where "update_and_flush ?u (example_topic_data False) later_context = Inr (d', c')"
    "archived c' = archived later_context @ [upd_message_id ?u]"
    "hm_get (hold_messages (td_queue d')) =
      (hm_get (hold_messages (td_queue (example_topic_data False))))(upd_message_id ?u := None)"
    using status_update_completes [OF example_topic_data_ok(1) later_context_simps(1) handle h(2) h(1)]
    unfolding if_P [OF fin] by blast
  then show ?thesis by (intro exI [of _ d'] exI [of _ c']) simp
qed

theorem drop_old_starves_blocking_topic_witness:
  "\<exists>d' c'. put_in_queue (example_held 3 [(EndpointAddr [1], Unsent)]) (example_topic_data True) later_context
      = Inr (d', c') \<and> dispatches c' = dispatches later_context \<and>
    map snd (time_id (td_queue d')) = [MessageId [2], MessageId [3]]"
proof -
  let ?d = "example_topic_data True" and ?hm = "example_held 3 [(EndpointAddr [1], Unsent)]"
  have h: "blocking (td_queue ?d)" "overflow_config (td_config ?d) = Some (new_drop_old 2)"
    "policy (new_drop_old 2) = DropOld" "overflow_config_size (new_drop_old 2) \<le> queue_len (td_queue ?d)"
    "time_id (td_queue ?d) = (3, MessageId [1]) # (10, MessageId [2]) # []"
    "hm_get (hold_messages (td_queue ?d)) (held_id ?hm) = None" "hm_wf (held_status ?hm)"
    by (simp_all add: example_topic_data_def new_drop_old_def overflow_config_size_def non_zero_or_max_def
        queue_len_def) (simp_all add: example_queue_def)
  have "\<forall>p \<in> set (time_id (td_queue ?d)). fst p < fst (ctx_now later_context)" by (simp add: h(5))
  from drop_old_starves_blocking_topic [OF example_topic_data_ok(1) later_context_simps(1) h(1-5) this h(6,7)]
  show ?thesis by auto
qed

definition example_durable :: "nat \<Rightarrow> time \<Rightarrow> durable_message" where
  "example_durable n t = \<lparr>dm_message = example_message n Durable, dm_status = [], dm_time = t\<rparr>"

theorem topic_from_durable_correct_witness:
  "map snd (time_id (td_queue (topic_from_durable (topic_config_from_code example_topic)
      [example_durable 1 5, example_durable 2 3]))) = [MessageId [2], MessageId [1]]"
  using topic_from_durable_correct [of "[example_durable 1 5, example_durable 2 3]"
      "topic_config_from_code example_topic"]
  by (simp add: example_durable_def example_message_def)

lemma example_run:
  "\<exists>d' c'. topic_run (example_topic_data False) later_context {MessageId [3]} d' c'"
proof -
  let ?m = "example_message 3 Online"
  obtain d' c' where "topic_exec (OpHold ?m) (example_topic_data False) later_context = Inr (d', c')"
    using hold.returns [of "example_topic_data False" later_context ?m] by auto
  moreover have "msg_id ?m \<notin> held_ids (td_queue (example_topic_data False))"
    using example_fresh [of Online False] by (simp add: entry_fresh_def domIff)
  ultimately have "topic_run (example_topic_data False) later_context ({} \<union> op_accepts (OpHold ?m)) d' c'"
    by (intro topic_run.step [OF topic_run.start]) simp_all
  then show ?thesis by (auto simp: example_message_def)
qed

theorem every_message_answered_once_witness:
  "\<exists>d' c'. topic_run (example_topic_data False) later_context {MessageId [3]} d' c' \<and> topic_inv d' \<and>
    stays_within (example_topic_data False) d'"
proof -
  obtain d' c' where run: "topic_run (example_topic_data False) later_context {MessageId [3]} d' c'"
    using example_run by blast
  from every_message_answered_once [OF run] run show ?thesis by auto
qed

theorem topic_never_panics_witness:
  "\<exists>d' c' d2 c2. topic_run (example_topic_data False) later_context {MessageId [3]} d' c' \<and>
    ep_offline (NodeId [1]) (EndpointAddr [1]) d' c' = Inr (d2, c2)"
proof -
  obtain d' c' where run: "topic_run (example_topic_data False) later_context {MessageId [3]} d' c'"
    using example_run by blast
  from topic_never_panics [OF run, of "OpOffline (NodeId [1]) (EndpointAddr [1])"] run show ?thesis by auto
qed

end
