(* ===== verification/MQ_Effect.thy ===== *)
theory MQ_Effect
  imports MQ_Topic
begin

text \<open>
  What each operation of a topic is for: the change of the routes, of the interests and of the held
  messages that it promises, one predicate per operation, stated without the loops and the polling
  of the code.  Together with the contract \<open>keeps\<close> (nothing is lost, nobody is answered twice) it is
  what the state machine promises of a proposal.
\<close>

section \<open>The effects\<close>

text \<open>Every message that is still held is an old one, changed by \<open>f\<close> and handed out.\<close>

definition messages_become :: "(message_id \<Rightarrow> hold_message \<Rightarrow> hold_message) \<Rightarrow> topic_data \<Rightarrow> topic_data \<Rightarrow> bool" where
  "messages_become f d d' \<longleftrightarrow> (\<forall>j hm'. hm_get (hold_messages (td_queue d')) j = Some hm' \<longrightarrow>
    (\<exists>hm. hm_get (hold_messages (td_queue d)) j = Some hm \<and> handed_out (f j hm) hm'))"

text \<open>A \<open>Durable\<close> message gets a further receiver.\<close>

definition offered :: "endpoint_addr \<Rightarrow> topic_data \<Rightarrow> hold_message \<Rightarrow> hold_message" where
  "offered ep d hm =
    (if target_kind (header (held_message hm)) = Durable \<and> hm_get (held_status hm) ep = None \<and>
        ep \<in> collect_addr_by_subjects d (subjects (header (held_message hm)))
     then set_held_status (hm_insert ep Unsent (held_status hm)) hm else hm)"

text \<open>
  A new message, if it is still held: it waits for the endpoints with a matching interest and for no
  others, a \<open>Push\<close> message for one of them; the other messages are only handed out.
\<close>

definition hold_effect :: "message \<Rightarrow> topic_data \<Rightarrow> topic_data \<Rightarrow> bool" where
  "hold_effect m d d' \<longleftrightarrow>
    ep_routing_table d' = ep_routing_table d \<and> ep_interest_map d' = ep_interest_map d \<and>
    (\<forall>j hm'. hm_get (hold_messages (td_queue d')) j = Some hm' \<longrightarrow>
      (if j = msg_id m then held_message hm' = m \<and>
         (\<exists>eps. (if target_kind (header m) = Push then \<exists>ep \<in> interested d (subjects (header m)). eps = {ep}
                 else eps = interested d (subjects (header m))) \<and>
            (\<forall>ep. hm_get (held_status hm') ep \<in> (if ep \<in> eps then {Some Unsent, Some Sending} else {None})))
       else \<exists>hm. hm_get (hold_messages (td_queue d)) j = Some hm \<and> handed_out hm hm'))"

text \<open>A status update: the statuses of its message are entered, the others are left alone.\<close>

definition set_state_effect :: "message_state_update \<Rightarrow> topic_data \<Rightarrow> topic_data \<Rightarrow> bool" where
  "set_state_effect u d d' \<longleftrightarrow>
    ep_routing_table d' = ep_routing_table d \<and> ep_interest_map d' = ep_interest_map d \<and>
    messages_become (\<lambda>j hm. if j = upd_message_id u then acknowledged u hm else hm) d d'"

text \<open>An endpoint comes: it is reachable at its host and found for its interests as well.\<close>

definition online_effect :: "endpoint_addr \<Rightarrow> interest list \<Rightarrow> node_id \<Rightarrow> topic_data \<Rightarrow> topic_data \<Rightarrow> bool" where
  "online_effect ep interests host d d' \<longleftrightarrow>
    (\<forall>h. reachable_eps d' h = (if h = host then insert ep (reachable_eps d host) else reachable_eps d h)) \<and>
    (\<forall>s. interest_map_find (ep_interest_map d') s = interest_map_find (ep_interest_map d) s \<union>
       (if \<exists>i \<in> set interests. interest_matches i s then {ep} else {})) \<and>
    messages_become (\<lambda>_. offered ep d') d d'"

text \<open>An endpoint goes: it is not reachable at that host, not found, and no message waits for it.\<close>

definition offline_effect :: "node_id \<Rightarrow> endpoint_addr \<Rightarrow> topic_data \<Rightarrow> topic_data \<Rightarrow> bool" where
  "offline_effect host ep d d' \<longleftrightarrow>
    (\<forall>h. reachable_eps d' h = (if h = host then reachable_eps d host - {ep} else reachable_eps d h)) \<and>
    (\<forall>s. interest_map_find (ep_interest_map d') s = interest_map_find (ep_interest_map d) s - {ep}) \<and>
    messages_become (\<lambda>_. set_unreachable ep) d d'"

text \<open>An endpoint changes its interests: it is found for the new ones only.\<close>

definition interest_effect :: "endpoint_addr \<Rightarrow> interest list \<Rightarrow> topic_data \<Rightarrow> topic_data \<Rightarrow> bool" where
  "interest_effect ep interests d d' \<longleftrightarrow>
    reachable_eps d' = reachable_eps d \<and>
    (\<forall>s. interest_map_find (ep_interest_map d') s = interest_map_find (ep_interest_map d) s - {ep} \<union>
       (if \<exists>i \<in> set interests. interest_matches i s then {ep} else {})) \<and>
    messages_become (\<lambda>_. offered ep d') d d'"

text \<open>A topic is loaded: it has the stored messages in the order of their times, nobody is routed or interested.\<close>

definition load_effect :: "topic_config \<Rightarrow> durable_message list \<Rightarrow> topic_data \<Rightarrow> bool" where
  "load_effect config ms d \<longleftrightarrow> td_config d = config \<and> blocking (td_queue d) = cfg_blocking config \<and>
    (\<forall>h. reachable_eps d h = {}) \<and> (\<forall>s. interest_map_find (ep_interest_map d) s = {}) \<and>
    map snd (time_id (td_queue d)) = map (\<lambda>m. msg_id (dm_message m)) (sort_key dm_time ms) \<and>
    (\<forall>m \<in> set ms. hm_get (hold_messages (td_queue d)) (msg_id (dm_message m)) =
       Some \<lparr>held_message = dm_message m,
         held_wait_ack = \<lparr>expect = ack_kind (header (dm_message m)), wa_status = dm_status m\<rparr>\<rparr>)"

section \<open>The operations have them\<close>

lemma only_sends_become:
  assumes "only_sends q (td_queue d')" "\<And>j. hm_get (hold_messages q) j = map_option (f j) (hm_get (hold_messages (td_queue d)) j)"
  shows "messages_become f d d'"
  using assms unfolding only_sends_def messages_become_def by fastforce

lemma collect_addr_find:
  "ep \<in> collect_addr_by_subjects d subs \<longleftrightarrow> (\<exists>s \<in> set subs. ep \<in> interest_map_find (ep_interest_map d) s)"
  by (simp add: collect_addr_eq)

lemma offer_is_offered:
  assumes "ep_interest_map d = im"
  shows "fst (offer_online ep im hm) = offered ep d hm" "fst (offer_interest ep im hm) = offered ep d hm"
  unfolding offer_online_def offer_interest_eq offered_def collect_addr_find assms by auto

lemma ep_online_effect:
  assumes inv: "topic_inv d" "ctx_ok c" and op: "ep_online ep interests host d c = Inr (d', c')"
  shows "online_effect ep interests host d d'"
proof -
  have im: "interest_map_inv (ep_interest_map d)" using inv(1) by (simp add: topic_inv_def)
  from ep_online_step [OF inv, of ep interests host] op obtain q' where d': "d' =
      d\<lparr>ep_routing_table := hm_insert host (insert ep (reachable_eps d host)) (ep_routing_table d),
        ep_interest_map := fold (\<lambda>i. interest_map_insert i ep) interests (ep_interest_map d), td_queue := q'\<rparr>" by auto
  have im': "ep_interest_map d' = fold (\<lambda>i. interest_map_insert i ep) interests (ep_interest_map d)" by (simp add: d')
  have "messages_become (\<lambda>_. offered ep d') d d'"
    by (rule only_sends_become [OF only_sends_flush_messages [OF op [unfolded ep_online_def Let_def]]])
      (simp add: offer_is_offered [OF im'])
  then show ?thesis
    using imap.lookup_ins_all [OF im, of ep interests] by (auto simp: online_effect_def d' reachable_eps_def)
qed

lemma update_ep_interest_effect:
  assumes inv: "topic_inv d" "ctx_ok c" and op: "update_ep_interest ep interests d c = Inr (d', c')"
  shows "interest_effect ep interests d d'"
proof -
  have im: "interest_map_inv (ep_interest_map d)" using inv(1) by (simp add: topic_inv_def)
  from update_ep_interest_step [OF inv, of ep interests] op obtain q' where d': "d' =
      d\<lparr>ep_interest_map := fold (\<lambda>i. interest_map_insert i ep) interests
        (interest_map_delete ep (ep_interest_map d)), td_queue := q'\<rparr>" by auto
  have im': "ep_interest_map d' = fold (\<lambda>i. interest_map_insert i ep) interests (interest_map_delete ep (ep_interest_map d))" by (simp add: d')
  have "messages_become (\<lambda>_. offered ep d') d d'"
    by (rule only_sends_become [OF only_sends_flush_messages [OF op [unfolded update_ep_interest_def Let_def]]])
      (simp add: offer_is_offered [OF im'])
  then show ?thesis
    using imap.lookup_replace [OF im, of _ ep interests] by (auto simp: interest_effect_def d' reachable_eps_def split: if_splits)
qed

lemma ep_offline_effect:
  assumes inv: "topic_inv d" "ctx_ok c" and op: "ep_offline host ep d c = Inr (d', c')"
  shows "offline_effect host ep d d'"
proof -
  have im: "interest_map_inv (ep_interest_map d)" using inv(1) by (simp add: topic_inv_def)
  from ep_offline_step [OF inv, of host ep] op obtain q' where d': "d' =
      d\<lparr>ep_routing_table := hm_insert host (reachable_eps d host - {ep}) (ep_routing_table d),
        ep_interest_map := interest_map_delete ep (ep_interest_map d), td_queue := q'\<rparr>"
    "only_sends (mark_unreachable ep (td_queue d)) q'" by auto
  have "messages_become (\<lambda>_. set_unreachable ep) d d'"
    by (rule only_sends_become [of "mark_unreachable ep (td_queue d)"]) (simp_all add: d')
  then show ?thesis
    using imap.lookup_del [OF im, of ep] by (auto simp: offline_effect_def d'(1) reachable_eps_def)
qed

lemma update_and_flush_effect:
  assumes inv: "topic_inv d" "ctx_ok c" and op: "update_and_flush u d c = Inr (d', c')"
  shows "set_state_effect u d d'"
proof -
  have q: "queue_inv (td_queue d)" using inv(1) by (simp add: topic_inv_def)
  have "messages_become (\<lambda>j hm. if j = upd_message_id u then acknowledged u hm else hm) d d'"
    by (rule only_sends_become [OF only_sends_update [OF op]])
      (simp add: update_acks_effect(5) [OF q] option.map_ident)
  moreover obtain q' where "d' = d\<lparr>td_queue := q'\<rparr>" using update_and_flush_releases [OF inv, of u] op by auto
  ultimately show ?thesis by (simp add: set_state_effect_def)
qed

lemma enqueue_message_effect:
  assumes op: "enqueue_message hm d c = Inr (d', c')"
  shows "ep_routing_table d' = ep_routing_table d" "ep_interest_map d' = ep_interest_map d"
    "hm_get (hold_messages (td_queue d')) j = Some hm' \<Longrightarrow>
      (if j = held_id hm then handed_out hm hm'
       else \<exists>old. hm_get (hold_messages (td_queue d)) j = Some old \<and> handed_out old hm')"
proof -
  let ?q = "fst (queue_push hm (td_queue d) c)"
  have up: "update_and_flush (state_update_new_empty (held_id hm)) (d\<lparr>td_queue := ?q\<rparr>)
      (push_durable_command (Create (held_message hm)) (snd (queue_push hm (td_queue d) c))) = Inr (d', c')"
    using op by (simp add: enqueue_message_def case_prod_unfold Let_def)
  then show "ep_routing_table d' = ep_routing_table d" "ep_interest_map d' = ep_interest_map d"
    by (auto simp: update_and_flush_def Let_def and_then_Inr_iff split: option.splits prod.splits poll.splits)
  have "hm_get (hold_messages ?q) = (hm_get (hold_messages (td_queue d)))(held_id hm \<mapsto> hm)"
    by (simp add: queue_push_def Let_def case_prod_unfold)
  then show "if j = held_id hm then handed_out hm hm'
      else \<exists>old. hm_get (hold_messages (td_queue d)) j = Some old \<and> handed_out old hm'"
    if "hm_get (hold_messages (td_queue d')) j = Some hm'"
    using only_sends_update_and_flush [OF up] that by (auto simp: only_sends_def split: if_splits)
qed

lemma put_in_queue_effect:
  assumes op: "put_in_queue hm d c = Inr (d', c')" and new: "hm_get (hold_messages (td_queue d)) (held_id hm) = None"
  shows "ep_routing_table d' = ep_routing_table d" "ep_interest_map d' = ep_interest_map d"
    "hm_get (hold_messages (td_queue d')) j = Some hm' \<Longrightarrow>
      (if j = held_id hm then handed_out hm hm'
       else \<exists>old. hm_get (hold_messages (td_queue d)) j = Some old \<and> handed_out old hm')"
proof -
  consider (same) "d' = d" | (enqueue) "enqueue_message hm d c = Inr (d', c')"
    | (drop) old q1 c1 where "queue_pop (td_queue d) = Inr (Some old, q1)" "enqueue_message hm (d\<lparr>td_queue := q1\<rparr>) c1 = Inr (d', c')"
    using op by (auto simp: put_in_queue_def and_then_Inr_iff split: option.splits if_splits topic_overflow_policy.splits)
  note cases = this
  show "ep_routing_table d' = ep_routing_table d" "ep_interest_map d' = ep_interest_map d"
    by (cases rule: cases; simp add: enqueue_message_effect(1,2))+
  show "if j = held_id hm then handed_out hm hm'
      else \<exists>old. hm_get (hold_messages (td_queue d)) j = Some old \<and> handed_out old hm'"
    if held: "hm_get (hold_messages (td_queue d')) j = Some hm'"
  proof (cases rule: cases)
    case same
    with held new show ?thesis by auto
  next
    case enqueue
    with enqueue_message_effect(3) held show ?thesis by blast
  next
    case drop
    have "\<exists>old. hm_get (hold_messages (td_queue d)) j = Some old \<and> handed_out old h" if "hm_get (hold_messages q1) j = Some h" for h
      using only_sends_pop [OF drop(1)] that by (auto simp: only_sends_def)
    with enqueue_message_effect(3) [OF drop(2) held] show ?thesis
      by (auto split: if_splits intro: handed_out_trans)
  qed
qed

lemma hold_new_message_effect:
  assumes inv: "topic_inv d" "ctx_ok c" and new: "hm_get (hold_messages (td_queue d)) (msg_id m) = None"
    and op: "hold_new_message m d c = Inr (d', c')"
  shows "hold_effect m d d'"
proof (cases "d' = d")
  case True
  with new show ?thesis by (auto simp: hold_effect_def)
next
  case False
  have "target_kind (header m) \<noteq> Available" using op by (auto simp: hold_new_message_def)
  moreover have "target_kind (header m) = Push \<longrightarrow> interested d (subjects (header m)) \<noteq> {}"
    using False op push_without_target [OF inv(2,1), of m] collect_addr_interested [OF inv(1)] by auto
  ultimately obtain hm eps where hm: "hold_new_message m d c = put_in_queue hm d c" "held_message hm = m"
    "\<forall>ep. hm_get (held_status hm) ep = (if ep \<in> eps then Some Unsent else None)"
    "if target_kind (header m) = Push then \<exists>ep \<in> interested d (subjects (header m)). eps = {ep}
     else eps = interested d (subjects (header m))"
    using hold_new_message_targets [OF inv] by blast
  note eff = put_in_queue_effect [OF op [unfolded hm(1)]]
  have sent: "held_message hm' = m \<and> (\<forall>ep. hm_get (held_status hm') ep \<in> (if ep \<in> eps then {Some Unsent, Some Sending} else {None}))"
    if out: "handed_out hm hm'" for hm'
  proof (intro conjI allI)
    show "held_message hm' = m" using out hm(2) by (simp add: handed_out_def)
    fix ep
    have "hm_get (held_status hm') ep = hm_get (held_status hm) ep \<or>
        hm_get (held_status hm) ep = Some Unsent \<and> hm_get (held_status hm') ep = Some Sending"
      using out unfolding handed_out_def by blast
    then show "hm_get (held_status hm') ep \<in> (if ep \<in> eps then {Some Unsent, Some Sending} else {None})"
      using hm(3) by (cases "ep \<in> eps") auto
  qed
  show ?thesis
    unfolding hold_effect_def
  proof (intro conjI allI impI)
    fix j hm' assume "hm_get (hold_messages (td_queue d')) j = Some hm'"
    then have "if j = msg_id m then handed_out hm hm'
        else \<exists>old. hm_get (hold_messages (td_queue d)) j = Some old \<and> handed_out old hm'"
      using eff(3) new by (simp add: hm(2))
    with sent [of hm'] hm(4) show "if j = msg_id m then held_message hm' = m \<and>
         (\<exists>eps. (if target_kind (header m) = Push then \<exists>ep \<in> interested d (subjects (header m)). eps = {ep}
                 else eps = interested d (subjects (header m))) \<and>
            (\<forall>ep. hm_get (held_status hm') ep \<in> (if ep \<in> eps then {Some Unsent, Some Sending} else {None})))
       else \<exists>hm. hm_get (hold_messages (td_queue d)) j = Some hm \<and> handed_out hm hm'"
      by (cases "j = msg_id m") (simp only: if_True if_False simp_thms; blast)+
  qed (use eff(1,2) new in \<open>simp_all add: hm(2)\<close>)
qed

lemma push_durable_held:
  assumes "distinct (map (\<lambda>m. msg_id (dm_message m)) ms)" "m \<in> set ms"
  shows "hm_get (hold_messages (fold push_durable_message ms q)) (msg_id (dm_message m)) =
    Some \<lparr>held_message = dm_message m, held_wait_ack = \<lparr>expect = ack_kind (header (dm_message m)), wa_status = dm_status m\<rparr>\<rparr>"
proof -
  have other: "hm_get (hold_messages (fold push_durable_message ns q)) i = hm_get (hold_messages q) i"
    if "i \<notin> (\<lambda>m. msg_id (dm_message m)) ` set ns" for ns i q
    using that by (induction ns arbitrary: q) (auto simp: hm_get_push_durable(1))
  show ?thesis
    using assms
  proof (induction ms arbitrary: q)
    case (Cons n ms)
    show ?case
    proof (cases "m = n")
      case True
      with Cons.prems(1) show ?thesis by (simp add: other hm_get_push_durable(1))
    qed (use Cons in simp)
  qed simp
qed

lemma topic_from_durable_effect:
  assumes "distinct (map dm_time ms)" "distinct (map (\<lambda>m. msg_id (dm_message m)) ms)"
    "\<forall>m \<in> set ms. hm_wf (dm_status m)"
  shows "load_effect cfg ms (topic_from_durable cfg (sort_key dm_time ms))"
proof -
  let ?ms = "sort_key dm_time ms"
  have d: "distinct (map dm_time ?ms)" "distinct (map (\<lambda>m. msg_id (dm_message m)) ?ms)" "\<forall>m \<in> set ?ms. hm_wf (dm_status m)"
    using assms by (simp_all add: distinct_map inj_on_def)
  have "sort_key dm_time ?ms = ?ms" by (simp add: sort_key_id_if_sorted)
  moreover have "td_config (topic_from_durable cfg ?ms) = cfg" by (simp add: topic_from_durable_def)
  moreover have "hm_get (hold_messages (td_queue (topic_from_durable cfg ?ms))) (msg_id (dm_message m)) =
      Some \<lparr>held_message = dm_message m, held_wait_ack = \<lparr>expect = ack_kind (header (dm_message m)), wa_status = dm_status m\<rparr>\<rparr>"
    if "m \<in> set ms" for m
    using push_durable_held [of "sort_key dm_time ?ms" m] d(2) that \<open>sort_key dm_time ?ms = ?ms\<close>
    by (simp add: topic_from_durable_def)
  ultimately show ?thesis using topic_from_durable_correct [OF d, of cfg] by (simp add: load_effect_def)
qed

end
