(* ===== verification/MQ_State_Machine.thy ===== *)
theory MQ_State_Machine
  imports MQ_Effect
begin

text \<open>
  The replicated state machine: \<open>NodeData\<close> (\<open>raft/state_machine/node.rs\<close>) with one operation per
  proposal, and \<open>StateMachineStore\<close> (\<open>raft/state_machine.rs\<close>), which applies log entries, builds
  and installs snapshots.

  Raft itself is openraft.  Its log identifiers and memberships are the type variables \<open>'l\<close> and
  \<open>'m\<close>; the source only stores, copies and compares them.  \<open>bincode\<close> is a pair of parameters:
  \<open>encode\<close>, and \<open>decode\<close> with \<open>None\<close> for an error.
\<close>

section \<open>NodeData (state_machine/node.rs)\<close>

record node_data =
  topics :: "(topic_code, topic_data) hash_map"

definition node_data_default :: node_data where
  "node_data_default = \<lparr>topics = []\<rparr>"

text \<open>\<open>if let Some(topic) = self.topics.get_mut(&code)\<close>: run an operation on one topic in place.\<close>

definition on_topic ::
  "topic_code \<Rightarrow> (topic_data \<Rightarrow> proposal_context \<Rightarrow> (topic_data \<times> proposal_context) outcome)
    \<Rightarrow> topic_data \<Rightarrow> node_data \<Rightarrow> proposal_context \<Rightarrow> (node_data \<times> proposal_context) outcome" where
  "on_topic code op d nd c =
    and_then (op d c) (\<lambda>(d', c'). Inr (nd\<lparr>topics := hm_insert code d' (topics nd)\<rparr>, c'))"

text \<open>The end of an operation: \<open>ctx.commit_durable_commands()\<close>, then the context is dropped.\<close>

definition commit_and_drop ::
  "(node_data \<times> proposal_context) outcome \<Rightarrow> (node_data \<times> node_inner) outcome" where
  "commit_and_drop r =
    and_then r (\<lambda>(nd, c). and_then (commit_durable_commands c) (\<lambda>c'. Inr (nd, ctx_node c')))"

definition apply_delegate_message ::
  "delegate_message \<Rightarrow> node_data \<Rightarrow> proposal_context \<Rightarrow> (node_data \<times> node_inner) outcome" where
  "apply_delegate_message dg nd ctx =
    (let c = set_topic_code (dg_topic dg) ctx in
     commit_and_drop
       (case hm_get (topics nd) (dg_topic dg) of
          Some d \<Rightarrow> on_topic (dg_topic dg) (hold_new_message (dg_message dg)) d nd c
        | None \<Rightarrow> Inr (nd, c)))"

text \<open>A new \<open>Topic\<close> handle with empty pools, registered under its code.\<close>

definition insert_topic_handle :: "topic_code \<Rightarrow> node_inner \<Rightarrow> node_inner" where
  "insert_topic_handle code n =
    n\<lparr>node_topics := hm_insert code (next_handle n) (node_topics n),
      topic_handles := hm_insert (next_handle n)
        \<lparr>ti_code = code, ack_waiting_pool = [], local_endpoints = []\<rparr> (topic_handles n),
      next_handle := Suc (next_handle n)\<rparr>"

definition apply_load_topic ::
  "load_topic \<Rightarrow> node_data \<Rightarrow> proposal_context \<Rightarrow> (node_data \<times> node_inner) outcome" where
  "apply_load_topic lt nd ctx =
    (let code = cfg_code (lt_config lt) in
     case hm_get (topics nd) code of
       None \<Rightarrow>
         (let c = set_topic_code code ctx;
              d = topic_from_durable (lt_config lt) (sort_key dm_time (lt_queue lt))
          in commit_and_drop
               (Inr (nd\<lparr>topics := hm_insert code d (topics nd)\<rparr>,
                     c\<lparr>ctx_node := insert_topic_handle code (ctx_node c)\<rparr>)))
     | Some _ \<Rightarrow> Inr (nd, ctx_node ctx))"

definition apply_set_state ::
  "set_state \<Rightarrow> node_data \<Rightarrow> proposal_context \<Rightarrow> (node_data \<times> node_inner) outcome" where
  "apply_set_state ss nd ctx =
    (let c = set_topic_code (ss_topic ss) ctx in
     commit_and_drop
       (case hm_get (topics nd) (ss_topic ss) of
          Some d \<Rightarrow> on_topic (ss_topic ss) (update_and_flush (ss_update ss)) d nd c
        | None \<Rightarrow> Inr (nd, c)))"

definition apply_unload_topic :: "topic_code \<Rightarrow> node_data \<Rightarrow> node_data" where
  "apply_unload_topic code nd = nd\<lparr>topics := hm_remove code (topics nd)\<rparr>"

definition apply_ep_online ::
  "endpoint_online \<Rightarrow> node_data \<Rightarrow> proposal_context \<Rightarrow> (node_data \<times> node_inner) outcome" where
  "apply_ep_online e nd ctx =
    (case hm_get (topics nd) (on_topic_code e) of
       None \<Rightarrow> Inr (nd, ctx_node ctx)
     | Some d \<Rightarrow>
         commit_and_drop
           (on_topic (on_topic_code e) (ep_online (on_endpoint e) (on_interests e) (on_host e)) d nd
             (set_topic_code (on_topic_code e) ctx)))"

definition apply_ep_offline ::
  "endpoint_offline \<Rightarrow> node_data \<Rightarrow> proposal_context \<Rightarrow> (node_data \<times> node_inner) outcome" where
  "apply_ep_offline e nd ctx =
    (case hm_get (topics nd) (off_topic_code e) of
       None \<Rightarrow> Inr (nd, ctx_node ctx)
     | Some d \<Rightarrow>
         commit_and_drop
           (on_topic (off_topic_code e) (ep_offline (off_host e) (off_endpoint e)) d nd
             (set_topic_code (off_topic_code e) ctx)))"

definition apply_ep_interest ::
  "endpoint_interest \<Rightarrow> node_data \<Rightarrow> proposal_context \<Rightarrow> (node_data \<times> node_inner) outcome" where
  "apply_ep_interest e nd ctx =
    (case hm_get (topics nd) (ei_topic_code e) of
       None \<Rightarrow> Inr (nd, ctx_node ctx)
     | Some d \<Rightarrow>
         commit_and_drop
           (on_topic (ei_topic_code e) (update_ep_interest (ei_endpoint e) (ei_interests e)) d nd
             (set_topic_code (ei_topic_code e) ctx)))"

text \<open>The \<open>match\<close> on the proposal in \<open>StateMachineStore::apply\<close>.\<close>

fun apply_proposal :: "proposal \<Rightarrow> node_data \<Rightarrow> node_inner \<Rightarrow> (node_data \<times> node_inner) outcome" where
  "apply_proposal (DelegateMessage dg) nd n = apply_delegate_message dg nd (proposal_context_new n)"
| "apply_proposal (SetState ss) nd n = apply_set_state ss nd (proposal_context_new n)"
| "apply_proposal (LoadTopic lt) nd n = apply_load_topic lt nd (proposal_context_new n)"
| "apply_proposal (UnloadTopic code) nd n = Inr (apply_unload_topic code nd, n)"
| "apply_proposal (EpOnline e) nd n = apply_ep_online e nd (proposal_context_new n)"
| "apply_proposal (EpOffline e) nd n = apply_ep_offline e nd (proposal_context_new n)"
| "apply_proposal (EpInterest e) nd n = apply_ep_interest e nd (proposal_context_new n)"

section \<open>StateMachineStore (state_machine.rs)\<close>

datatype 'm entry_payload = Blank | Normal proposal | Membership 'm

record ('l, 'm) entry =
  entry_log_id :: 'l
  entry_data :: "'m entry_payload"

record ('l, 'm) snapshot_meta =
  meta_last_log_id :: "'l option"
  meta_last_membership :: "'l option \<times> 'm"
  meta_snapshot_id :: string

record ('l, 'm) stored_snapshot =
  snap_meta :: "('l, 'm) snapshot_meta"
  snap_data :: node_data

record ('l, 'm) state_machine_data =
  last_applied_log :: "'l option"
  last_membership :: "'l option \<times> 'm"
  sm_node :: node_data

text \<open>\<open>node_ref\<close> is a weak reference: \<open>None\<close> when the node is gone.\<close>

record ('l, 'm) state_machine_store =
  state_machine :: "('l, 'm) state_machine_data"
  snapshot_idx :: u64
  current_snapshot :: "('l, 'm) stored_snapshot option"
  node_ref :: "node_inner option"

datatype raft_response = RespOk | RespErr

definition store_new :: "'m \<Rightarrow> node_inner option \<Rightarrow> ('l, 'm) state_machine_store" where
  "store_new no_membership n =
    \<lparr>state_machine = \<lparr>last_applied_log = None, last_membership = (None, no_membership),
       sm_node = node_data_default\<rparr>,
     snapshot_idx = 0, current_snapshot = None, node_ref = n\<rparr>"

definition applied_state :: "('l, 'm) state_machine_store \<Rightarrow> 'l option \<times> 'l option \<times> 'm" where
  "applied_state st = (last_applied_log (state_machine st), last_membership (state_machine st))"

definition apply_entry ::
  "('l, 'm) entry \<Rightarrow> ('l, 'm) state_machine_store
    \<Rightarrow> (raft_response \<times> ('l, 'm) state_machine_store) outcome" where
  "apply_entry e st =
    (let sm = (state_machine st)\<lparr>last_applied_log := Some (entry_log_id e)\<rparr>;
         st' = st\<lparr>state_machine := sm\<rparr>
     in case entry_data e of
          Blank \<Rightarrow> Inr (RespOk, st')
        | Normal p \<Rightarrow>
            (case node_ref st of
               None \<Rightarrow> Inr (RespErr, st')
             | Some n \<Rightarrow>
                 and_then (apply_proposal p (sm_node sm) n) (\<lambda>(nd, n').
                 Inr (RespOk, st'\<lparr>state_machine := sm\<lparr>sm_node := nd\<rparr>, node_ref := Some n'\<rparr>)))
        | Membership mem \<Rightarrow>
            Inr (RespOk, st'\<lparr>state_machine := sm\<lparr>last_membership := (Some (entry_log_id e), mem)\<rparr>\<rparr>))"

fun apply_entries ::
  "('l, 'm) entry list \<Rightarrow> ('l, 'm) state_machine_store
    \<Rightarrow> (raft_response list \<times> ('l, 'm) state_machine_store) outcome" where
  "apply_entries [] st = Inr ([], st)"
| "apply_entries (e # es) st =
    and_then (apply_entry e st) (\<lambda>(r, st').
    and_then (apply_entries es st') (\<lambda>(rs, st''). Inr (r # rs, st'')))"

subsection \<open>Snapshots\<close>

text \<open>
  What \<open>Serialize\<close> makes of a topic: the interest map goes through its raw form, everything else
  is derived field by field.
\<close>

record topic_image =
  img_config :: topic_config
  img_routing :: "(node_id, endpoint_addr set) hash_map"
  img_interests :: "(endpoint_addr, interest list) hash_map"
  img_queue :: message_queue

type_synonym node_image = "(topic_code, topic_image) hash_map"

definition topic_to_image :: "topic_data \<Rightarrow> topic_image" where
  "topic_to_image d =
    \<lparr>img_config = td_config d, img_routing = ep_routing_table d,
     img_interests = interest_map_serialize (ep_interest_map d), img_queue = td_queue d\<rparr>"

definition topic_of_image :: "topic_image \<Rightarrow> topic_data" where
  "topic_of_image i =
    \<lparr>td_config = img_config i, ep_routing_table = img_routing i,
     ep_interest_map = interest_map_deserialize (img_interests i), td_queue = img_queue i\<rparr>"

definition node_to_image :: "node_data \<Rightarrow> node_image" where
  "node_to_image nd = hm_map_values (\<lambda>_. topic_to_image) (topics nd)"

definition node_of_image :: "node_image \<Rightarrow> node_data" where
  "node_of_image img = \<lparr>topics = hm_map_values (\<lambda>_. topic_of_image) img\<rparr>"

text \<open>\<open>Display\<close> of a \<open>u64\<close>.\<close>

fun digits_of :: "nat \<Rightarrow> string" where
  "digits_of n = (if n < 10 then [''0123456789'' ! n] else digits_of (n div 10) @ [''0123456789'' ! (n mod 10)])"

declare digits_of.simps [simp del]

definition snapshot_id_of :: "('l \<Rightarrow> string) \<Rightarrow> ('l \<Rightarrow> u64) \<Rightarrow> 'l option \<Rightarrow> u64 \<Rightarrow> string" where
  "snapshot_id_of show_leader index last_log idx =
    (case last_log of
       Some l \<Rightarrow> show_leader l @ ''-'' @ digits_of (unat (index l)) @ ''-'' @ digits_of (unat idx)
     | None \<Rightarrow> ''--'' @ digits_of (unat idx))"

text \<open>\<open>fetch_add(1) + 1\<close> on the counter; the serialised bytes are those of the state cloned.\<close>

definition build_snapshot ::
  "('l \<Rightarrow> string) \<Rightarrow> ('l \<Rightarrow> u64) \<Rightarrow> (node_image \<Rightarrow> bytes) \<Rightarrow> ('l, 'm) state_machine_store
    \<Rightarrow> (('l, 'm) snapshot_meta \<times> bytes) \<times> ('l, 'm) state_machine_store" where
  "build_snapshot show_leader index encode st =
    (let sm = state_machine st;
         idx = snapshot_idx st + 1;
         meta = \<lparr>meta_last_log_id = last_applied_log sm, meta_last_membership = last_membership sm,
                 meta_snapshot_id = snapshot_id_of show_leader index (last_applied_log sm) idx\<rparr>
     in ((meta, encode (node_to_image (sm_node sm))),
         st\<lparr>snapshot_idx := idx, current_snapshot := Some \<lparr>snap_meta = meta, snap_data = sm_node sm\<rparr>\<rparr>))"

definition get_current_snapshot ::
  "(node_image \<Rightarrow> bytes) \<Rightarrow> ('l, 'm) state_machine_store \<Rightarrow> (('l, 'm) snapshot_meta \<times> bytes) option" where
  "get_current_snapshot encode st =
    (case current_snapshot st of
       Some s \<Rightarrow> Some (snap_meta s, encode (node_to_image (snap_data s)))
     | None \<Rightarrow> None)"

definition sync_node_from_snapshot :: "node_data \<Rightarrow> node_inner option \<Rightarrow> node_inner option" where
  "sync_node_from_snapshot nd node =
    (case node of None \<Rightarrow> None | Some n \<Rightarrow> Some (fold insert_topic_handle (hm_keys (topics nd)) n))"

datatype storage_error = SnapshotReadError

definition install_snapshot ::
  "(bytes \<Rightarrow> node_image option) \<Rightarrow> ('l, 'm) snapshot_meta \<Rightarrow> bytes \<Rightarrow> ('l, 'm) state_machine_store
    \<Rightarrow> (storage_error + unit) \<times> ('l, 'm) state_machine_store" where
  "install_snapshot decode meta bs st =
    (case decode bs of
       None \<Rightarrow> (Inl SnapshotReadError, st)
     | Some img \<Rightarrow>
         (let nd = node_of_image img
          in (Inr (), st\<lparr>state_machine := \<lparr>last_applied_log = meta_last_log_id meta,
                           last_membership = meta_last_membership meta, sm_node = nd\<rparr>,
                         node_ref := sync_node_from_snapshot nd (node_ref st),
                         current_snapshot := Some \<lparr>snap_meta = meta, snap_data = nd\<rparr>\<rparr>)))"

section \<open>Applying one proposal\<close>

text \<open>Every topic is well-formed and registered at the node.\<close>

definition sm_ok :: "node_data \<Rightarrow> node_inner \<Rightarrow> bool" where
  "sm_ok nd n \<longleftrightarrow> hm_wf (topics nd) \<and> platform_ok (node_platform n) \<and>
    (\<forall>code d. hm_get (topics nd) code = Some d \<longrightarrow>
      topic_inv d \<and> config_ok (td_config d) \<and> get_topic n code \<noteq> None)"

lemma sm_okD:
  assumes "sm_ok nd n" "hm_get (topics nd) code = Some d"
  shows "topic_inv d" "config_ok (td_config d)" "get_topic n code \<noteq> None" "platform_ok (node_platform n)"
  using assms unfolding sm_ok_def by blast+

lemma sm_ok_insert:
  assumes "sm_ok nd n" "topic_inv d" "config_ok (td_config d)" "get_topic n' code \<noteq> None"
    "\<And>k. get_topic n k \<noteq> None \<Longrightarrow> get_topic n' k \<noteq> None" "node_platform n' = node_platform n"
  shows "sm_ok (nd\<lparr>topics := hm_insert code d (topics nd)\<rparr>) n'"
  using assms unfolding sm_ok_def by simp

lemma commit_effect:
  assumes "ctx_topic_code c = Some code"
  shows "\<exists>c'. commit_durable_commands c = Inr c' \<and> ctx_frame c c' \<and> acks c' = acks c"
  using assms
  by (auto simp: commit_durable_commands_def ctx_frame_def acks_def spawn_task_def map_filter_append_one
      split: option.split)

abbreviation topic_context :: "topic_code \<Rightarrow> node_inner \<Rightarrow> proposal_context" where
  "topic_context code n \<equiv> set_topic_code code (proposal_context_new n)"

lemma ctx_node_new [simp]: "ctx_node (proposal_context_new n) = n"
  by (simp add: proposal_context_new_def)

lemma topic_context_simps [simp]:
  "ctx_node (topic_context code n) = n" "ctx_topic_code (topic_context code n) = Some code"
  "ctx_handle (topic_context code n) = get_topic n code"
  by (simp_all add: set_topic_code_def proposal_context_new_def ctx_handle_def)

text \<open>What an operation on one topic does to the state machine: that topic changes as \<open>keeps\<close> says.\<close>

definition changes_topic ::
  "topic_code \<Rightarrow> message_id set \<Rightarrow> topic_data \<Rightarrow> node_data \<Rightarrow> node_inner \<Rightarrow> node_data \<Rightarrow> node_inner \<Rightarrow> bool" where
  "changes_topic code S d nd n nd' n' \<longleftrightarrow>
    (\<exists>d'. hm_get (topics nd') = (hm_get (topics nd))(code \<mapsto> d') \<and>
       keeps S d (topic_context code n) d' (topic_context code n') \<and> sm_ok nd' n')"

context topic_operation
begin

lemma on_topic_returns:
  assumes sm: "sm_ok nd n" and d: "hm_get (topics nd) code = Some d" and ok: "ok d (topic_context code n)"
  shows "\<exists>nd' n'. commit_and_drop (on_topic code op d nd (topic_context code n)) = Inr (nd', n') \<and>
    changes_topic code S d nd n nd' n'"
proof -
  let ?c = "topic_context code n"
  have inv: "topic_inv d" "config_ok (td_config d)" "ctx_ok ?c" "get_topic n code \<noteq> None"
    using sm_okD [OF sm d] by simp_all
  from returns [OF inv(1,3,2) ok] obtain d' c' where op: "op d ?c = Inr (d', c')" "keeps S d ?c d' c'" by blast
  have fr: "ctx_frame ?c c'" using op(2) by (simp add: keeps_def)
  then have "ctx_topic_code c' = Some code" by (simp add: ctx_frame_def)
  from commit_effect [OF this] obtain c2 where c2: "commit_durable_commands c' = Inr c2" "ctx_frame c' c2"
    "acks c2 = acks c'" by blast
  have fr2: "ctx_frame ?c c2" using ctx_frame_trans [OF fr c2(2)] .
  then have c2_eq: "c2 = topic_context code (ctx_node c2)"
    by (simp add: ctx_frame_def set_topic_code_def proposal_context_new_def)
  let ?nd = "nd\<lparr>topics := hm_insert code d' (topics nd)\<rparr>"
  have "commit_and_drop (on_topic code op d nd ?c) = Inr (?nd, ctx_node c2)"
    by (simp add: commit_and_drop_def on_topic_def op(1) c2(1))
  moreover have k: "keeps S d ?c d' (topic_context code (ctx_node c2))"
    using op(2) fr2 c2(3) unfolding keeps_def c2_eq [symmetric] accounts_def by auto
  moreover have "sm_ok ?nd (ctx_node c2)"
    using fr2 inv(2,4) op(2)
    by (intro sm_ok_insert [OF sm]) (simp_all add: ctx_frame_def get_topic_def keeps_def)
  ultimately show ?thesis by (auto simp: changes_topic_def)
qed

end

text \<open>What a proposal must satisfy to be applied: the preconditions of its topic operation.\<close>

fun proposal_topic :: "proposal \<Rightarrow> topic_code" where
  "proposal_topic (DelegateMessage dg) = dg_topic dg"
| "proposal_topic (SetState ss) = ss_topic ss"
| "proposal_topic (LoadTopic lt) = cfg_code (lt_config lt)"
| "proposal_topic (UnloadTopic code) = code"
| "proposal_topic (EpOnline e) = on_topic_code e"
| "proposal_topic (EpOffline e) = off_topic_code e"
| "proposal_topic (EpInterest e) = ei_topic_code e"

definition load_ok :: "load_topic \<Rightarrow> bool" where
  "load_ok lt \<longleftrightarrow> config_ok (lt_config lt) \<and> distinct (map dm_time (lt_queue lt)) \<and>
    distinct (map (\<lambda>m. msg_id (dm_message m)) (lt_queue lt)) \<and> (\<forall>m \<in> set (lt_queue lt). hm_wf (dm_status m))"

fun proposal_ok :: "proposal \<Rightarrow> node_data \<Rightarrow> node_inner \<Rightarrow> bool" where
  "proposal_ok (DelegateMessage dg) nd n \<longleftrightarrow>
    (case hm_get (topics nd) (dg_topic dg) of None \<Rightarrow> True
     | Some d \<Rightarrow> hold_ok (dg_message dg) d (topic_context (dg_topic dg) n))"
| "proposal_ok (LoadTopic lt) nd n \<longleftrightarrow> load_ok lt"
| "proposal_ok _ nd n \<longleftrightarrow> True"

text \<open>The messages a proposal brings into its topic.\<close>

fun proposal_accepts :: "proposal \<Rightarrow> message_id set" where
  "proposal_accepts (DelegateMessage dg) = {msg_id (dg_message dg)}"
| "proposal_accepts _ = {}"

lemma commit_unknown_topic:
  "get_topic n code = None \<or> \<not> node_durable n \<Longrightarrow>
    commit_and_drop (Inr (nd, topic_context code n)) = Inr (nd, n)"
  by (auto simp: commit_and_drop_def commit_durable_commands_def split: option.split)

lemma commit_keeps_data:
  "\<exists>n'. commit_and_drop (Inr (nd, topic_context code n)) = Inr (nd, n') \<and> node_topics n' = node_topics n \<and>
    node_platform n' = node_platform n \<and> topic_handles n' = topic_handles n"
  by (auto simp: commit_and_drop_def commit_durable_commands_def spawn_task_def split: option.split)

lemma get_topic_insert_handle [simp]:
  "get_topic (insert_topic_handle code n) k = (if k = code then Some (next_handle n) else get_topic n k)"
  "node_platform (insert_topic_handle code n) = node_platform n"
  by (simp_all add: get_topic_def insert_topic_handle_def)

lemma topic_inv_from_durable:
  assumes "load_ok lt"
  shows "topic_inv (topic_from_durable (lt_config lt) (sort_key dm_time (lt_queue lt)))"
proof -
  let ?ms = "sort_key dm_time (sort_key dm_time (lt_queue lt))"
  have "distinct (map dm_time ?ms)" "distinct (map (\<lambda>m. msg_id (dm_message m)) ?ms)"
    using assms by (simp_all add: load_ok_def distinct_map inj_on_def)
  moreover from this(1) have "sorted_wrt (<) (map dm_time ?ms)" by (simp add: strict_sorted_iff)
  ultimately show ?thesis
    using push_durable_all [OF queue_inv_new, of ?ms "cfg_blocking (lt_config lt)"] assms
    by (simp add: topic_from_durable_def topic_inv_def queue_new_def interest_map_inv_new load_ok_def)
qed

lemma apply_load_topic_new:
  assumes sm: "sm_ok nd n" and ok: "load_ok lt" and new: "hm_get (topics nd) (cfg_code (lt_config lt)) = None"
  shows "\<exists>nd' n'. apply_load_topic lt nd (proposal_context_new n) = Inr (nd', n') \<and> sm_ok nd' n' \<and>
    hm_get (topics nd') = (hm_get (topics nd))
      (cfg_code (lt_config lt) \<mapsto> topic_from_durable (lt_config lt) (sort_key dm_time (lt_queue lt))) \<and>
    get_topic n' (cfg_code (lt_config lt)) = Some (next_handle n)"
proof -
  let ?code = "cfg_code (lt_config lt)"
  let ?d = "topic_from_durable (lt_config lt) (sort_key dm_time (lt_queue lt))"
  let ?nd = "nd\<lparr>topics := hm_insert ?code ?d (topics nd)\<rparr>" and ?n = "insert_topic_handle ?code n"
  have c: "(topic_context ?code n)\<lparr>ctx_node := ?n\<rparr> = topic_context ?code ?n"
    by (simp add: set_topic_code_def proposal_context_new_def)
  obtain n' where n': "commit_and_drop (Inr (?nd, topic_context ?code ?n)) = Inr (?nd, n')"
    "node_topics n' = node_topics ?n" "node_platform n' = node_platform n"
    using commit_keeps_data [of ?nd ?code ?n] by auto
  have "get_topic n' k = get_topic ?n k" for k using n'(2) by (simp add: get_topic_def)
  moreover have "td_config ?d = lt_config lt" by (simp add: topic_from_durable_def)
  ultimately have "sm_ok ?nd n'"
    using n'(3) topic_inv_from_durable [OF ok] ok by (intro sm_ok_insert [OF sm]) (simp_all add: load_ok_def)
  with n'(1) new \<open>\<And>k. get_topic n' k = get_topic ?n k\<close> show ?thesis
    by (simp add: apply_load_topic_def Let_def c)
qed

lemma sm_ok_remove: "sm_ok nd n \<Longrightarrow> sm_ok (apply_unload_topic code nd) n"
  unfolding sm_ok_def apply_unload_topic_def by simp

lemma apply_proposal_returns:
  assumes sm: "sm_ok nd n" and ok: "proposal_ok p nd n"
  shows "\<exists>nd' n'. apply_proposal p nd n = Inr (nd', n') \<and> sm_ok nd' n' \<and>
    (\<forall>d. hm_get (topics nd) (proposal_topic p) = Some d \<longrightarrow> (\<nexists>code. p = UnloadTopic code) \<longrightarrow> (\<nexists>lt. p = LoadTopic lt) \<longrightarrow>
      changes_topic (proposal_topic p) (proposal_accepts p) d nd n nd' n')"
proof (cases "hm_get (topics nd) (proposal_topic p)")
  case None
  have "sm_ok nd n'" if "node_topics n' = node_topics n" "node_platform n' = node_platform n" for n'
    using sm that by (simp add: sm_ok_def get_topic_def)
  then have quiet: "\<exists>n'. commit_and_drop (Inr (nd, topic_context code n)) = Inr (nd, n') \<and> sm_ok nd n'" for code
    using commit_keeps_data [of nd code n] by blast
  show ?thesis
  proof (cases p)
    case (DelegateMessage dg)
    with None quiet [of "dg_topic dg"] show ?thesis by (auto simp: apply_delegate_message_def)
  next
    case (SetState ss)
    with None quiet [of "ss_topic ss"] show ?thesis by (auto simp: apply_set_state_def)
  next
    case (LoadTopic lt)
    with None ok apply_load_topic_new [OF sm, of lt] show ?thesis by auto
  qed (use None sm sm_ok_remove [OF sm] in
      \<open>simp_all add: apply_ep_online_def apply_ep_offline_def apply_ep_interest_def\<close>)
next
  case (Some d)
  show ?thesis
  proof (cases p)
    case (DelegateMessage dg)
    with Some ok hold.on_topic_returns [OF sm, of "dg_topic dg" d "dg_message dg"] show ?thesis
      by (auto simp: apply_delegate_message_def changes_topic_def)
  next
    case (SetState ss)
    with Some update.on_topic_returns [OF sm, of "ss_topic ss" d "ss_update ss"] show ?thesis
      by (auto simp: apply_set_state_def changes_topic_def)
  next
    case (EpOnline e)
    with Some online.on_topic_returns [OF sm, of "on_topic_code e" d "on_endpoint e" "on_interests e" "on_host e"]
    show ?thesis by (auto simp: apply_ep_online_def changes_topic_def)
  next
    case (EpOffline e)
    with Some offline.on_topic_returns [OF sm, of "off_topic_code e" d "off_host e" "off_endpoint e"] show ?thesis
      by (auto simp: apply_ep_offline_def changes_topic_def)
  next
    case (EpInterest e)
    with Some interest.on_topic_returns [OF sm, of "ei_topic_code e" d "ei_endpoint e" "ei_interests e"] show ?thesis
      by (auto simp: apply_ep_interest_def changes_topic_def)
  qed (use Some sm sm_ok_remove [OF sm] in \<open>simp_all add: apply_load_topic_def\<close>)
qed

text \<open>What a proposal is for: the change of the topic it names, on a topic that is there and on one that is not.\<close>

definition changed_topic :: "topic_code \<Rightarrow> (topic_data \<Rightarrow> topic_data \<Rightarrow> bool) \<Rightarrow> node_data \<Rightarrow> node_data \<Rightarrow> bool" where
  "changed_topic code E nd nd' \<longleftrightarrow>
    (case hm_get (topics nd) code of
       None \<Rightarrow> nd' = nd
     | Some d \<Rightarrow> \<exists>d'. hm_get (topics nd') = (hm_get (topics nd))(code \<mapsto> d') \<and> E d d')"

fun proposal_effect :: "proposal \<Rightarrow> node_data \<Rightarrow> node_data \<Rightarrow> bool" where
  "proposal_effect (DelegateMessage dg) nd nd' \<longleftrightarrow> changed_topic (dg_topic dg) (hold_effect (dg_message dg)) nd nd'"
| "proposal_effect (SetState ss) nd nd' \<longleftrightarrow> changed_topic (ss_topic ss) (set_state_effect (ss_update ss)) nd nd'"
| "proposal_effect (LoadTopic lt) nd nd' \<longleftrightarrow>
    (case hm_get (topics nd) (cfg_code (lt_config lt)) of
       Some _ \<Rightarrow> nd' = nd
     | None \<Rightarrow> \<exists>d'. hm_get (topics nd') = (hm_get (topics nd))(cfg_code (lt_config lt) \<mapsto> d') \<and>
         load_effect (lt_config lt) (lt_queue lt) d')"
| "proposal_effect (UnloadTopic code) nd nd' \<longleftrightarrow> hm_get (topics nd') = (hm_get (topics nd))(code := None)"
| "proposal_effect (EpOnline e) nd nd' \<longleftrightarrow>
    changed_topic (on_topic_code e) (online_effect (on_endpoint e) (on_interests e) (on_host e)) nd nd'"
| "proposal_effect (EpOffline e) nd nd' \<longleftrightarrow>
    changed_topic (off_topic_code e) (offline_effect (off_host e) (off_endpoint e)) nd nd'"
| "proposal_effect (EpInterest e) nd nd' \<longleftrightarrow>
    changed_topic (ei_topic_code e) (interest_effect (ei_endpoint e) (ei_interests e)) nd nd'"

lemma on_topic_effect:
  assumes none: "hm_get (topics nd) code = None \<Longrightarrow> nd' = nd"
    and some: "\<And>d. hm_get (topics nd) code = Some d \<Longrightarrow>
      commit_and_drop (on_topic code op d nd (topic_context code n)) = Inr (nd', n')"
    and E: "\<And>d d' c'. hm_get (topics nd) code = Some d \<Longrightarrow> op d (topic_context code n) = Inr (d', c') \<Longrightarrow> E d d'"
  shows "changed_topic code E nd nd'"
proof (cases "hm_get (topics nd) code")
  case None
  with none show ?thesis by (simp add: changed_topic_def)
next
  case (Some d)
  with some [OF Some] obtain d' c' where "op d (topic_context code n) = Inr (d', c')"
    "nd' = nd\<lparr>topics := hm_insert code d' (topics nd)\<rparr>"
    by (auto simp: commit_and_drop_def on_topic_def and_then_Inr_iff)
  with Some E [OF Some this(1)] show ?thesis by (auto simp: changed_topic_def)
qed

lemma apply_load_effect:
  assumes sm: "sm_ok nd n" and ok: "load_ok lt" and ap: "apply_load_topic lt nd (proposal_context_new n) = Inr (nd', n')"
  shows "proposal_effect (LoadTopic lt) nd nd'"
proof (cases "hm_get (topics nd) (cfg_code (lt_config lt))")
  case None
  have "load_effect (lt_config lt) (lt_queue lt) (topic_from_durable (lt_config lt) (sort_key dm_time (lt_queue lt)))"
    using ok by (intro topic_from_durable_effect) (auto simp: load_ok_def)
  with apply_load_topic_new [OF sm ok None] ap None show ?thesis by auto
qed (use ap in \<open>simp add: apply_load_topic_def\<close>)

lemma apply_proposal_effect:
  assumes sm: "sm_ok nd n" and ok: "proposal_ok p nd n" and ap: "apply_proposal p nd n = Inr (nd', n')"
  shows "proposal_effect p nd nd'"
proof -
  have inv: "topic_inv d" "ctx_ok (topic_context code n)" if "hm_get (topics nd) code = Some d" for code d
    using sm_okD [OF sm that] by simp_all
  have quiet: "nd' = nd" if "commit_and_drop (Inr (nd, topic_context code n)) = Inr (nd', n')" for code
    using commit_keeps_data [of nd code n] that by auto
  show ?thesis
  proof (cases p)
    case (DelegateMessage dg)
    have new: "hm_get (hold_messages (td_queue d)) (msg_id (dg_message dg)) = None"
      if "hm_get (topics nd) (dg_topic dg) = Some d" for d
      using ok DelegateMessage that by (simp add: entry_fresh_def)
    have "changed_topic (dg_topic dg) (hold_effect (dg_message dg)) nd nd'"
      by (rule on_topic_effect [where op = "hold_new_message (dg_message dg)" and n = n and n' = n'])
        (use ap DelegateMessage quiet in \<open>auto simp: apply_delegate_message_def Let_def intro: hold_new_message_effect inv new\<close>)
    then show ?thesis using DelegateMessage by simp
  next
    case (SetState ss)
    have "changed_topic (ss_topic ss) (set_state_effect (ss_update ss)) nd nd'"
      by (rule on_topic_effect [where op = "update_and_flush (ss_update ss)" and n = n and n' = n'])
        (use ap SetState quiet in \<open>auto simp: apply_set_state_def Let_def intro: update_and_flush_effect inv\<close>)
    then show ?thesis using SetState by simp
  next
    case (LoadTopic lt)
    with ok ap show ?thesis using apply_load_effect [OF sm] by simp
  next
    case (EpOnline e)
    have "changed_topic (on_topic_code e) (online_effect (on_endpoint e) (on_interests e) (on_host e)) nd nd'"
      by (rule on_topic_effect [where op = "ep_online (on_endpoint e) (on_interests e) (on_host e)" and n = n and n' = n'])
        (use ap EpOnline in \<open>auto simp: apply_ep_online_def intro: ep_online_effect inv\<close>)
    then show ?thesis using EpOnline by simp
  next
    case (EpOffline e)
    have "changed_topic (off_topic_code e) (offline_effect (off_host e) (off_endpoint e)) nd nd'"
      by (rule on_topic_effect [where op = "ep_offline (off_host e) (off_endpoint e)" and n = n and n' = n'])
        (use ap EpOffline in \<open>auto simp: apply_ep_offline_def intro: ep_offline_effect inv\<close>)
    then show ?thesis using EpOffline by simp
  next
    case (EpInterest e)
    have "changed_topic (ei_topic_code e) (interest_effect (ei_endpoint e) (ei_interests e)) nd nd'"
      by (rule on_topic_effect [where op = "update_ep_interest (ei_endpoint e) (ei_interests e)" and n = n and n' = n'])
        (use ap EpInterest in \<open>auto simp: apply_ep_interest_def intro: update_ep_interest_effect inv\<close>)
    then show ?thesis using EpInterest by simp
  qed (use ap in \<open>auto simp: apply_unload_topic_def\<close>)
qed


lemma commit_and_drop_data: "commit_and_drop r = Inr (nd', n') \<Longrightarrow> \<exists>c. r = Inr (nd', c)"
  by (auto simp: commit_and_drop_def and_then_Inr_iff)

lemma on_topic_other: "on_topic code op d nd c = Inr (nd', c') \<Longrightarrow> k \<noteq> code \<Longrightarrow>
  hm_get (topics nd') k = hm_get (topics nd) k"
  by (auto simp: on_topic_def and_then_Inr_iff)

text \<open>
  (C30) Topics are isolated: a proposal changes no topic but the one it names, whatever the state
  of the machine.
\<close>

theorem proposals_are_isolated:
  assumes "apply_proposal p nd n = Inr (nd', n')" "k \<noteq> proposal_topic p"
  shows "hm_get (topics nd') k = hm_get (topics nd) k"
  using assms
  by (cases p)
    (auto simp: apply_delegate_message_def apply_set_state_def apply_load_topic_def apply_unload_topic_def
      apply_ep_online_def apply_ep_offline_def apply_ep_interest_def Let_def on_topic_other
      split: option.splits dest!: commit_and_drop_data)

section \<open>Applying the log\<close>

definition store_ok :: "('l, 'm) state_machine_store \<Rightarrow> bool" where
  "store_ok st \<longleftrightarrow> (case node_ref st of None \<Rightarrow> True | Some n \<Rightarrow> sm_ok (sm_node (state_machine st)) n)"

definition entry_ok :: "('l, 'm) entry \<Rightarrow> ('l, 'm) state_machine_store \<Rightarrow> bool" where
  "entry_ok e st \<longleftrightarrow>
    (case (entry_data e, node_ref st) of
       (Normal p, Some n) \<Rightarrow> proposal_ok p (sm_node (state_machine st)) n
     | _ \<Rightarrow> True)"

text \<open>
  Every entry finds its precondition when its turn comes.  This asks nothing of how an entry is
  applied: where that panics, there is no turn after it.
\<close>

fun entries_ok :: "('l, 'm) entry list \<Rightarrow> ('l, 'm) state_machine_store \<Rightarrow> bool" where
  "entries_ok [] st \<longleftrightarrow> True"
| "entries_ok (e # es) st \<longleftrightarrow> entry_ok e st \<and>
    (case apply_entry e st of Inl _ \<Rightarrow> True | Inr (r, st') \<Rightarrow> entries_ok es st')"

lemma apply_entry_returns:
  assumes "store_ok st" "entry_ok e st"
  shows "\<exists>r st'. apply_entry e st = Inr (r, st') \<and> store_ok st' \<and>
    (node_ref st \<noteq> None \<longrightarrow> r = RespOk \<and> node_ref st' \<noteq> None) \<and>
    last_applied_log (state_machine st') = Some (entry_log_id e)"
proof (cases "entry_data e")
  case (Normal p)
  show ?thesis
  proof (cases "node_ref st")
    case (Some n)
    then have "sm_ok (sm_node (state_machine st)) n" "proposal_ok p (sm_node (state_machine st)) n"
      using assms Normal by (simp_all add: store_ok_def entry_ok_def)
    from apply_proposal_returns [OF this] Normal Some show ?thesis
      by (auto simp: apply_entry_def store_ok_def Let_def)
  qed (use Normal in \<open>simp add: apply_entry_def store_ok_def Let_def\<close>)
qed (use assms in \<open>cases "node_ref st"; simp add: apply_entry_def store_ok_def Let_def\<close>)+

text \<open>
  (C13) The log is applied without a panic: from a well-formed store, any sequence of entries each of
  which meets its precondition when its turn comes yields one response per entry, all \<open>Ok\<close> while the node lives, a
  well-formed store, and the last applied log id is that of the last entry.
\<close>

theorem log_application:
  assumes "store_ok st" "entries_ok es st"
  shows "\<exists>rs st'. apply_entries es st = Inr (rs, st') \<and> store_ok st' \<and> length rs = length es \<and>
    (node_ref st \<noteq> None \<longrightarrow> set rs \<subseteq> {RespOk}) \<and>
    last_applied_log (state_machine st') =
      (if es = [] then last_applied_log (state_machine st) else Some (entry_log_id (last es)))"
  using assms
proof (induction es arbitrary: st)
  case (Cons e es)
  obtain r st1 where 1: "apply_entry e st = Inr (r, st1)" "store_ok st1"
    "node_ref st \<noteq> None \<longrightarrow> r = RespOk \<and> node_ref st1 \<noteq> None"
    "last_applied_log (state_machine st1) = Some (entry_log_id e)"
    using apply_entry_returns [of st e] Cons.prems by auto
  with Cons.prems(2) have "entries_ok es st1" by simp
  from Cons.IH [OF 1(2) this] obtain rs st2 where "apply_entries es st1 = Inr (rs, st2)" "store_ok st2"
    "length rs = length es" "node_ref st1 \<noteq> None \<longrightarrow> set rs \<subseteq> {RespOk}"
    "last_applied_log (state_machine st2) =
      (if es = [] then last_applied_log (state_machine st1) else Some (entry_log_id (last es)))" by blast
  with 1 show ?case by (cases es) auto
qed simp

text \<open>
  How the log is cut into batches does not matter: applying a batch is applying its parts
  one after the other, with the responses in order.
\<close>

theorem apply_entries_batches:
  "apply_entries (xs @ ys) st =
    and_then (apply_entries xs st) (\<lambda>(rs, st').
    and_then (apply_entries ys st') (\<lambda>(rs', st''). Inr (rs @ rs', st'')))"
proof (induction xs arbitrary: st)
  case Nil
  then show ?case by (cases "apply_entries ys st") auto
next
  case (Cons e xs)
  show ?case
    by (cases "apply_entry e st") (auto simp: Cons.IH and_then_assoc case_prod_unfold)
qed

section \<open>Snapshots\<close>

text \<open>Two topics that no operation can tell apart: the interest maps answer alike.\<close>

definition same_topic :: "topic_data \<Rightarrow> topic_data \<Rightarrow> bool" where
  "same_topic d d' \<longleftrightarrow> td_config d' = td_config d \<and> ep_routing_table d' = ep_routing_table d \<and>
    td_queue d' = td_queue d \<and> interest_map_find (ep_interest_map d') = interest_map_find (ep_interest_map d) \<and>
    interest_of (ep_interest_map d') = interest_of (ep_interest_map d)"

lemma topic_image_roundtrip:
  assumes "topic_inv d"
  shows "same_topic d (topic_of_image (topic_to_image d))" "topic_inv (topic_of_image (topic_to_image d))"
  using assms interest_map_serde [of "ep_interest_map d"]
  by (simp_all add: same_topic_def topic_of_image_def topic_to_image_def topic_inv_def interest_of_def fun_eq_iff)

lemma topics_image: "hm_get (topics (node_of_image (node_to_image nd))) code
    = map_option (\<lambda>d. topic_of_image (topic_to_image d)) (hm_get (topics nd) code)"
  by (simp add: node_of_image_def node_to_image_def option.map_comp comp_def)

lemma get_topic_insert_handles:
  "get_topic (fold insert_topic_handle codes n) k \<noteq> None \<longleftrightarrow> k \<in> set codes \<or> get_topic n k \<noteq> None"
  "node_platform (fold insert_topic_handle codes n) = node_platform n"
  by (induction codes arbitrary: n) auto

lemma keys_image: "hm_keys (topics (node_of_image (node_to_image nd))) = hm_keys (topics nd)"
  by (simp add: node_of_image_def node_to_image_def)

lemma sm_ok_image:
  assumes sm: "sm_ok nd n" and pl: "platform_ok (node_platform n2)"
  shows "sm_ok (node_of_image (node_to_image nd)) (fold insert_topic_handle (hm_keys (topics nd)) n2)"
proof -
  have "topic_inv d' \<and> config_ok (td_config d') \<and>
      get_topic (fold insert_topic_handle (hm_keys (topics nd)) n2) code \<noteq> None"
    if d': "hm_get (topics (node_of_image (node_to_image nd))) code = Some d'" for code d'
  proof -
    obtain d where d: "hm_get (topics nd) code = Some d" "d' = topic_of_image (topic_to_image d)"
      using d' by (auto simp: topics_image)
    have "code \<in> set (hm_keys (topics nd))" using d(1) by (metis domI hm.set_keys)
    then have "get_topic (fold insert_topic_handle (hm_keys (topics nd)) n2) code \<noteq> None"
      unfolding get_topic_insert_handles by (rule disjI1)
    then show ?thesis
      using sm_okD(1,2) [OF sm d(1)] topic_image_roundtrip [of d] d(2) by (simp add: same_topic_def)
  qed
  moreover have "hm_wf (topics (node_of_image (node_to_image nd)))"
    using sm keys_image [of nd] by (simp add: sm_ok_def)
  ultimately show ?thesis
    using pl by (simp add: sm_ok_def get_topic_insert_handles)
qed

text \<open>
  (C10) A snapshot carries the whole state: what one replica builds and another installs is the
  same applied log position, the same membership and topic by topic the same configuration,
  routing, queue and subscriptions; the receiving store is well-formed.
\<close>

theorem snapshot_transfer:
  assumes codec: "decode (encode (node_to_image (sm_node (state_machine st)))) = Some (node_to_image (sm_node (state_machine st)))"
    and sender: "node_ref st = Some n" "store_ok st"
    and receiver: "node_ref st2 = Some n2" "platform_ok (node_platform n2)"
  shows "case build_snapshot show_leader index encode st of ((meta, bs), st1) \<Rightarrow>
    \<exists>st2'. install_snapshot decode meta bs st2 = (Inr (), st2') \<and> store_ok st2' \<and>
      applied_state st2' = applied_state st \<and>
      (\<forall>code. rel_option same_topic (hm_get (topics (sm_node (state_machine st))) code)
         (hm_get (topics (sm_node (state_machine st2'))) code)) \<and>
      get_current_snapshot encode st1 = Some (meta, bs)"
proof -
  let ?nd = "sm_node (state_machine st)"
  have sm: "sm_ok ?nd n" using sender by (simp add: store_ok_def)
  have "rel_option same_topic (hm_get (topics ?nd) code)
      (hm_get (topics (node_of_image (node_to_image ?nd))) code)" for code
    using topic_image_roundtrip(1) sm_okD(1) [OF sm]
    by (cases "hm_get (topics ?nd) code") (simp_all add: topics_image)
  with sm_ok_image [OF sm receiver(2)] codec show ?thesis
    by (simp add: build_snapshot_def install_snapshot_def Let_def store_ok_def receiver(1)
        sync_node_from_snapshot_def keys_image applied_state_def get_current_snapshot_def)
qed

lemma handle_after_inserts:
  assumes "\<And>code. P \<lparr>ti_code = code, ack_waiting_pool = [], local_endpoints = []\<rparr>"
    "code \<in> set codes \<or> (\<exists>h ti. get_topic n code = Some h \<and> hm_get (topic_handles n) h = Some ti \<and> P ti)"
  shows "\<exists>h ti. get_topic (fold insert_topic_handle codes n) code = Some h \<and>
    hm_get (topic_handles (fold insert_topic_handle codes n)) h = Some ti \<and> P ti"
  using assms(2)
proof (induction codes arbitrary: n)
  case (Cons c codes)
  have "\<exists>h ti. get_topic (insert_topic_handle c n) code = Some h \<and>
      hm_get (topic_handles (insert_topic_handle c n)) h = Some ti \<and> P ti" if new: "code \<notin> set codes"
  proof (cases "code = c")
    case True
    then show ?thesis using assms(1) by (simp add: insert_topic_handle_def get_topic_def)
  next
    case False
    then obtain h ti where "get_topic n code = Some h" "hm_get (topic_handles n) h = Some ti" "P ti"
      using new Cons.prems by auto
    then show ?thesis using False assms(1)
      by (cases "h = next_handle n") (auto simp: insert_topic_handle_def get_topic_def)
  qed
  with Cons.IH [of "insert_topic_handle c n"] show ?case by auto
qed auto

text \<open>
  Installing a snapshot replaces the handle of every topic by a new one with empty pools: the
  senders that wait for an acknowledgement and the endpoints registered at this node are not
  found through the node any more.
\<close>

theorem install_snapshot_forgets_waiters:
  assumes "decode bs = Some img" "node_ref st = Some n" "code \<in> set (hm_keys img)"
  shows "\<exists>st' n' h. install_snapshot decode meta bs st = (Inr (), st') \<and> node_ref st' = Some n' \<and>
    get_topic n' code = Some h \<and>
    (\<exists>ti. hm_get (topic_handles n') h = Some ti \<and> ack_waiting_pool ti = [] \<and> local_endpoints ti = [])"
  using assms
    handle_after_inserts [of "\<lambda>ti. ack_waiting_pool ti = [] \<and> local_endpoints ti = []" code "hm_keys img" n]
  by (auto simp: install_snapshot_def Let_def sync_node_from_snapshot_def node_of_image_def)

section \<open>Witnesses\<close>

definition example_node_data :: node_data where
  "example_node_data = \<lparr>topics = [(example_topic, example_topic_data False)]\<rparr>"

definition example_proposal :: proposal where
  "example_proposal = DelegateMessage \<lparr>dg_topic = example_topic, dg_message = example_message 3 Online\<rparr>"

definition later_node :: node_inner where
  "later_node = ctx_node later_context"

lemma later_context_topic [simp]: "topic_context example_topic later_node = later_context"
  by (simp add: later_node_def later_context_def set_topic_code_def proposal_context_new_def ctx_now_def
      example_context_def utc_now_def)

lemma example_sm_ok [simp]: "sm_ok example_node_data later_node"
proof -
  have "get_topic later_node example_topic = Some 0"
    using topic_context_simps(3) [of example_topic later_node] by simp
  moreover have "platform_ok (node_platform later_node)"
    using later_context_simps(1) by (simp add: later_node_def)
  ultimately show ?thesis by (simp add: sm_ok_def example_node_data_def)
qed

lemma example_proposal_ok [simp]: "proposal_ok example_proposal example_node_data later_node"
  using example_fresh [of Online False] by (simp add: example_proposal_def example_node_data_def)


theorem proposals_are_isolated_witness:
  "\<exists>nd' n'. apply_proposal example_proposal example_node_data later_node = Inr (nd', n') \<and>
    hm_get (topics nd') (TopicCode [120]) = hm_get (topics example_node_data) (TopicCode [120])"
proof -
  obtain nd' n' where a: "apply_proposal example_proposal example_node_data later_node = Inr (nd', n')"
    using apply_proposal_returns [OF example_sm_ok example_proposal_ok] by blast
  moreover have "TopicCode [120] \<noteq> proposal_topic example_proposal"
    by (simp add: example_proposal_def example_topic_def)
  ultimately show ?thesis using proposals_are_isolated [OF a] by blast
qed

definition example_store :: "(nat, nat) state_machine_store" where
  "example_store = (store_new 0 (Some later_node))\<lparr>state_machine :=
    \<lparr>last_applied_log = None, last_membership = (None, 0), sm_node = example_node_data\<rparr>\<rparr>"

lemma example_store_simps [simp]:
  "store_ok example_store" "node_ref example_store = Some later_node"
  "sm_node (state_machine example_store) = example_node_data"
  by (simp_all add: example_store_def store_ok_def store_new_def)

theorem log_application_witness:
  "\<exists>rs st'. apply_entries [\<lparr>entry_log_id = 7, entry_data = Normal example_proposal\<rparr>] example_store = Inr (rs, st') \<and>
    last_applied_log (state_machine st') = Some 7"
proof -
  let ?e = "\<lparr>entry_log_id = 7, entry_data = Normal example_proposal\<rparr>"
  have ok: "entry_ok ?e example_store" by (simp add: entry_ok_def)
  then have "entries_ok [?e] example_store"
    using apply_entry_returns [OF example_store_simps(1) ok] by auto
  from log_application [OF example_store_simps(1) this] show ?thesis by auto
qed

lemma platform_ok_later [simp]: "platform_ok (node_platform later_node)"
  using later_context_simps(1) by (simp add: later_node_def)

theorem snapshot_transfer_witness:
  "\<exists>st2'. install_snapshot (\<lambda>_. Some (node_to_image example_node_data))
      (fst (fst (build_snapshot (\<lambda>_. ''L'') of_nat (\<lambda>_. []) example_store)))
      (snd (fst (build_snapshot (\<lambda>_. ''L'') of_nat (\<lambda>_. []) example_store)))
      (store_new 0 (Some later_node)) = (Inr (), st2') \<and> store_ok st2' \<and>
    applied_state st2' = applied_state example_store"
proof -
  have "node_ref (store_new 0 (Some later_node) :: (nat, nat) state_machine_store) = Some later_node"
    by (simp add: store_new_def)
  from snapshot_transfer [OF _ example_store_simps(2,1) this platform_ok_later,
      of "\<lambda>_. Some (node_to_image example_node_data)" "\<lambda>_. []" "\<lambda>_. ''L''" of_nat]
  show ?thesis by (auto simp: case_prod_unfold)
qed

theorem install_snapshot_forgets_waiters_witness:
  "\<exists>st' n' h. install_snapshot (\<lambda>_. Some (node_to_image example_node_data))
      \<lparr>meta_last_log_id = None, meta_last_membership = (None, 0), meta_snapshot_id = []\<rparr> [] example_store
      = (Inr (), st') \<and> node_ref st' = Some n' \<and> get_topic n' example_topic = Some h"
proof -
  have "example_topic \<in> set (hm_keys (node_to_image example_node_data))"
    by (simp add: node_to_image_def example_node_data_def hm_map_values_def)
  from install_snapshot_forgets_waiters [where decode = "\<lambda>_. Some (node_to_image example_node_data)" and bs = "[]"
      and meta = "\<lparr>meta_last_log_id = None, meta_last_membership = (None, 0), meta_snapshot_id = []\<rparr>",
      OF _ example_store_simps(2) this]
  show ?thesis by fastforce
qed

end
