(* ===== verification/MQ_Replica.thy ===== *)
theory MQ_Replica
  imports MQ_State_Machine
begin

text \<open>
  Why the replicas agree.  A replica reads its own clock, iterates its own hash sets and sends only to
  the endpoints it hosts, so two replicas that apply the same log do not have equal states.  What they
  share is specified here: a topic as a list of messages in their order, where \<open>Sending\<close> counts as
  \<open>Unsent\<close>, with operations that know no clock, no iteration order and no node.  Every operation of
  \<open>MQ_Topic\<close> is shown to refine its specification, as long as the clock moves past the messages in the
  queue and nothing expires on the way; without these the replicas come apart.
\<close>

section \<open>What replicas share of a held message\<close>

fun shared_status :: "message_status_kind \<Rightarrow> message_status_kind" where
  "shared_status Sending = Unsent"
| "shared_status st = st"

record shared_entry =
  sh_message :: message
  sh_expect :: message_ack_expect_kind
  sh_status :: "endpoint_addr \<Rightarrow> message_status_kind option"

definition shared_of :: "hold_message \<Rightarrow> shared_entry" where
  "shared_of hm = \<lparr>sh_message = held_message hm, sh_expect = expect (held_wait_ack hm),
     sh_status = (\<lambda>ep. map_option shared_status (hm_get (held_status hm) ep))\<rparr>"

abbreviation sh_id :: "shared_entry \<Rightarrow> message_id" where
  "sh_id e \<equiv> msg_id (sh_message e)"

text \<open>The message is done, if it has not expired.\<close>

definition sh_done :: "shared_entry \<Rightarrow> bool" where
  "sh_done e =
    (case target_kind (header (sh_message e)) of
       Durable \<Rightarrow>
         (case durability (header (sh_message e)) of
            None \<Rightarrow> True
          | Some config \<Rightarrow>
              (case max_receiver config of Some n \<Rightarrow> unat n \<le> card (dom (sh_status e)) | None \<Rightarrow> False))
     | _ \<Rightarrow> \<forall>st \<in> ran (sh_status e). status_is_resolved st (sh_expect e))"

definition sh_ack :: "endpoint_addr \<Rightarrow> message_status_kind \<Rightarrow> shared_entry \<Rightarrow> shared_entry" where
  "sh_ack from kind e =
    (case sh_status e from of
       Some st \<Rightarrow>
         if status_is_resolved st (sh_expect e) then e
         else e\<lparr>sh_status := (sh_status e)(from \<mapsto> shared_status kind)\<rparr>
     | None \<Rightarrow> e\<lparr>sh_status := (sh_status e)(from \<mapsto> shared_status kind)\<rparr>)"

text \<open>No expiry date lies before \<open>T\<close>, and no reading of the clock between two contexts behind it.\<close>

definition lives :: "time \<Rightarrow> message \<Rightarrow> bool" where
  "lives T m \<longleftrightarrow> (target_kind (header m) = Durable \<longrightarrow> (\<forall>cfg. durability (header m) = Some cfg \<longrightarrow> T \<le> expire cfg))"

definition unexpired :: "time \<Rightarrow> proposal_context \<Rightarrow> proposal_context \<Rightarrow> bool" where
  "unexpired T c c' \<longleftrightarrow>
    (\<forall>k. clock_reads (ctx_node c) \<le> k \<and> k < clock_reads (ctx_node c') \<longrightarrow> clock (node_platform (ctx_node c)) k \<le> T)"

lemma shared_of_simps [simp]:
  "sh_message (shared_of hm) = held_message hm" "sh_expect (shared_of hm) = expect (held_wait_ack hm)"
  "sh_status (shared_of hm) ep = map_option shared_status (hm_get (held_status hm) ep)"
  by (simp_all add: shared_of_def)

lemma shared_of_eqI:
  assumes "held_message a = held_message b" "expect (held_wait_ack a) = expect (held_wait_ack b)"
    "\<And>ep. map_option shared_status (hm_get (held_status a) ep) = map_option shared_status (hm_get (held_status b) ep)"
  shows "shared_of a = shared_of b"
  using assms by (simp add: shared_of_def)

lemma shared_status_resolved [simp]: "status_is_resolved (shared_status st) k = status_is_resolved st k"
  by (cases st) simp_all

lemma shared_send_unsent:
  assumes "send_unsent reachable hm c = (hm', c')"
  shows "shared_of hm' = shared_of hm"
proof (rule shared_of_eqI)
  show "held_message hm' = held_message hm" "expect (held_wait_ack hm') = expect (held_wait_ack hm)"
    using send_unsent_held [OF assms] by simp_all
  have "hm_get (held_status hm') ep = map_option (send_status reachable ep) (hm_get (held_status hm) ep)" for ep
    using hm_get_map_values [of "send_status reachable" "held_status hm" ep] send_unsent_eq(1) [OF assms]
    by (simp add: hm_map_values_def)
  then show "map_option shared_status (hm_get (held_status hm') ep) =
      map_option shared_status (hm_get (held_status hm) ep)" for ep
    by (cases "hm_get (held_status hm) ep") (simp_all add: is_unsent_def)
qed

lemma shared_update_ack: "shared_of (update_ack_held from kind hm) = sh_ack from kind (shared_of hm)"
proof (cases "hm_get (held_status hm) from")
  case (Some st)
  show ?thesis
  proof (cases "status_is_resolved st (expect (held_wait_ack hm))")
    case False
    then obtain st' where "update_ack_match st kind = Some st'"
      by (cases st) (auto simp: update_ack_match_def)
    with Some False show ?thesis
      by (auto simp: update_ack_held_def sh_ack_def shared_of_def fun_eq_iff)
  qed (simp add: update_ack_held_def sh_ack_def Some)
qed (auto simp: update_ack_held_def sh_ack_def shared_of_def fun_eq_iff)

lemma card_shared_status:
  assumes "hm_wf (held_status hm)"
  shows "card (dom (sh_status (shared_of hm))) = length (held_status hm)"
proof -
  have "dom (sh_status (shared_of hm)) = dom (hm_get (held_status hm))"
    by (auto simp: shared_of_def domIff)
  then have "dom (sh_status (shared_of hm)) = set (map fst (held_status hm))"
    by (simp add: dom_map_of_conv_image_fst)
  then show ?thesis using distinct_card [OF assms] by simp
qed

lemma ran_shared_status:
  assumes "hm_wf (held_status hm)"
  shows "ran (sh_status (shared_of hm)) = shared_status ` snd ` set (held_status hm)"
  using assms by (force simp: shared_of_def ran_def)

lemma hold_is_resolved_shared:
  assumes res: "hold_is_resolved hm c = (b, c')" and wf: "hm_wf (held_status hm)"
    and lives: "lives T (held_message hm)" and time: "unexpired T c c'"
  shows "b = sh_done (shared_of hm)"
proof (cases "target_kind (header (held_message hm)) = Durable")
  case True
  show ?thesis
  proof (cases "durability (header (held_message hm))")
    case (Some cfg)
    have c': "c' = snd (ctx_now c)"
      using res True Some by (auto simp: hold_is_resolved_def Let_def case_prod_unfold split: if_splits option.splits)
    then have "fst (ctx_now c) \<le> T"
      using time by (simp add: unexpired_def ctx_now_def utc_now_def)
    then have "\<not> fst (ctx_now c) > expire cfg" using lives True Some by (auto simp: lives_def)
    then show ?thesis using res True Some card_shared_status [OF wf]
      by (auto simp: hold_is_resolved_def sh_done_def Let_def case_prod_unfold split: if_splits option.splits)
  qed (use res True in \<open>simp add: hold_is_resolved_def sh_done_def\<close>)
next
  case False
  then have "b = (\<forall>st \<in> set (map snd (held_status hm)). status_is_resolved st (expect (held_wait_ack hm)))"
    using res by (auto simp: hold_is_resolved_def split: message_target_kind.splits)
  moreover have "sh_done (shared_of hm) = (\<forall>st \<in> ran (sh_status (shared_of hm)). status_is_resolved st (expect (held_wait_ack hm)))"
    using False by (simp add: sh_done_def split: message_target_kind.split)
  ultimately show ?thesis unfolding ran_shared_status [OF wf] by auto
qed

section \<open>What replicas share of a queue\<close>

definition entries :: "message_queue \<Rightarrow> shared_entry list" where
  "entries q = map shared_of (queue_contents q)"

lemma entries_eq: "entries q = map (\<lambda>p. shared_of (the (hm_get (hold_messages q) (snd p)))) (time_id q)"
  by (simp add: entries_def queue_contents_def)

lemma entries_ids: "queue_inv q \<Longrightarrow> map sh_id (entries q) = map snd (time_id q)"
  using queue_contents_ids by (simp add: entries_def comp_def)

lemma queue_held_time:
  assumes "queue_inv q" "hm_get (hold_messages q) i = Some hm"
  obtains t where "(t, i) \<in> set (time_id q)"
  using queue_inv_held_iff [OF assms(1), of i] assms(2) by force

lemma queue_time_held:
  assumes "queue_inv q" "p \<in> set (time_id q)"
  obtains hm where "hm_get (hold_messages q) (snd p) = Some hm"
  using queue_inv_held_iff [OF assms(1), of "snd p"] assms(2) by force

lemma in_entries:
  assumes "queue_inv q"
  shows "e \<in> set (entries q) \<longleftrightarrow> (\<exists>hm. hm_get (hold_messages q) (sh_id e) = Some hm \<and> e = shared_of hm)"
proof
  assume "e \<in> set (entries q)"
  then obtain p where p: "p \<in> set (time_id q)" "e = shared_of (the (hm_get (hold_messages q) (snd p)))"
    by (auto simp: entries_eq)
  from queue_time_held [OF assms p(1)] obtain hm where "hm_get (hold_messages q) (snd p) = Some hm" .
  then show "\<exists>hm. hm_get (hold_messages q) (sh_id e) = Some hm \<and> e = shared_of hm"
    using p(2) queue_invD(7) [OF assms] by auto
next
  assume "\<exists>hm. hm_get (hold_messages q) (sh_id e) = Some hm \<and> e = shared_of hm"
  then obtain hm where hm: "hm_get (hold_messages q) (sh_id e) = Some hm" "e = shared_of hm" by blast
  from queue_held_time [OF assms hm(1)] obtain t where "(t, sh_id e) \<in> set (time_id q)" .
  then show "e \<in> set (entries q)" using hm by (force simp: entries_eq)
qed

lemma entry_unique:
  assumes "queue_inv q" "e \<in> set (entries q)" "e' \<in> set (entries q)" "sh_id e = sh_id e'"
  shows "e = e'"
proof -
  obtain hm where "hm_get (hold_messages q) (sh_id e) = Some hm" "e = shared_of hm"
    using in_entries [OF assms(1), of e] assms(2) by blast
  moreover obtain hm' where "hm_get (hold_messages q) (sh_id e') = Some hm'" "e' = shared_of hm'"
    using in_entries [OF assms(1), of e'] assms(3) by blast
  ultimately show ?thesis using assms(4) by (metis option.inject)
qed

text \<open>Two queues with the same times that hold messages which are shared alike.\<close>

lemma entries_cong:
  assumes "time_id q' = time_id q"
    "\<And>p. p \<in> set (time_id q) \<Longrightarrow> map_option shared_of (hm_get (hold_messages q') (snd p)) =
       map_option shared_of (hm_get (hold_messages q) (snd p))" "queue_inv q"
  shows "entries q' = entries q"
  unfolding entries_eq assms(1)
proof (rule map_cong [OF refl])
  fix p assume p: "p \<in> set (time_id q)"
  from queue_time_held [OF assms(3) p] obtain hm where "hm_get (hold_messages q) (snd p) = Some hm" .
  with assms(2) [OF p] show "shared_of (the (hm_get (hold_messages q') (snd p))) =
      shared_of (the (hm_get (hold_messages q) (snd p)))" by auto
qed

lemma entries_map:
  assumes "queue_inv q" "\<And>hm. shared_of (f hm) = g (shared_of hm)"
  shows "entries (q\<lparr>hold_messages := hm_map_values (\<lambda>_. f) (hold_messages q)\<rparr>) = map g (entries q)"
  unfolding entries_eq by (auto elim!: queue_time_held [OF assms(1)] simp: assms(2))

lemma entries_modify:
  assumes inv: "queue_inv q" and f: "\<And>hm. shared_of (f hm) = g (shared_of hm)"
  shows "entries (q\<lparr>hold_messages := hm_modify i f (hold_messages q)\<rparr>) =
    map (\<lambda>e. if sh_id e = i then g e else e) (entries q)"
proof -
  have "shared_of (the (hm_get (hm_modify i f (hold_messages q)) (snd p))) =
      (let e = shared_of (the (hm_get (hold_messages q) (snd p))) in if sh_id e = i then g e else e)"
    if p: "p \<in> set (time_id q)" for p
    using queue_time_held [OF inv p] queue_invD(7) [OF inv, of "snd p"] by (force simp: f)
  then show ?thesis by (simp add: entries_eq Let_def)
qed

lemma entries_update_acks:
  assumes "queue_inv q"
  shows "entries (fold (\<lambda>(from, st). update_ack i from st) sts q) =
    map (\<lambda>e. if sh_id e = i then fold (\<lambda>(from, st). sh_ack from st) sts e else e) (entries q)"
  using assms
proof (induction sts arbitrary: q)
  case (Cons p sts)
  have "sh_id (sh_ack ep st e) = sh_id e" for ep st e by (simp add: sh_ack_def split: option.split)
  moreover have "entries (update_ack i (fst p) (snd p) q) =
      map (\<lambda>e. if sh_id e = i then sh_ack (fst p) (snd p) e else e) (entries q)"
    unfolding update_ack_def by (rule entries_modify [OF Cons.prems]) (rule shared_update_ack)
  ultimately show ?case
    using Cons.IH [OF queue_inv_update_ack [OF Cons.prems], of i "fst p" "snd p"]
    by (simp add: case_prod_unfold cong: if_cong)
qed (simp cong: if_cong)

lemma entries_drop:
  assumes inv: "queue_inv q" and tid: "time_id q' = filter (\<lambda>p. snd p \<noteq> i) (time_id q)"
    and held: "\<And>j. j \<noteq> i \<Longrightarrow> hm_get (hold_messages q') j = hm_get (hold_messages q) j"
  shows "entries q' = filter (\<lambda>e. sh_id e \<noteq> i) (entries q)"
proof -
  have "sh_id (shared_of (the (hm_get (hold_messages q) (snd p)))) = snd p" if p: "p \<in> set (time_id q)" for p
    using queue_time_held [OF inv p] queue_invD(7) [OF inv, of "snd p"] by force
  then show ?thesis
    by (simp add: entries_eq tid filter_map comp_def held cong: filter_cong)
qed

subsection \<open>Readings of the clock\<close>

abbreviation reads :: "proposal_context \<Rightarrow> nat" where
  "reads c \<equiv> clock_reads (ctx_node c)"

text \<open>The number of readings only grows, and the platform stays the same.\<close>

definition later :: "proposal_context \<Rightarrow> proposal_context \<Rightarrow> bool" where
  "later c c' \<longleftrightarrow> reads c \<le> reads c' \<and> node_platform (ctx_node c') = node_platform (ctx_node c)"

lemma later_refl [simp]: "later c c"
  by (simp add: later_def)

lemma later_trans: "later a b \<Longrightarrow> later b c \<Longrightarrow> later a c"
  by (simp add: later_def)

lemma later_simps [simp]:
  "later c (dispatch_message m ep c)" "later c (resolve_ack i r c)" "later c (push_durable_command cmd c)"
  "later c (snd (ctx_now c))" "later c (settle i hm c)"
  by (simp_all add: later_def dispatch_message_def resolve_ack_def push_durable_command_def push_durable_commands_def
      spawn_task_def ctx_now_def utc_now_def settle_def split: option.split)

lemma unexpired_split:
  "unexpired T a c \<Longrightarrow> later a b \<Longrightarrow> later b c \<Longrightarrow> unexpired T a b \<and> unexpired T b c"
  by (auto simp: unexpired_def later_def)

lemma unexpired_refl [simp]: "unexpired T c c"
  by (auto simp: unexpired_def)

lemma later_send_loop: "send_unsent_loop m reachable st c = (st', c') \<Longrightarrow> later c c'"
proof (induction m reachable st c arbitrary: st' c' rule: send_unsent_loop.induct)
  case (2 m reachable ep st r c)
  then show ?case
    by (auto split: prod.splits if_splits intro: later_trans [OF later_simps(1)])
qed simp

lemma later_send_unsent: "send_unsent reachable hm c = (hm', c') \<Longrightarrow> later c c'"
  by (auto simp: send_unsent_def split: prod.splits dest: later_send_loop)

lemma later_is_resolved: "hold_is_resolved hm c = (b, c') \<Longrightarrow> later c c'"
  using later_simps(4) [of c]
  by (auto simp: hold_is_resolved_def Let_def case_prod_unfold simp del: later_simps(4)
      split: message_target_kind.splits option.splits if_splits)

lemma later_poll: "poll_message i reachable q c = (r, q', c') \<Longrightarrow> later c c'"
  by (auto simp: poll_message_def poll_message_inner_def Let_def
      split: option.splits if_splits prod.splits poll.splits
      dest!: later_send_unsent later_is_resolved intro: later_trans)

lemma later_blocking_pop: "blocking_pop reachable q c = Inr (m, q', c') \<Longrightarrow> later c c'"
  by (auto simp: blocking_pop_def and_then_Inr_iff split: option.splits prod.splits poll.splits dest!: later_poll)

lemma later_flush_blocking: "flush_blocking reachable q c = Inr (q', c') \<Longrightarrow> later c c'"
proof (induction reachable q c rule: flush_blocking.induct)
  case (1 reachable q c)
  obtain m q1 c1 where pop: "blocking_pop reachable q c = Inr (m, q1, c1)"
    using 1(2) by (auto simp: flush_blocking.simps [of reachable q c] split: sum.splits)
  note s = later_blocking_pop [OF pop]
  show ?case
  proof (cases m)
    case None
    with 1(2) pop s show ?thesis by (simp add: flush_blocking.simps [of reachable q c])
  next
    case (Some hm)
    with 1(2) pop have "flush_blocking reachable q1 (settle (held_id hm) hm c1) = Inr (q', c')"
      by (simp add: flush_blocking.simps [of reachable q c])
    from 1(1) [OF pop [unfolded Some] refl refl refl this] s show ?thesis
      using later_trans later_simps(5) by blast
  qed
qed

lemma later_flush_ids: "flush_ids is q c = Inr (q', c') \<Longrightarrow> later c c'"
proof (induction "is" arbitrary: q c)
  case (Cons i "is")
  then show ?case
    by (auto simp: and_then_Inr_iff split: option.splits dest!: Cons.IH intro: later_trans [OF later_simps(5)])
qed simp

lemma later_flush: "flush reachable q c = Inr (q', c') \<Longrightarrow> later c c'"
  by (auto simp: flush_def swap_out_resolved_def split: if_splits dest: later_flush_blocking later_flush_ids)

lemma later_update_and_flush:
  assumes "update_and_flush u d c = Inr (d', c')"
  shows "later c c'"
proof -
  let ?r = "reachable_eps d (node_config_id (ctx_node c))"
  let ?q = "fold (\<lambda>(from, status). update_ack (upd_message_id u) from status) (upd_status u) (td_queue d)"
  obtain r q2 c2 where poll: "poll_message (upd_message_id u) ?r ?q (push_durable_command (UpdateStatus u) c) = (r, q2, c2)"
    by (metis prod_cases3)
  have "later c c2" using later_trans [OF later_simps(3) later_poll [OF poll]] .
  moreover have "later c2 c'"
    using assms poll by (auto simp: update_and_flush_def Let_def and_then_Inr_iff split: option.splits poll.splits
        dest!: later_flush)
  ultimately show ?thesis by (rule later_trans)
qed

subsection \<open>Polling and flushing\<close>

text \<open>What is marked resolved is done, and on a blocking queue it is the front.\<close>

definition marks_ok :: "message_queue \<Rightarrow> bool" where
  "marks_ok q \<longleftrightarrow> (\<forall>e \<in> set (entries q). sh_id e \<in> resolved q \<longrightarrow> sh_done e) \<and> (blocking q \<longrightarrow> resolved_front q)"

lemma marks_ok_none: "resolved q = {} \<Longrightarrow> marks_ok q"
  by (simp add: marks_ok_def resolved_front_def)

definition all_live :: "time \<Rightarrow> shared_entry list \<Rightarrow> bool" where
  "all_live T es \<longleftrightarrow> (\<forall>e \<in> set es. lives T (sh_message e))"

lemma front_entries:
  assumes "queue_inv q" "get_front q = Some f"
  shows "\<exists>es. entries q = shared_of f # es"
  using assms by (cases "time_id q") (auto simp: get_front_def entries_eq)

lemma no_front_entries:
  assumes "queue_inv q" "get_front q = None"
  shows "entries q = []"
proof (cases "time_id q")
  case (Cons p rest)
  then obtain t i where "time_id q = (t, i) # rest" by (cases p) simp
  from queue_pop_Cons [OF assms(1) this] assms(2) show ?thesis by (metis option.distinct(1))
qed (simp add: entries_eq)

lemma held_entry:
  assumes inv: "queue_inv q" and hm: "hm_get (hold_messages q) i = Some hm"
  shows "(\<exists>e \<in> set (entries q). sh_id e = i \<and> P e) \<longleftrightarrow> P (shared_of hm)"
proof -
  have "e = shared_of hm" if "e \<in> set (entries q)" "sh_id e = i" for e
    using that in_entries [OF inv, of e] hm by auto
  moreover have "shared_of hm \<in> set (entries q)" "sh_id (shared_of hm) = i"
    using in_entries [OF inv, of "shared_of hm"] hm queue_invD(7) [OF inv hm] by auto
  ultimately show ?thesis by blast
qed

definition ready_in :: "bool \<Rightarrow> message_id \<Rightarrow> shared_entry list \<Rightarrow> bool" where
  "ready_in b i es \<longleftrightarrow> (\<exists>e \<in> set es. sh_id e = i \<and> sh_done e) \<and> (b \<longrightarrow> es \<noteq> [] \<and> sh_id (hd es) = i)"

lemma poll_shared:
  assumes inv: "queue_inv q" and marks: "marks_ok q" and poll: "poll_message i reachable q c = (r, q', c')"
    and live: "all_live T (entries q)" and time: "unexpired T c c'"
  shows "entries q' = entries q" "r = Some Ready \<longleftrightarrow> ready_in (blocking q) i (entries q)"
proof -
  have "entries q' = entries q \<and> (r = Some Ready \<longleftrightarrow> ready_in (blocking q) i (entries q))"
  proof (cases "hm_get (hold_messages q) i")
    case None
    then have "i \<notin> resolved q" using queue_invD(9) [OF inv] by auto
    with None poll have "q' = q" "r \<noteq> Some Ready"
      by (auto simp: poll_message_def poll_message_inner_def Let_def split: option.splits if_splits)
    moreover have "sh_id e \<noteq> i" if "e \<in> set (entries q)" for e using that in_entries [OF inv, of e] None by auto
    ultimately show ?thesis by (auto simp: ready_in_def)
  next
    case (Some hm)
    note ready = held_entry [OF inv Some, of sh_done]
    have front: "(\<exists>f. get_front q = Some f \<and> held_id f = i) \<longleftrightarrow> entries q \<noteq> [] \<and> sh_id (hd (entries q)) = i"
      using front_entries [OF inv] no_front_entries [OF inv]
      by (cases "get_front q") fastforce+
    show ?thesis
    proof (cases "i \<in> resolved q")
      case True
      then have "sh_done (shared_of hm)"
        using marks Some in_entries [OF inv, of "shared_of hm"] queue_invD(7) [OF inv Some] by (auto simp: marks_ok_def)
      moreover have "blocking q \<longrightarrow> entries q \<noteq> [] \<and> sh_id (hd (entries q)) = i"
        using marks True front by (auto simp: marks_ok_def resolved_front_def)
      moreover have "r = Some Ready" "q' = q" using poll True by (simp_all add: poll_message_def)
      ultimately show ?thesis using ready unfolding ready_in_def by blast
    next
      case new: False
      show ?thesis
      proof (cases "blocking q \<longrightarrow> entries q \<noteq> [] \<and> sh_id (hd (entries q)) = i")
        case True
        obtain hm' c1 where send: "send_unsent reachable hm c = (hm', c1)" by fastforce
        obtain b c2 where res: "hold_is_resolved hm' c1 = (b, c2)" by fastforce
        have p: "r = Some (if b then Ready else Pending)" "c' = c2"
          "q' = q\<lparr>hold_messages := hm_insert i hm' (hold_messages q), resolved := (if b then insert i (resolved q) else resolved q)\<rparr>"
          using poll_message_held [OF inv _ Some new send res] True front poll by auto
        have "hm_wf (held_status hm')"
          using queue_invD(8) [OF inv Some] send_unsent_held(2) [OF send] by simp
        moreover have "lives T (held_message hm')"
          using held_entry [OF inv Some, of "\<lambda>e. \<not> lives T (sh_message e)"] live send_unsent_held(1) [OF send]
          by (auto simp: all_live_def)
        moreover have "unexpired T c1 c2"
          using unexpired_split [OF time later_send_unsent [OF send]] later_is_resolved [OF res] by (simp add: p(2))
        ultimately have "b = sh_done (shared_of hm)"
          using hold_is_resolved_shared [OF res] shared_send_unsent [OF send] by simp
        moreover have "entries q' = entries q"
          by (rule entries_cong [OF _ _ inv]) (auto simp: p(3) Some shared_send_unsent [OF send])
        ultimately show ?thesis using ready True p(1) unfolding ready_in_def by auto
      next
        case False
        then obtain f where "blocking q" "get_front q = Some f" "held_id f \<noteq> i"
          using front queue_time_held [OF inv] no_front_entries [OF inv] Some in_entries [OF inv, of "shared_of hm"]
            queue_invD(7) [OF inv Some] by (cases "get_front q") auto
        from poll_message_blocked [OF this new] poll False show ?thesis unfolding ready_in_def by auto
      qed
    qed
  qed
  then show "entries q' = entries q" "r = Some Ready \<longleftrightarrow> ready_in (blocking q) i (entries q)" by blast+
qed

lemma pop_shared:
  assumes "queue_inv q" "queue_pop q = Inr (Some hm, q')"
  shows "entries q = shared_of hm # entries q'" "queue_inv q'" "resolved q' = resolved q - {held_id hm}"
    "blocking q' = blocking q"
proof -
  obtain t i rest where tid: "time_id q = (t, i) # rest"
    using assms(2) by (cases "time_id q") (auto simp: queue_pop_def)
  obtain h q1 where pop: "hm_get (hold_messages q) i = Some h" "get_front q = Some h" "held_id h = i"
    "queue_pop q = Inr (Some h, q1)" "queue_inv q1" "time_id q1 = rest" "blocking q1 = blocking q"
    "hm_get (hold_messages q1) = (hm_get (hold_messages q))(i := None)" "resolved q1 = resolved q - {i}"
    by (rule queue_pop_Cons [OF assms(1) tid])
  then have q1: "hm_get (hold_messages q) i = Some hm" "held_id hm = i" "q' = q1" "queue_inv q1" "time_id q1 = rest"
    "blocking q1 = blocking q" "hm_get (hold_messages q1) = (hm_get (hold_messages q))(i := None)"
    "resolved q1 = resolved q - {i}"
    using assms(2) by simp_all
  have "i \<notin> snd ` set rest" using queue_inv_held_iff [OF q1(4), of i] q1(5,7) by simp
  then have "\<forall>p \<in> set rest. snd p \<noteq> i" by auto
  then have "entries q1 = map (\<lambda>p. shared_of (the (hm_get (hold_messages q) (snd p)))) rest"
    unfolding entries_eq q1(5,7) by simp
  then show "entries q = shared_of hm # entries q'"
    unfolding entries_eq [of q] tid q1(3) by (simp add: q1(1))
  show "queue_inv q'" "resolved q' = resolved q - {held_id hm}" "blocking q' = blocking q" using q1 by simp_all
qed

lemma pop_some:
  assumes "queue_inv q" "entries q = e # es" "queue_pop q = Inr (m, q')"
  shows "\<exists>hm. m = Some hm"
proof -
  obtain t i rest where tid: "time_id q = (t, i) # rest" using assms(2) by (cases "time_id q") (auto simp: entries_eq)
  show ?thesis by (rule queue_pop_Cons [OF assms(1) tid]) (use assms(3) in simp)
qed

lemma marks_after_poll:
  assumes inv: "queue_inv q" and marks: "marks_ok q" and poll: "poll_message i reachable q c = (r, q', c')"
    and live: "all_live T (entries q)" and time: "unexpired T c c'" and ready: "resolved_ready q"
    and none: "resolved q = {}"
  shows "marks_ok q'"
proof -
  note eff = poll_message_effect [OF inv poll] and sh = poll_shared [OF inv marks poll live time]
  have "sh_done e" if e: "e \<in> set (entries q')" "sh_id e \<in> resolved q'" for e
  proof -
    have "r = Some Ready" "sh_id e = i" using e(2) eff none by (auto simp: poll_effect_def split: if_splits)
    then obtain e' where e': "e' \<in> set (entries q)" "sh_id e' = i" "sh_done e'" using sh(2) by (auto simp: ready_in_def)
    have "e' = e" by (rule entry_unique [OF inv e'(1)]) (use e(1) sh(1) e'(2) \<open>sh_id e = i\<close> in simp_all)
    with e'(3) show ?thesis by simp
  qed
  moreover have "resolved_front q'" if "blocking q'" by (rule poll_front_only [OF inv poll that none])
  ultimately show ?thesis by (simp add: marks_ok_def)
qed

lemma flush_blocking_shared:
  assumes "queue_inv q" "blocking q" "marks_ok q" "all_live T (entries q)"
    "flush_blocking reachable q c = Inr (q', c')" "unexpired T c c'"
  shows "entries q' = dropWhile sh_done (entries q)"
  using assms
proof (induction reachable q c rule: flush_blocking.induct)
  case (1 reachable q c)
  note inv = 1(2)
  show ?case
  proof (cases "get_front q")
    case None
    then have "blocking_pop reachable q c = Inr (None, q, c)" by (simp add: blocking_pop_def)
    then have "q' = q" using 1(6) by (simp add: flush_blocking.simps [of reachable q c])
    then show ?thesis using no_front_entries [OF inv None] by simp
  next
    case (Some f)
    obtain es where es: "entries q = shared_of f # es" using front_entries [OF inv Some] by blast
    obtain r q1 c1 where poll: "poll_message (held_id f) reachable q c = (r, q1, c1)" by (metis prod_cases3)
    obtain m q2 where pop: "blocking_pop reachable q c = Inr (m, q2, c1)"
      "r = Some Ready \<Longrightarrow> queue_pop q1 = Inr (m, q2)" "r \<noteq> Some Ready \<Longrightarrow> m = None \<and> q2 = q1"
    proof -
      obtain m q2 c2 where "blocking_pop reachable q c = Inr (m, q2, c2)"
        using 1(6) by (auto simp: flush_blocking.simps [of reachable q c] split: sum.splits)
      then show thesis using that Some poll
        by (auto simp: blocking_pop_def and_then_Inr_iff split: option.splits poll.splits)
    qed
    have rest: "if m = None then q' = q2 \<and> c' = c1
        else flush_blocking reachable q2 (settle (held_id (the m)) (the m) c1) = Inr (q', c')"
      using 1(6) pop(1) by (cases m) (simp_all add: flush_blocking.simps [of reachable q c])
    then have lat: "later c1 c'"
      by (cases m) (auto dest!: later_flush_blocking intro: later_trans [OF later_simps(5)])
    note t = unexpired_split [OF 1(7) later_poll [OF poll] lat]
    note sh = poll_shared [OF inv 1(4) poll 1(5), OF conjunct1 [OF t]]
    have ready: "r = Some Ready \<longleftrightarrow> sh_done (shared_of f)"
      using sh(2) held_entry [OF inv get_front_held [OF inv Some], of sh_done] by (simp add: ready_in_def es)
    show ?thesis
    proof (cases "r = Some Ready")
      case False
      then have "q' = q1" using pop(3) rest by simp
      then show ?thesis using False ready sh(1) es by simp
    next
      case True
      note eff = poll_message_effect [OF inv poll]
      have q1: "queue_inv q1" using eff by (simp add: poll_effect_def)
      obtain hm where m: "m = Some hm"
        using pop_some [OF q1 _ pop(2) [OF True]] sh(1) es by auto
      note p = pop_shared [OF q1, OF pop(2) [OF True, unfolded m]]
      have hm: "shared_of hm = shared_of f" "entries q2 = es" using p(1) sh(1) es by simp_all
      have "held_id hm = held_id f" using hm(1) by (metis shared_of_simps(1))
      moreover have "resolved q \<subseteq> {held_id f}"
        using 1(3,4) Some by (auto simp: marks_ok_def resolved_front_def)
      ultimately have none: "resolved q2 = {}" using p(3) eff True by (auto simp: poll_effect_def)
      have "unexpired T (settle (held_id hm) hm c1) c'"
        using t by (simp add: unexpired_def settle_def resolve_ack_def push_durable_command_def push_durable_commands_def
            spawn_task_def split: option.split)
      moreover have "flush_blocking reachable q2 (settle (held_id hm) hm c1) = Inr (q', c')" using rest m by simp
      ultimately have "entries q' = dropWhile sh_done (entries q2)"
        using 1(1) [OF pop(1) [unfolded m] refl refl refl p(2) _ marks_ok_none [OF none]] p(4) eff 1(3,5) es hm(2)
        by (simp add: poll_effect_def all_live_def)
      then show ?thesis using True ready es hm(2) by simp
    qed
  qed
qed

section \<open>The specification of a topic\<close>

text \<open>A message that is ready leaves, and on a blocking queue all that are done behind it.\<close>

definition sh_settle :: "bool \<Rightarrow> message_id \<Rightarrow> shared_entry list \<Rightarrow> shared_entry list" where
  "sh_settle b i es =
    (if ready_in b i es then if b then dropWhile sh_done es else filter (\<lambda>e. sh_id e \<noteq> i) es else es)"

definition sh_update :: "bool \<Rightarrow> message_state_update \<Rightarrow> shared_entry list \<Rightarrow> shared_entry list" where
  "sh_update b u es =
    sh_settle b (upd_message_id u)
      (map (\<lambda>e. if sh_id e = upd_message_id u then fold (\<lambda>(from, st). sh_ack from st) (upd_status u) e else e) es)"

text \<open>The messages of a set are polled.\<close>

definition sh_flush :: "bool \<Rightarrow> message_id set \<Rightarrow> shared_entry list \<Rightarrow> shared_entry list" where
  "sh_flush b S es =
    (if b then
       if es \<noteq> [] \<and> sh_id (hd es) \<in> S \<and> sh_done (hd es) then dropWhile sh_done es else es
     else filter (\<lambda>e. \<not> (sh_id e \<in> S \<and> sh_done e)) es)"

lemma sh_ack_message [simp]: "sh_message (sh_ack ep st e) = sh_message e"
  by (simp add: sh_ack_def split: option.split)

lemma sh_acks_message [simp]: "sh_message (fold (\<lambda>(ep, st). sh_ack ep st) sts e) = sh_message e"
  by (induction sts arbitrary: e) (simp_all add: case_prod_unfold)

lemma flush_one_shared:
  assumes inv: "queue_inv q" and res: "resolved q = {i}" and b: "\<not> blocking q" and pl: "ctx_ok c"
    and flush: "flush reachable q c = Inr (q', c')"
  shows "entries q' = filter (\<lambda>e. sh_id e \<noteq> i) (entries q)"
proof -
  let ?q = "q\<lparr>resolved := {}\<rparr>"
  have inv': "queue_inv ?q" using inv by (simp add: queue_inv_def)
  obtain hm where hm: "hm_get (hold_messages ?q) i = Some hm" using queue_invD(9) [OF inv] res by auto
  obtain q1 t where q1: "queue_remove i ?q = Inr (Some hm, q1)" "queue_inv q1" "blocking q1 = blocking ?q"
    "hm_get (hold_messages q1) = (hm_get (hold_messages ?q))(i := None)" "hm_get (id_time ?q) i = Some t"
    "time_id q1 = timed_remove t (time_id ?q)" "resolved q1 = resolved ?q"
    by (rule queue_remove_Some [OF inv' hm]) simp
  have "flush_ids [i] ?q c = Inr (q', c')"
    using flush b res id_order_single [OF pl] by (simp add: flush_def swap_out_resolved_def)
  then have "q' = q1" using q1(1) by simp
  have "time_id q1 = filter (\<lambda>p. snd p \<noteq> i) (time_id q)"
    using q1(6) time_id_drop [OF inv', OF q1(5)] queue_invD(3) [OF inv] by (simp add: timed_remove_filter)
  then show ?thesis unfolding \<open>q' = q1\<close> by (rule entries_drop [OF inv]) (simp add: q1(4))
qed

lemma update_shared:
  assumes inv: "topic_inv d" and pl: "ctx_ok c" and live: "all_live T (entries (td_queue d))"
    and upd: "update_and_flush u d c = Inr (d', c')" and time: "unexpired T c c'"
  shows "entries (td_queue d') = sh_update (blocking (td_queue d)) u (entries (td_queue d))"
proof -
  let ?i = "upd_message_id u" and ?r = "reachable_eps d (node_config_id (ctx_node c))"
  let ?c1 = "push_durable_command (UpdateStatus u) c"
  let ?q1 = "fold (\<lambda>(from, st). update_ack ?i from st) (upd_status u) (td_queue d)"
  let ?es = "map (\<lambda>e. if sh_id e = ?i then fold (\<lambda>(from, st). sh_ack from st) (upd_status u) e else e) (entries (td_queue d))"
  have q: "queue_inv (td_queue d)" "resolved (td_queue d) = {}" using inv by (simp_all add: topic_inv_def)
  note q1 = update_acks_effect [OF q(1), of ?i "upd_status u"]
  have es: "entries ?q1 = ?es" by (rule entries_update_acks [OF q(1)])
  have live1: "all_live T (entries ?q1)" using live unfolding es by (auto simp: all_live_def)
  obtain r q2 c2 where poll: "poll_message ?i ?r ?q1 ?c1 = (r, q2, c2)" by (metis prod_cases3)
  have res: "if r = Some Ready then \<exists>q3. flush ?r q2 c2 = Inr (q3, c') \<and> d' = d\<lparr>td_queue := q3\<rparr>
      else d' = d\<lparr>td_queue := q2\<rparr> \<and> c' = c2"
    using upd poll by (auto simp: update_and_flush_def Let_def and_then_Inr_iff split: option.splits poll.splits)
  then have "later c2 c'" by (auto split: if_splits dest: later_flush)
  have "unexpired T ?c1 c'" using unexpired_split [OF time later_simps(3)] \<open>later c2 c'\<close> later_poll [OF poll]
    by (blast intro: later_trans)
  note t = unexpired_split [OF this later_poll [OF poll] \<open>later c2 c'\<close>]
  have none: "resolved ?q1 = {}" using q1(4) q(2) by simp
  note sh = poll_shared [OF q1(1) marks_ok_none [OF none] poll live1 conjunct1 [OF t]]
  note eff = poll_message_effect [OF q1(1) poll]
  show ?thesis
  proof (cases "r = Some Ready")
    case False
    then have "\<not> ready_in (blocking (td_queue d)) ?i ?es" using sh(2) q1(3) es by simp
    then show ?thesis using False res sh(1) es by (simp add: sh_update_def sh_settle_def)
  next
    case True
    then have ready: "ready_in (blocking (td_queue d)) ?i ?es" using sh(2) q1(3) es by simp
    obtain q3 where q3: "flush ?r q2 c2 = Inr (q3, c')" "td_queue d' = q3" using True res by auto
    have q2: "queue_inv q2" "blocking q2 = blocking (td_queue d)" "resolved q2 = {?i}" "ctx_ok c2"
      using eff True none q1(3) pl later_poll [OF poll] by (simp_all add: poll_effect_def later_def)
        (simp add: push_durable_command_def push_durable_commands_def)
    show ?thesis
    proof (cases "blocking (td_queue d)")
      case b: False
      have "entries q3 = filter (\<lambda>e. sh_id e \<noteq> ?i) (entries q2)"
        by (rule flush_one_shared [OF q2(1,3) _ q2(4) q3(1)]) (simp add: q2(2) b)
      then show ?thesis using b ready q3(2) sh(1) es by (simp add: sh_update_def sh_settle_def)
    next
      case b: True
      have "marks_ok q2"
        by (rule marks_after_poll [OF q1(1) marks_ok_none [OF none] poll live1 conjunct1 [OF t] _ none])
          (simp add: resolved_ready_def none)
      moreover have "flush_blocking ?r q2 c2 = Inr (q3, c')" using q3(1) b q2(2) by (simp add: flush_def)
      ultimately have "entries q3 = dropWhile sh_done (entries q2)"
        using flush_blocking_shared [OF q2(1)] b q2(2) live1 sh(1) t by simp
      then show ?thesis using b ready q3(2) sh(1) es by (simp add: sh_update_def sh_settle_def)
    qed
  qed
qed

lemma sh_update_empty [simp]: "sh_update b (state_update_new_empty i) es = sh_settle b i es"
  by (simp add: sh_update_def state_update_new_empty_def cong: if_cong)

lemma sh_settle_one:
  assumes "distinct (map sh_id es)"
  shows "sh_settle b i es = sh_flush b {i} es"
proof -
  have uniq: "e = e'" if "e \<in> set es" "e' \<in> set es" "sh_id e = sh_id e'" for e e'
    using that assms by (auto simp: distinct_map inj_on_def)
  show ?thesis
  proof (cases b)
    case True
    have "ready_in True i es \<longleftrightarrow> es \<noteq> [] \<and> sh_id (hd es) = i \<and> sh_done (hd es)"
      using uniq [OF _ hd_in_set] by (auto simp: ready_in_def)
    then show ?thesis using True by (auto simp: sh_settle_def sh_flush_def)
  next
    case False
    have "filter (\<lambda>e. sh_id e \<noteq> i) es = filter (\<lambda>e. \<not> (sh_id e \<in> {i} \<and> sh_done e)) es" if "ready_in False i es"
      using that uniq by (intro filter_cong) (auto simp: ready_in_def)
    moreover have "filter (\<lambda>e. \<not> (sh_id e \<in> {i} \<and> sh_done e)) es = es" if "\<not> ready_in False i es"
      using that by (intro filter_True) (auto simp: ready_in_def)
    ultimately show ?thesis using False by (auto simp: sh_settle_def sh_flush_def)
  qed
qed

lemma distinct_sh_flush: "distinct (map sh_id es) \<Longrightarrow> distinct (map sh_id (sh_flush b S es))"
  by (auto simp: sh_flush_def distinct_map_filter dropWhile_eq_drop drop_map [symmetric])

lemma sh_flush_insert: "sh_flush b S (sh_flush b {i} es) = sh_flush b (insert i S) es"
proof (cases b)
  case True
  have hd: "\<not> sh_done (hd (dropWhile sh_done es))" if "dropWhile sh_done es \<noteq> []"
    using hd_dropWhile [OF that] .
  have "dropWhile sh_done (dropWhile sh_done es) = dropWhile sh_done es" by simp
  then show ?thesis using True hd by (auto simp: sh_flush_def)
next
  case False
  then show ?thesis by (auto simp: sh_flush_def intro!: filter_cong)
qed

lemma sh_settle_fold:
  assumes "distinct (map sh_id es)"
  shows "fold (sh_settle b) is es = sh_flush b (set is) es"
  using assms
proof (induction "is" arbitrary: es)
  case Nil
  then show ?case by (simp add: sh_flush_def)
next
  case (Cons i "is")
  then show ?case
    using Cons.IH [OF distinct_sh_flush [OF Cons.prems, of b "{i}"]] by (simp add: sh_settle_one sh_flush_insert)
qed

lemma entries_distinct:
  assumes "queue_inv q"
  shows "distinct (map sh_id (entries q))"
proof -
  have "inj_on snd (set (time_id q))"
    using queue_invD(4) [OF assms] by (auto simp: inj_on_def)
  then show ?thesis
    using timed_sorted_distinct [OF queue_invD(3) [OF assms]] by (simp add: entries_ids [OF assms] distinct_map)
qed

lemma all_live_flush: "all_live T es \<Longrightarrow> all_live T (sh_flush b S es)"
  by (auto simp: all_live_def sh_flush_def dest: set_dropWhileD)

text \<open>What the closing loop of an operation does.\<close>

lemma flush_list_shared:
  assumes "topic_inv d" "ctx_ok c" "all_live T (entries (td_queue d))"
    "fold_outcome (\<lambda>i (d, c). update_and_flush (state_update_new_empty i) d c) is (d, c) = Inr (d', c')"
    "unexpired T c c'"
  shows "entries (td_queue d') = fold (sh_settle (blocking (td_queue d))) is (entries (td_queue d)) \<and> later c c'"
  using assms
proof (induction "is" arbitrary: d c)
  case (Cons i "is")
  let ?u = "state_update_new_empty i"
  obtain d1 c1 where 1: "update_and_flush ?u d c = Inr (d1, c1)"
    and rest: "fold_outcome (\<lambda>i (d, c). update_and_flush (state_update_new_empty i) d c) is (d1, c1) = Inr (d', c')"
    using Cons.prems(4) by (auto simp: and_then_Inr_iff)
  have k: "keeps {} d c d1 c1"
    using update.returns [of d c ?u] Cons.prems(1,2) 1 update_and_flush_releases [OF Cons.prems(1,2), of ?u]
      topic_step_keeps [OF Cons.prems(1)] by (fastforce simp: topic_step_def)
  have lat: "later c c1" by (rule later_update_and_flush [OF 1])
  have later_all: "later c1 c'"
    using rest
  proof (induction "is" arbitrary: d1 c1)
    case (Cons j js)
    then show ?case by (auto simp: and_then_Inr_iff intro: later_trans dest: later_update_and_flush)
  qed simp
  note t = unexpired_split [OF Cons.prems(5) lat later_all]
  have e: "entries (td_queue d1) = sh_settle (blocking (td_queue d)) i (entries (td_queue d))"
    using update_shared [OF Cons.prems(1-3) 1] t by simp
  have "all_live T (entries (td_queue d1))"
    unfolding e sh_settle_one [OF entries_distinct] using Cons.prems(1,3)
    by (simp add: topic_inv_def sh_settle_one entries_distinct all_live_flush)
  then have "entries (td_queue d') = fold (sh_settle (blocking (td_queue d1))) is (entries (td_queue d1)) \<and> later c1 c'"
    using Cons.IH [OF _ _ _ rest] k t Cons.prems(2) ctx_ok_frame by (auto simp: keeps_def)
  then show ?case using e k lat later_trans by (auto simp: keeps_def)
qed simp

subsection \<open>Operations\<close>

record shared_topic =
  st_config :: topic_config
  st_routing :: "(node_id, endpoint_addr set) hash_map"
  st_interests :: "endpoint_addr interest_map"
  st_blocking :: bool
  st_entries :: "shared_entry list"

definition shared_topic_of :: "topic_data \<Rightarrow> shared_topic" where
  "shared_topic_of d = \<lparr>st_config = td_config d, st_routing = ep_routing_table d, st_interests = ep_interest_map d,
     st_blocking = blocking (td_queue d), st_entries = entries (td_queue d)\<rparr>"

definition sp_update :: "message_state_update \<Rightarrow> shared_topic \<Rightarrow> shared_topic" where
  "sp_update u t = t\<lparr>st_entries := sh_update (st_blocking t) u (st_entries t)\<rparr>"

text \<open>Messages change in place, and those that fulfil \<open>P\<close> are polled.\<close>

definition sp_change :: "(shared_entry \<Rightarrow> bool) \<Rightarrow> (shared_entry \<Rightarrow> shared_entry) \<Rightarrow> shared_topic \<Rightarrow> shared_topic" where
  "sp_change P g t =
    t\<lparr>st_entries := sh_flush (st_blocking t) (sh_id ` {e \<in> set (st_entries t). P e}) (map g (st_entries t))\<rparr>"

definition eps_at :: "node_id \<Rightarrow> shared_topic \<Rightarrow> endpoint_addr set" where
  "eps_at node t = (case hm_get (st_routing t) node of Some eps \<Rightarrow> eps | None \<Rightarrow> {})"

text \<open>A \<open>Durable\<close> message with a subject the endpoint is interested in.\<close>

definition sh_concerns :: "endpoint_addr \<Rightarrow> endpoint_addr interest_map \<Rightarrow> shared_entry \<Rightarrow> bool" where
  "sh_concerns ep im e \<longleftrightarrow> target_kind (header (sh_message e)) = Durable \<and>
    (\<exists>s \<in> set (subjects (header (sh_message e))). ep \<in> interest_map_find im s)"

definition sh_offer :: "endpoint_addr \<Rightarrow> endpoint_addr interest_map \<Rightarrow> shared_entry \<Rightarrow> shared_entry" where
  "sh_offer ep im e =
    (if sh_concerns ep im e \<and> sh_status e ep = None then e\<lparr>sh_status := (sh_status e)(ep \<mapsto> Unsent)\<rparr> else e)"

definition sh_unreachable :: "endpoint_addr \<Rightarrow> shared_entry \<Rightarrow> shared_entry" where
  "sh_unreachable ep e = (if sh_status e ep = None then e else e\<lparr>sh_status := (sh_status e)(ep \<mapsto> Unreachable)\<rparr>)"

definition sp_interest :: "endpoint_addr \<Rightarrow> interest list \<Rightarrow> shared_topic \<Rightarrow> shared_topic" where
  "sp_interest ep interests t =
    (let im = fold (\<lambda>i. interest_map_insert i ep) interests (interest_map_delete ep (st_interests t))
     in sp_change (sh_concerns ep im) (sh_offer ep im) (t\<lparr>st_interests := im\<rparr>))"

definition sp_online :: "endpoint_addr \<Rightarrow> interest list \<Rightarrow> node_id \<Rightarrow> shared_topic \<Rightarrow> shared_topic" where
  "sp_online ep interests host t =
    (let im = fold (\<lambda>i. interest_map_insert i ep) interests (st_interests t)
     in sp_change (\<lambda>e. sh_concerns ep im e \<and> sh_status e ep = None) (sh_offer ep im)
          (t\<lparr>st_routing := hm_insert host (insert ep (eps_at host t)) (st_routing t), st_interests := im\<rparr>))"

definition sp_offline :: "node_id \<Rightarrow> endpoint_addr \<Rightarrow> shared_topic \<Rightarrow> shared_topic" where
  "sp_offline host ep t =
    sp_change (\<lambda>e. sh_status e ep \<noteq> None) (sh_unreachable ep)
      (t\<lparr>st_routing := hm_insert host (eps_at host t - {ep}) (st_routing t),
         st_interests := interest_map_delete ep (st_interests t)\<rparr>)"

text \<open>A new message goes to the end; what \<open>DropOld\<close> throws out is the first.\<close>

definition sp_enqueue :: "shared_entry \<Rightarrow> shared_topic \<Rightarrow> shared_topic" where
  "sp_enqueue e t = t\<lparr>st_entries := sh_settle (st_blocking t) (sh_id e) (st_entries t @ [e])\<rparr>"

definition sp_put :: "shared_entry \<Rightarrow> shared_topic \<Rightarrow> shared_topic" where
  "sp_put e t =
    (case overflow_config (st_config t) of
       None \<Rightarrow> sp_enqueue e t
     | Some oc \<Rightarrow>
         if overflow_config_size oc \<le> length (st_entries t) then
           (case policy oc of
              RejectNew \<Rightarrow> t
            | DropOld \<Rightarrow> sp_enqueue e (t\<lparr>st_entries := tl (st_entries t)\<rparr>))
         else sp_enqueue e t)"

definition sh_new :: "message \<Rightarrow> endpoint_addr set \<Rightarrow> shared_entry" where
  "sh_new m eps = \<lparr>sh_message = m, sh_expect = msg_ack_kind m, sh_status = (\<lambda>ep. if ep \<in> eps then Some Unsent else None)\<rparr>"

definition sp_targets :: "message \<Rightarrow> shared_topic \<Rightarrow> endpoint_addr set" where
  "sp_targets m t = (\<Union>s \<in> set (subjects (header m)). interest_map_find (st_interests t) s)"

definition sp_choice :: "(message_id \<Rightarrow> u64) \<Rightarrow> (endpoint_addr \<Rightarrow> u64) \<Rightarrow> message \<Rightarrow> endpoint_addr set \<Rightarrow> endpoint_addr" where
  "sp_choice hid hep m eps =
    (let ring = sort_key hep (sorted_list_of_set eps) in ring ! (unat (hid (msg_id m)) mod length ring))"

definition sp_hold :: "(message_id \<Rightarrow> u64) \<Rightarrow> (endpoint_addr \<Rightarrow> u64) \<Rightarrow> message \<Rightarrow> shared_topic \<Rightarrow> shared_topic" where
  "sp_hold hid hep m t =
    (let eps = sp_targets m t in
     if target_kind (header m) = Push then
       if eps = {} then t else sp_put (sh_new m {sp_choice hid hep m eps}) t
     else sp_put (sh_new m eps) t)"

fun sp_exec :: "(message_id \<Rightarrow> u64) \<Rightarrow> (endpoint_addr \<Rightarrow> u64) \<Rightarrow> topic_op \<Rightarrow> shared_topic \<Rightarrow> shared_topic" where
  "sp_exec hid hep (OpHold m) = sp_hold hid hep m"
| "sp_exec hid hep (OpUpdate u) = sp_update u"
| "sp_exec hid hep (OpInterest ep interests) = sp_interest ep interests"
| "sp_exec hid hep (OpOnline ep interests host) = sp_online ep interests host"
| "sp_exec hid hep (OpOffline host ep) = sp_offline host ep"

section \<open>The operations refine their specification\<close>

lemma flush_messages_shared:
  assumes inv: "topic_inv d" and pl: "ctx_ok c" and live: "all_live T (entries (td_queue d))" and fin: "finite S"
    and flush: "flush_messages S d c = Inr (d', c')" and time: "unexpired T c c'"
  shows "shared_topic_of d' = (shared_topic_of d)\<lparr>st_entries := sh_flush (blocking (td_queue d)) S (entries (td_queue d))\<rparr>"
    "later c c'"
proof -
  let ?is = "id_order (node_platform (ctx_node c)) S"
  have "set ?is = S" using pl fin by (simp add: platform_ok_def)
  moreover have sh: "entries (td_queue d') = fold (sh_settle (blocking (td_queue d))) ?is (entries (td_queue d)) \<and> later c c'"
    using flush_list_shared [OF inv pl live _ time] flush by (simp add: flush_messages_def)
  moreover obtain ms q' where "d' = d\<lparr>td_queue := q'\<rparr>" "blocking q' = blocking (td_queue d)"
    using flush_list_releases [OF inv pl, of ?is] flush releasesD(3) by (force simp: flush_messages_def)
  moreover have "distinct (map sh_id (entries (td_queue d)))" using inv entries_distinct by (simp add: topic_inv_def)
  ultimately show "shared_topic_of d' = (shared_topic_of d)\<lparr>st_entries := sh_flush (blocking (td_queue d)) S (entries (td_queue d))\<rparr>"
    "later c c'"
    by (simp_all add: shared_topic_of_def sh_settle_fold)
qed

lemma change_shared:
  assumes inv: "topic_inv d" and pl: "ctx_ok c" and live: "all_live T (entries (td_queue d))"
    and im: "interest_map_inv im"
    and f: "\<And>hm. held_message (f hm) = held_message hm"
      "\<And>hm. hm_wf (held_status hm) \<Longrightarrow> hm_wf (held_status (f hm))" "\<And>hm. shared_of (f hm) = g (shared_of hm)"
    and S: "S = {i. \<exists>hm. hm_get (hold_messages (td_queue d)) i = Some hm \<and> P (shared_of hm)}"
    and flush: "flush_messages S (d\<lparr>ep_routing_table := rt, ep_interest_map := im,
        td_queue := (td_queue d)\<lparr>hold_messages := hm_map_values (\<lambda>_. f) (hold_messages (td_queue d))\<rparr>\<rparr>) c = Inr (d', c')"
    and time: "unexpired T c c'"
  shows "shared_topic_of d' = sp_change P g ((shared_topic_of d)\<lparr>st_routing := rt, st_interests := im\<rparr>)"
proof -
  let ?q = "(td_queue d)\<lparr>hold_messages := hm_map_values (\<lambda>_. f) (hold_messages (td_queue d))\<rparr>"
  let ?d = "d\<lparr>ep_routing_table := rt, ep_interest_map := im, td_queue := ?q\<rparr>"
  have q: "queue_inv (td_queue d)" "resolved (td_queue d) = {}" using inv by (simp_all add: topic_inv_def)
  have es: "entries ?q = map g (entries (td_queue d))" by (rule entries_map [OF q(1)]) (rule f(3))
  have g: "sh_message (g e) = sh_message e" if e: "e \<in> set (entries (td_queue d))" for e
  proof -
    obtain hm where "e = shared_of hm" using e in_entries [OF q(1)] by blast
    then show ?thesis using f(3) [of hm, symmetric] f(1) by simp
  qed
  have "finite S" unfolding S
    by (rule finite_subset [of _ "dom (hm_get (hold_messages (td_queue d)))"]) (auto simp: finite_dom_map_of)
  moreover have "topic_inv ?d" using map_held_inv(1) [OF q, of f, OF f(1,2)] q(2) im by (simp add: topic_inv_def)
  moreover have "all_live T (entries (td_queue ?d))" using live g by (simp add: es all_live_def)
  moreover have "S = sh_id ` {e \<in> set (entries (td_queue d)). P e}"
  proof -
    have "i \<in> S \<longleftrightarrow> (\<exists>e \<in> set (entries (td_queue d)). sh_id e = i \<and> P e)" for i
      using held_entry [OF q(1), of i _ P] in_entries [OF q(1)] unfolding S by blast
    then show ?thesis by (force simp: set_eq_iff image_iff)
  qed
  ultimately show ?thesis
    using flush_messages_shared(1) [OF _ pl _ _ flush time] es
    by (simp add: sp_change_def shared_topic_of_def)
qed

lemma shared_offer:
  "shared_of (fst (offer_interest ep im hm)) = sh_offer ep im (shared_of hm)"
  "shared_of (fst (offer_online ep im hm)) = sh_offer ep im (shared_of hm)"
  "snd (offer_interest ep im hm) \<longleftrightarrow> sh_concerns ep im (shared_of hm)"
  "snd (offer_online ep im hm) \<longleftrightarrow> sh_concerns ep im (shared_of hm) \<and> sh_status (shared_of hm) ep = None"
  by (auto simp: offer_interest_eq offer_online_def sh_offer_def sh_concerns_def shared_of_def fun_eq_iff)

lemma shared_unreachable: "shared_of (set_unreachable ep hm) = sh_unreachable ep (shared_of hm)"
  by (auto simp: set_unreachable_def sh_unreachable_def shared_of_def fun_eq_iff split: option.split)

lemma reachable_shared: "reachable_eps d host = eps_at host (shared_topic_of d)"
  by (simp add: reachable_eps_def eps_at_def shared_topic_of_def)

lemma held_filter_set:
  assumes "hm_wf h"
  shows "set (map fst (filter (\<lambda>(i, hm). P hm) h)) = {i. \<exists>hm. hm_get h i = Some hm \<and> P hm}"
  using assms by force

lemma interest_shared:
  assumes "topic_inv d" "ctx_ok c" "all_live T (entries (td_queue d))"
    "update_ep_interest ep interests d c = Inr (d', c')" "unexpired T c c'"
  shows "shared_topic_of d' = sp_interest ep interests (shared_topic_of d)"
proof -
  let ?im = "fold (\<lambda>i. interest_map_insert i ep) interests (interest_map_delete ep (ep_interest_map d))"
  let ?rt = "ep_routing_table d"
  have q: "hm_wf (hold_messages (td_queue d))" and im: "interest_map_inv (ep_interest_map d)"
    using assms(1) by (simp_all add: topic_inv_def queue_invD(1))
  have same: "d\<lparr>ep_interest_map := im, td_queue := q\<rparr> = d\<lparr>ep_routing_table := ?rt, ep_interest_map := im, td_queue := q\<rparr>"
    for im q by simp
  have "set (map fst (filter (\<lambda>(i, hm). snd (offer_interest ep ?im hm)) (hold_messages (td_queue d))))
      = {i. \<exists>hm. hm_get (hold_messages (td_queue d)) i = Some hm \<and> sh_concerns ep ?im (shared_of hm)}"
    unfolding held_filter_set [OF q] shared_offer(3) ..
  then have "flush_messages {i. \<exists>hm. hm_get (hold_messages (td_queue d)) i = Some hm \<and> sh_concerns ep ?im (shared_of hm)}
      (d\<lparr>ep_routing_table := ?rt, ep_interest_map := ?im, td_queue := (td_queue d)\<lparr>hold_messages :=
         hm_map_values (\<lambda>_ hm. fst (offer_interest ep ?im hm)) (hold_messages (td_queue d))\<rparr>\<rparr>) c = Inr (d', c')"
    using assms(4) unfolding same [symmetric] by (simp only: update_ep_interest_def Let_def)
  from change_shared [OF assms(1-3) imap.inv_ins_all [OF imap.inv_del [OF im]] _ _ _ refl this assms(5), of "sh_offer ep ?im"]
  show ?thesis by (simp add: sp_interest_def Let_def shared_offer) (simp add: shared_topic_of_def)
qed

lemma online_shared:
  assumes "topic_inv d" "ctx_ok c" "all_live T (entries (td_queue d))"
    "ep_online ep interests host d c = Inr (d', c')" "unexpired T c c'"
  shows "shared_topic_of d' = sp_online ep interests host (shared_topic_of d)"
proof -
  let ?im = "fold (\<lambda>i. interest_map_insert i ep) interests (ep_interest_map d)"
  let ?rt = "hm_insert host (insert ep (reachable_eps d host)) (ep_routing_table d)"
  let ?P = "\<lambda>e. sh_concerns ep ?im e \<and> sh_status e ep = None"
  have q: "hm_wf (hold_messages (td_queue d))" and im: "interest_map_inv (ep_interest_map d)"
    using assms(1) by (simp_all add: topic_inv_def queue_invD(1))
  have "set (map fst (filter (\<lambda>(i, hm). snd (offer_online ep ?im hm)) (hold_messages (td_queue d))))
      = {i. \<exists>hm. hm_get (hold_messages (td_queue d)) i = Some hm \<and> ?P (shared_of hm)}"
    unfolding held_filter_set [OF q] shared_offer(4) ..
  then have "flush_messages {i. \<exists>hm. hm_get (hold_messages (td_queue d)) i = Some hm \<and> ?P (shared_of hm)}
      (d\<lparr>ep_routing_table := ?rt, ep_interest_map := ?im, td_queue := (td_queue d)\<lparr>hold_messages :=
         hm_map_values (\<lambda>_ hm. fst (offer_online ep ?im hm)) (hold_messages (td_queue d))\<rparr>\<rparr>) c = Inr (d', c')"
    using assms(4) by (simp only: ep_online_def Let_def)
  from change_shared [OF assms(1-3) imap.inv_ins_all [OF im] _ _ _ refl this assms(5), of "sh_offer ep ?im"]
  show ?thesis by (simp add: sp_online_def Let_def shared_offer reachable_shared) (simp add: shared_topic_of_def)
qed

lemma offline_shared:
  assumes "topic_inv d" "ctx_ok c" "all_live T (entries (td_queue d))"
    "ep_offline host ep d c = Inr (d', c')" "unexpired T c c'"
  shows "shared_topic_of d' = sp_offline host ep (shared_topic_of d)"
proof -
  let ?im = "interest_map_delete ep (ep_interest_map d)"
  let ?rt = "hm_insert host (reachable_eps d host - {ep}) (ep_routing_table d)"
  let ?P = "\<lambda>e. sh_status e ep \<noteq> None"
  have q: "queue_inv (td_queue d)" and im: "interest_map_inv (ep_interest_map d)"
    using assms(1) by (simp_all add: topic_inv_def)
  have "set (map (\<lambda>(i, hm). held_id hm) (filter (\<lambda>(i, hm). hm_get (held_status hm) ep \<noteq> None) (hold_messages (td_queue d))))
      = {i. \<exists>hm. hm_get (hold_messages (td_queue d)) i = Some hm \<and> ?P (shared_of hm)}"
    using queue_invD(1) [OF q] queue_invD(7) [OF q] by (force dest: map_of_SomeD)
  then have "flush_messages {i. \<exists>hm. hm_get (hold_messages (td_queue d)) i = Some hm \<and> ?P (shared_of hm)}
      (d\<lparr>ep_routing_table := ?rt, ep_interest_map := ?im, td_queue := (td_queue d)\<lparr>hold_messages :=
         hm_map_values (\<lambda>_ hm. set_unreachable ep hm) (hold_messages (td_queue d))\<rparr>\<rparr>) c = Inr (d', c')"
    using assms(4) by (simp only: ep_offline_def Let_def)
  from change_shared [OF assms(1-3) imap.inv_del [OF im] _ _ _ refl this assms(5), of "sh_unreachable ep"]
  show ?thesis by (simp add: sp_offline_def shared_unreachable reachable_shared) (simp add: shared_topic_of_def)
qed

lemma update_topic_shared:
  assumes "topic_inv d" "ctx_ok c" "all_live T (entries (td_queue d))"
    "update_and_flush u d c = Inr (d', c')" "unexpired T c c'"
  shows "shared_topic_of d' = sp_update u (shared_topic_of d)"
proof -
  obtain ms q' where "d' = d\<lparr>td_queue := q'\<rparr>" "blocking q' = blocking (td_queue d)"
    using update_and_flush_releases [OF assms(1,2), of u] assms(4) releasesD(3) by force
  with update_shared [OF assms] show ?thesis by (simp add: sp_update_def shared_topic_of_def)
qed

subsection \<open>A new message\<close>

text \<open>The clock has moved past the messages in the queue.\<close>

definition late :: "message_queue \<Rightarrow> proposal_context \<Rightarrow> bool" where
  "late q c \<longleftrightarrow> (\<forall>p \<in> set (time_id q). fst p < fst (ctx_now c))"

lemma late_fresh:
  "late q c \<Longrightarrow> hm_get (hold_messages q) i = None \<Longrightarrow> entry_fresh i (fst (ctx_now c)) q"
  by (auto simp: late_def entry_fresh_def)

lemma push_shared:
  assumes inv: "queue_inv q" and late: "late q c" and new: "hm_get (hold_messages q) (held_id hm) = None"
    and wf: "hm_wf (held_status hm)" and push: "queue_push hm q c = (q', c')"
  shows "c' = snd (ctx_now c)" "queue_inv q'" "resolved q' = resolved q" "blocking q' = blocking q"
    "entries q' = entries q @ [shared_of hm]"
proof -
  have q': "q' = fst (queue_push hm q c)" using push by simp
  show "c' = snd (ctx_now c)" "resolved q' = resolved q" "blocking q' = blocking q"
    using push by (auto simp: queue_push_def Let_def case_prod_unfold)
  show "queue_inv q'" unfolding q' by (rule queue_inv_push [OF inv late_fresh [OF late new] wf])
  have "time_id q' = time_id q @ [(fst (ctx_now c), held_id hm)]"
    using late timed_insert_last [of "time_id q"] push
    by (auto simp: queue_push_def Let_def case_prod_unfold late_def)
  moreover have "hm_get (hold_messages q') = (hm_get (hold_messages q))(held_id hm \<mapsto> hm)"
    using push by (auto simp: queue_push_def Let_def case_prod_unfold)
  moreover have "snd p \<noteq> held_id hm" if "p \<in> set (time_id q)" for p
    using queue_time_held [OF inv that] new by (metis option.distinct(1))
  ultimately show "entries q' = entries q @ [shared_of hm]" by (simp add: entries_eq)
qed

lemma enqueue_shared:
  assumes inv: "topic_inv d" and pl: "ctx_ok c" and live: "all_live T (entries (td_queue d))"
    and lives: "lives T (held_message hm)" and late: "late (td_queue d) c"
    and new: "hm_get (hold_messages (td_queue d)) (held_id hm) = None" and wf: "hm_wf (held_status hm)"
    and enq: "enqueue_message hm d c = Inr (d', c')" and time: "unexpired T c c'"
  shows "shared_topic_of d' = sp_enqueue (shared_of hm) (shared_topic_of d)"
proof -
  let ?c = "push_durable_command (Create (held_message hm)) (snd (ctx_now c))"
  let ?u = "state_update_new_empty (held_id hm)"
  have q: "queue_inv (td_queue d)" using inv by (simp add: topic_inv_def)
  obtain q1 c1 where push: "queue_push hm (td_queue d) c = (q1, c1)" by fastforce
  note q1 = push_shared [OF q late new wf push]
  have u: "update_and_flush ?u (d\<lparr>td_queue := q1\<rparr>) ?c = Inr (d', c')"
    using enq by (simp add: enqueue_message_def push q1(1))
  have "unexpired T ?c c'"
    using unexpired_split [OF time later_trans [OF later_simps(4) later_simps(3)] later_update_and_flush [OF u]] by simp
  moreover have "topic_inv (d\<lparr>td_queue := q1\<rparr>)" using inv q1(2,3) by (simp add: topic_inv_def)
  moreover have "ctx_ok ?c" using pl by (simp add: push_durable_command_def push_durable_commands_def ctx_now_def utc_now_def)
  moreover have "all_live T (entries q1)" using live lives by (simp add: q1(5) all_live_def)
  ultimately show ?thesis
    using update_topic_shared [OF _ _ _ u] q1(4,5) by (simp add: sp_update_def sp_enqueue_def shared_topic_of_def)
qed

lemma length_entries: "queue_inv q \<Longrightarrow> length (entries q) = queue_len q"
  by (simp add: entries_eq queue_len_eq)

lemma late_resolve [simp]: "late q (resolve_ack i r c) = late q c"
  by (simp add: late_def ctx_now_resolve)

lemma pop_removes:
  assumes "queue_pop q = Inr (m, q')"
  shows "set (time_id q') \<subseteq> set (time_id q)"
    "hm_get (hold_messages q) i = None \<Longrightarrow> hm_get (hold_messages q') i = None"
  using assms by (cases "time_id q"; auto simp: queue_pop_def and_then_Inr_iff)+

lemma put_shared:
  assumes inv: "topic_inv d" and pl: "ctx_ok c" and live: "all_live T (entries (td_queue d))"
    and lives: "lives T (held_message hm)" and late: "late (td_queue d) c"
    and new: "hm_get (hold_messages (td_queue d)) (held_id hm) = None" and wf: "hm_wf (held_status hm)"
    and put: "put_in_queue hm d c = Inr (d', c')" and time: "unexpired T c c'"
  shows "shared_topic_of d' = sp_put (shared_of hm) (shared_topic_of d)"
proof -
  let ?t = "shared_topic_of d"
  have q: "queue_inv (td_queue d)" "resolved (td_queue d) = {}" using inv by (simp_all add: topic_inv_def)
  have len: "length (st_entries ?t) = queue_len (td_queue d)" and cfg: "st_config ?t = td_config d"
    using length_entries [OF q(1)] by (simp_all add: shared_topic_of_def)
  note enq = enqueue_shared [OF inv pl live lives late new wf _ time]
  show ?thesis
  proof (cases "overflow_config (td_config d)")
    case None
    then show ?thesis using put enq by (simp add: put_in_queue_def sp_put_def cfg)
  next
    case (Some oc)
    show ?thesis
    proof (cases "overflow_config_size oc \<le> queue_len (td_queue d)")
      case False
      then show ?thesis using Some put enq by (simp add: put_in_queue_def sp_put_def cfg len)
    next
      case full: True
      show ?thesis
      proof (cases "policy oc")
        case RejectNew
        then have "d' = d" using Some full put by (simp add: put_in_queue_def)
        then show ?thesis using RejectNew Some full by (simp add: sp_put_def cfg len)
      next
        case DropOld
        then obtain old q1 where pop: "queue_pop (td_queue d) = Inr (Some old, q1)"
          and e: "enqueue_message hm (d\<lparr>td_queue := q1\<rparr>)
            (resolve_ack (held_id old) (Inl (wait_ack_error_of Overflow)) c) = Inr (d', c')"
          using Some full put by (auto simp: put_in_queue_def and_then_Inr_iff split: option.splits)
        let ?c = "resolve_ack (held_id old) (Inl (wait_ack_error_of Overflow)) c"
        note p = pop_shared [OF q(1) pop]
        have "late q1 ?c" using late pop_removes(1) [OF pop] by (auto simp: late_def ctx_now_resolve)
        moreover have "hm_get (hold_messages q1) (held_id hm) = None" using pop_removes(2) [OF pop] new by simp
        moreover have "ctx_ok ?c" using ctx_ok_frame [OF ctx_frame_resolve pl] .
        moreover have "unexpired T ?c c'" using time by (simp add: unexpired_def resolve_ack_def spawn_task_def split: option.split)
        moreover have "topic_inv (d\<lparr>td_queue := q1\<rparr>)" using inv p(2,3) q(2) by (simp add: topic_inv_def)
        ultimately have "shared_topic_of d' = sp_enqueue (shared_of hm) (shared_topic_of (d\<lparr>td_queue := q1\<rparr>))"
          using enqueue_shared [of "d\<lparr>td_queue := q1\<rparr>" ?c T hm d' c'] e lives wf live p(1) by (simp add: all_live_def)
        moreover have "shared_topic_of (d\<lparr>td_queue := q1\<rparr>) = ?t\<lparr>st_entries := tl (st_entries ?t)\<rparr>"
          using p(1,4) by (simp add: shared_topic_of_def)
        ultimately show ?thesis using Some full DropOld by (simp add: sp_put_def cfg len)
      qed
    qed
  qed
qed

text \<open>The ring of a \<open>Push\<close> message, whatever the order in which a replica iterates its endpoints.\<close>

lemma hash_ring_shared:
  assumes "platform_ok pl" "finite eps" "inj_on (hash64_ep pl) eps"
  shows "hash_ring pl eps = map (\<lambda>ep. (hash64_ep pl ep, ep)) (sort_key (hash64_ep pl) (sorted_list_of_set eps))"
  unfolding hash_ring_def
proof (rule sort_key_inj_key_eq)
  have "mset (ep_order pl eps) = mset (sorted_list_of_set eps)"
    using assms(1,2) by (simp add: platform_ok_def set_eq_iff_mset_eq_distinct [symmetric])
  then show "mset (map (\<lambda>ep. (hash64_ep pl ep, ep)) (ep_order pl eps)) =
      mset (map (\<lambda>ep. (hash64_ep pl ep, ep)) (sort_key (hash64_ep pl) (sorted_list_of_set eps)))" by simp
  show "inj_on fst (set (map (\<lambda>ep. (hash64_ep pl ep, ep)) (ep_order pl eps)))"
    using assms by (auto simp: inj_on_def platform_ok_def)
qed (simp add: comp_def)

lemma targets_shared: "collect_addr_by_subjects d (subjects (header m)) = sp_targets m (shared_topic_of d)"
  by (simp add: collect_addr_eq sp_targets_def shared_topic_of_def)

lemma hold_for_shared:
  assumes "topic_inv d" "ctx_ok c" "all_live T (entries (td_queue d))" "lives T m" "late (td_queue d) c"
    "hm_get (hold_messages (td_queue d)) (msg_id m) = None" "finite eps"
    "hold_for eps m d c = Inr (d', c')" "unexpired T c c'"
  shows "shared_topic_of d' = sp_put (sh_new m eps) (shared_topic_of d)"
proof -
  let ?hm = "\<lparr>held_message = m,
    held_wait_ack = wait_ack_new (msg_ack_kind m) (ep_order (node_platform (ctx_node c)) eps)\<rparr>"
  have "shared_of ?hm = sh_new m eps"
    using wait_ack_new_status [OF assms(2,7)] by (simp add: shared_of_def sh_new_def fun_eq_iff wait_ack_new_def)
  then show ?thesis
    using put_shared [OF assms(1-3), of ?hm] assms(4-6,8,9) wait_ack_new_wf [OF assms(2,7)] by (simp add: hold_for_def)
qed

lemma hold_shared:
  assumes inv: "topic_inv d" and pl: "ctx_ok c" and live: "all_live T (entries (td_queue d))"
    and lives: "lives T m" and late: "late (td_queue d) c"
    and new: "hm_get (hold_messages (td_queue d)) (msg_id m) = None"
    and inj: "inj_on (hash64_ep (node_platform (ctx_node c))) (sp_targets m (shared_topic_of d))"
    and hold: "hold_new_message m d c = Inr (d', c')" and time: "unexpired T c c'"
  shows "shared_topic_of d' =
    sp_hold (hash64_id (node_platform (ctx_node c))) (hash64_ep (node_platform (ctx_node c))) m (shared_topic_of d)"
proof -
  let ?pl = "node_platform (ctx_node c)" and ?eps = "sp_targets m (shared_topic_of d)"
  have fin: "finite ?eps" using finite_collect_addr [OF inv] targets_shared by metis
  note for_shared = hold_for_shared [OF inv pl live lives late new _ _ time]
  show ?thesis
  proof (cases "target_kind (header m) = Push")
    case False
    then have "hold_for ?eps m d c = Inr (d', c')"
      using hold by (auto simp: hold_new_message_def targets_shared split: message_target_kind.splits)
    from for_shared [OF fin this] False show ?thesis by (simp add: sp_hold_def)
  next
    case True
    let ?ring = "sort_key (hash64_ep ?pl) (sorted_list_of_set ?eps)"
    have ring: "hash_ring ?pl ?eps = map (\<lambda>ep. (hash64_ep ?pl ep, ep)) ?ring"
      by (rule hash_ring_shared [OF pl fin inj])
    have nil: "?ring = [] \<longleftrightarrow> ?eps = {}"
      using fin by (metis set_empty set_sort set_sorted_list_of_set)
    show ?thesis
    proof (cases "?eps = {}")
      case empty: True
      then have "d' = d" using hold True ring nil by (simp add: hold_new_message_def targets_shared)
      then show ?thesis using True empty by (simp add: sp_hold_def)
    next
      case False
      then have ne: "?ring \<noteq> []" using nil by simp
      have pick: "snd (map (\<lambda>ep. (h ep, ep)) r ! (k mod length r)) = r ! (k mod length r)" if "r \<noteq> []"
        for h :: "endpoint_addr \<Rightarrow> u64" and r k using that by simp
      from pick [OF ne] have "hold_for {sp_choice (hash64_id ?pl) (hash64_ep ?pl) m ?eps} m d c = Inr (d', c')"
        using hold True ne unfolding sp_choice_def Let_def
        by (simp add: hold_new_message_def targets_shared ring Let_def del: length_sort length_sorted_list_of_set)
      from for_shared [OF _ this] True False show ?thesis by (simp add: sp_hold_def Let_def)
    qed
  qed
qed

end
