(* ===== verification/MQ_Agreement.thy ===== *)
theory MQ_Agreement
  imports MQ_Replica
begin

text \<open>
  The replicas agree: two nodes that apply the same log, each with its own clock, its own iteration
  orders and its own endpoints, end with the same topics as far as they are shared (\<open>MQ_Replica\<close>).
  The contract of a topic operation is extended by its specification, the five operations are
  instances, and the rest is proved once for all of them.  What the agreement rests on is needed:
  a message that expires, or a clock that steps back, makes two replicas differ for good.
\<close>

section \<open>The contract of a replicated operation\<close>

text \<open>
  What the specification of a topic has to do with a bound \<open>T\<close> on the clock and a set \<open>E\<close> of
  endpoints: nothing held expires before \<open>T\<close>, and only endpoints of \<open>E\<close> are interested in anything.
\<close>

definition alive :: "time \<Rightarrow> endpoint_addr set \<Rightarrow> shared_topic \<Rightarrow> bool" where
  "alive T E t \<longleftrightarrow> all_live T (st_entries t) \<and> (\<forall>s. interest_map_find (st_interests t) s \<subseteq> E)"

locale replicated_operation = topic_operation op ok S
  for op :: "topic_data \<Rightarrow> proposal_context \<Rightarrow> (topic_data \<times> proposal_context) outcome"
    and ok :: "topic_data \<Rightarrow> proposal_context \<Rightarrow> bool"
    and S :: "message_id set" +
  fixes spec :: "(message_id \<Rightarrow> u64) \<Rightarrow> (endpoint_addr \<Rightarrow> u64) \<Rightarrow> shared_topic \<Rightarrow> shared_topic"
    and fits :: "time \<Rightarrow> endpoint_addr set \<Rightarrow> bool"
  assumes refines: "topic_inv d \<Longrightarrow> ctx_ok c \<Longrightarrow> ok d c \<Longrightarrow> late (td_queue d) c \<Longrightarrow> fits T E \<Longrightarrow>
      alive T E (shared_topic_of d) \<Longrightarrow> inj_on (hash64_ep (node_platform (ctx_node c))) E \<Longrightarrow>
      op d c = Inr (d', c') \<Longrightarrow> unexpired T c c' \<Longrightarrow>
      shared_topic_of d' =
        spec (hash64_id (node_platform (ctx_node c))) (hash64_ep (node_platform (ctx_node c))) (shared_topic_of d)"
    and moves_on: "op d c = Inr (d', c') \<Longrightarrow> later c c'"
    and stays_late: "topic_inv d \<Longrightarrow> ctx_ok c \<Longrightarrow> ok d c \<Longrightarrow> strict_mono (clock (node_platform (ctx_node c))) \<Longrightarrow>
      late (td_queue d) c \<Longrightarrow> op d c = Inr (d', c') \<Longrightarrow> late (td_queue d') c'"
    and stays_alive: "interest_map_inv (st_interests t) \<Longrightarrow> fits T E \<Longrightarrow> alive T E t \<Longrightarrow> alive T E (spec hid hep t)"

subsection \<open>The clock moves on\<close>

lemma later_flush_list:
  assumes "fold_outcome (\<lambda>i (d, c). update_and_flush (state_update_new_empty i) d c) is (d, c) = Inr (d', c')"
  shows "later c c'"
  using assms
proof (induction "is" arbitrary: d c)
  case (Cons i "is")
  then show ?case by (auto simp: and_then_Inr_iff intro: later_trans dest: later_update_and_flush)
qed simp

lemma later_flush_messages: "flush_messages S d c = Inr (d', c') \<Longrightarrow> later c c'"
  unfolding flush_messages_def by (rule later_flush_list)

lemma later_enqueue: "enqueue_message hm d c = Inr (d', c') \<Longrightarrow> later c c'"
  by (auto simp: enqueue_message_def queue_push_def Let_def case_prod_unfold dest!: later_update_and_flush
      intro: later_trans [OF later_trans [OF later_simps(4) later_simps(3)]])

lemma later_put: "put_in_queue hm d c = Inr (d', c') \<Longrightarrow> later c c'"
  by (auto simp: put_in_queue_def and_then_Inr_iff split: option.splits if_splits topic_overflow_policy.splits
      dest!: later_enqueue intro: later_trans [OF later_simps(2)])

lemma later_hold: "hold_new_message m d c = Inr (d', c') \<Longrightarrow> later c c'"
  by (auto simp: hold_new_message_def hold_for_def Let_def split: message_target_kind.splits if_splits dest: later_put)

lemma late_later:
  assumes "late q c" "later c c'" "strict_mono (clock (node_platform (ctx_node c)))" "set (time_id q') \<subseteq> set (time_id q)"
  shows "late q' c'"
proof -
  have "clock (node_platform (ctx_node c)) (reads c) \<le> clock (node_platform (ctx_node c)) (reads c')"
    using assms(2,3) by (simp add: later_def strict_mono_less_eq)
  then show ?thesis using assms(1,2,4) by (fastforce simp: late_def later_def ctx_now_def utc_now_def)
qed

lemma late_update:
  assumes "topic_inv d" "ctx_ok c" "strict_mono (clock (node_platform (ctx_node c)))" "late (td_queue d) c"
    "update_and_flush u d c = Inr (d', c')"
  shows "late (td_queue d') c'"
proof -
  obtain ms where "releases (td_queue d) c ms (td_queue d') c'"
    using update_and_flush_releases [OF assms(1,2), of u] assms(5) by force
  then have "set (time_id (td_queue d')) \<subseteq> set (time_id (td_queue d))" by (auto dest!: releasesD(7))
  then show ?thesis by (rule late_later [OF assms(4) later_update_and_flush [OF assms(5)] assms(3)])
qed

lemma late_step:
  assumes "topic_step d c ms d' c'" "strict_mono (clock (node_platform (ctx_node c)))" "late (td_queue d) c" "later c c'"
  shows "late (td_queue d') c'"
  using assms releasesD(7) [of "td_queue d" c ms "td_queue d'" c']
  by (auto simp: topic_step_def intro!: late_later [OF assms(3,4,2)])

lemma late_enqueue:
  assumes inv: "topic_inv d" and pl: "ctx_ok c" and mono: "strict_mono (clock (node_platform (ctx_node c)))"
    and late: "late (td_queue d) c" and wf: "hm_wf (held_status hm)"
    and new: "hm_get (hold_messages (td_queue d)) (held_id hm) = None"
    and enq: "enqueue_message hm d c = Inr (d', c')"
  shows "late (td_queue d') c'"
proof -
  let ?c = "push_durable_command (Create (held_message hm)) (snd (ctx_now c))"
  have q: "queue_inv (td_queue d)" using inv by (simp add: topic_inv_def)
  obtain q1 c1 where push: "queue_push hm (td_queue d) c = (q1, c1)" by fastforce
  note q1 = push_shared [OF q late new wf push]
  have tid: "time_id q1 = timed_insert (fst (ctx_now c)) (held_id hm) (time_id (td_queue d))"
    using push by (auto simp: queue_push_def Let_def case_prod_unfold)
  have now: "fst (ctx_now c) < fst (ctx_now ?c)"
    using mono by (simp add: ctx_now_def utc_now_def push_durable_command_def push_durable_commands_def strict_mono_def)
  have "fst p < fst (ctx_now ?c)" if p: "p \<in> set (time_id q1)" for p
  proof -
    have "p \<in> set (time_id (td_queue d)) \<or> p = (fst (ctx_now c), held_id hm)"
      using p set_timed_insert(1) unfolding tid by fast
    then show ?thesis using late now by (fastforce simp: late_def)
  qed
  then have "late q1 ?c" by (simp add: late_def)
  moreover have "node_platform (ctx_node ?c) = node_platform (ctx_node c)"
    by (simp add: push_durable_command_def push_durable_commands_def ctx_now_def utc_now_def)
  moreover have "topic_inv (d\<lparr>td_queue := q1\<rparr>)" using inv q1(2,3) by (simp add: topic_inv_def)
  moreover have "update_and_flush (state_update_new_empty (held_id hm)) (d\<lparr>td_queue := q1\<rparr>) ?c = Inr (d', c')"
    using enq by (simp add: enqueue_message_def push q1(1))
  ultimately show ?thesis using late_update [of "d\<lparr>td_queue := q1\<rparr>" ?c] pl mono by simp
qed

lemma put_cases:
  assumes "put_in_queue hm d c = Inr (d', c')"
  obtains (room) "enqueue_message hm d c = Inr (d', c')"
    | (reject) "d' = d" "c' = resolve_ack (held_id hm) (Inl (wait_ack_error_of Overflow)) c"
    | (drop) old q1 where "queue_pop (td_queue d) = Inr (Some old, q1)"
      "enqueue_message hm (d\<lparr>td_queue := q1\<rparr>) (resolve_ack (held_id old) (Inl (wait_ack_error_of Overflow)) c) = Inr (d', c')"
proof (cases "overflow_config (td_config d)")
  case (Some oc)
  note put = assms [unfolded put_in_queue_def Some option.case]
  show thesis
  proof (cases "overflow_config_size oc \<le> queue_len (td_queue d)")
    case full: True
    show thesis
    proof (cases "policy oc")
      case DropOld
      then show thesis using put full that(3) by (auto simp: and_then_Inr_iff split: option.splits)
    qed (use put full that(2) in simp)
  qed (use put that(1) in simp)
qed (use assms that(1) in \<open>simp add: put_in_queue_def\<close>)

lemma late_put:
  assumes inv: "topic_inv d" and pl: "ctx_ok c" and mono: "strict_mono (clock (node_platform (ctx_node c)))"
    and late: "late (td_queue d) c" and wf: "hm_wf (held_status hm)"
    and new: "hm_get (hold_messages (td_queue d)) (held_id hm) = None"
    and put: "put_in_queue hm d c = Inr (d', c')"
  shows "late (td_queue d') c'"
proof -
  have q: "queue_inv (td_queue d)" "resolved (td_queue d) = {}" using inv by (simp_all add: topic_inv_def)
  show ?thesis
    using put
  proof (cases rule: put_cases)
    case room
    then show ?thesis by (rule late_enqueue [OF inv pl mono late wf new])
  next
    case reject
    then show ?thesis using late by simp
  next
    case (drop old q1)
    note p = pop_shared [OF q(1) drop(1)]
    have s: "set (time_id q1) \<subseteq> set (time_id (td_queue d))" "hm_get (hold_messages q1) (held_id hm) = None"
      using pop_removes [OF drop(1)] new by auto
    have "topic_inv (d\<lparr>td_queue := q1\<rparr>)" using inv p(2,3) q(2) by (simp add: topic_inv_def)
    moreover have "late q1 c" using late s(1) by (auto simp: late_def)
    ultimately show ?thesis
      using late_enqueue [OF _ _ _ _ wf _ drop(2)] s(2) pl mono ctx_frame_resolve [of c "held_id old"]
      by (simp add: ctx_frame_def)
  qed
qed

lemma hold_cases:
  assumes "topic_inv d" "hold_new_message m d c = Inr (d', c')"
  obtains (none) "d' = d" "c' = resolve_ack (msg_id m) (Inl (wait_ack_error_of NoAvailableTarget)) c"
    | (some) eps where "finite eps" "hold_for eps m d c = Inr (d', c')"
proof (cases "target_kind (header m)")
  case Push
  let ?pl = "node_platform (ctx_node c)"
  let ?ring = "hash_ring ?pl (collect_addr_by_subjects d (subjects (header m)))"
  show thesis
  proof (cases "?ring = []")
    case False
    then show thesis using assms(2) Push that(2) by (auto simp: hold_new_message_def Let_def)
  qed (use assms(2) Push that(1) in \<open>simp add: hold_new_message_def\<close>)
qed (use assms(2) that(2) [OF finite_collect_addr [OF assms(1)]] in \<open>simp_all add: hold_new_message_def\<close>)

lemma late_hold:
  assumes "topic_inv d" "ctx_ok c" "hold_ok m d c" "strict_mono (clock (node_platform (ctx_node c)))"
    "late (td_queue d) c" "hold_new_message m d c = Inr (d', c')"
  shows "late (td_queue d') c'"
  using assms(1,6)
proof (cases rule: hold_cases)
  case (some eps)
  from some(2) show ?thesis unfolding hold_for_def
    by (rule late_put [OF assms(1,2,4,5), rotated 2])
      (use assms(3) wait_ack_new_wf [OF assms(2) some(1)] in \<open>simp_all add: entry_fresh_def\<close>)
qed (use assms(5) in simp)

lemma later_topic_op:
  "update_ep_interest ep interests d c = Inr (d', c') \<Longrightarrow> later c c'"
  "ep_online ep interests host d c = Inr (d', c') \<Longrightarrow> later c c'"
  "ep_offline host ep d c = Inr (d', c') \<Longrightarrow> later c c'"
  by (simp_all only: update_ep_interest_def ep_online_def ep_offline_def Let_def later_flush_messages)

lemma late_topic_op:
  assumes "topic_inv d" "ctx_ok c" "strict_mono (clock (node_platform (ctx_node c)))" "late (td_queue d) c"
  shows "update_ep_interest ep interests d c = Inr (d', c') \<Longrightarrow> late (td_queue d') c'"
    "ep_online ep interests host d c = Inr (d', c') \<Longrightarrow> late (td_queue d') c'"
    "ep_offline host ep d c = Inr (d', c') \<Longrightarrow> late (td_queue d') c'"
  using late_step [OF _ assms(3,4)] later_topic_op update_ep_interest_step [OF assms(1,2), of ep interests]
    ep_online_step [OF assms(1,2), of ep interests host] ep_offline_step [OF assms(1,2), of host ep] by fastforce+

subsection \<open>The specification keeps what it needs\<close>

lemma set_sh_settle: "set (sh_settle b i es) \<subseteq> set es"
  by (auto simp: sh_settle_def dest: set_dropWhileD)

lemma set_sh_flush: "set (sh_flush b S es) \<subseteq> set es"
  by (auto simp: sh_flush_def dest: set_dropWhileD)

lemma all_live_map:
  assumes "all_live T es" "\<And>e. sh_message (g e) = sh_message e" "set es' \<subseteq> set (map g es)"
  shows "all_live T es'"
  using assms unfolding all_live_def by fastforce

lemma alive_update: "alive T E t \<Longrightarrow> alive T E (sp_update u t)"
  unfolding alive_def sp_update_def sh_update_def by (auto intro: all_live_map [OF _ _ set_sh_settle])

lemma alive_change:
  assumes "alive T E t" "\<And>e. sh_message (g e) = sh_message e"
  shows "alive T E (sp_change P g t)"
  using assms unfolding alive_def sp_change_def by (auto intro: all_live_map [OF _ _ set_sh_flush])

lemma sh_change_message [simp]:
  "sh_message (sh_offer ep im e) = sh_message e" "sh_message (sh_unreachable ep e) = sh_message e"
  by (simp_all add: sh_offer_def sh_unreachable_def)

lemma alive_enqueue: "alive T E t \<Longrightarrow> lives T (sh_message e) \<Longrightarrow> alive T E (sp_enqueue e t)"
  using set_sh_settle [of "st_blocking t" "sh_id e" "st_entries t @ [e]"] by (auto simp: alive_def sp_enqueue_def all_live_def)

lemma alive_put:
  assumes "alive T E t" "lives T (sh_message e)"
  shows "alive T E (sp_put e t)"
proof -
  have "alive T E (t\<lparr>st_entries := tl (st_entries t)\<rparr>)"
    using assms(1) by (cases "st_entries t") (auto simp: alive_def all_live_def)
  then show ?thesis
    using assms alive_enqueue by (simp add: sp_put_def split: option.split topic_overflow_policy.split)
qed

lemma alive_hold: "lives T m \<Longrightarrow> alive T E t \<Longrightarrow> alive T E (sp_hold hid hep m t)"
  by (simp add: sp_hold_def sh_new_def alive_put Let_def)

lemma alive_interests:
  assumes "interest_map_inv (st_interests t)" "ep \<in> E" "alive T E t"
  shows "alive T E (sp_interest ep interests t)" "alive T E (sp_online ep interests host t)"
  unfolding sp_interest_def sp_online_def Let_def
  by (rule alive_change; use assms in \<open>auto simp: alive_def imap.lookup_ins_all imap.inv_del imap.lookup_del\<close>)+

lemma alive_offline:
  assumes "interest_map_inv (st_interests t)" "alive T E t"
  shows "alive T E (sp_offline host ep t)"
  unfolding sp_offline_def
  by (rule alive_change; use assms in \<open>auto simp: alive_def imap.lookup_del\<close>)

section \<open>The five operations\<close>

lemma alive_live: "alive T E (shared_topic_of d) \<Longrightarrow> all_live T (entries (td_queue d))"
  by (simp add: alive_def shared_topic_of_def)

lemma alive_targets: "alive T E t \<Longrightarrow> sp_targets m t \<subseteq> E"
  by (auto simp: alive_def sp_targets_def)

interpretation hold_shared: replicated_operation "hold_new_message m" "hold_ok m" "{msg_id m}"
  "\<lambda>hid hep. sp_hold hid hep m" "\<lambda>T E. lives T m" for m
proof
  fix d c T E d' c'
  assume a: "topic_inv d" "ctx_ok c" "hold_ok m d c" "late (td_queue d) c" "lives T m" "alive T E (shared_topic_of d)"
    "inj_on (hash64_ep (node_platform (ctx_node c))) E" "hold_new_message m d c = Inr (d', c')" "unexpired T c c'"
  have "hm_get (hold_messages (td_queue d)) (msg_id m) = None" using a(3) by (simp add: entry_fresh_def)
  from hold_shared [OF a(1,2) alive_live [OF a(6)] a(5,4) this inj_on_subset [OF a(7) alive_targets [OF a(6)]] a(8,9)]
  show "shared_topic_of d' = sp_hold (hash64_id (node_platform (ctx_node c))) (hash64_ep (node_platform (ctx_node c))) m
    (shared_topic_of d)" .
qed (blast intro: later_hold late_hold alive_hold)+

interpretation update_shared: replicated_operation "update_and_flush u" always "{}"
  "\<lambda>hid hep. sp_update u" "\<lambda>T E. True" for u
  by unfold_locales (blast intro: update_topic_shared alive_live later_update_and_flush late_update alive_update)+

interpretation interest_shared: replicated_operation "update_ep_interest ep interests" always "{}"
  "\<lambda>hid hep. sp_interest ep interests" "\<lambda>T E. ep \<in> E" for ep interests
  by unfold_locales (blast intro: interest_shared alive_live later_topic_op late_topic_op alive_interests)+

interpretation online_shared: replicated_operation "ep_online ep interests host" always "{}"
  "\<lambda>hid hep. sp_online ep interests host" "\<lambda>T E. ep \<in> E" for ep interests host
  by unfold_locales (blast intro: online_shared alive_live later_topic_op late_topic_op alive_interests)+

interpretation offline_shared: replicated_operation "ep_offline host ep" always "{}"
  "\<lambda>hid hep. sp_offline host ep" "\<lambda>T E. True" for host ep
  by unfold_locales (blast intro: offline_shared alive_live later_topic_op late_topic_op alive_offline)+

section \<open>The state machine\<close>

text \<open>What replicas share of the node, and what a proposal does to it.\<close>

definition shared_node :: "node_data \<Rightarrow> topic_code \<Rightarrow> shared_topic option" where
  "shared_node nd code = map_option shared_topic_of (hm_get (topics nd) code)"

definition sp_load :: "load_topic \<Rightarrow> shared_topic" where
  "sp_load lt = shared_topic_of (topic_from_durable (lt_config lt) (sort_key dm_time (lt_queue lt)))"

fun sp_proposal ::
  "(message_id \<Rightarrow> u64) \<Rightarrow> (endpoint_addr \<Rightarrow> u64) \<Rightarrow> proposal
    \<Rightarrow> (topic_code \<Rightarrow> shared_topic option) \<Rightarrow> topic_code \<Rightarrow> shared_topic option" where
  "sp_proposal hid hep (DelegateMessage dg) N =
    N(dg_topic dg := map_option (sp_hold hid hep (dg_message dg)) (N (dg_topic dg)))"
| "sp_proposal hid hep (SetState ss) N = N(ss_topic ss := map_option (sp_update (ss_update ss)) (N (ss_topic ss)))"
| "sp_proposal hid hep (LoadTopic lt) N =
    (if N (cfg_code (lt_config lt)) = None then N(cfg_code (lt_config lt) \<mapsto> sp_load lt) else N)"
| "sp_proposal hid hep (UnloadTopic code) N = N(code := None)"
| "sp_proposal hid hep (EpOnline e) N =
    N(on_topic_code e := map_option (sp_online (on_endpoint e) (on_interests e) (on_host e)) (N (on_topic_code e)))"
| "sp_proposal hid hep (EpOffline e) N =
    N(off_topic_code e := map_option (sp_offline (off_host e) (off_endpoint e)) (N (off_topic_code e)))"
| "sp_proposal hid hep (EpInterest e) N =
    N(ei_topic_code e := map_option (sp_interest (ei_endpoint e) (ei_interests e)) (N (ei_topic_code e)))"

fun proposal_fits :: "time \<Rightarrow> endpoint_addr set \<Rightarrow> proposal \<Rightarrow> bool" where
  "proposal_fits T E (DelegateMessage dg) = lives T (dg_message dg)"
| "proposal_fits T E (LoadTopic lt) = (\<forall>m \<in> set (lt_queue lt). lives T (dm_message m))"
| "proposal_fits T E (EpOnline e) = (on_endpoint e \<in> E)"
| "proposal_fits T E (EpInterest e) = (ei_endpoint e \<in> E)"
| "proposal_fits T E p = True"

text \<open>
  The clock of a node: it moves, every message in a queue is older than its next reading, and so is
  every message that a proposal loads.
\<close>

abbreviation next_reading :: "node_inner \<Rightarrow> time" where
  "next_reading n \<equiv> clock (node_platform n) (clock_reads n)"

definition in_time :: "node_data \<Rightarrow> node_inner \<Rightarrow> bool" where
  "in_time nd n \<longleftrightarrow> strict_mono (clock (node_platform n)) \<and>
    (\<forall>code d. hm_get (topics nd) code = Some d \<longrightarrow> (\<forall>p \<in> set (time_id (td_queue d)). fst p < next_reading n))"

fun loads_past :: "proposal \<Rightarrow> node_inner \<Rightarrow> bool" where
  "loads_past (LoadTopic lt) n = (\<forall>m \<in> set (lt_queue lt). dm_time m < next_reading n)"
| "loads_past p n = True"

definition node_later :: "node_inner \<Rightarrow> node_inner \<Rightarrow> bool" where
  "node_later n n' \<longleftrightarrow> clock_reads n \<le> clock_reads n' \<and> node_platform n' = node_platform n"

definition all_alive :: "time \<Rightarrow> endpoint_addr set \<Rightarrow> (topic_code \<Rightarrow> shared_topic option) \<Rightarrow> bool" where
  "all_alive T E N \<longleftrightarrow> (\<forall>code t. N code = Some t \<longrightarrow> alive T E t)"

lemma node_later_refl [simp]: "node_later n n"
  by (simp add: node_later_def)

lemma node_later_trans: "node_later a b \<Longrightarrow> node_later b c \<Longrightarrow> node_later a c"
  by (simp add: node_later_def)

lemma later_node: "later c c' \<longleftrightarrow> node_later (ctx_node c) (ctx_node c')"
  by (simp add: later_def node_later_def)

lemma late_next: "late q c \<longleftrightarrow> (\<forall>p \<in> set (time_id q). fst p < next_reading (ctx_node c))"
  by (simp add: late_def ctx_now_def utc_now_def)

lemma later_commit: "commit_durable_commands c = Inr c' \<Longrightarrow> later c c'"
  by (auto simp: commit_durable_commands_def later_def spawn_task_def split: if_splits option.splits)

lemma next_reading_mono:
  assumes "node_later n n'" "strict_mono (clock (node_platform n))"
  shows "next_reading n \<le> next_reading n'"
  using assms by (simp add: node_later_def strict_mono_less_eq)

lemma in_time_insert:
  assumes "in_time nd n" "node_later n n'" "\<forall>p \<in> set (time_id (td_queue d)). fst p < next_reading n'"
  shows "in_time (nd\<lparr>topics := hm_insert code d (topics nd)\<rparr>) n'"
  using assms next_reading_mono [OF assms(2)] by (fastforce simp: in_time_def node_later_def split: if_splits)

lemma in_time_same: "in_time nd n \<Longrightarrow> node_later n n' \<Longrightarrow> in_time nd n'"
  using next_reading_mono [of n n'] by (fastforce simp: in_time_def node_later_def)

lemma in_time_remove: "in_time nd n \<Longrightarrow> in_time (apply_unload_topic code nd) n"
  by (auto simp: in_time_def apply_unload_topic_def split: if_splits)

lemma all_alive_update:
  "all_alive T E N \<Longrightarrow> (t' \<noteq> None \<Longrightarrow> alive T E (the t')) \<Longrightarrow> all_alive T E (N(code := t'))"
  by (auto simp: all_alive_def)

text \<open>An operation on one topic of the node.\<close>

context replicated_operation
begin

lemma on_topic_shared:
  assumes sm: "sm_ok nd n" and d: "hm_get (topics nd) code = Some d" and ok: "ok d (topic_context code n)"
    and time: "in_time nd n"
    and run: "commit_and_drop (on_topic code op d nd (topic_context code n)) = Inr (nd', n')"
  shows "node_later n n'" "in_time nd' n'"
    "fits T E \<Longrightarrow> alive T E (shared_topic_of d) \<Longrightarrow> inj_on (hash64_ep (node_platform n)) E \<Longrightarrow>
      unexpired T (proposal_context_new n) (proposal_context_new n') \<Longrightarrow>
      shared_node nd' = (shared_node nd)(code \<mapsto> spec (hash64_id (node_platform n)) (hash64_ep (node_platform n)) (shared_topic_of d))"
proof -
  let ?c = "topic_context code n"
  obtain d' c' c2 where op: "op d ?c = Inr (d', c')" and nd': "nd' = nd\<lparr>topics := hm_insert code d' (topics nd)\<rparr>"
    and commit: "commit_durable_commands c' = Inr c2" and n': "n' = ctx_node c2"
    using run by (auto simp: commit_and_drop_def on_topic_def and_then_Inr_iff)
  have inv: "topic_inv d" "ctx_ok ?c" using sm_okD [OF sm d] by simp_all
  have late: "late (td_queue d) ?c" and mono: "strict_mono (clock (node_platform (ctx_node ?c)))"
    using time d by (auto simp: in_time_def late_next)
  have l: "later ?c c'" "later c' c2" using moves_on [OF op] later_commit [OF commit] .
  then show "node_later n n'" using node_later_trans unfolding later_node n' by fastforce
  have "late (td_queue d') c2"
    using stays_late [OF inv ok mono late op] by (rule late_later [OF _ l(2)]) (use l(1) mono in \<open>simp_all add: later_def\<close>)
  then show "in_time nd' n'"
    unfolding nd' by (intro in_time_insert [OF time \<open>node_later n n'\<close>]) (simp add: late_next n')
  show "shared_node nd' = (shared_node nd)(code \<mapsto> spec (hash64_id (node_platform n)) (hash64_ep (node_platform n)) (shared_topic_of d))"
    if "fits T E" "alive T E (shared_topic_of d)" "inj_on (hash64_ep (node_platform n)) E"
      "unexpired T (proposal_context_new n) (proposal_context_new n')"
  proof -
    have "unexpired T ?c c2" using that(4) by (simp add: unexpired_def n')
    from unexpired_split [OF this l] have "unexpired T ?c c'" ..
    from refines [OF inv ok late that(1,2) _ op this] that(3) show ?thesis
      by (simp add: nd' shared_node_def fun_eq_iff)
  qed
qed

end

lemma push_durable_messages:
  "hm_get (hold_messages (fold push_durable_message ms q)) i = Some hm \<Longrightarrow>
    (\<exists>m \<in> set ms. held_message hm = dm_message m) \<or> hm_get (hold_messages q) i = Some hm"
proof (induction ms arbitrary: q)
  case (Cons m ms)
  then show ?case by (fastforce simp: hm_get_push_durable split: if_splits)
qed simp

lemma load_shared:
  assumes "load_ok lt"
  shows "\<forall>p \<in> set (time_id (td_queue (topic_from_durable (lt_config lt) (sort_key dm_time (lt_queue lt))))).
      fst p \<in> dm_time ` set (lt_queue lt)"
    "\<forall>m \<in> set (lt_queue lt). lives T (dm_message m) \<Longrightarrow> alive T E (sp_load lt)"
proof -
  let ?ms = "sort_key dm_time (sort_key dm_time (lt_queue lt))"
  let ?d = "topic_from_durable (lt_config lt) (sort_key dm_time (lt_queue lt))"
  have "distinct (map dm_time ?ms)" "distinct (map (\<lambda>m. msg_id (dm_message m)) ?ms)"
    using assms by (simp_all add: load_ok_def distinct_map inj_on_def)
  moreover from this(1) have "sorted_wrt (<) (map dm_time ?ms)" by (simp add: strict_sorted_iff)
  ultimately have "time_id (td_queue ?d) = map (\<lambda>m. (dm_time m, msg_id (dm_message m))) ?ms"
    using push_durable_all [OF queue_inv_new, of ?ms "cfg_blocking (lt_config lt)"] assms
    by (simp add: topic_from_durable_def queue_new_def load_ok_def)
  then show "\<forall>p \<in> set (time_id (td_queue ?d)). fst p \<in> dm_time ` set (lt_queue lt)" by auto
  have q: "queue_inv (td_queue ?d)" using topic_inv_from_durable [OF assms] by (simp add: topic_inv_def)
  have msg: "sh_message e \<in> dm_message ` set (lt_queue lt)" if e: "e \<in> set (entries (td_queue ?d))" for e
  proof -
    obtain hm where hm: "hm_get (hold_messages (td_queue ?d)) (sh_id e) = Some hm" "e = shared_of hm"
      using e in_entries [OF q] by blast
    from push_durable_messages [OF hm(1) [unfolded topic_from_durable_def topic_data.simps]]
    have "\<exists>m \<in> set ?ms. held_message hm = dm_message m" by (simp add: queue_new_def)
    then show ?thesis using hm(2) by auto
  qed
  have none: "interest_map_find (interest_map_new :: endpoint_addr interest_map) s = {}" for s
    by (simp add: imap.lookup_eq imap.inv_new imap.subscribed_new)
  show "alive T E (sp_load lt)" if live: "\<forall>m \<in> set (lt_queue lt). lives T (dm_message m)"
  proof -
    have "all_live T (entries (td_queue ?d))" unfolding all_live_def using live by (auto dest!: msg)
    moreover have "ep_interest_map ?d = interest_map_new" by (simp add: topic_from_durable_def)
    ultimately show ?thesis by (simp add: alive_def sp_load_def shared_topic_of_def none)
  qed
qed

lemma commit_unchanged:
  assumes "commit_and_drop (Inr (nd, c)) = Inr (nd', n')"
  shows "nd' = nd" "node_later (ctx_node c) n'"
  using assms by (auto simp: commit_and_drop_def and_then_Inr_iff later_node [symmetric] dest: later_commit)

lemma shared_node_unknown:
  assumes "hm_get (topics nd) (proposal_topic p) = None" "\<nexists>lt. p = LoadTopic lt"
  shows "sp_proposal hid hep p (shared_node nd) = shared_node nd"
proof -
  have "shared_node nd (proposal_topic p) = None" using assms(1) by (simp add: shared_node_def)
  then show ?thesis using assms(2) by (cases p) (auto simp: fun_eq_iff)
qed

text \<open>One proposal, on a topic that is not there.\<close>

lemma apply_unknown_shared:
  assumes ok: "proposal_ok p nd n" and time: "in_time nd n" and past: "loads_past p n"
    and none: "hm_get (topics nd) (proposal_topic p) = None"
    and run: "apply_proposal p nd n = Inr (nd', n')"
  shows "node_later n n'" "in_time nd' n'" "shared_node nd' = sp_proposal hid hep p (shared_node nd)"
proof -
  have "node_later n n' \<and> in_time nd' n' \<and> shared_node nd' = sp_proposal hid hep p (shared_node nd)"
  proof (cases "\<exists>lt. p = LoadTopic lt")
    case True
    then obtain lt where p: "p = LoadTopic lt" by blast
    let ?code = "cfg_code (lt_config lt)"
    let ?d = "topic_from_durable (lt_config lt) (sort_key dm_time (lt_queue lt))"
    have new: "hm_get (topics nd) ?code = None" and load: "load_ok lt" using none ok p by simp_all
    have run': "commit_and_drop (Inr (nd\<lparr>topics := hm_insert ?code ?d (topics nd)\<rparr>,
        (topic_context ?code n)\<lparr>ctx_node := insert_topic_handle ?code n\<rparr>)) = Inr (nd', n')"
      using run p new by (simp add: apply_load_topic_def Let_def)
    note c = commit_unchanged [OF run']
    have n': "node_later n n'" using c(2) by (simp add: node_later_def insert_topic_handle_def)
    then have "next_reading n \<le> next_reading n'" using next_reading_mono time by (simp add: in_time_def)
    then have "\<forall>t \<in> set (time_id (td_queue ?d)). fst t < next_reading n'"
      using load_shared(1) [OF load] past p by fastforce
    from in_time_insert [OF time n' this] have "in_time nd' n'" unfolding c(1) .
    then show ?thesis using n' c(1) p new by (simp add: shared_node_def sp_load_def fun_eq_iff)
  next
    case False
    have "nd' = apply_unload_topic (proposal_topic p) nd \<and> n' = n \<or> nd' = nd \<and> node_later n n'"
      using run none False
      by (cases p) (auto simp: apply_delegate_message_def apply_set_state_def apply_ep_online_def apply_ep_offline_def
          apply_ep_interest_def dest: commit_unchanged)
    moreover have "shared_node (apply_unload_topic (proposal_topic p) nd) = shared_node nd"
      using none by (auto simp: shared_node_def apply_unload_topic_def fun_eq_iff)
    ultimately show ?thesis
      using shared_node_unknown [OF none False] in_time_same [OF time] in_time_remove [OF time] by auto
  qed
  then show "node_later n n'" "in_time nd' n'" "shared_node nd' = sp_proposal hid hep p (shared_node nd)" by blast+
qed

text \<open>One proposal, on a topic that is there.\<close>

lemma shared_node_known:
  "hm_get (topics nd) code = Some d \<Longrightarrow> shared_node nd code = Some (shared_topic_of d)"
  by (simp add: shared_node_def)

lemma apply_known_shared:
  assumes sm: "sm_ok nd n" and ok: "proposal_ok p nd n" and time: "in_time nd n"
    and d: "hm_get (topics nd) (proposal_topic p) = Some d"
    and run: "apply_proposal p nd n = Inr (nd', n')"
  shows "node_later n n'" "in_time nd' n'"
    "proposal_fits T E p \<Longrightarrow> alive T E (shared_topic_of d) \<Longrightarrow> inj_on (hash64_ep (node_platform n)) E \<Longrightarrow>
      unexpired T (proposal_context_new n) (proposal_context_new n') \<Longrightarrow>
      shared_node nd' = sp_proposal (hash64_id (node_platform n)) (hash64_ep (node_platform n)) p (shared_node nd)"
proof -
  let ?hid = "hash64_id (node_platform n)" and ?hep = "hash64_ep (node_platform n)"
  have "node_later n n' \<and> in_time nd' n' \<and>
    (proposal_fits T E p \<longrightarrow> alive T E (shared_topic_of d) \<longrightarrow> inj_on ?hep E \<longrightarrow>
      unexpired T (proposal_context_new n) (proposal_context_new n') \<longrightarrow>
      shared_node nd' = sp_proposal ?hid ?hep p (shared_node nd))"
  proof (cases p)
    case (DelegateMessage dg)
    note p = hold_shared.on_topic_shared [OF sm, of "dg_topic dg" d "dg_message dg", OF _ _ time]
    show ?thesis using p(1,2) p(3) [of nd' n' T E] d ok run shared_node_known [OF d]
      unfolding DelegateMessage by (simp add: apply_delegate_message_def)
  next
    case (SetState ss)
    note p = update_shared.on_topic_shared [OF sm, of "ss_topic ss" d "ss_update ss", OF _ _ time]
    show ?thesis using p(1,2) p(3) [of nd' n' T E] d run shared_node_known [OF d]
      unfolding SetState by (simp add: apply_set_state_def)
  next
    case (EpOnline e)
    note p = online_shared.on_topic_shared [OF sm, of "on_topic_code e" d "on_endpoint e" "on_interests e" "on_host e", OF _ _ time]
    show ?thesis using p(1,2) p(3) [of nd' n' E T] d run shared_node_known [OF d]
      unfolding EpOnline by (simp add: apply_ep_online_def)
  next
    case (EpOffline e)
    note p = offline_shared.on_topic_shared [OF sm, of "off_topic_code e" d "off_host e" "off_endpoint e", OF _ _ time]
    show ?thesis using p(1,2) p(3) [of nd' n' T E] d run shared_node_known [OF d]
      unfolding EpOffline by (simp add: apply_ep_offline_def)
  next
    case (EpInterest e)
    note p = interest_shared.on_topic_shared [OF sm, of "ei_topic_code e" d "ei_endpoint e" "ei_interests e", OF _ _ time]
    show ?thesis using p(1,2) p(3) [of nd' n' E T] d run shared_node_known [OF d]
      unfolding EpInterest by (simp add: apply_ep_interest_def)
  next
    case (LoadTopic lt)
    then have "nd' = nd" "n' = n" using run d by (simp_all add: apply_load_topic_def)
    then show ?thesis using time d LoadTopic shared_node_known [OF d] by simp
  next
    case (UnloadTopic code)
    then show ?thesis using run in_time_remove [OF time]
      by (auto simp: shared_node_def apply_unload_topic_def fun_eq_iff)
  qed
  then show "node_later n n'" "in_time nd' n'"
    "proposal_fits T E p \<Longrightarrow> alive T E (shared_topic_of d) \<Longrightarrow> inj_on ?hep E \<Longrightarrow>
      unexpired T (proposal_context_new n) (proposal_context_new n') \<Longrightarrow>
      shared_node nd' = sp_proposal ?hid ?hep p (shared_node nd)"
    by blast+
qed

lemma all_alive_proposal:
  assumes alive: "all_alive T E N" and inv: "\<And>code t. N code = Some t \<Longrightarrow> interest_map_inv (st_interests t)"
    and fits: "proposal_fits T E p" and load: "\<And>lt. p = LoadTopic lt \<Longrightarrow> load_ok lt"
  shows "all_alive T E (sp_proposal hid hep p N)"
proof -
  have t: "alive T E t" "interest_map_inv (st_interests t)" if "N code = Some t" for code t
    using alive inv that by (auto simp: all_alive_def)
  show ?thesis
  proof (cases p)
    case (LoadTopic lt)
    then show ?thesis using alive fits load load_shared(2) [of lt T E] by (auto intro!: all_alive_update)
  qed (use t fits alive alive_hold alive_update alive_interests alive_offline in \<open>auto intro!: all_alive_update\<close>)
qed

lemma apply_proposal_shared:
  assumes sm: "sm_ok nd n" and ok: "proposal_ok p nd n" and time: "in_time nd n" and past: "loads_past p n"
    and run: "apply_proposal p nd n = Inr (nd', n')"
  shows "node_later n n'" "in_time nd' n'"
    "proposal_fits T E p \<Longrightarrow> all_alive T E (shared_node nd) \<Longrightarrow> inj_on (hash64_ep (node_platform n)) E \<Longrightarrow>
      unexpired T (proposal_context_new n) (proposal_context_new n') \<Longrightarrow>
      shared_node nd' = sp_proposal (hash64_id (node_platform n)) (hash64_ep (node_platform n)) p (shared_node nd) \<and>
      all_alive T E (shared_node nd')"
proof -
  let ?hid = "hash64_id (node_platform n)" and ?hep = "hash64_ep (node_platform n)"
  show "node_later n n'" "in_time nd' n'"
    using apply_unknown_shared(1,2) [OF ok time past _ run] apply_known_shared(1,2) [OF sm ok time _ run]
    by (cases "hm_get (topics nd) (proposal_topic p)"; blast)+
  show "shared_node nd' = sp_proposal ?hid ?hep p (shared_node nd) \<and> all_alive T E (shared_node nd')"
    if a: "proposal_fits T E p" "all_alive T E (shared_node nd)" "inj_on ?hep E"
      "unexpired T (proposal_context_new n) (proposal_context_new n')"
  proof -
    have "shared_node nd' = sp_proposal ?hid ?hep p (shared_node nd)"
    proof (cases "hm_get (topics nd) (proposal_topic p)")
      case None
      show ?thesis by (rule apply_unknown_shared(3) [OF ok time past None run])
    next
      case (Some d)
      have "alive T E (shared_topic_of d)" using a(2) shared_node_known [OF Some] by (simp add: all_alive_def)
      then show ?thesis by (rule apply_known_shared(3) [OF sm ok time Some run a(1) _ a(3,4)])
    qed
    moreover have "interest_map_inv (st_interests t)" if "shared_node nd code = Some t" for code t
      using that sm_okD(1) [OF sm, of code] by (auto simp: shared_node_def shared_topic_of_def topic_inv_def)
    moreover have "load_ok lt" if "p = LoadTopic lt" for lt using ok that by simp
    ultimately show ?thesis using all_alive_proposal [OF a(2) _ a(1)] by simp
  qed
qed

section \<open>The log\<close>

definition sp_entry ::
  "(message_id \<Rightarrow> u64) \<Rightarrow> (endpoint_addr \<Rightarrow> u64) \<Rightarrow> ('l, 'm) entry
    \<Rightarrow> (topic_code \<Rightarrow> shared_topic option) \<Rightarrow> topic_code \<Rightarrow> shared_topic option" where
  "sp_entry hid hep e N = (case entry_data e of Normal p \<Rightarrow> sp_proposal hid hep p N | _ \<Rightarrow> N)"

definition entry_fits :: "time \<Rightarrow> endpoint_addr set \<Rightarrow> ('l, 'm) entry \<Rightarrow> bool" where
  "entry_fits T E e = (case entry_data e of Normal p \<Rightarrow> proposal_fits T E p | _ \<Rightarrow> True)"

definition entry_past :: "('l, 'm) entry \<Rightarrow> node_inner \<Rightarrow> bool" where
  "entry_past e n = (case entry_data e of Normal p \<Rightarrow> loads_past p n | _ \<Rightarrow> True)"

text \<open>The clock of a node does not pass \<open>T\<close> on the way.\<close>

definition clock_within :: "time \<Rightarrow> node_inner \<Rightarrow> node_inner \<Rightarrow> bool" where
  "clock_within T n n' \<longleftrightarrow>
    (\<forall>k. clock_reads n \<le> k \<and> k < clock_reads n' \<longrightarrow> clock (node_platform n) k \<le> T)"

text \<open>
  A replica that follows the log: its state is well-formed, its clock runs ahead of its messages
  and of those that are loaded, and it hashes the endpoints of \<open>E\<close> without collisions.
\<close>

definition follows :: "endpoint_addr set \<Rightarrow> ('l, 'm) entry list \<Rightarrow> ('l, 'm) state_machine_store \<Rightarrow> node_inner \<Rightarrow> bool" where
  "follows E es st n \<longleftrightarrow> node_ref st = Some n \<and> store_ok st \<and> entries_ok es st \<and>
    in_time (sm_node (state_machine st)) n \<and> inj_on (hash64_ep (node_platform n)) E \<and> (\<forall>e \<in> set es. entry_past e n)"

abbreviation shared_store :: "('l, 'm) state_machine_store \<Rightarrow> topic_code \<Rightarrow> shared_topic option" where
  "shared_store st \<equiv> shared_node (sm_node (state_machine st))"

lemma entry_past_later:
  assumes "entry_past e n" "node_later n n'" "strict_mono (clock (node_platform n))"
  shows "entry_past e n'"
proof -
  have "loads_past p n'" if "loads_past p n" for p
    using that next_reading_mono [OF assms(2,3)] by (cases p) fastforce+
  then show ?thesis using assms(1) by (simp add: entry_past_def split: entry_payload.splits)
qed

lemma clock_within_split:
  "clock_within T a c \<Longrightarrow> node_later a b \<Longrightarrow> node_later b c \<Longrightarrow> clock_within T a b \<and> clock_within T b c"
  by (auto simp: clock_within_def node_later_def)

lemma apply_entry_shared:
  assumes fol: "follows E (e # es) st n" and run: "apply_entry e st = Inr (r, st')"
  shows "\<exists>n'. follows E es st' n' \<and> node_later n n' \<and>
    (entry_fits T E e \<longrightarrow> all_alive T E (shared_store st) \<longrightarrow> clock_within T n n' \<longrightarrow>
      shared_store st' = sp_entry (hash64_id (node_platform n)) (hash64_ep (node_platform n)) e (shared_store st) \<and>
      all_alive T E (shared_store st'))"
proof -
  let ?nd = "sm_node (state_machine st)"
  have f: "node_ref st = Some n" "store_ok st" "entry_ok e st" "entries_ok es st'" "in_time ?nd n"
    "inj_on (hash64_ep (node_platform n)) E" "entry_past e n" "\<forall>e \<in> set es. entry_past e n"
    using fol run by (auto simp: follows_def)
  have st': "store_ok st'" using apply_entry_returns [OF f(2,3)] run by auto
  show ?thesis
  proof (cases "\<exists>p. entry_data e = Normal p")
    case True
    then obtain p where p: "entry_data e = Normal p" by blast
    obtain nd1 n1 where a: "apply_proposal p ?nd n = Inr (nd1, n1)" "sm_node (state_machine st') = nd1" "node_ref st' = Some n1"
      using run p f(1) by (auto simp: apply_entry_def Let_def and_then_Inr_iff)
    have ok: "sm_ok ?nd n" "proposal_ok p ?nd n" "loads_past p n"
      using f(1-3,7) p by (simp_all add: store_ok_def entry_ok_def entry_past_def)
    note s = apply_proposal_shared [OF ok(1,2) f(5) ok(3) a(1)]
    have "\<forall>e \<in> set es. entry_past e n1"
      using f(5,8) by (auto simp: in_time_def intro: entry_past_later [OF _ s(1)])
    then have "follows E es st' n1"
      using st' f(4,6) s(1,2) a(2,3) by (simp add: follows_def node_later_def)
    moreover have "unexpired T (proposal_context_new n) (proposal_context_new n1) \<longleftrightarrow> clock_within T n n1"
      by (simp add: unexpired_def clock_within_def)
    ultimately show ?thesis
      using s(1) s(3) [of T E] f(6) a(2) p by (auto simp: entry_fits_def sp_entry_def)
  next
    case False
    then have "sm_node (state_machine st') = ?nd" "node_ref st' = Some n"
      using run f(1) by (auto simp: apply_entry_def Let_def split: entry_payload.splits)
    then show ?thesis
      using st' f False by (intro exI [of _ n]) (auto simp: follows_def sp_entry_def split: entry_payload.splits)
  qed
qed

lemma apply_entries_shared:
  assumes "follows E es st n" "apply_entries es st = Inr (rs, st')"
  shows "\<exists>n'. node_ref st' = Some n' \<and> node_later n n' \<and>
    ((\<forall>e \<in> set es. entry_fits T E e) \<longrightarrow> all_alive T E (shared_store st) \<longrightarrow> clock_within T n n' \<longrightarrow>
      shared_store st' = fold (sp_entry (hash64_id (node_platform n)) (hash64_ep (node_platform n))) es (shared_store st))"
  using assms
proof (induction es arbitrary: st n rs)
  case Nil
  then show ?case by (auto simp: follows_def)
next
  case (Cons e es)
  obtain r st1 rs1 where 1: "apply_entry e st = Inr (r, st1)" "apply_entries es st1 = Inr (rs1, st')"
    using Cons.prems(2) by (auto simp: and_then_Inr_iff)
  obtain n1 where n1: "follows E es st1 n1" "node_later n n1"
    "entry_fits T E e \<Longrightarrow> all_alive T E (shared_store st) \<Longrightarrow> clock_within T n n1 \<Longrightarrow>
      shared_store st1 = sp_entry (hash64_id (node_platform n)) (hash64_ep (node_platform n)) e (shared_store st) \<and>
      all_alive T E (shared_store st1)"
    using apply_entry_shared [OF Cons.prems(1) 1(1), of T] by blast
  obtain n' where n': "node_ref st' = Some n'" "node_later n1 n'"
    "(\<forall>e \<in> set es. entry_fits T E e) \<Longrightarrow> all_alive T E (shared_store st1) \<Longrightarrow> clock_within T n1 n' \<Longrightarrow>
      shared_store st' = fold (sp_entry (hash64_id (node_platform n1)) (hash64_ep (node_platform n1))) es (shared_store st1)"
    using Cons.IH [OF n1(1) 1(2)] by blast
  have pl: "node_platform n1 = node_platform n" using n1(2) by (simp add: node_later_def)
  show ?case
  proof (intro exI [of _ n'] conjI impI)
    show "node_ref st' = Some n'" "node_later n n'" using n'(1) node_later_trans [OF n1(2) n'(2)] .
    assume a: "\<forall>e \<in> set (e # es). entry_fits T E e" "all_alive T E (shared_store st)" "clock_within T n n'"
    have c: "clock_within T n n1" "clock_within T n1 n'" using clock_within_split [OF a(3) n1(2) n'(2)] by simp_all
    have "entry_fits T E e" using a(1) by simp
    from n1(3) [OF this a(2) c(1)] have s1: "shared_store st1 =
        sp_entry (hash64_id (node_platform n)) (hash64_ep (node_platform n)) e (shared_store st)"
      "all_alive T E (shared_store st1)" by blast+
    from n'(3) [OF _ s1(2) c(2)] a(1) s1(1)
    show "shared_store st' =
        fold (sp_entry (hash64_id (node_platform n)) (hash64_ep (node_platform n))) (e # es) (shared_store st)"
      by (simp add: pl)
  qed
qed

lemma apply_entries_return:
  assumes "store_ok st" "entries_ok es st" "node_ref st \<noteq> None"
  shows "\<exists>st'. apply_entries es st = Inr (replicate (length es) RespOk, st')"
  using assms
proof (induction es arbitrary: st)
  case (Cons e es)
  then obtain st1 where "apply_entry e st = Inr (RespOk, st1)" "store_ok st1" "node_ref st1 \<noteq> None" "entries_ok es st1"
    using apply_entry_returns [of st e] by (auto split: sum.splits)
  with Cons.IH [of st1] show ?case by auto
qed simp

text \<open>
  (C4) Replicas agree.  Two nodes start with the same shared topics and apply the same log, each with
  its own clock, iteration orders, identity and local endpoints; they hash alike and without
  collisions on the endpoints \<open>E\<close>, their clocks move, and no durable message of the log or of the
  start expires before \<open>T\<close>.  Then both return, give the same responses, and if neither clock has
  passed \<open>T\<close>, both have the topics the specification gives: the same messages in the same order,
  with the same acknowledgements, the same routing and the same interests.
\<close>

theorem replicas_agree:
  assumes "follows E es st1 n1" "follows E es st2 n2"
    "hash64_id (node_platform n2) = hash64_id (node_platform n1)"
    "hash64_ep (node_platform n2) = hash64_ep (node_platform n1)"
    "\<forall>e \<in> set es. entry_fits T E e" "all_alive T E (shared_store st1)" "shared_store st2 = shared_store st1"
  shows "\<exists>rs st1' n1' st2' n2'.
    apply_entries es st1 = Inr (rs, st1') \<and> node_ref st1' = Some n1' \<and>
    apply_entries es st2 = Inr (rs, st2') \<and> node_ref st2' = Some n2' \<and>
    (clock_within T n1 n1' \<and> clock_within T n2 n2' \<longrightarrow>
      shared_store st2' = shared_store st1' \<and>
      shared_store st1' =
        fold (sp_entry (hash64_id (node_platform n1)) (hash64_ep (node_platform n1))) es (shared_store st1))"
proof -
  obtain st1' st2' where run: "apply_entries es st1 = Inr (replicate (length es) RespOk, st1')"
    "apply_entries es st2 = Inr (replicate (length es) RespOk, st2')"
    using apply_entries_return [of st1 es] apply_entries_return [of st2 es] assms(1,2) by (auto simp: follows_def)
  obtain n1' where 1: "node_ref st1' = Some n1'" "clock_within T n1 n1' \<Longrightarrow> shared_store st1' =
      fold (sp_entry (hash64_id (node_platform n1)) (hash64_ep (node_platform n1))) es (shared_store st1)"
    using apply_entries_shared [OF assms(1) run(1), of T] assms(5,6) by blast
  obtain n2' where 2: "node_ref st2' = Some n2'" "clock_within T n2 n2' \<Longrightarrow> shared_store st2' =
      fold (sp_entry (hash64_id (node_platform n1)) (hash64_ep (node_platform n1))) es (shared_store st1)"
    using apply_entries_shared [OF assms(2) run(2), of T] assms(3-7) by auto
  show ?thesis using run 1 2 by auto
qed

section \<open>Replicas that come apart\<close>

definition empty_topic :: "topic_code \<Rightarrow> bool \<Rightarrow> topic_data" where
  "empty_topic code b = topic_from_durable \<lparr>cfg_code = code, cfg_blocking = b, overflow_config = None\<rparr> []"

lemma empty_topic_targets: "collect_addr_by_subjects (empty_topic code b) subs = {}"
  by (simp add: collect_addr_eq empty_topic_def topic_from_durable_def imap.lookup_eq imap.inv_new imap.subscribed_new)

lemma no_order: "platform_ok pl \<Longrightarrow> ep_order pl {} = []"
  unfolding platform_ok_def by (metis finite.emptyI set_empty)

text \<open>A durable message that comes to an empty topic stays unless it has expired by the second reading of the clock.\<close>

lemma hold_durable_first:
  assumes kind: "target_kind (header m) = Durable" "durability (header m) = Some dc" "max_receiver dc = None"
    and pl: "ctx_ok c"
  shows "\<exists>d' c'. hold_new_message m (empty_topic code b) c = Inr (d', c') \<and>
    held_ids (td_queue d') =
      (if clock (node_platform (ctx_node c)) (Suc (reads c)) > expire dc then {} else {msg_id m})"
proof -
  let ?hm = "\<lparr>held_message = m, held_wait_ack = wait_ack_new (msg_ack_kind m) []\<rparr>"
  let ?q = "\<lparr>blocking = b, hold_messages = [(msg_id m, ?hm)], time_id = [(fst (ctx_now c), msg_id m)],
    id_time = [(msg_id m, fst (ctx_now c))], resolved = {}, mq_size = 1\<rparr>"
  let ?u = "state_update_new_empty (msg_id m)"
  let ?c = "push_durable_command (UpdateStatus ?u) (push_durable_command (Create m) (snd (ctx_now c)))"
  have hold: "hold_new_message m (empty_topic code b) c =
      update_and_flush ?u ((empty_topic code b)\<lparr>td_queue := ?q\<rparr>) (push_durable_command (Create m) (snd (ctx_now c)))"
    using kind(1) by (simp add: hold_new_message_def empty_topic_targets hold_for_def no_order [OF pl])
      (simp add: put_in_queue_def empty_topic_def topic_from_durable_def enqueue_message_def queue_push_def queue_new_def
        case_prod_unfold Let_def)
  have now: "fst (ctx_now ?c) = clock (node_platform (ctx_node c)) (Suc (reads c))"
    by (simp add: ctx_now_def utc_now_def push_durable_command_def push_durable_commands_def)
  have same: "hm_insert (msg_id m) ?hm [(msg_id m, ?hm)] = [(msg_id m, ?hm)]" by simp
  have "send_unsent r ?hm ?c = (?hm, ?c)" for r by (simp add: send_unsent_def wait_ack_new_def)
  then have poll: "poll_message (msg_id m) r ?q ?c = (if expire dc < fst (ctx_now ?c)
      then (Some Ready, ?q\<lparr>resolved := {msg_id m}\<rparr>, snd (ctx_now ?c)) else (Some Pending, ?q, snd (ctx_now ?c)))" for r
    using kind by (simp add: poll_message_def poll_message_inner_def get_front_def hold_is_resolved_def case_prod_unfold Let_def same)
  have flush: "\<exists>q' c'. flush r (?q\<lparr>resolved := {msg_id m}\<rparr>) (snd (ctx_now ?c)) = Inr (q', c') \<and> hold_messages q' = []" for r
  proof (cases b)
    case True
    then show ?thesis
      by (simp add: flush_def flush_blocking.simps [of r] blocking_pop_def get_front_def poll_message_def queue_pop_def usize_dec_def)
  next
    case False
    have "id_order (node_platform (ctx_node (snd (ctx_now ?c)))) {msg_id m} = [msg_id m]"
      using id_order_single [OF pl] by (simp add: ctx_now_def utc_now_def push_durable_command_def push_durable_commands_def)
    with False show ?thesis
      by (simp add: flush_def swap_out_resolved_def queue_remove_def usize_dec_def)
  qed
  show ?thesis
  proof (cases "expire dc < fst (ctx_now ?c)")
    case True
    let ?r = "reachable_eps ((empty_topic code b)\<lparr>td_queue := ?q\<rparr>) (node_config_id (ctx_node (push_durable_command (Create m) (snd (ctx_now c)))))"
    obtain q' c' where "flush ?r (?q\<lparr>resolved := {msg_id m}\<rparr>) (snd (ctx_now ?c)) = Inr (q', c')" "hold_messages q' = []"
      using flush by blast
    with True poll [of ?r] show ?thesis
      by (simp add: hold now update_and_flush_def Let_def) (simp add: state_update_new_empty_def)
  next
    case False
    with poll show ?thesis
      by (simp add: hold now update_and_flush_def Let_def) (simp add: state_update_new_empty_def)
  qed
qed

text \<open>
  (C40) Expiry is decided by the clock of each replica when it happens to poll the message: of two replicas
  that apply the same proposal one holds the message and the other has released it.
\<close>

theorem expiry_splits_replicas:
  assumes "target_kind (header m) = Durable" "durability (header m) = Some dc" "max_receiver dc = None"
    "ctx_ok c1" "ctx_ok c2"
    "clock (node_platform (ctx_node c1)) (Suc (reads c1)) \<le> expire dc"
    "expire dc < clock (node_platform (ctx_node c2)) (Suc (reads c2))"
  shows "\<exists>d1 c1' d2 c2'. hold_new_message m (empty_topic code b) c1 = Inr (d1, c1') \<and>
    hold_new_message m (empty_topic code b) c2 = Inr (d2, c2') \<and>
    held_ids (td_queue d1) = {msg_id m} \<and> held_ids (td_queue d2) = {}"
proof -
  obtain d1 c1' where "hold_new_message m (empty_topic code b) c1 = Inr (d1, c1')" "held_ids (td_queue d1) = {msg_id m}"
    using hold_durable_first [OF assms(1-4), of code b] assms(6) by auto
  moreover obtain d2 c2' where "hold_new_message m (empty_topic code b) c2 = Inr (d2, c2')" "held_ids (td_queue d2) = {}"
    using hold_durable_first [OF assms(1-3,5), of code b] assms(7) by auto
  ultimately show ?thesis by blast
qed

text \<open>
  The order of the queue is that of the clock readings.  Two replicas hold message 1 and are brought
  the messages 2 and 3 on a topic bounded by two that drops the oldest; one clock steps back before
  message 2 arrives.  One replica is left with the messages 2 and 3, the other with 1 and 3.
\<close>

definition bounded_topic :: topic_data where
  "bounded_topic =
    \<lparr>td_config = \<lparr>cfg_code = example_topic, cfg_blocking = False, overflow_config = Some (new_drop_old 2)\<rparr>,
     ep_routing_table = [],
     ep_interest_map = interest_map_insert (Interest [97]) (EndpointAddr [1]) interest_map_new,
     td_queue = \<lparr>blocking = False, hold_messages = [(MessageId [1], example_held 1 [(EndpointAddr [1], Unsent)])],
       time_id = [(10, MessageId [1])], id_time = [(MessageId [1], 10)], resolved = {}, mq_size = 1\<rparr>\<rparr>"

definition context_with_clock :: "(nat \<Rightarrow> time) \<Rightarrow> proposal_context" where
  "context_with_clock f = later_context\<lparr>ctx_node := later_node\<lparr>node_platform := example_platform\<lparr>clock := f\<rparr>\<rparr>\<rparr>"

definition hold_two :: "proposal_context \<Rightarrow> message_id list outcome" where
  "hold_two c =
    and_then (hold_new_message (example_message 2 Online) bounded_topic c) (\<lambda>(d, c).
    and_then (hold_new_message (example_message 3 Online) d c) (\<lambda>(d, c).
    Inr (map snd (time_id (td_queue d)))))"

theorem clock_step_back_splits_replicas:
  "hold_two (context_with_clock int) = Inr [MessageId [2], MessageId [3]]"
  "hold_two (context_with_clock (\<lambda>k. if k = 11 then 5 else int k)) = Inr [MessageId [1], MessageId [3]]"
  by code_simp+

section \<open>Witnesses\<close>

definition other_platform :: platform where
  "other_platform = example_platform\<lparr>clock := (\<lambda>k. 7 * int k), ep_order := (\<lambda>S. rev (sorted_list_of_set S)),
     id_order := (\<lambda>S. rev (sorted_list_of_set S))\<rparr>"

definition other_store :: "(nat, nat) state_machine_store" where
  "other_store = example_store\<lparr>node_ref := Some (later_node\<lparr>node_config_id := NodeId [2], node_platform := other_platform\<rparr>)\<rparr>"

definition example_log :: "(nat, nat) entry list" where
  "example_log =
    [\<lparr>entry_log_id = 1, entry_data = Normal example_proposal\<rparr>,
     \<lparr>entry_log_id = 2, entry_data = Normal (SetState \<lparr>ss_topic = example_topic,
        ss_update = \<lparr>upd_message_id = MessageId [3], upd_status = [(EndpointAddr [1], Received)]\<rparr>\<rparr>)\<rparr>,
     \<lparr>entry_log_id = 3, entry_data = Normal (EpOffline \<lparr>off_topic_code = example_topic,
        off_endpoint = EndpointAddr [1], off_host = NodeId [1]\<rparr>)\<rparr>]"

lemma undemanding_entries_ok:
  assumes "store_ok st" "\<forall>e \<in> set es. \<forall>st. entry_ok e (st :: ('l, 'm) state_machine_store)"
  shows "entries_ok es st"
  using assms
proof (induction es arbitrary: st)
  case (Cons e es)
  then show ?case using apply_entry_returns [of st e] by fastforce
qed simp

lemma example_log_ok:
  assumes "store_ok st" "sm_node (state_machine st) = example_node_data" "node_ref st = Some n"
    "proposal_ok example_proposal example_node_data n"
  shows "entries_ok example_log st"
proof -
  let ?e = "hd example_log"
  have ok: "entry_ok ?e st" using assms by (simp add: example_log_def entry_ok_def)
  have "\<forall>e \<in> set (tl example_log). \<forall>st. entry_ok e st"
    by (auto simp: example_log_def entry_ok_def split: option.splits)
  moreover obtain r st1 where "apply_entry ?e st = Inr (r, st1)" "store_ok st1"
    using apply_entry_returns [OF assms(1) ok] by blast
  ultimately have "entries_ok (?e # tl example_log) st"
    using ok undemanding_entries_ok [of st1 "tl example_log"] by simp
  then show ?thesis by (simp add: example_log_def)
qed

lemma example_nodes:
  "clock_reads later_node = 11" "node_platform later_node = example_platform"
  by (simp_all add: later_node_def later_context_def example_context_def example_node_def ctx_now_def utc_now_def)

lemma example_in_time:
  assumes "strict_mono (clock (node_platform n))" "10 < next_reading n"
  shows "in_time example_node_data n"
  using assms by (auto simp: in_time_def example_node_data_def example_topic_data_def split: if_splits)

lemma example_sm_ok_any:
  assumes "platform_ok (node_platform n)" "node_topics n = node_topics later_node"
  shows "sm_ok example_node_data n"
  using assms example_sm_ok by (simp add: sm_ok_def get_topic_def)

lemma example_proposal_fresh:
  assumes "next_reading n = t" "t \<notin> {3, 10}"
  shows "proposal_ok example_proposal example_node_data n"
  using assms
  by (simp add: example_proposal_def example_node_data_def entry_fresh_def example_topic_data_def ctx_now_def utc_now_def)
    (simp add: example_queue_def example_message_def)

lemma example_follows:
  assumes "platform_ok (node_platform n)" "node_topics n = node_topics later_node" "strict_mono (clock (node_platform n))"
    "10 < next_reading n" "node_ref st = Some n" "sm_node (state_machine st) = example_node_data"
  shows "follows {EndpointAddr [1]} example_log st n"
proof -
  have "store_ok st" using example_sm_ok_any [OF assms(1,2)] assms(5,6) by (simp add: store_ok_def)
  moreover have "proposal_ok example_proposal example_node_data n"
    by (rule example_proposal_fresh [OF refl]) (use assms(4) in auto)
  moreover have "\<forall>e \<in> set example_log. entry_past e n"
    by (simp add: example_log_def entry_past_def example_proposal_def)
  ultimately show ?thesis
    using assms example_log_ok [of st n] example_in_time by (simp add: follows_def)
qed

lemma example_all_alive: "all_alive T {EndpointAddr [1]} (shared_store example_store)"
proof -
  have "lives T (sh_message e)" if e: "e \<in> set (entries (td_queue (example_topic_data b)))" for e b
  proof -
    have "sh_message e \<in> {example_message 1 Online, example_message 2 Online}"
      using e by (auto simp: entries_eq example_topic_data_def) (auto simp: example_queue_def example_held_def)
    then show ?thesis by (auto simp: lives_def)
  qed
  then have "alive T {EndpointAddr [1]} (shared_topic_of (example_topic_data b))" for b
    by (auto simp: alive_def all_live_def shared_topic_of_def)
      (auto simp: example_topic_data_def imap.lookup_ins imap.inv_new imap.lookup_eq imap.subscribed_new split: if_splits)
  then show ?thesis by (auto simp: all_alive_def shared_node_def example_node_data_def split: if_splits)
qed

theorem replicas_agree_witness:
  "\<exists>rs st1' n1' st2' n2'.
    apply_entries example_log example_store = Inr (rs, st1') \<and> node_ref st1' = Some n1' \<and>
    apply_entries example_log other_store = Inr (rs, st2') \<and> node_ref st2' = Some n2' \<and>
    (clock_within 1000 later_node n1' \<and>
      clock_within 1000 (later_node\<lparr>node_config_id := NodeId [2], node_platform := other_platform\<rparr>) n2' \<longrightarrow>
      shared_store st2' = shared_store st1')"
proof -
  let ?n2 = "later_node\<lparr>node_config_id := NodeId [2], node_platform := other_platform\<rparr>"
  have 1: "follows {EndpointAddr [1]} example_log example_store later_node"
    by (rule example_follows) (simp_all add: example_nodes)
  have 2: "follows {EndpointAddr [1]} example_log other_store ?n2"
    by (rule example_follows)
      (simp_all add: example_nodes other_store_def other_platform_def platform_ok_def strict_mono_def)
  have fits: "\<forall>e \<in> set example_log. entry_fits 1000 {EndpointAddr [1]} e"
    by (simp add: example_log_def entry_fits_def example_proposal_def lives_def)
  have same: "shared_store other_store = shared_store example_store" by (simp add: other_store_def)
  have hash: "hash64_id (node_platform ?n2) = hash64_id (node_platform later_node)"
    "hash64_ep (node_platform ?n2) = hash64_ep (node_platform later_node)"
    by (simp_all add: example_nodes other_platform_def)
  from replicas_agree [OF 1 2 hash fits example_all_alive same] show ?thesis by blast
qed

definition expiring_message :: message where
  "expiring_message = (example_message 4 Durable)\<lparr>header := (header (example_message 4 Durable))
     \<lparr>durability := Some \<lparr>expire = 50, max_receiver = None\<rparr>\<rparr>\<rparr>"

theorem expiry_splits_replicas_witness:
  "\<exists>d1 c1' d2 c2'. hold_new_message expiring_message (empty_topic example_topic False) later_context = Inr (d1, c1') \<and>
    hold_new_message expiring_message (empty_topic example_topic False) (context_with_clock (\<lambda>k. 7 * int k)) = Inr (d2, c2') \<and>
    held_ids (td_queue d1) = {MessageId [4]} \<and> held_ids (td_queue d2) = {}"
proof -
  have m: "target_kind (header expiring_message) = Durable"
    "durability (header expiring_message) = Some \<lparr>expire = 50, max_receiver = None\<rparr>" "msg_id expiring_message = MessageId [4]"
    by (simp_all add: expiring_message_def example_message_def)
  have c1: "ctx_ok later_context" "clock (node_platform (ctx_node later_context)) (Suc (reads later_context)) \<le> 50"
    using example_nodes by (simp_all add: later_node_def)
  have c2: "ctx_ok (context_with_clock (\<lambda>k. 7 * int k))"
    "50 < clock (node_platform (ctx_node (context_with_clock (\<lambda>k. 7 * int k)))) (Suc (reads (context_with_clock (\<lambda>k. 7 * int k))))"
    using example_platform_ok by (simp_all add: context_with_clock_def example_nodes platform_ok_def)
  from expiry_splits_replicas [OF m(1,2) _ c1(1) c2(1), of example_topic False] c1(2) c2(2) m(3) show ?thesis by simp
qed

end
