(* ===== verification/MQ_Durable.thy ===== *)
theory MQ_Durable
  imports MQ_Context
begin

text \<open>
  The durable service (\<open>topic/durable_message.rs\<close>): the query for a page, the task that
  \<open>commit_durable_commands\<close> spawns (\<open>raft/proposal.rs\<close>), and the loop of
  \<open>load_from_durable_service\<close> (\<open>node.rs\<close>) that reads the stored messages of a topic page by page.

  The service itself is what the user plugs in.  The calls it gets are values of the datatype
  \<open>durable_call\<close>; its answers matter for the page loop only, where \<open>batch_retrieve\<close> is a
  parameter.
\<close>

section \<open>Pages\<close>

record durable_message_query =
  q_limit :: u32
  q_offset :: u32

definition durable_query_new :: "u32 \<Rightarrow> u32 \<Rightarrow> durable_message_query" where
  "durable_query_new limit offset = \<lparr>q_limit = limit, q_offset = offset\<rparr>"

text \<open>Checked addition: an overflow panics.\<close>

definition u32_add :: "u32 \<Rightarrow> u32 \<Rightarrow> u32 outcome" where
  "u32_add a b = (if unat a + unat b < 2 ^ 32 then Inr (a + b) else Inl ArithOverflow)"

definition next_page :: "durable_message_query \<Rightarrow> durable_message_query outcome" where
  "next_page q = and_then (u32_add (q_offset q) (q_limit q)) (\<lambda>off. Inr \<lparr>q_limit = q_limit q, q_offset = off\<rparr>)"

abbreviation PAGE_SIZE :: u32 where "PAGE_SIZE \<equiv> 100"

lemma next_page_offset:
  assumes "next_page q = Inr q'"
  shows "unat (q_offset q') = unat (q_offset q) + unat (q_limit q)" "q_limit q' = q_limit q"
proof -
  have "unat (q_offset q) + unat (q_limit q) < 2 ^ 32" "q' = \<lparr>q_limit = q_limit q, q_offset = q_offset q + q_limit q\<rparr>"
    using assms by (auto simp: next_page_def u32_add_def split: if_splits)
  then show "unat (q_offset q') = unat (q_offset q) + unat (q_limit q)" "q_limit q' = q_limit q"
    by (simp_all add: unat_word_ariths)
qed

text \<open>
  The loop over the pages of one topic, at an offset: it ends with a page that is not full.  The
  checked addition in \<open>next_page\<close> ends it, too, if the service never runs out of full pages.
\<close>

function retrieve_pages ::
  "(durable_message_query \<Rightarrow> 'e + durable_message list) \<Rightarrow> u32 \<Rightarrow> durable_message list
    \<Rightarrow> ('e + durable_message list) outcome" where
  "retrieve_pages batch_retrieve offset queue =
    (let query = durable_query_new PAGE_SIZE offset in
     case batch_retrieve query of
       Inl e \<Rightarrow> Inr (Inl e)
     | Inr page \<Rightarrow>
         (let queue = queue @ page in
          if length page < unat PAGE_SIZE then Inr (Inr queue)
          else and_then (next_page query) (\<lambda>query. retrieve_pages batch_retrieve (q_offset query) queue)))"
  by pat_completeness auto

termination
proof (relation "measure (\<lambda>(_, off, _). 2 ^ 32 - unat off)")
  fix br :: "durable_message_query \<Rightarrow> 'e + durable_message list" and off :: u32
    and queue page queue' :: "durable_message list" and query query' :: durable_message_query
  assume "query = durable_query_new PAGE_SIZE off" "next_page query = Inr query'"
  then have "unat (q_offset query') = unat off + 100"
    using next_page_offset(1) [of query query'] by (simp add: durable_query_new_def)
  moreover have "unat (q_offset query') < 2 ^ 32"
    using unsigned_less [of "q_offset query'"] by simp
  ultimately show "((br, q_offset query', queue'), br, off, queue)
      \<in> measure (\<lambda>(_, off, _). 2 ^ 32 - unat off)"
    by simp
qed simp

declare retrieve_pages.simps [simp del]

text \<open>The messages of one topic, from the first page on.\<close>

definition load_queue ::
  "(durable_message_query \<Rightarrow> 'e + durable_message list) \<Rightarrow> ('e + durable_message list) outcome" where
  "load_queue batch_retrieve = retrieve_pages batch_retrieve 0 []"

section \<open>The commit task\<close>

datatype durable_call =
    CallSave topic_code durable_message
  | CallUpdateStatus topic_code message_state_update
  | CallArchive topic_code message_id

text \<open>
  One command, issued for the topic whose task runs; \<open>Create\<close> stamps the message with the clock.
\<close>

fun run_command :: "topic_code \<Rightarrow> durable_command \<Rightarrow> node_inner \<Rightarrow> durable_call \<times> node_inner" where
  "run_command topic (Create m) n =
    (let (t, n') = utc_now n in (CallSave topic \<lparr>dm_message = m, dm_status = [], dm_time = t\<rparr>, n'))"
| "run_command topic (UpdateStatus u) n = (CallUpdateStatus topic u, n)"
| "run_command topic (Archive i) n = (CallArchive topic i, n)"

fun run_commands :: "topic_code \<Rightarrow> durable_command list \<Rightarrow> node_inner \<Rightarrow> durable_call list \<times> node_inner" where
  "run_commands topic [] n = ([], n)"
| "run_commands topic (c # cs) n =
    (let (call, n') = run_command topic c n; (calls, n'') = run_commands topic cs n' in (call # calls, n''))"

text \<open>
  The task takes the queued commands of the whole node, and drops them when the node is not
  the leader (\<open>linearizable\<close>).
\<close>

definition commit_task :: "bool \<Rightarrow> topic_code \<Rightarrow> node_inner \<Rightarrow> durable_call list \<times> node_inner" where
  "commit_task linearizable topic n =
    (let (commands, n') = swap_out_durable_commands n in
     if \<not> linearizable then ([], n') else run_commands topic commands n')"

section \<open>Properties\<close>

text \<open>What a service does that keeps a list of messages per topic and honours limit and offset.\<close>

definition serves :: "(durable_message_query \<Rightarrow> 'e + durable_message list) \<Rightarrow> durable_message list \<Rightarrow> bool" where
  "serves batch_retrieve stored \<longleftrightarrow>
    (\<forall>q. batch_retrieve q = Inr (take (unat (q_limit q)) (drop (unat (q_offset q)) stored)))"

lemma retrieve_pages_suffix:
  assumes "serves br stored" "length stored < 2 ^ 32 - 100" "unat off \<le> length stored"
    and "queue = take (unat off) stored"
  shows "retrieve_pages br off queue = Inr (Inr stored)"
  using assms
proof (induction br off queue rule: retrieve_pages.induct)
  case (1 br off queue)
  let ?q = "durable_query_new PAGE_SIZE off" and ?page = "take 100 (drop (unat off) stored)"
  have page: "br ?q = Inr ?page" using 1(2) by (simp add: serves_def durable_query_new_def)
  have all: "queue @ ?page = take (unat off + 100) stored"
    unfolding 1(5) by (simp add: take_add)
  show ?case
  proof (cases "length ?page < 100")
    case True
    then have "length stored \<le> unat off + 100" by auto
    then show ?thesis using True page all by (simp add: retrieve_pages.simps [of br off queue] Let_def)
  next
    case False
    then have len: "unat off + 100 \<le> length stored" by auto
    then obtain q' where q': "next_page ?q = Inr q'"
      using 1(3) by (auto simp: next_page_def u32_add_def durable_query_new_def)
    then have off: "unat (q_offset q') = unat off + 100"
      using next_page_offset(1) [OF q'] by (simp add: durable_query_new_def)
    have "retrieve_pages br (q_offset q') (queue @ ?page) = Inr (Inr stored)"
      using 1(1) [OF refl page refl _ q' 1(2,3)] False off len all by simp
    then show ?thesis using False page q' by (simp add: retrieve_pages.simps [of br off queue] Let_def)
  qed
qed

text \<open>
  (C34) Loading reads every stored message once, in the order of the service, whatever their number
  below the range of the offset.
\<close>

theorem load_queue_complete:
  assumes "serves batch_retrieve stored" "length stored < 2 ^ 32 - 100"
  shows "load_queue batch_retrieve = Inr (Inr stored)"
  unfolding load_queue_def by (rule retrieve_pages_suffix [OF assms]) simp_all

definition example_stored :: "durable_message list" where
  "example_stored = map (\<lambda>i. \<lparr>dm_message = \<lparr>header = \<lparr>message_id = MessageId [of_nat i], ack_kind = AckSent,
    target_kind = Durable, durability = None, subjects = []\<rparr>, payload = []\<rparr>, dm_status = [], dm_time = int i\<rparr>) [0..<250]"

lemma load_queue_complete_witness:
  "load_queue (\<lambda>q. Inr (take (unat (q_limit q)) (drop (unat (q_offset q)) example_stored))
      :: string + durable_message list) = Inr (Inr example_stored)"
  by (rule load_queue_complete) (simp_all add: serves_def example_stored_def)

text \<open>The command behind a call, and the topic it is issued for.\<close>

fun call_command :: "durable_call \<Rightarrow> durable_command" where
  "call_command (CallSave _ m) = Create (dm_message m)"
| "call_command (CallUpdateStatus _ u) = UpdateStatus u"
| "call_command (CallArchive _ i) = Archive i"

fun call_topic :: "durable_call \<Rightarrow> topic_code" where
  "call_topic (CallSave t _) = t"
| "call_topic (CallUpdateStatus t _) = t"
| "call_topic (CallArchive t _) = t"

lemma run_command_call: "call_command (fst (run_command t c n)) = c" "call_topic (fst (run_command t c n)) = t"
  "durable_commands_queue (snd (run_command t c n)) = durable_commands_queue n"
  by (cases c; simp add: utc_now_def)+

lemma run_commands_calls:
  "map call_command (fst (run_commands t cs n)) = cs" "set (map call_topic (fst (run_commands t cs n))) \<subseteq> {t}"
  "durable_commands_queue (snd (run_commands t cs n)) = durable_commands_queue n"
  by (induction cs arbitrary: n) (simp_all add: Let_def case_prod_beta run_command_call)

lemma commit_task_leader:
  "map call_command (fst (commit_task True t n)) = durable_commands_queue n"
  "set (map call_topic (fst (commit_task True t n))) \<subseteq> {t}"
  "durable_commands_queue (snd (commit_task True t n)) = []"
  using run_commands_calls
  by (simp_all add: commit_task_def swap_out_durable_commands_def)

text \<open>
  The commands of the node are queued together, so the topic whose task runs first takes those of
  every topic: after two topics have queued commands, the task of the first issues all of them,
  once and in order, but for its own topic, and the task of the second has nothing left to do.
\<close>

theorem durable_commands_misfiled:
  "let n' = push_durable_commands cs2 (push_durable_commands cs1 (n\<lparr>durable_commands_queue := []\<rparr>));
       (calls1, n1) = commit_task True topic1 n'; (calls2, n2) = commit_task True topic2 n1
   in map call_command calls1 = cs1 @ cs2 \<and> set (map call_topic calls1) \<subseteq> {topic1} \<and> calls2 = []"
proof -
  let ?n = "push_durable_commands cs2 (push_durable_commands cs1 (n\<lparr>durable_commands_queue := []\<rparr>))"
  have "durable_commands_queue ?n = cs1 @ cs2" by (simp add: push_durable_commands_def)
  moreover have "fst (commit_task True topic2 (snd (commit_task True topic1 ?n))) = []"
    using commit_task_leader(1) [of topic2 "snd (commit_task True topic1 ?n)"]
    by (simp add: commit_task_leader(3))
  ultimately show ?thesis
    using commit_task_leader(1,2) [of topic1 ?n] by (simp add: Let_def case_prod_beta)
qed

text \<open>A node that is not the leader forgets the commands, those of other topics included.\<close>

theorem follower_drops_durable_commands:
  "commit_task False topic n = ([], n\<lparr>durable_commands_queue := []\<rparr>)"
  by (simp add: commit_task_def swap_out_durable_commands_def)

end
