(* ===== verification/MQ_Commit.thy ===== *)
theory MQ_Commit
  imports MQ_Durable
begin

text \<open>
  The tasks that carry durable commands to the service, step by step (\<open>commit_durable_commands\<close> and
  \<open>get_durable_lock\<close> in \<open>raft/proposal.rs\<close>).  \<open>MQ_Durable\<close> runs such a task in one piece; here every
  point where it waits is a step, and steps of different tasks interleave in any order with the
  application of further proposals.  A lock is a number: the identity of the \<open>Arc\<close> that is shared by
  all who found it in \<open>durable_syncs\<close>.
\<close>

section \<open>Tasks, locks and steps\<close>

datatype commit_phase =
    CStart                                 \<comment> \<open>spawned\<close>
  | CWait nat                              \<comment> \<open>waits for the lock\<close>
  | CSwapped nat "durable_command list"    \<comment> \<open>holds the guard and the commands, asks the raft\<close>
  | CRun nat "durable_command list"        \<comment> \<open>in the loop over the commands\<close>
  | CDone

record commit_job =
  job_topic :: topic_code
  job_phase :: commit_phase

record commit_state =
  cm_node :: node_inner
  durable_syncs :: "(topic_code, nat) hash_map"
  cm_next :: nat                           \<comment> \<open>the next new lock\<close>
  cm_locked :: "nat set"
  cm_jobs :: "commit_job list"
  cm_calls :: "durable_call list"          \<comment> \<open>what the service has got\<close>

definition get_durable_lock :: "topic_code \<Rightarrow> commit_state \<Rightarrow> nat \<times> commit_state" where
  "get_durable_lock topic s =
    (case hm_get (durable_syncs s) topic of
       Some l \<Rightarrow> (l, s)
     | None \<Rightarrow> (cm_next s, s\<lparr>durable_syncs := hm_insert topic (cm_next s) (durable_syncs s), cm_next := Suc (cm_next s)\<rparr>))"

definition set_phase :: "nat \<Rightarrow> commit_phase \<Rightarrow> commit_state \<Rightarrow> commit_state" where
  "set_phase k p s = s\<lparr>cm_jobs := (cm_jobs s)[k := (cm_jobs s ! k)\<lparr>job_phase := p\<rparr>]\<rparr>"

text \<open>The guard is dropped at the end of the task, whatever the way out.\<close>

definition finish_job :: "nat \<Rightarrow> nat \<Rightarrow> commit_state \<Rightarrow> commit_state" where
  "finish_job k l s = set_phase k CDone (s\<lparr>cm_locked := cm_locked s - {l}\<rparr>)"

text \<open>
  The task \<open>k\<close> up to its next wait; \<open>None\<close> when it cannot go on.  \<open>linearizable\<close> is the answer of
  \<open>ensure_linearizable\<close>.
\<close>

definition job_turn :: "bool \<Rightarrow> nat \<Rightarrow> commit_state \<Rightarrow> commit_state option" where
  "job_turn linearizable k s =
    (if k \<ge> length (cm_jobs s) then None
     else case job_phase (cm_jobs s ! k) of
         CStart \<Rightarrow> (let (l, s') = get_durable_lock (job_topic (cm_jobs s ! k)) s in Some (set_phase k (CWait l) s'))
       | CWait l \<Rightarrow>
           if l \<in> cm_locked s then None
           else (let (commands, n) = swap_out_durable_commands (cm_node s)
                 in Some (set_phase k (CSwapped l commands) (s\<lparr>cm_node := n, cm_locked := insert l (cm_locked s)\<rparr>)))
       | CSwapped l commands \<Rightarrow>
           Some (if linearizable then set_phase k (CRun l commands) s else finish_job k l s)
       | CRun l [] \<Rightarrow> Some (finish_job k l s)
       | CRun l (c # cs) \<Rightarrow>
           (let (call, n) = run_command (job_topic (cm_jobs s ! k)) c (cm_node s)
            in Some (set_phase k (CRun l cs) (s\<lparr>cm_node := n, cm_calls := cm_calls s @ [call]\<rparr>)))
       | CDone \<Rightarrow> None)"

text \<open>A proposal on a topic is applied: its commands are queued, and a task is spawned.\<close>

definition apply_commands :: "topic_code \<Rightarrow> durable_command list \<Rightarrow> commit_state \<Rightarrow> commit_state" where
  "apply_commands code cs s =
    (let n = push_durable_commands cs (cm_node s) in
     if node_durable n \<and> get_topic n code \<noteq> None
     then s\<lparr>cm_node := spawn_task (CommitTask code) n, cm_jobs := cm_jobs s @ [\<lparr>job_topic = code, job_phase = CStart\<rparr>]\<rparr>
     else s\<lparr>cm_node := n\<rparr>)"

datatype commit_event = CApplied topic_code "durable_command list" | CTurn nat bool

inductive commit_step :: "commit_state \<Rightarrow> commit_event \<Rightarrow> commit_state \<Rightarrow> bool" where
  applied: "commit_step s (CApplied code cs) (apply_commands code cs s)"
| turn: "job_turn linearizable k s = Some s' \<Longrightarrow> commit_step s (CTurn k linearizable) s'"

inductive_cases commit_stepE: "commit_step s ev s'"

inductive commit_run :: "commit_state \<Rightarrow> commit_event list \<Rightarrow> commit_state \<Rightarrow> bool" for s0 where
  start: "commit_run s0 [] s0"
| step: "commit_run s0 evs s \<Longrightarrow> commit_step s ev s' \<Longrightarrow> commit_run s0 (evs @ [ev]) s'"

definition commit_init :: "node_inner \<Rightarrow> commit_state" where
  "commit_init n = \<lparr>cm_node = n, durable_syncs = [], cm_next = 0, cm_locked = {}, cm_jobs = [], cm_calls = []\<rparr>"

text \<open>The step of the state machine is the end of an operation in \<open>MQ_Context\<close>.\<close>

lemma apply_commands_commit:
  "commit_durable_commands \<lparr>ctx_node = push_durable_commands cs (cm_node s), ctx_topic_code = Some code\<rparr>
    = Inr \<lparr>ctx_node = cm_node (apply_commands code cs s), ctx_topic_code = Some code\<rparr>"
  by (auto simp: commit_durable_commands_def apply_commands_def Let_def split: option.split)

section \<open>Locks exclude\<close>

fun phase_lock :: "commit_phase \<Rightarrow> nat option" where
  "phase_lock (CWait l) = Some l"
| "phase_lock (CSwapped l _) = Some l"
| "phase_lock (CRun l _) = Some l"
| "phase_lock _ = None"

fun in_guard :: "commit_phase \<Rightarrow> bool" where
  "in_guard (CSwapped _ _) = True"
| "in_guard (CRun _ _) = True"
| "in_guard _ = False"

abbreviation phase_at :: "commit_state \<Rightarrow> nat \<Rightarrow> commit_phase" where
  "phase_at s k \<equiv> job_phase (cm_jobs s ! k)"

definition syncs_ok :: "commit_state \<Rightarrow> bool" where
  "syncs_ok s \<longleftrightarrow>
    (\<forall>t l. hm_get (durable_syncs s) t = Some l \<longrightarrow> l < cm_next s) \<and>
    (\<forall>t t' l. hm_get (durable_syncs s) t = Some l \<longrightarrow> hm_get (durable_syncs s) t' = Some l \<longrightarrow> t = t')"

definition found_ok :: "commit_state \<Rightarrow> bool" where
  "found_ok s \<longleftrightarrow> (\<forall>k l. k < length (cm_jobs s) \<longrightarrow> phase_lock (phase_at s k) = Some l \<longrightarrow>
    hm_get (durable_syncs s) (job_topic (cm_jobs s ! k)) = Some l)"

text \<open>The locked locks are those of the tasks with a guard, and no two of these have the same.\<close>

definition guards :: "commit_state \<Rightarrow> nat set" where
  "guards s = {k. k < length (cm_jobs s) \<and> in_guard (phase_at s k)}"

definition guards_ok :: "commit_state \<Rightarrow> bool" where
  "guards_ok s \<longleftrightarrow> bij_betw (\<lambda>k. the (phase_lock (phase_at s k))) (guards s) (cm_locked s)"

definition commit_inv :: "commit_state \<Rightarrow> bool" where
  "commit_inv s \<longleftrightarrow> syncs_ok s \<and> found_ok s \<and> guards_ok s"

lemma set_phase_simps [simp]:
  "durable_syncs (set_phase k p s) = durable_syncs s" "cm_next (set_phase k p s) = cm_next s"
  "cm_locked (set_phase k p s) = cm_locked s" "cm_node (set_phase k p s) = cm_node s"
  "cm_calls (set_phase k p s) = cm_calls s" "length (cm_jobs (set_phase k p s)) = length (cm_jobs s)"
  by (simp_all add: set_phase_def)

lemma set_phase_job [simp]:
  assumes "k < length (cm_jobs s)"
  shows "phase_at (set_phase k p s) j = (if j = k then p else phase_at s j)"
    "job_topic (cm_jobs (set_phase k p s) ! j) = job_topic (cm_jobs s ! j)"
  using assms by (cases "j = k"; simp add: set_phase_def)+

lemma job_turn_cases:
  assumes "job_turn linearizable k s = Some s'"
  obtains (lock) l s1 where "k < length (cm_jobs s)" "phase_at s k = CStart"
      "get_durable_lock (job_topic (cm_jobs s ! k)) s = (l, s1)" "s' = set_phase k (CWait l) s1"
    | (take) l where "k < length (cm_jobs s)" "phase_at s k = CWait l" "l \<notin> cm_locked s"
      "s' = set_phase k (CSwapped l (durable_commands_queue (cm_node s)))
        (s\<lparr>cm_node := (cm_node s)\<lparr>durable_commands_queue := []\<rparr>, cm_locked := insert l (cm_locked s)\<rparr>)"
    | (ask) l cs where "k < length (cm_jobs s)" "phase_at s k = CSwapped l cs" "linearizable" "s' = set_phase k (CRun l cs) s"
    | (refuse) l cs where "k < length (cm_jobs s)" "phase_at s k = CSwapped l cs" "\<not> linearizable" "s' = finish_job k l s"
    | (end_loop) l where "k < length (cm_jobs s)" "phase_at s k = CRun l []" "s' = finish_job k l s"
    | (call) l c cs where "k < length (cm_jobs s)" "phase_at s k = CRun l (c # cs)"
      "s' = set_phase k (CRun l cs) (s\<lparr>cm_node := snd (run_command (job_topic (cm_jobs s ! k)) c (cm_node s)),
        cm_calls := cm_calls s @ [fst (run_command (job_topic (cm_jobs s ! k)) c (cm_node s))]\<rparr>)"
proof (cases "k < length (cm_jobs s)")
  case True
  note turn = assms [unfolded job_turn_def]
  show thesis
  proof (cases "phase_at s k")
    case CStart
    obtain l s1 where "get_durable_lock (job_topic (cm_jobs s ! k)) s = (l, s1)" by fastforce
    with turn True CStart that(1) show thesis by simp
  next
    case (CWait l)
    with turn True that(2) show thesis by (auto simp: swap_out_durable_commands_def split: if_splits)
  next
    case (CSwapped l cs)
    with turn True that(3,4) show thesis by (auto split: if_splits)
  next
    case (CRun l cs)
    with turn True that(5,6) show thesis by (cases cs) (auto simp: Let_def case_prod_unfold)
  qed (use turn True in simp)
qed (use assms in \<open>simp add: job_turn_def\<close>)

lemma get_lock_effect:
  assumes "syncs_ok s" "get_durable_lock t s = (l, s')"
  shows "syncs_ok s'" "hm_get (durable_syncs s') t = Some l" "cm_jobs s' = cm_jobs s" "cm_locked s' = cm_locked s"
    "cm_node s' = cm_node s" "cm_calls s' = cm_calls s"
    "hm_get (durable_syncs s) t' = Some l' \<Longrightarrow> hm_get (durable_syncs s') t' = Some l'"
proof -
  have "syncs_ok (s\<lparr>durable_syncs := hm_insert t (cm_next s) (durable_syncs s), cm_next := Suc (cm_next s)\<rparr>)"
    using assms(1) unfolding syncs_ok_def by (fastforce simp: less_Suc_eq split: if_splits)
  then show "syncs_ok s'" "hm_get (durable_syncs s') t = Some l" "cm_jobs s' = cm_jobs s" "cm_locked s' = cm_locked s"
    "cm_node s' = cm_node s" "cm_calls s' = cm_calls s"
    using assms by (auto simp: get_durable_lock_def split: option.splits)
  show "hm_get (durable_syncs s) t' = Some l' \<Longrightarrow> hm_get (durable_syncs s') t' = Some l'"
    using assms(2) by (auto simp: get_durable_lock_def split: option.splits)
qed

abbreviation lock_at :: "commit_state \<Rightarrow> nat \<Rightarrow> nat" where
  "lock_at s k \<equiv> the (phase_lock (phase_at s k))"

lemma guards_same:
  assumes "guards_ok s" "guards s' = guards s" "cm_locked s' = cm_locked s"
    "\<And>k. k \<in> guards s \<Longrightarrow> phase_lock (phase_at s' k) = phase_lock (phase_at s k)"
  shows "guards_ok s'"
proof -
  have "bij_betw (lock_at s') (guards s) (cm_locked s) = bij_betw (lock_at s) (guards s) (cm_locked s)"
    by (rule bij_betw_cong) (simp add: assms(4))
  then show ?thesis using assms(1-3) by (simp add: guards_ok_def)
qed

lemma guards_take:
  assumes "guards_ok s" "guards s' = insert k (guards s)" "k \<notin> guards s" "cm_locked s' = insert l (cm_locked s)"
    "l \<notin> cm_locked s" "lock_at s' k = l" "\<And>j. j \<in> guards s \<Longrightarrow> lock_at s' j = lock_at s j"
  shows "guards_ok s'"
proof -
  have "bij_betw (lock_at s') (guards s) (cm_locked s)"
    using assms(1) bij_betw_cong [of "guards s" "lock_at s'" "lock_at s"] assms(7) by (simp add: guards_ok_def)
  from notIn_Un_bij_betw [OF assms(3) _ this] assms(2,4-6) show ?thesis by (simp add: guards_ok_def)
qed

lemma guards_finish:
  assumes ok: "guards_ok s" and k: "k \<in> guards s" "phase_lock (phase_at s k) = Some l"
  shows "guards_ok (finish_job k l s)"
proof -
  have len: "k < length (cm_jobs s)" using k(1) by (simp add: guards_def)
  then have g: "guards (finish_job k l s) = guards s - {k}" by (auto simp: guards_def finish_job_def)
  have "l \<in> cm_locked s" using ok k by (force simp: guards_ok_def bij_betw_def)
  then have "bij_betw (lock_at s) (guards s - {k}) (cm_locked s - {l})"
    using bij_betw_DiffI [OF ok [unfolded guards_ok_def], of "{k}" "{l}"] k by (simp add: bij_betw_def)
  moreover have "lock_at (finish_job k l s) j = lock_at s j" if "j \<in> guards s - {k}" for j
    using that len by (simp add: finish_job_def)
  ultimately have "bij_betw (lock_at (finish_job k l s)) (guards s - {k}) (cm_locked s - {l})"
    using bij_betw_cong [of "guards s - {k}" "lock_at (finish_job k l s)" "lock_at s"] by simp
  then show ?thesis unfolding guards_ok_def g by (simp add: finish_job_def)
qed

lemma commit_inv_turn:
  assumes inv: "commit_inv s" and turn: "job_turn linearizable k s = Some s'"
  shows "commit_inv s'"
proof -
  have syncs: "syncs_ok s" and found: "found_ok s" and g: "guards_ok s" using inv by (simp_all add: commit_inv_def)
  note foundD = found [unfolded found_ok_def, rule_format]
  from turn show ?thesis
  proof (cases rule: job_turn_cases)
    case (lock l s1)
    note eff = get_lock_effect [OF syncs lock(3)]
    have "syncs_ok s'" using eff(1) by (simp add: lock(4) syncs_ok_def)
    moreover have "found_ok s'" using eff(2,3,7) lock(1) foundD by (auto simp: lock(4) found_ok_def)
    moreover have "guards s' = guards s" using lock(1,2) eff(3) by (auto simp: lock(4) guards_def)
    then have "guards_ok s'"
      by (rule guards_same [OF g]) (use lock(1,2) eff(3,4) in \<open>auto simp: lock(4) guards_def\<close>)
    ultimately show ?thesis by (simp add: commit_inv_def)
  next
    case (take l)
    have "guards_ok s'"
      by (rule guards_take [OF g, of _ k l]) (use take in \<open>auto simp: guards_def\<close>)
    then show ?thesis using syncs foundD take by (auto simp: commit_inv_def syncs_ok_def found_ok_def)
  next
    case (ask l cs)
    have "guards_ok s'"
      by (rule guards_same [OF g]) (use ask in \<open>auto simp: guards_def\<close>)
    then show ?thesis using syncs foundD ask by (auto simp: commit_inv_def syncs_ok_def found_ok_def)
  next
    case (refuse l cs)
    have "guards_ok s'" unfolding refuse(4) by (rule guards_finish [OF g]) (use refuse in \<open>simp_all add: guards_def\<close>)
    then show ?thesis using syncs foundD refuse by (auto simp: commit_inv_def syncs_ok_def found_ok_def finish_job_def)
  next
    case (end_loop l)
    have "guards_ok s'" unfolding end_loop(3) by (rule guards_finish [OF g]) (use end_loop in \<open>simp_all add: guards_def\<close>)
    then show ?thesis using syncs foundD end_loop by (auto simp: commit_inv_def syncs_ok_def found_ok_def finish_job_def)
  next
    case (call l c cs)
    have "guards_ok s'"
      by (rule guards_same [OF g]) (use call in \<open>auto simp: guards_def\<close>)
    then show ?thesis using syncs foundD call by (auto simp: commit_inv_def syncs_ok_def found_ok_def)
  qed
qed

lemma commit_inv_applied:
  assumes "commit_inv s"
  shows "commit_inv (apply_commands code cs s)"
proof -
  let ?s = "apply_commands code cs s"
  have jobs: "cm_jobs ?s = cm_jobs s \<or> cm_jobs ?s = cm_jobs s @ [\<lparr>job_topic = code, job_phase = CStart\<rparr>]"
    by (simp add: apply_commands_def Let_def)
  have same: "durable_syncs ?s = durable_syncs s" "cm_next ?s = cm_next s" "cm_locked ?s = cm_locked s"
    by (simp_all add: apply_commands_def Let_def)
  have at: "k < length (cm_jobs ?s) \<Longrightarrow> k < length (cm_jobs s) \<and> cm_jobs ?s ! k = cm_jobs s ! k \<or> phase_at ?s k = CStart" for k
    using jobs by (auto simp: nth_append less_Suc_eq)
  have "k < length (cm_jobs s) \<Longrightarrow> k < length (cm_jobs ?s) \<and> cm_jobs ?s ! k = cm_jobs s ! k" for k
    using jobs by (auto simp: nth_append)
  then have "guards ?s = guards s" "\<And>k. k \<in> guards s \<Longrightarrow> phase_lock (phase_at ?s k) = phase_lock (phase_at s k)"
    using at by (fastforce simp: guards_def)+
  then have "guards_ok ?s" using guards_same [of s ?s] assms same(3) by (simp add: commit_inv_def)
  moreover have "found_ok ?s"
    using assms at same(1) unfolding commit_inv_def found_ok_def by (metis option.distinct(1) phase_lock.simps(4))
  ultimately show ?thesis using assms same by (simp add: commit_inv_def syncs_ok_def)
qed

lemma commit_inv_run: "commit_run s0 evs s \<Longrightarrow> commit_inv s0 \<Longrightarrow> commit_inv s"
  by (induction rule: commit_run.induct) (auto elim: commit_stepE intro: commit_inv_turn commit_inv_applied)

lemma commit_inv_init: "commit_inv (commit_init n)"
  by (simp add: commit_inv_def syncs_ok_def found_ok_def guards_ok_def guards_def commit_init_def bij_betw_def)

text \<open>Two tasks of one topic are never inside the guard together.\<close>

lemma guard_exclusive:
  assumes "commit_inv s" "j \<in> guards s" "k \<in> guards s" "job_topic (cm_jobs s ! j) = job_topic (cm_jobs s ! k)"
  shows "j = k"
proof -
  have "phase_lock (phase_at s i) = hm_get (durable_syncs s) (job_topic (cm_jobs s ! i))" if i: "i \<in> guards s" for i
  proof -
    obtain l where "phase_lock (phase_at s i) = Some l" using i by (cases "phase_at s i") (auto simp: guards_def)
    then show ?thesis using assms(1) i by (simp add: commit_inv_def found_ok_def guards_def)
  qed
  then have "lock_at s j = lock_at s k" using assms(2-4) by simp
  moreover have "inj_on (lock_at s) (guards s)" using assms(1) by (simp add: commit_inv_def guards_ok_def bij_betw_def)
  ultimately show ?thesis using assms(2,3) by (auto dest: inj_onD)
qed

section \<open>Commands keep their order\<close>

fun phase_commands :: "commit_phase \<Rightarrow> durable_command list" where
  "phase_commands (CSwapped _ cs) = cs"
| "phase_commands (CRun _ cs) = cs"
| "phase_commands _ = []"

text \<open>The commands that tasks have taken out and not yet issued.\<close>

definition in_flight :: "commit_state \<Rightarrow> durable_command list" where
  "in_flight s = concat (map (\<lambda>j. phase_commands (job_phase j)) (cm_jobs s))"

definition pushed :: "commit_event list \<Rightarrow> durable_command list" where
  "pushed evs = concat (map (\<lambda>ev. case ev of CApplied _ cs \<Rightarrow> cs | CTurn _ _ \<Rightarrow> []) evs)"

text \<open>Only proposals on one topic are applied, and the node is the leader when it is asked.\<close>

fun leads :: "topic_code \<Rightarrow> commit_event \<Rightarrow> bool" where
  "leads code (CApplied t _) = (t = code)"
| "leads code (CTurn _ linearizable) = linearizable"

lemma in_flight_same:
  assumes "k < length (cm_jobs s)" "phase_commands p = phase_commands (phase_at s k)"
  shows "in_flight (set_phase k p s) = in_flight s"
proof -
  have "map (\<lambda>j. phase_commands (job_phase j)) (cm_jobs (set_phase k p s)) = map (\<lambda>j. phase_commands (job_phase j)) (cm_jobs s)"
    by (rule nth_equalityI) (use assms in auto)
  then show ?thesis by (simp only: in_flight_def)
qed

lemma in_flight_single:
  assumes "k < length (cm_jobs s)" "guards s \<subseteq> {k}"
  shows "in_flight s = phase_commands (phase_at s k)"
proof -
  let ?f = "\<lambda>j. phase_commands (job_phase j)"
  have idle: "?f (cm_jobs s ! j) = []" if "j < length (cm_jobs s)" "j \<noteq> k" for j
    using that assms(2) by (cases "phase_at s j") (auto simp: guards_def)
  have e: "concat (map ?f (take k (cm_jobs s))) = []" "concat (map ?f (drop (Suc k) (cm_jobs s))) = []"
    using idle assms(1) by (auto simp: in_set_conv_nth)
  show ?thesis unfolding in_flight_def
    by (subst id_take_nth_drop [OF assms(1)]) (simp only: map_append concat_append list.map concat.simps e append_Nil append_Nil2)
qed

lemma in_flight_none: "guards s = {} \<Longrightarrow> in_flight s = []"
proof -
  assume "guards s = {}"
  then have "phase_commands (job_phase j) = []" if "j \<in> set (cm_jobs s)" for j
    using that by (cases "job_phase j") (auto simp: guards_def in_set_conv_nth)
  then show ?thesis by (simp add: in_flight_def)
qed

abbreviation queued :: "commit_state \<Rightarrow> durable_command list" where
  "queued s \<equiv> durable_commands_queue (cm_node s)"

definition one_topic :: "topic_code \<Rightarrow> commit_state \<Rightarrow> bool" where
  "one_topic code s \<longleftrightarrow> (\<forall>k < length (cm_jobs s). job_topic (cm_jobs s ! k) = code)"

lemma one_guard:
  assumes "commit_inv s" "one_topic code s" "k \<in> guards s"
  shows "guards s = {k}"
proof -
  have "j = k" if j: "j \<in> guards s" for j
    by (rule guard_exclusive [OF assms(1) j assms(3)]) (use assms(2,3) j in \<open>simp add: one_topic_def guards_def\<close>)
  then show ?thesis using assms(3) by blast
qed

lemma no_guard:
  assumes inv: "commit_inv s" and one: "one_topic code s" and k: "k < length (cm_jobs s)" "phase_at s k = CWait l" "l \<notin> cm_locked s"
  shows "guards s = {}"
proof -
  have found: "hm_get (durable_syncs s) code = Some l'" if "j < length (cm_jobs s)" "phase_lock (phase_at s j) = Some l'" for j l'
    using inv one that by (auto simp: commit_inv_def found_ok_def one_topic_def)
  have "False" if j: "j \<in> guards s" for j
  proof -
    obtain l' where l': "phase_lock (phase_at s j) = Some l'" using j by (cases "phase_at s j") (auto simp: guards_def)
    then have "l' = l" using found [of j l'] found [of k l] j k(1,2) by (simp add: guards_def)
    moreover have "lock_at s j \<in> cm_locked s" using inv j by (auto simp: commit_inv_def guards_ok_def bij_betw_def)
    ultimately show False using l' k(3) by simp
  qed
  then show ?thesis by blast
qed

definition issued_in_order :: "topic_code \<Rightarrow> durable_command list \<Rightarrow> commit_state \<Rightarrow> bool" where
  "issued_in_order code cs s \<longleftrightarrow> map call_command (cm_calls s) @ in_flight s @ queued s = cs \<and>
    set (map call_topic (cm_calls s)) \<subseteq> {code}"

lemma turn_in_order:
  assumes inv: "commit_inv s" and one: "one_topic code s" and ord: "issued_in_order code cs s"
    and turn: "job_turn True k s = Some s'"
  shows "one_topic code s'" "issued_in_order code cs s'"
proof -
  have "one_topic code s' \<and> issued_in_order code cs s'"
    using turn
  proof (cases rule: job_turn_cases)
    case (lock l s1)
    note eff = get_lock_effect [OF _ lock(3)]
    have s1: "cm_jobs s1 = cm_jobs s" "cm_node s1 = cm_node s" "cm_calls s1 = cm_calls s"
      using eff inv by (simp_all add: commit_inv_def)
    then have "in_flight s' = in_flight s"
      using in_flight_same [of k s1 "CWait l"] lock(1,2,4) by (simp add: in_flight_def)
    then show ?thesis using one ord lock(1) s1 by (simp add: one_topic_def issued_in_order_def lock(4))
  next
    case (take l)
    have none: "guards s = {}" by (rule no_guard [OF inv one take(1-3)])
    then have "guards s' \<subseteq> {k}" using take(1) by (auto simp: take(4) guards_def split: if_splits)
    then have "in_flight s' = queued s" using in_flight_single [of k s'] take(1) by (simp add: take(4))
    then show ?thesis using one ord in_flight_none [OF none] take(1) by (simp add: one_topic_def issued_in_order_def take(4))
  next
    case (ask l cs)
    then show ?thesis using one ord in_flight_same [of k s "CRun l cs"] by (simp add: one_topic_def issued_in_order_def)
  next
    case (end_loop l)
    have "in_flight s' = in_flight s"
      using in_flight_same [of k "s\<lparr>cm_locked := cm_locked s - {l}\<rparr>" CDone] end_loop by (simp add: finish_job_def in_flight_def)
    then show ?thesis using one ord end_loop by (simp add: one_topic_def issued_in_order_def finish_job_def)
  next
    case (call l c cs')
    have g: "guards s = {k}" by (rule one_guard [OF inv one]) (use call in \<open>simp add: guards_def\<close>)
    then have "guards s' \<subseteq> {k}" using call(1) by (auto simp: call(3) guards_def split: if_splits)
    then have "in_flight s' = cs'" using in_flight_single [of k s'] call(1) by (simp add: call(3))
    moreover have "in_flight s = c # cs'" using in_flight_single [of k s] call(1,2) g by simp
    moreover have "job_topic (cm_jobs s ! k) = code" using one call(1) by (simp add: one_topic_def)
    ultimately show ?thesis using one ord call(1) by (simp add: one_topic_def issued_in_order_def call(3) run_command_call)
  qed simp
  then show "one_topic code s'" "issued_in_order code cs s'" by blast+
qed

lemma applied_in_order:
  assumes "one_topic code s" "issued_in_order code cs s"
  shows "one_topic code (apply_commands code cs' s)" "issued_in_order code (cs @ cs') (apply_commands code cs' s)"
  using assms
  by (auto simp: apply_commands_def Let_def one_topic_def issued_in_order_def in_flight_def push_durable_commands_def
      spawn_task_def nth_append less_Suc_eq)

lemma run_in_order:
  assumes "commit_run (commit_init n) evs s" "\<forall>ev \<in> set evs. leads code ev"
  shows "one_topic code s \<and> issued_in_order code (durable_commands_queue n @ pushed evs) s"
  using assms
proof (induction rule: commit_run.induct)
  case start
  then show ?case by (simp add: commit_init_def one_topic_def issued_in_order_def in_flight_def pushed_def)
next
  case (step evs s ev s')
  have IH: "one_topic code s" "issued_in_order code (durable_commands_queue n @ pushed evs) s" using step by simp_all
  have inv: "commit_inv s" by (rule commit_inv_run [OF step(1) commit_inv_init])
  from step.hyps(2) show ?case
  proof cases
    case (applied t cs)
    then have "t = code" using step.prems by simp
    with applied_in_order [OF IH, of cs] applied show ?thesis by (simp add: pushed_def)
  next
    case (turn lin k)
    then have "job_turn True k s = Some s'" using step.prems by simp
    with turn_in_order [OF inv IH this] turn show ?thesis by (simp add: pushed_def)
  qed
qed

section \<open>Tasks come to an end\<close>

fun phase_work :: "commit_phase \<Rightarrow> nat" where
  "phase_work CStart = 4"
| "phase_work (CWait _) = 3"
| "phase_work (CSwapped _ cs) = 2 + length cs"
| "phase_work (CRun _ cs) = 1 + length cs"
| "phase_work CDone = 0"

definition work :: "commit_state \<Rightarrow> nat" where
  "work s = sum_list (map (\<lambda>j. phase_work (job_phase j)) (cm_jobs s)) + length (queued s)"

lemma work_set_phase:
  assumes "k < length (cm_jobs s)"
  shows "work (set_phase k p s) + phase_work (phase_at s k) = work s + phase_work p"
proof -
  let ?f = "\<lambda>j. phase_work (job_phase j)"
  have "phase_work (phase_at s k) \<le> sum_list (map ?f (cm_jobs s))"
    using elem_le_sum_list [of k "map ?f (cm_jobs s)"] assms by simp
  moreover have "map ?f (cm_jobs (set_phase k p s)) = (map ?f (cm_jobs s))[k := phase_work p]"
    using assms by (simp add: set_phase_def map_update)
  ultimately show ?thesis
    using sum_list_update [of k "map ?f (cm_jobs s)" "phase_work p"] assms by (simp add: work_def)
qed

lemma turn_works:
  assumes inv: "commit_inv s" and turn: "job_turn linearizable k s = Some s'"
  shows "work s' < work s"
  using turn
proof (cases rule: job_turn_cases)
  case (lock l s1)
  have "cm_jobs s1 = cm_jobs s" "cm_node s1 = cm_node s"
    using get_lock_effect [OF _ lock(3)] inv by (simp_all add: commit_inv_def)
  then show ?thesis using work_set_phase [of k s1 "CWait l"] lock(1,2,4) by (simp add: work_def)
next
  case (take l)
  let ?s = "s\<lparr>cm_node := (cm_node s)\<lparr>durable_commands_queue := []\<rparr>, cm_locked := insert l (cm_locked s)\<rparr>"
  have "work ?s + length (queued s) = work s" by (simp add: work_def)
  then show ?thesis using work_set_phase [of k ?s "CSwapped l (queued s)"] take by simp
next
  case (ask l cs)
  then show ?thesis using work_set_phase [of k s "CRun l cs"] by simp
next
  case (refuse l cs)
  let ?s = "s\<lparr>cm_locked := cm_locked s - {l}\<rparr>"
  have "work ?s = work s" by (simp add: work_def)
  then show ?thesis using work_set_phase [of k ?s CDone] refuse by (simp add: finish_job_def)
next
  case (end_loop l)
  let ?s = "s\<lparr>cm_locked := cm_locked s - {l}\<rparr>"
  have "work ?s = work s" by (simp add: work_def)
  then show ?thesis using work_set_phase [of k ?s CDone] end_loop by (simp add: finish_job_def)
next
  case (call l c cs)
  let ?s = "s\<lparr>cm_node := snd (run_command (job_topic (cm_jobs s ! k)) c (cm_node s)),
    cm_calls := cm_calls s @ [fst (run_command (job_topic (cm_jobs s ! k)) c (cm_node s))]\<rparr>"
  have "work ?s = work s" by (simp add: work_def run_command_call)
  then show ?thesis using work_set_phase [of k ?s "CRun l cs"] call by simp
qed

text \<open>While a task is not done, some task can go on: a lock that is held is held by a task that can.\<close>

lemma guard_turns:
  assumes "k \<in> guards s"
  shows "\<exists>s'. job_turn linearizable k s = Some s'"
proof (cases "phase_at s k")
  case (CRun l cs)
  then show ?thesis using assms by (cases cs) (auto simp: job_turn_def guards_def Let_def case_prod_unfold)
qed (use assms in \<open>auto simp: job_turn_def guards_def\<close>)

lemma some_turn:
  assumes inv: "commit_inv s" and k: "k < length (cm_jobs s)" "phase_at s k \<noteq> CDone"
  shows "\<exists>j s'. job_turn linearizable j s = Some s'"
proof (cases "k \<in> guards s")
  case True
  then show ?thesis using guard_turns by blast
next
  case False
  show ?thesis
  proof (cases "phase_at s k")
    case CStart
    then show ?thesis using k(1) by (intro exI [of _ k]) (simp add: job_turn_def case_prod_unfold Let_def)
  next
    case (CWait l)
    show ?thesis
    proof (cases "l \<in> cm_locked s")
      case True
      then obtain j where "j \<in> guards s" using inv by (auto simp: commit_inv_def guards_ok_def bij_betw_def)
      then show ?thesis using guard_turns by blast
    next
      case False
      then show ?thesis using k(1) CWait
        by (intro exI [of _ k]) (simp add: job_turn_def case_prod_unfold Let_def)
    qed
  qed (use False k in \<open>simp_all add: guards_def\<close>)
qed

text \<open>As long as commands are queued, some task has not yet taken the queue.\<close>

fun awaits :: "commit_phase \<Rightarrow> bool" where
  "awaits CStart = True"
| "awaits (CWait _) = True"
| "awaits _ = False"

definition queue_awaited :: "commit_state \<Rightarrow> bool" where
  "queue_awaited s \<longleftrightarrow> queued s = [] \<or> (\<exists>k < length (cm_jobs s). awaits (phase_at s k))"

lemma awaited_keep:
  assumes "queue_awaited s" "k < length (cm_jobs s)" "\<not> awaits (phase_at s k)" "cm_jobs s1 = cm_jobs s" "queued s1 = queued s"
  shows "queue_awaited (set_phase k p s1)"
proof (cases "queued s = []")
  case False
  then obtain j where "j < length (cm_jobs s)" "awaits (phase_at s j)" "j \<noteq> k" using assms(1,3) by (auto simp: queue_awaited_def)
  then show ?thesis using assms(2,4) unfolding queue_awaited_def by (intro disjI2 exI [of _ j]) simp
qed (use assms(5) in \<open>simp add: queue_awaited_def\<close>)

lemma node_kept:
  assumes "commit_inv s" "job_turn linearizable k s = Some s'"
  shows "node_durable (cm_node s') = node_durable (cm_node s)" "node_topics (cm_node s') = node_topics (cm_node s)"
proof -
  have kept: "node_durable (snd (run_command t c n)) = node_durable n" "node_topics (snd (run_command t c n)) = node_topics n" for t c n
    by (cases c; simp add: utc_now_def)+
  have "node_durable (cm_node s') = node_durable (cm_node s) \<and> node_topics (cm_node s') = node_topics (cm_node s)"
    by (rule job_turn_cases [OF assms(2)])
      (use kept get_lock_effect(5) [of s] assms(1) in \<open>auto simp: finish_job_def commit_inv_def\<close>)
  then show "node_durable (cm_node s') = node_durable (cm_node s)" "node_topics (cm_node s') = node_topics (cm_node s)" by blast+
qed

lemma awaited_turn:
  assumes inv: "commit_inv s" and aw: "queue_awaited s" and turn: "job_turn linearizable k s = Some s'"
  shows "queue_awaited s'"
  using turn
proof (cases rule: job_turn_cases)
  case (lock l s1)
  have "cm_jobs s1 = cm_jobs s" "cm_node s1 = cm_node s"
    using get_lock_effect [OF _ lock(3)] inv by (simp_all add: commit_inv_def)
  then show ?thesis using lock(1,4) by (auto simp: queue_awaited_def)
next
  case (take l)
  then show ?thesis by (simp add: queue_awaited_def)
next
  case (ask l cs)
  then show ?thesis using awaited_keep [OF aw, of k s] by simp
next
  case (refuse l cs)
  then show ?thesis using awaited_keep [OF aw, of k "s\<lparr>cm_locked := cm_locked s - {l}\<rparr>"] by (simp add: finish_job_def)
next
  case (end_loop l)
  then show ?thesis using awaited_keep [OF aw, of k "s\<lparr>cm_locked := cm_locked s - {l}\<rparr>"] by (simp add: finish_job_def)
next
  case (call l c cs)
  then show ?thesis using awaited_keep [OF aw, of k] by (simp add: run_command_call)
qed

lemma run_awaited:
  assumes "commit_run (commit_init n) evs s" "node_durable n" "durable_commands_queue n = []"
    "\<forall>t cs. CApplied t cs \<in> set evs \<longrightarrow> get_topic n t \<noteq> None"
  shows "queue_awaited s \<and> node_durable (cm_node s) \<and> node_topics (cm_node s) = node_topics n"
  using assms
proof (induction rule: commit_run.induct)
  case start
  then show ?case by (simp add: queue_awaited_def commit_init_def)
next
  case (step evs s ev s')
  have "\<forall>t cs. CApplied t cs \<in> set evs \<longrightarrow> get_topic n t \<noteq> None" using step.prems(3) by auto
  from step.IH [OF step.prems(1,2) this]
  have IH: "queue_awaited s" "node_durable (cm_node s)" "node_topics (cm_node s) = node_topics n" by blast+
  have inv: "commit_inv s" by (rule commit_inv_run [OF step(1) commit_inv_init])
  from step.hyps(2) show ?case
  proof cases
    case (applied t cs)
    then have "get_topic (cm_node s) t \<noteq> None" using step.prems(3) IH(3) by (auto simp: get_topic_def)
    then show ?thesis using applied IH(2,3)
      by (auto simp: queue_awaited_def apply_commands_def Let_def push_durable_commands_def get_topic_def spawn_task_def
          intro!: exI [of _ "length (cm_jobs s)"])
  next
    case (turn lin k)
    then show ?thesis using awaited_turn [OF inv IH(1)] node_kept [OF inv] IH(2,3) by metis
  qed
qed

text \<open>
  (C12) The durable commands of a topic reach the service once each and in their order, however the
  tasks interleave with each other and with further proposals: while the node leads and one topic is
  in use, what has been issued, what a task holds and what is queued are together the commands
  pushed so far, and at most one task is past the lock.  Each turn of a task brings the work down, and
  when no task can go on, every command has been issued.
\<close>

theorem commits_in_order:
  assumes "commit_run (commit_init n) evs s" "node_durable n" "durable_commands_queue n = []" "get_topic n code \<noteq> None"
    "\<forall>ev \<in> set evs. leads code ev"
  shows "map call_command (cm_calls s) @ in_flight s @ queued s = pushed evs \<and>
    set (map call_topic (cm_calls s)) \<subseteq> {code} \<and>
    (\<forall>j \<in> guards s. \<forall>k \<in> guards s. j = k) \<and>
    (\<forall>k s'. job_turn True k s = Some s' \<longrightarrow> work s' < work s) \<and>
    ((\<forall>k. job_turn True k s = None) \<longrightarrow> map call_command (cm_calls s) = pushed evs)"
proof -
  have inv: "commit_inv s" by (rule commit_inv_run [OF assms(1) commit_inv_init])
  note ord = run_in_order [OF assms(1,5)]
  have "get_topic n t \<noteq> None" if "CApplied t cs \<in> set evs" for t cs using assms(4,5) that by fastforce
  then have aw: "queue_awaited s" using run_awaited [OF assms(1-3)] by blast
  have done_: "in_flight s = [] \<and> queued s = []" if stuck: "\<forall>k. job_turn True k s = None"
  proof -
    have fin: "phase_at s k = CDone" if "k < length (cm_jobs s)" for k
      using some_turn [OF inv that, of True] stuck by auto
    then have "guards s = {}" by (auto simp: guards_def)
    moreover have "queued s = []" using aw fin by (auto simp: queue_awaited_def)
    ultimately show ?thesis using in_flight_none by simp
  qed
  have one: "\<forall>j \<in> guards s. \<forall>k \<in> guards s. j = k" using one_guard [OF inv] ord by blast
  have issued: "map call_command (cm_calls s) @ in_flight s @ queued s = pushed evs" "set (map call_topic (cm_calls s)) \<subseteq> {code}"
    using ord assms(3) by (simp_all add: issued_in_order_def)
  have "map call_command (cm_calls s) = pushed evs" if "\<forall>k. job_turn True k s = None"
    using issued(1) done_ [OF that] by simp
  with issued one turn_works [OF inv] show ?thesis by blast
qed

section \<open>A task on its own\<close>

lemma commit_run_trans: "commit_run a evs b \<Longrightarrow> commit_run b evs' c \<Longrightarrow> commit_run a (evs @ evs') c"
proof (rotate_tac, induction rule: commit_run.induct)
  case (step evs' s ev s')
  then show ?case using commit_run.step [of a "evs @ evs'" s ev s'] by simp
qed simp

lemma commit_run_turn: "job_turn linearizable k s = Some s' \<Longrightarrow> commit_run s [CTurn k linearizable] s'"
  using commit_run.step [OF commit_run.start commit_step.turn] by fastforce

lemma loop_alone:
  assumes "k < length (cm_jobs s)" "phase_at s k = CRun l cs"
  shows "\<exists>s' m. commit_run s (replicate m (CTurn k True)) s' \<and> phase_at s' k = CDone \<and>
    cm_calls s' = cm_calls s @ fst (run_commands (job_topic (cm_jobs s ! k)) cs (cm_node s)) \<and>
    cm_node s' = snd (run_commands (job_topic (cm_jobs s ! k)) cs (cm_node s))"
  using assms
proof (induction cs arbitrary: s)
  case Nil
  then have "job_turn True k s = Some (finish_job k l s)" by (simp add: job_turn_def)
  from commit_run_turn [OF this] Nil.prems(1) show ?case
    by (intro exI [of _ "finish_job k l s"] exI [of _ 1]) (simp add: finish_job_def)
next
  case (Cons c cs)
  let ?t = "job_topic (cm_jobs s ! k)"
  let ?s = "set_phase k (CRun l cs) (s\<lparr>cm_node := snd (run_command ?t c (cm_node s)),
    cm_calls := cm_calls s @ [fst (run_command ?t c (cm_node s))]\<rparr>)"
  have turn: "job_turn True k s = Some ?s" using Cons.prems by (simp add: job_turn_def case_prod_unfold Let_def)
  have "k < length (cm_jobs ?s)" "phase_at ?s k = CRun l cs" using Cons.prems(1) by simp_all
  from Cons.IH [OF this] obtain s' m where s': "commit_run ?s (replicate m (CTurn k True)) s'" "phase_at s' k = CDone"
    "cm_calls s' = cm_calls ?s @ fst (run_commands ?t cs (cm_node ?s))" "cm_node s' = snd (run_commands ?t cs (cm_node ?s))"
    using Cons.prems(1) by auto
  from commit_run_trans [OF commit_run_turn [OF turn] s'(1)]
  have "commit_run s (replicate (Suc m) (CTurn k True)) s'" by simp
  then show ?case using s'(2-4) by (intro exI [of _ s'] exI [of _ "Suc m"]) (simp add: case_prod_unfold Let_def)
qed

text \<open>A task whose lock is free and that is not interrupted does what \<open>commit_task\<close> says.\<close>

theorem commit_task_alone:
  assumes inv: "commit_inv s" and k: "k < length (cm_jobs s)" "phase_at s k = CStart" and free: "cm_locked s = {}"
  shows "\<exists>s' m. commit_run s (replicate m (CTurn k True)) s' \<and> phase_at s' k = CDone \<and>
    cm_calls s' = cm_calls s @ fst (commit_task True (job_topic (cm_jobs s ! k)) (cm_node s)) \<and>
    cm_node s' = snd (commit_task True (job_topic (cm_jobs s ! k)) (cm_node s))"
proof -
  let ?t = "job_topic (cm_jobs s ! k)"
  obtain l s1 where l: "get_durable_lock ?t s = (l, s1)" by fastforce
  have s1: "cm_jobs s1 = cm_jobs s" "cm_locked s1 = {}" "cm_node s1 = cm_node s" "cm_calls s1 = cm_calls s"
    using get_lock_effect [OF _ l] inv free by (simp_all add: commit_inv_def)
  let ?a = "set_phase k (CWait l) s1"
  let ?n = "(cm_node s)\<lparr>durable_commands_queue := []\<rparr>"
  let ?b = "set_phase k (CSwapped l (queued s)) (?a\<lparr>cm_node := ?n, cm_locked := {l}\<rparr>)"
  let ?c = "set_phase k (CRun l (queued s)) ?b"
  have a: "job_turn True k s = Some ?a" using k l by (simp add: job_turn_def)
  have b: "job_turn True k ?a = Some ?b" using k s1 by (simp add: job_turn_def swap_out_durable_commands_def)
  have c: "job_turn True k ?b = Some ?c" using k s1 by (simp add: job_turn_def)
  have "k < length (cm_jobs ?c)" "phase_at ?c k = CRun l (queued s)" using k s1 by simp_all
  from loop_alone [OF this] obtain s' m where s': "commit_run ?c (replicate m (CTurn k True)) s'" "phase_at s' k = CDone"
    "cm_calls s' = cm_calls ?c @ fst (run_commands ?t (queued s) (cm_node ?c))"
    "cm_node s' = snd (run_commands ?t (queued s) (cm_node ?c))"
    using k s1 by auto
  have "commit_run s (replicate (Suc (Suc (Suc m))) (CTurn k True)) s'"
    using commit_run_trans [OF commit_run_turn [OF a] commit_run_trans [OF commit_run_turn [OF b]
          commit_run_trans [OF commit_run_turn [OF c] s'(1)]]] by simp
  then show ?thesis
    using s'(2-4) s1(4) by (intro exI [of _ s'] exI [of _ "Suc (Suc (Suc m))"])
      (simp add: commit_task_def swap_out_durable_commands_def)
qed

section \<open>Two topics\<close>

text \<open>
  The lock is one per topic, the queue one for the node.  A task of topic \<open>116\<close> has taken out the
  command to create a message and waits for the raft; the message is archived, and a task of topic
  \<open>117\<close> takes that command out and issues it first, for its own topic: the archive comes to the
  service before the save, and the message stays stored.
\<close>

definition race_node :: node_inner where
  "race_node = example_node\<lparr>node_topics := [(TopicCode [116], 0), (TopicCode [117], 1)]\<rparr>"

definition race_message :: message where
  "race_message = \<lparr>header = \<lparr>message_id = MessageId [1], ack_kind = AckSent, target_kind = Durable, durability = None,
     subjects = []\<rparr>, payload = []\<rparr>"

definition race_events :: "commit_event list" where
  "race_events =
    [CApplied (TopicCode [116]) [Create race_message], CTurn 0 True, CTurn 0 True,
     CApplied (TopicCode [116]) [Archive (MessageId [1])], CApplied (TopicCode [117]) [],
     CTurn 2 True, CTurn 2 True, CTurn 2 True, CTurn 2 True, CTurn 2 True, CTurn 0 True, CTurn 0 True, CTurn 0 True]"

fun exec_events :: "commit_event list \<Rightarrow> commit_state \<Rightarrow> commit_state option" where
  "exec_events [] s = Some s"
| "exec_events (CApplied t cs # evs) s = exec_events evs (apply_commands t cs s)"
| "exec_events (CTurn k b # evs) s = (case job_turn b k s of Some s' \<Rightarrow> exec_events evs s' | None \<Rightarrow> None)"

lemma exec_events_run: "exec_events evs s = Some s' \<Longrightarrow> commit_run s evs s'"
proof (induction evs s rule: exec_events.induct)
  case (2 t cs evs s)
  then show ?case
    using commit_run_trans [OF commit_run.step [OF commit_run.start commit_step.applied [of s t cs]], of evs s'] by simp
next
  case (3 k b evs s)
  then obtain s1 where "job_turn b k s = Some s1" "commit_run s1 evs s'" by (auto split: option.splits)
  then show ?case using commit_run_trans [OF commit_run_turn] by fastforce
qed (simp add: commit_run.start)

theorem commit_tasks_race:
  "\<exists>s. commit_run (commit_init race_node) race_events s \<and>
    cm_calls s = [CallArchive (TopicCode [117]) (MessageId [1]),
      CallSave (TopicCode [116]) \<lparr>dm_message = race_message, dm_status = [], dm_time = 10\<rparr>]"
proof -
  have "map_option cm_calls (exec_events race_events (commit_init race_node)) =
      Some [CallArchive (TopicCode [117]) (MessageId [1]),
        CallSave (TopicCode [116]) \<lparr>dm_message = race_message, dm_status = [], dm_time = 10\<rparr>]"
    by code_simp
  then show ?thesis using exec_events_run by blast
qed

section \<open>Witnesses\<close>

theorem commits_in_order_witness:
  "\<exists>s. commit_run (commit_init example_node)
      [CApplied example_topic [Create race_message], CTurn 0 True, CTurn 0 True,
       CApplied example_topic [Archive (MessageId [1])], CTurn 1 True, CTurn 0 True] s \<and>
    map call_command (cm_calls s) @ in_flight s @ queued s = [Create race_message, Archive (MessageId [1])]"
proof -
  let ?evs = "[CApplied example_topic [Create race_message], CTurn 0 True, CTurn 0 True,
    CApplied example_topic [Archive (MessageId [1])], CTurn 1 True, CTurn 0 True]"
  have "exec_events ?evs (commit_init example_node) \<noteq> None" by code_simp
  then obtain s where run: "commit_run (commit_init example_node) ?evs s" using exec_events_run by blast
  have "pushed ?evs = [Create race_message, Archive (MessageId [1])]" by (simp add: pushed_def)
  moreover have "node_durable example_node" "durable_commands_queue example_node = []" "get_topic example_node example_topic \<noteq> None"
    by (simp_all add: example_node_def get_topic_def)
  ultimately show ?thesis using commits_in_order [OF run, of example_topic] run by auto
qed

end
