(* ===== verification/MQ_Edge.thy ===== *)
theory MQ_Edge
  imports MQ_Context
begin

text \<open>
  What the edge nodes and the servers say to each other: the payloads of \<open>model/src/edge.rs\<close> with
  the message builder, the packets of \<open>edge/packet.rs\<close>, the codec registry of \<open>edge/codec.rs\<close>, and
  the errors of the authentication service (\<open>edge/auth.rs\<close>).

  The codecs themselves (bincode, CBOR, JSON) are those of other packages: a codec is a record
  of two functions.
\<close>

section \<open>Payloads (model/src/edge.rs)\<close>

record edge_message_header =
  emh_ack_kind :: message_ack_expect_kind
  emh_target_kind :: message_target_kind
  emh_durability :: "message_durable_config option"
  emh_subjects :: "subject list"
  emh_topic :: topic_code

record edge_message =
  em_header :: edge_message_header
  em_payload :: bytes

record edge_endpoint_online =
  eon_topic_code :: topic_code
  eon_interests :: "interest list"

record edge_endpoint_offline =
  eoff_topic_code :: topic_code
  eoff_endpoint :: endpoint_addr

datatype edge_request_enum =
    ReqSendMessage edge_message
  | ReqEndpointOnline edge_endpoint_online
  | ReqEndpointOffline edge_endpoint_offline
  | ReqEndpointInterest endpoint_interest
  | ReqSetState set_state

datatype ('t, 'e) edge_result = EdgeOk 't | EdgeErr 'e

fun edge_result_from_std :: "'e + 't \<Rightarrow> ('t, 'e) edge_result" where
  "edge_result_from_std (Inr t) = EdgeOk t"
| "edge_result_from_std (Inl e) = EdgeErr e"

fun edge_result_into_std :: "('t, 'e) edge_result \<Rightarrow> 'e + 't" where
  "edge_result_into_std (EdgeOk t) = Inr t"
| "edge_result_into_std (EdgeErr e) = Inl e"

datatype edge_response_enum =
    RespSendMessage "(wait_ack_success, wait_ack_error) edge_result"
  | RespEndpointOnline endpoint_addr
  | RespEndpointOffline
  | RespEndpointInterest
  | RespSetState

datatype edge_error_kind = EdgeDecode | EdgeTopicNotFound | EdgeEndpointNotFound | EdgeUnauthorized | EdgeInternal

fun edge_error_kind_to_u8 :: "edge_error_kind \<Rightarrow> byte" where
  "edge_error_kind_to_u8 EdgeDecode = 0x00"
| "edge_error_kind_to_u8 EdgeTopicNotFound = 0x02"
| "edge_error_kind_to_u8 EdgeEndpointNotFound = 0x03"
| "edge_error_kind_to_u8 EdgeUnauthorized = 0x04"
| "edge_error_kind_to_u8 EdgeInternal = 0xf0"

record edge_error =
  ee_context :: string
  ee_message :: "string option"
  ee_kind :: edge_error_kind

definition edge_error_new :: "string \<Rightarrow> edge_error_kind \<Rightarrow> edge_error" where
  "edge_error_new context kind = \<lparr>ee_context = context, ee_message = None, ee_kind = kind\<rparr>"

definition edge_error_with_message :: "string \<Rightarrow> string \<Rightarrow> edge_error_kind \<Rightarrow> edge_error" where
  "edge_error_with_message context message kind =
    \<lparr>ee_context = context, ee_message = Some message, ee_kind = kind\<rparr>"

record edge_request =
  rq_seq_id :: u32
  rq_request :: edge_request_enum

record edge_response =
  rs_seq_id :: u32
  rs_result :: "(edge_response_enum, edge_error) edge_result"

definition edge_response_from_result :: "u32 \<Rightarrow> edge_error + edge_response_enum \<Rightarrow> edge_response" where
  "edge_response_from_result i result = \<lparr>rs_seq_id = i, rs_result = edge_result_from_std result\<rparr>"

datatype edge_push = PushMessage "endpoint_addr list" message

datatype edge_payload =
    PayloadPush edge_push
  | PayloadResponse edge_response
  | PayloadRequest edge_request
  | PayloadError edge_error

text \<open>The server gives the message its identifier.\<close>

definition into_message_header :: "message_id \<Rightarrow> edge_message_header \<Rightarrow> message_header \<times> topic_code" where
  "into_message_header fresh h =
    (\<lparr>message_id = fresh, ack_kind = emh_ack_kind h, target_kind = emh_target_kind h,
      durability = emh_durability h, subjects = emh_subjects h\<rparr>, emh_topic h)"

definition into_message :: "message_id \<Rightarrow> edge_message \<Rightarrow> message \<times> topic_code" where
  "into_message fresh m =
    (let (h, topic) = into_message_header fresh (em_header m) in (message_new h (em_payload m), topic))"

record edge_message_builder =
  eb_ack_kind :: message_ack_expect_kind
  eb_target_kind :: message_target_kind
  eb_durability :: "message_durable_config option"
  eb_subjects :: "subject list"
  eb_topic :: topic_code
  eb_payload :: bytes

definition edge_builder :: "topic_code \<Rightarrow> subject list \<Rightarrow> bytes \<Rightarrow> edge_message_builder" where
  "edge_builder code subs p =
    \<lparr>eb_ack_kind = AckSent, eb_target_kind = Push, eb_durability = None, eb_subjects = subs,
     eb_topic = code, eb_payload = p\<rparr>"

definition edge_builder_ack_kind :: "message_ack_expect_kind \<Rightarrow> edge_message_builder \<Rightarrow> edge_message_builder" where
  "edge_builder_ack_kind k b = b\<lparr>eb_ack_kind := k\<rparr>"

definition edge_builder_mode_durable :: "message_durable_config \<Rightarrow> edge_message_builder \<Rightarrow> edge_message_builder" where
  "edge_builder_mode_durable d b = b\<lparr>eb_durability := Some d, eb_target_kind := Durable\<rparr>"

definition edge_builder_mode_online :: "edge_message_builder \<Rightarrow> edge_message_builder" where
  "edge_builder_mode_online b = b\<lparr>eb_target_kind := Online\<rparr>"

definition edge_builder_mode_push :: "edge_message_builder \<Rightarrow> edge_message_builder" where
  "edge_builder_mode_push b = b\<lparr>eb_target_kind := Push\<rparr>"

definition edge_builder_with_subject :: "subject \<Rightarrow> edge_message_builder \<Rightarrow> edge_message_builder" where
  "edge_builder_with_subject s b = b\<lparr>eb_subjects := eb_subjects b @ [s]\<rparr>"

definition edge_builder_build :: "edge_message_builder \<Rightarrow> edge_message" where
  "edge_builder_build b =
    \<lparr>em_header = \<lparr>emh_ack_kind = eb_ack_kind b, emh_target_kind = eb_target_kind b,
       emh_durability = eb_durability b, emh_subjects = eb_subjects b, emh_topic = eb_topic b\<rparr>,
     em_payload = eb_payload b\<rparr>"

section \<open>Packets (edge/packet.rs)\<close>

type_synonym codec_kind = byte

abbreviation CBOR :: codec_kind where "CBOR \<equiv> 0x00"
abbreviation BINCODE :: codec_kind where "BINCODE \<equiv> 0x01"
abbreviation JSON :: codec_kind where "JSON \<equiv> 0x40"

text \<open>\<open>Display\<close> of a codec kind: two hexadecimal digits.\<close>

definition codec_kind_display :: "codec_kind \<Rightarrow> string" where
  "codec_kind_display k = [hex_digit (unat k div 16), hex_digit (unat k mod 16)]"

datatype edge_packet_id = EdgePacketId (packet_id_bytes: bytes)

definition edge_packet_id_new_snowflake :: "u64 \<Rightarrow> u64 \<Rightarrow> u32 \<Rightarrow> edge_packet_id outcome \<times> u32" where
  "edge_packet_id_new_snowflake timestamp digest counter =
    (let eid = (ucast digest :: u32) in
     (and_then (copy_from_slice 0 8 (u64_to_be_bytes timestamp) (replicate 16 0)) (\<lambda>b.
      and_then (copy_from_slice 8 12 (u32_to_be_bytes counter) b) (\<lambda>b.
      and_then (copy_from_slice 12 16 (u32_to_be_bytes eid) b) (\<lambda>b.
      Inr (EdgePacketId b)))),
      counter + 1))"

record edge_packet_header =
  eph_id :: edge_packet_id
  eph_codec :: codec_kind

record edge_packet =
  ep_header :: edge_packet_header
  ep_payload :: bytes

definition edge_packet_new :: "edge_packet_id \<Rightarrow> codec_kind \<Rightarrow> bytes \<Rightarrow> edge_packet" where
  "edge_packet_new fresh codec p = \<lparr>ep_header = \<lparr>eph_id = fresh, eph_codec = codec\<rparr>, ep_payload = p\<rparr>"

definition packet_layout :: "u64 \<Rightarrow> u32 \<Rightarrow> u32 \<Rightarrow> edge_packet_id" where
  "packet_layout t e c = EdgePacketId (u64_to_be_bytes t @ u32_to_be_bytes c @ u32_to_be_bytes e)"

interpretation pid: snowflake edge_packet_id_new_snowflake packet_layout
  by unfold_locales
    (simp_all add: edge_packet_id_new_snowflake_def packet_layout_def u32_to_be_bytes_inject u64_to_be_bytes_inject)

section \<open>Codecs (edge/codec.rs)\<close>

record codec =
  codec_encode :: "edge_payload \<Rightarrow> bytes"
  codec_decode :: "bytes \<Rightarrow> string + edge_payload"

datatype codec_error = CodecError string

definition codec_error_display :: "codec_error \<Rightarrow> string" where
  "codec_error_display e = (case e of CodecError reason \<Rightarrow> ''codec error: '' @ reason)"

definition decode_error :: "string \<Rightarrow> codec_error" where
  "decode_error e = CodecError (''decode error: '' @ e)"

definition unregistered_codec :: "codec_kind \<Rightarrow> codec_error" where
  "unregistered_codec k = CodecError (''unregistered codec: '' @ codec_kind_display k)"

type_synonym codec_registry = "(codec_kind, codec) hash_map"

definition registry_new_empty :: codec_registry where
  "registry_new_empty = []"

definition registry_register :: "codec_kind \<Rightarrow> codec \<Rightarrow> codec_registry \<Rightarrow> codec_registry" where
  "registry_register k c r = hm_insert k c r"

text \<open>With the feature \<open>cbor\<close> (\<open>Some\<close> of its codec) or without.\<close>

definition registry_new_preloaded :: "codec option \<Rightarrow> codec \<Rightarrow> codec \<Rightarrow> codec_registry" where
  "registry_new_preloaded cbor bincode json =
    (let r = registry_new_empty;
         r = (case cbor of Some c \<Rightarrow> registry_register CBOR c r | None \<Rightarrow> r);
         r = registry_register BINCODE bincode r
     in registry_register JSON json r)"

definition registry_get :: "codec_registry \<Rightarrow> codec_kind \<Rightarrow> codec option" where
  "registry_get r k = hm_get r k"

text \<open>\<open>supported\<close> in the order the iterator of the hash set yields it.\<close>

definition pick_preferred_codec :: "codec_registry \<Rightarrow> codec_kind list \<Rightarrow> codec_kind option" where
  "pick_preferred_codec r supported = List.find (\<lambda>k. hm_get r k \<noteq> None) supported"

definition registry_encode :: "codec_registry \<Rightarrow> codec_kind \<Rightarrow> edge_payload \<Rightarrow> codec_error + bytes" where
  "registry_encode r k value =
    (case hm_get r k of None \<Rightarrow> Inl (unregistered_codec k) | Some c \<Rightarrow> Inr (codec_encode c value))"

definition registry_decode :: "codec_registry \<Rightarrow> codec_kind \<Rightarrow> bytes \<Rightarrow> codec_error + edge_payload" where
  "registry_decode r k bs =
    (case hm_get r k of
       None \<Rightarrow> Inl (unregistered_codec k)
     | Some c \<Rightarrow> (case codec_decode c bs of Inl e \<Rightarrow> Inl (decode_error e) | Inr p \<Rightarrow> Inr p))"

section \<open>Authentication (edge/auth.rs)\<close>

record edge_auth_error =
  auth_reason :: string
  auth_source :: "string option" \<comment> \<open>the \<open>Display\<close> of the source\<close>

definition edge_auth_error_display :: "edge_auth_error \<Rightarrow> string" where
  "edge_auth_error_display e =
    ''EdgeAuthError: '' @ auth_reason e @
    (case auth_source e of Some s \<Rightarrow> ''with source: '' @ s | None \<Rightarrow> [])"

definition edge_auth_error_new :: "string \<Rightarrow> string \<Rightarrow> edge_auth_error" where
  "edge_auth_error_new reason source = \<lparr>auth_reason = reason, auth_source = Some source\<rparr>"

definition edge_auth_error_new_local :: "string \<Rightarrow> edge_auth_error" where
  "edge_auth_error_new_local reason = \<lparr>auth_reason = reason, auth_source = None\<rparr>"

text \<open>The trait \<open>EdgeAuth\<close> is what the user plugs in; the service names its type.\<close>

type_synonym edge_auth = "node_id \<Rightarrow> edge_request_enum \<Rightarrow> edge_auth_error + unit"

record edge_auth_service =
  service_inner :: edge_auth
  service_source :: string

definition edge_auth_service_new :: "string \<Rightarrow> edge_auth \<Rightarrow> edge_auth_service" where
  "edge_auth_service_new type_name inner = \<lparr>service_inner = inner, service_source = type_name\<rparr>"

definition edge_auth_service_display :: "edge_auth_service \<Rightarrow> string" where
  "edge_auth_service_display s = ''EdgeAuthService: '' @ service_source s"

definition edge_auth_check :: "edge_auth_service \<Rightarrow> node_id \<Rightarrow> edge_request_enum \<Rightarrow> edge_auth_error + unit" where
  "edge_auth_check s peer request = service_inner s peer request"

section \<open>Properties\<close>

lemma edge_result_std_inverse [simp]: "edge_result_into_std (edge_result_from_std r) = r"
  by (cases r) simp_all

text \<open>A codec loses nothing of the payloads in \<open>P\<close>.\<close>

definition codec_faithful :: "edge_payload set \<Rightarrow> codec \<Rightarrow> bool" where
  "codec_faithful P c \<longleftrightarrow> (\<forall>p \<in> P. codec_decode c (codec_encode c p) = Inr p)"

definition registry_faithful :: "edge_payload set \<Rightarrow> codec_registry \<Rightarrow> bool" where
  "registry_faithful P r \<longleftrightarrow> (\<forall>k c. hm_get r k = Some c \<longrightarrow> codec_faithful P c)"

lemma registry_roundtrip:
  assumes "registry_faithful P r" "p \<in> P" "registry_encode r k p = Inr bs"
  shows "registry_decode r k bs = Inr p"
  using assms
  by (auto simp: registry_faithful_def codec_faithful_def registry_encode_def registry_decode_def
      split: option.splits)

text \<open>
  Choosing a codec: a kind is picked exactly when some supported kind is registered, it is one
  that both sides have, and what the node then encodes with it, a peer with the same registry
  decodes.
\<close>

theorem codec_negotiation:
  assumes "registry_faithful P r" "p \<in> P"
  shows "case pick_preferred_codec r supported of
      None \<Rightarrow> \<forall>k \<in> set supported. registry_get r k = None
    | Some k \<Rightarrow> k \<in> set supported \<and>
        (\<exists>bs. registry_encode r k p = Inr bs \<and> registry_decode r k bs = Inr p)"
proof (cases "pick_preferred_codec r supported")
  case None
  then have "\<forall>k \<in> set supported. registry_get r k = None"
    by (auto simp: pick_preferred_codec_def find_None_iff registry_get_def)
  then show ?thesis unfolding None by simp
next
  case (Some k)
  then have k: "k \<in> set supported" "hm_get r k \<noteq> None"
    by (auto simp: pick_preferred_codec_def find_Some_iff)
  then obtain bs where "registry_encode r k p = Inr bs"
    by (auto simp: registry_encode_def)
  with registry_roundtrip [OF assms this] k show ?thesis unfolding Some by auto
qed

end
