(* ===== verification/MQ_Node.thy ===== *)
theory MQ_Node
  imports MQ_State_Machine MQ_Edge MQ_Durable
begin

text \<open>
  The server node around its replica of the state machine: \<open>Node\<close> (\<open>node.rs\<close>) with the requests of
  edge nodes, \<open>Topic\<close> (\<open>topic.rs\<close>) with its pool of waiting senders, \<open>LocalEndpoint\<close>
  (\<open>endpoint.rs\<close>), \<open>WaitAckHandle\<close> (\<open>wait_ack.rs\<close>), the connections to edge nodes
  (\<open>edge/connection.rs\<close>) and the tasks that the proposals spawn.

  Raft is openraft: the record \<open>raft_env\<close> gives its answers, each with the replica as it is when
  the answer is there, since other entries may be applied while a task waits.
\<close>

section \<open>Errors (error.rs)\<close>

datatype error_kind =
    KDurability string | KOffline | KTopicAlreadyExists | KNotLeader | KIo string
  | KAck wait_ack_error | KCustom string | KRaftClient string

record server_error =
  se_context :: string
  se_kind :: error_kind

definition error_new :: "string \<Rightarrow> error_kind \<Rightarrow> server_error" where
  "error_new context kind = \<lparr>se_context = context, se_kind = kind\<rparr>"

definition error_unknown :: "string \<Rightarrow> server_error" where
  "error_unknown context = \<lparr>se_context = context, se_kind = KCustom ''unknown error''\<rparr>"

definition contextual_custom :: "string \<Rightarrow> string \<Rightarrow> server_error" where
  "contextual_custom context e = \<lparr>se_context = context, se_kind = KCustom e\<rparr>"

section \<open>State\<close>

text \<open>The clock, digest and counters of the thread that draws identifiers.\<close>

record snowflakes =
  sf_clock :: "nat \<Rightarrow> u64"
  sf_reads :: nat
  sf_digest :: u64
  ep_counter :: u32
  msg_counter :: u32
  packet_counter :: u32

text \<open>
  \<open>EdgeConnectionInstance\<close>: \<open>ec_instance\<close> tells instances with the same peer apart (the code has one
  \<open>Arc\<close> each), \<open>ec_receiving\<close> says that the connection task still holds the receiving end of the
  outbound channel.  The channel is bounded; a sender waits for room, and the model
  shows the channel once it got in.
\<close>

record edge_connection =
  ec_instance :: nat
  ec_codecs :: codec_registry
  ec_preferred :: codec_kind
  ec_peer :: node_id
  ec_alive :: bool
  ec_receiving :: bool
  ec_outbound :: "edge_packet list"

text \<open>\<open>LocalEndpointInner\<close>; \<open>le_topic\<close> is the weak reference to its topic.\<close>

record local_endpoint =
  le_address :: endpoint_addr
  le_topic_code :: topic_code
  le_interest :: "interest list"
  le_topic :: nat
  le_mail_box :: "message list"

text \<open>The channel behind a \<open>WaitAckHandle\<close>; \<open>Closed\<close> when its sender is gone without an answer.\<close>

datatype oneshot = Pending | Delivered wait_ack_result | Closed

text \<open>
  \<open>sn_topics_held\<close>: the topic handles that the application keeps a reference to, besides those in
  the map of the node.
\<close>

record server_node =
  sn_inner :: node_inner
  sn_data :: node_data
  sn_network :: "(node_id, nat) hash_map"
  sn_edge_auth :: "edge_auth_service option"
  sn_codecs :: codec_registry
  edge_connections :: "(node_id, edge_connection) hash_map"
  edge_routing :: "(endpoint_addr, node_id \<times> topic_code) hash_map"
  sn_locals :: "(nat, local_endpoint) hash_map"
  sn_oneshots :: "(nat, oneshot) hash_map"
  sn_next :: nat
  sn_topics_held :: "nat set"
  sn_ids :: snowflakes
  durable_calls :: "durable_call list"

type_synonym replica = "node_data \<times> node_inner"

record raft_env =
  raft_leader :: "replica \<Rightarrow> (string + node_id) \<times> replica"
  raft_client_write :: "proposal \<Rightarrow> replica \<Rightarrow> (string + u64) \<times> replica"
  raft_remote_propose :: "node_id \<Rightarrow> proposal \<Rightarrow> replica \<Rightarrow> (server_error + u64) \<times> replica"
  raft_wait_applied :: "u64 \<Rightarrow> replica \<Rightarrow> (string + unit) \<times> replica"
  raft_linearizable :: "replica \<Rightarrow> bool"
  error_display :: "server_error \<Rightarrow> string"

abbreviation replica_of :: "server_node \<Rightarrow> replica" where
  "replica_of n \<equiv> (sn_data n, sn_inner n)"

definition set_replica :: "replica \<Rightarrow> server_node \<Rightarrow> server_node" where
  "set_replica r n = n\<lparr>sn_data := fst r, sn_inner := snd r\<rparr>"

abbreviation this_id :: "server_node \<Rightarrow> node_id" where
  "this_id n \<equiv> node_config_id (sn_inner n)"

text \<open>\<open>timestamp_sec\<close> and the three \<open>new_snowflake\<close> on the node's thread.\<close>

definition tick :: "snowflakes \<Rightarrow> u64 \<times> snowflakes" where
  "tick f = (sf_clock f (sf_reads f), f\<lparr>sf_reads := Suc (sf_reads f)\<rparr>)"

definition draw_endpoint :: "snowflakes \<Rightarrow> endpoint_addr outcome \<times> snowflakes" where
  "draw_endpoint f =
    (let (t, f) = tick f; (r, c) = endpoint_addr_new_snowflake t (sf_digest f) (ep_counter f)
     in (r, f\<lparr>ep_counter := c\<rparr>))"

definition draw_message :: "snowflakes \<Rightarrow> message_id outcome \<times> snowflakes" where
  "draw_message f =
    (let (t, f) = tick f; (r, c) = message_id_new_snowflake t (sf_digest f) (msg_counter f)
     in (r, f\<lparr>msg_counter := c\<rparr>))"

definition draw_packet :: "snowflakes \<Rightarrow> edge_packet_id outcome \<times> snowflakes" where
  "draw_packet f =
    (let (t, f) = tick f; (r, c) = edge_packet_id_new_snowflake t (sf_digest f) (packet_counter f)
     in (r, f\<lparr>packet_counter := c\<rparr>))"

section \<open>Proposing\<close>

text \<open>The proposal goes to the leader: this node itself, or a peer it is connected to.\<close>

definition write_proposal ::
  "raft_env \<Rightarrow> node_id \<Rightarrow> proposal \<Rightarrow> server_node \<Rightarrow> replica \<Rightarrow> (server_error + u64) \<times> replica" where
  "write_proposal r leader p n rep =
    (if this_id n = leader then
       (case raft_client_write r p rep of
          (Inl e, rep) \<Rightarrow> (Inl (contextual_custom ''client write'' e), rep)
        | (Inr i, rep) \<Rightarrow> (Inr i, rep))
     else
       (case hm_get (sn_network n) leader of
          None \<Rightarrow> (Inl (error_new ''no connection to leader'' KOffline), rep)
        | Some _ \<Rightarrow> raft_remote_propose r leader p rep))"

definition propose :: "raft_env \<Rightarrow> proposal \<Rightarrow> server_node \<Rightarrow> (server_error + unit) \<times> server_node" where
  "propose r p n =
    (case raft_leader r (replica_of n) of
       (Inl e, rep) \<Rightarrow> (Inl (contextual_custom ''wait for leader when proposal'' e), set_replica rep n)
     | (Inr leader, rep) \<Rightarrow>
         (case write_proposal r leader p n rep of
            (Inl e, rep) \<Rightarrow> (Inl e, set_replica rep n)
          | (Inr i, rep) \<Rightarrow>
              (case raft_wait_applied r i rep of
                 (Inl e, rep) \<Rightarrow> (Inl (contextual_custom ''wait for proposal'' e), set_replica rep n)
               | (Inr _, rep) \<Rightarrow> (Inr (), set_replica rep n))))"

section \<open>Connections to edge nodes (edge/connection.rs)\<close>

datatype node_connection_error_kind = ConnIo | ConnUnderlying | ConnCodec codec_error | ConnClosed | ConnTimeout | ConnProtocol | ConnExisted

record node_connection_error =
  nce_kind :: node_connection_error_kind
  nce_context :: string

definition connection_error_new :: "node_connection_error_kind \<Rightarrow> string \<Rightarrow> node_connection_error" where
  "connection_error_new kind context = \<lparr>nce_kind = kind, nce_context = context\<rparr>"

definition send_packet :: "edge_packet \<Rightarrow> edge_connection \<Rightarrow> (node_connection_error + unit) \<times> edge_connection" where
  "send_packet p c =
    (if ec_receiving c then (Inr (), c\<lparr>ec_outbound := ec_outbound c @ [p]\<rparr>)
     else (Inl (connection_error_new ConnClosed ''send message''), c))"

definition encode_packet ::
  "edge_payload \<Rightarrow> edge_connection \<Rightarrow> snowflakes \<Rightarrow> ((node_connection_error + edge_packet) \<times> snowflakes) outcome" where
  "encode_packet p c f =
    (case registry_encode (ec_codecs c) (ec_preferred c) p of
       Inl e \<Rightarrow> Inr (Inl (connection_error_new (ConnCodec e) ''encode message''), f)
     | Inr bs \<Rightarrow>
         (let (r, f') = draw_packet f in
          and_then r (\<lambda>fresh. Inr (Inr (edge_packet_new fresh (ec_preferred c) bs), f'))))"

definition push_message ::
  "endpoint_addr \<Rightarrow> message \<Rightarrow> edge_connection \<Rightarrow> snowflakes
    \<Rightarrow> ((node_connection_error + unit) \<times> edge_connection \<times> snowflakes) outcome" where
  "push_message ep m c f =
    and_then (encode_packet (PayloadPush (PushMessage [ep] m)) c f) (\<lambda>(r, f').
      case r of
        Inl e \<Rightarrow> Inr (Inl e, c, f')
      | Inr p \<Rightarrow> (let (r, c') = send_packet p c in Inr (r, c', f')))"

text \<open>
  \<open>create_edge_connection\<close> with \<open>EdgeConnectionInstance::init\<close>: the node is there, and the
  preferred codec was found in its own registry.
\<close>

definition create_edge_connection ::
  "codec_kind list \<Rightarrow> node_id \<Rightarrow> server_node \<Rightarrow> (node_connection_error + node_id) \<times> server_node" where
  "create_edge_connection supported peer n =
    (case pick_preferred_codec (sn_codecs n) supported of
       None \<Rightarrow> (Inl (connection_error_new ConnProtocol ''no codec available''), n)
     | Some preferred \<Rightarrow>
         (Inr peer, n\<lparr>sn_next := Suc (sn_next n), edge_connections := hm_insert peer
            \<lparr>ec_instance = sn_next n, ec_codecs = sn_codecs n, ec_preferred = preferred, ec_peer = peer, ec_alive = True,
             ec_receiving = True, ec_outbound = []\<rparr> (edge_connections n)\<rparr>))"

section \<open>Routing to edge nodes\<close>

definition get_edge_routing :: "server_node \<Rightarrow> endpoint_addr \<Rightarrow> node_id option" where
  "get_edge_routing n addr = map_option fst (hm_get (edge_routing n) addr)"

definition set_edge_routing :: "endpoint_addr \<Rightarrow> node_id \<Rightarrow> topic_code \<Rightarrow> server_node \<Rightarrow> server_node" where
  "set_edge_routing addr edge topic n = n\<lparr>edge_routing := hm_insert addr (edge, topic) (edge_routing n)\<rparr>"

definition get_edge_connection :: "server_node \<Rightarrow> node_id \<Rightarrow> edge_connection option" where
  "get_edge_connection n to =
    (case hm_get (edge_connections n) to of
       None \<Rightarrow> None
     | Some conn \<Rightarrow> if ec_alive conn then Some conn else None)"

definition node_spawn :: "task \<Rightarrow> server_node \<Rightarrow> server_node" where
  "node_spawn t n = n\<lparr>sn_inner := spawn_task t (sn_inner n)\<rparr>"

definition remove_edge_connection :: "node_id \<Rightarrow> server_node \<Rightarrow> server_node" where
  "remove_edge_connection to n =
    (case hm_get (edge_connections n) to of
       None \<Rightarrow> n
     | Some _ \<Rightarrow>
         (let n = n\<lparr>edge_connections := hm_remove to (edge_connections n)\<rparr>;
              offline_eps = map (\<lambda>(addr, _, topic). (addr, topic))
                (filter (\<lambda>(addr, node_id, topic). node_id = to) (edge_routing n));
              n = n\<lparr>edge_routing := fold (\<lambda>(addr, _). hm_remove addr) offline_eps (edge_routing n)\<rparr>;
              host = this_id n
          in fold (\<lambda>(addr, topic_code). node_spawn (ProposeTask (EpOffline
               \<lparr>off_topic_code = topic_code, off_endpoint = addr, off_host = host\<rparr>))) offline_eps n))"

definition check_ep_auth :: "endpoint_addr \<Rightarrow> node_id \<Rightarrow> server_node \<Rightarrow> edge_error + unit" where
  "check_ep_auth ep peer n =
    (case hm_get (edge_routing n) ep of
       Some (owner, topic) \<Rightarrow>
         if owner = peer then Inr ()
         else Inl (edge_error_new ''endpoint not owned by sender'' EdgeUnauthorized)
     | None \<Rightarrow> Inl (edge_error_new ''endpoint not found'' EdgeEndpointNotFound))"

section \<open>Topics (topic.rs, wait_ack.rs)\<close>

text \<open>
  A topic handle stands for an \<open>Arc<TopicInner>\<close>, whose target exists as long as the handle; a
  number that is no handle reads as an empty topic.
\<close>

definition topic_at :: "server_node \<Rightarrow> nat \<Rightarrow> topic_inner" where
  "topic_at n h =
    (case hm_get (topic_handles (sn_inner n)) h of
       Some ti \<Rightarrow> ti
     | None \<Rightarrow> \<lparr>ti_code = TopicCode [], ack_waiting_pool = [], local_endpoints = []\<rparr>)"

definition set_topic_at :: "nat \<Rightarrow> topic_inner \<Rightarrow> server_node \<Rightarrow> server_node" where
  "set_topic_at h ti n =
    n\<lparr>sn_inner := (sn_inner n)\<lparr>topic_handles := hm_insert h ti (topic_handles (sn_inner n))\<rparr>\<rparr>"

definition get_local_ep :: "server_node \<Rightarrow> nat \<Rightarrow> endpoint_addr \<Rightarrow> nat option" where
  "get_local_ep n h ep = hm_get (local_endpoints (topic_at n h)) ep"

text \<open>The weak reference of an endpoint to its topic.\<close>

definition topic_alive :: "server_node \<Rightarrow> nat \<Rightarrow> bool" where
  "topic_alive n h \<longleftrightarrow> h \<in> snd ` set (node_topics (sn_inner n)) \<or> h \<in> sn_topics_held n"

text \<open>
  Registering a sender; inserting under an identifier that is there already drops the sender it
  replaces, and so closes that sender's channel.
\<close>

definition topic_wait_ack :: "nat \<Rightarrow> message_id \<Rightarrow> server_node \<Rightarrow> nat \<times> server_node" where
  "topic_wait_ack h i n =
    (let tx = sn_next n; ti = topic_at n h;
         channels = hm_insert tx Pending (sn_oneshots n);
         channels = (case hm_get (ack_waiting_pool ti) i of Some old \<Rightarrow> hm_insert old Closed channels | None \<Rightarrow> channels)
     in (tx, set_topic_at h (ti\<lparr>ack_waiting_pool := hm_insert i tx (ack_waiting_pool ti)\<rparr>)
           (n\<lparr>sn_next := Suc tx, sn_oneshots := channels\<rparr>)))"

definition wait_ack_poll :: "server_node \<Rightarrow> nat \<Rightarrow> wait_ack_result option" where
  "wait_ack_poll n handle =
    (case hm_get (sn_oneshots n) handle of
       Some (Delivered r) \<Rightarrow> Some r
     | Some Closed \<Rightarrow> Some (Inl (wait_ack_error_of MessageDropped))
     | _ \<Rightarrow> None)"

definition send_message ::
  "raft_env \<Rightarrow> nat \<Rightarrow> message \<Rightarrow> server_node \<Rightarrow> (server_error + nat) \<times> server_node" where
  "send_message r h m n =
    (let (handle, n) = topic_wait_ack h (msg_id m) n in
     case propose r (DelegateMessage \<lparr>dg_topic = ti_code (topic_at n h), dg_message = m\<rparr>) n of
       (Inl e, n) \<Rightarrow> (Inl e, n)
     | (Inr _, n) \<Rightarrow> (Inr handle, n))"

definition ep_offline_proposal :: "topic_code \<Rightarrow> endpoint_addr \<Rightarrow> node_id \<Rightarrow> proposal" where
  "ep_offline_proposal code ep host = EpOffline \<lparr>off_topic_code = code, off_endpoint = ep, off_host = host\<rparr>"

text \<open>When the proposal fails, the new endpoint is dropped, which proposes that it goes offline.\<close>

definition create_endpoint ::
  "raft_env \<Rightarrow> nat \<Rightarrow> interest list \<Rightarrow> server_node \<Rightarrow> ((server_error + nat) \<times> server_node) outcome" where
  "create_endpoint r h interests n =
    (let topic_code = ti_code (topic_at n h); (fresh, ids) = draw_endpoint (sn_ids n) in
     and_then fresh (\<lambda>addr.
       let l = sn_next n;
           ep = \<lparr>le_address = addr, le_topic_code = topic_code, le_interest = interests, le_topic = h, le_mail_box = []\<rparr>;
           n = n\<lparr>sn_ids := ids, sn_next := Suc l, sn_locals := hm_insert l ep (sn_locals n)\<rparr>
       in Inr (case propose r (EpOnline \<lparr>on_topic_code = topic_code, on_endpoint = addr,
                     on_interests = le_interest ep, on_host = this_id n\<rparr>) n of
                 (Inl e, n) \<Rightarrow>
                   (Inl e, node_spawn (ProposeTask (ep_offline_proposal topic_code addr (this_id n)))
                      (n\<lparr>sn_locals := hm_remove l (sn_locals n)\<rparr>))
               | (Inr _, n) \<Rightarrow>
                   (let ti = topic_at n h in
                    (Inr l, set_topic_at h (ti\<lparr>local_endpoints := hm_insert addr l (local_endpoints ti)\<rparr>) n)))))"

definition delete_endpoint ::
  "raft_env \<Rightarrow> nat \<Rightarrow> endpoint_addr \<Rightarrow> server_node \<Rightarrow> (server_error + unit) \<times> server_node" where
  "delete_endpoint r h addr n =
    (let ti = topic_at n h;
         n = set_topic_at h (ti\<lparr>local_endpoints := hm_remove addr (local_endpoints ti)\<rparr>) n
     in propose r (ep_offline_proposal (ti_code ti) addr (this_id n)) n)"

definition topic_dispatch_message ::
  "nat \<Rightarrow> message \<Rightarrow> endpoint_addr \<Rightarrow> server_node \<Rightarrow> (message_status_kind option \<times> server_node) outcome" where
  "topic_dispatch_message h m ep n =
    (case get_local_ep n h ep of
       Some l \<Rightarrow>
         (case hm_get (sn_locals n) l of
            None \<Rightarrow> Inr (None, n)
          | Some e \<Rightarrow>
              Inr (Some Sent, n\<lparr>sn_locals := hm_insert l (e\<lparr>le_mail_box := le_mail_box e @ [m]\<rparr>) (sn_locals n)\<rparr>))
     | None \<Rightarrow>
         (case get_edge_routing n ep of
            None \<Rightarrow> Inr (None, n)
          | Some node_id \<Rightarrow>
              (case get_edge_connection n node_id of
                 None \<Rightarrow> Inr (None, n)
               | Some edge \<Rightarrow>
                   and_then (push_message ep m edge (sn_ids n)) (\<lambda>(result, edge', ids).
                   let n = n\<lparr>edge_connections := hm_insert node_id edge' (edge_connections n), sn_ids := ids\<rparr>
                   in case result of
                        Inl _ \<Rightarrow> Inr (Some Unreachable, n)
                      | Inr _ \<Rightarrow> Inr (Some Sent, n)))))"

definition single_ack ::
  "raft_env \<Rightarrow> nat \<Rightarrow> message_ack \<Rightarrow> server_node \<Rightarrow> (server_error + unit) \<times> server_node" where
  "single_ack r h ack n =
    propose r (SetState \<lparr>ss_topic = ti_code (topic_at n h),
      ss_update = state_update_new (ack_to ack) [(ack_from ack, ack_status ack)]\<rparr>) n"

section \<open>Local endpoints (endpoint.rs)\<close>

definition local_endpoint_ack ::
  "(message_header \<Rightarrow> topic_code \<Rightarrow> endpoint_addr \<Rightarrow> message_ack) \<Rightarrow> raft_env \<Rightarrow> local_endpoint \<Rightarrow> message_header
    \<Rightarrow> server_node \<Rightarrow> (server_error + unit) \<times> server_node" where
  "local_endpoint_ack mk r e h n =
    (if topic_alive n (le_topic e) then single_ack r (le_topic e) (mk h (le_topic_code e) (le_address e)) n
     else (Inl (error_new ''topic not found'' KOffline), n))"

definition local_ack_processed where "local_ack_processed = local_endpoint_ack ack_processed"
definition local_ack_received where "local_ack_received = local_endpoint_ack ack_received"
definition local_ack_failed where "local_ack_failed = local_endpoint_ack ack_failed"

text \<open>\<open>None\<close> while there is no message to receive.\<close>

definition next_message :: "nat \<Rightarrow> server_node \<Rightarrow> message option \<times> server_node" where
  "next_message l n =
    (case hm_get (sn_locals n) l of
       None \<Rightarrow> (None, n)
     | Some e \<Rightarrow>
         (case le_mail_box e of
            [] \<Rightarrow> (None, n)
          | m # ms \<Rightarrow> (Some m, n\<lparr>sn_locals := hm_insert l (e\<lparr>le_mail_box := ms\<rparr>) (sn_locals n)\<rparr>)))"

definition update_interest ::
  "raft_env \<Rightarrow> local_endpoint \<Rightarrow> interest list \<Rightarrow> server_node \<Rightarrow> (server_error + unit) \<times> server_node" where
  "update_interest r e interests n =
    (if topic_alive n (le_topic e) then
       propose r (EpInterest \<lparr>ei_topic_code = ti_code (topic_at n (le_topic e)), ei_endpoint = le_address e,
         ei_interests = interests\<rparr>) n
     else (Inl (error_new ''topic not found'' KOffline), n))"

definition drop_local_endpoint :: "nat \<Rightarrow> server_node \<Rightarrow> server_node" where
  "drop_local_endpoint l n =
    (case hm_get (sn_locals n) l of
       None \<Rightarrow> n
     | Some e \<Rightarrow>
         (let n = n\<lparr>sn_locals := hm_remove l (sn_locals n)\<rparr> in
          if topic_alive n (le_topic e) then
            node_spawn (ProposeTask (ep_offline_proposal (ti_code (topic_at n (le_topic e))) (le_address e) (this_id n))) n
          else n))"

section \<open>Loading topics\<close>

definition node_load_topic ::
  "raft_env \<Rightarrow> topic_config \<Rightarrow> durable_message list \<Rightarrow> server_node \<Rightarrow> (server_error + nat) \<times> server_node" where
  "node_load_topic r config queue n =
    (if hm_get (node_topics (sn_inner n)) (cfg_code config) \<noteq> None
     then (Inl (error_new ''topic already exists'' KTopicAlreadyExists), n)
     else
       (case propose r (LoadTopic \<lparr>lt_config = config, lt_queue = queue\<rparr>) n of
          (Inl e, n) \<Rightarrow> (Inl e, n)
        | (Inr _, n) \<Rightarrow>
            (case hm_get (node_topics (sn_inner n)) (cfg_code config) of
               None \<Rightarrow> (Inl (error_unknown ''topic proposal committed but still not found''), n)
             | Some h \<Rightarrow> (Inr h, n))))"

definition create_new_topic :: "raft_env \<Rightarrow> topic_config \<Rightarrow> server_node \<Rightarrow> (server_error + nat) \<times> server_node" where
  "create_new_topic r config n = node_load_topic r config [] n"

text \<open>
  \<open>load_from_durable_service\<close>: the task of one topic, and the topics one after the other (the code
  joins one task per topic and returns the first error).
\<close>

definition load_stored_topic ::
  "raft_env \<Rightarrow> (topic_code \<Rightarrow> durable_message_query \<Rightarrow> string + durable_message list) \<Rightarrow> topic_config
    \<Rightarrow> server_node \<Rightarrow> ((server_error + unit) \<times> server_node) outcome" where
  "load_stored_topic r batch_retrieve topic n =
    and_then (load_queue (batch_retrieve (cfg_code topic))) (\<lambda>result.
      Inr (case result of
             Inl e \<Rightarrow> (Inl (contextual_custom ''batch retrieve'' e), n)
           | Inr queue \<Rightarrow>
               (case node_load_topic r topic queue n of
                  (Inl e, n) \<Rightarrow>
                    (if se_kind e = KTopicAlreadyExists \<or> se_kind e = KNotLeader then (Inr (), n) else (Inl e, n))
                | (Inr _, n) \<Rightarrow> (Inr (), n))))"

fun load_stored_topics ::
  "raft_env \<Rightarrow> (topic_code \<Rightarrow> durable_message_query \<Rightarrow> string + durable_message list) \<Rightarrow> topic_config list
    \<Rightarrow> server_node \<Rightarrow> ((server_error + unit) \<times> server_node) outcome" where
  "load_stored_topics r batch_retrieve [] n = Inr (Inr (), n)"
| "load_stored_topics r batch_retrieve (t # ts) n =
    and_then (load_stored_topic r batch_retrieve t n) (\<lambda>(result, n).
      case result of
        Inl e \<Rightarrow> Inr (Inl e, n)
      | Inr _ \<Rightarrow> load_stored_topics r batch_retrieve ts n)"

definition load_from_durable_service ::
  "raft_env \<Rightarrow> (string + topic_config list) option
    \<Rightarrow> (topic_code \<Rightarrow> durable_message_query \<Rightarrow> string + durable_message list)
    \<Rightarrow> server_node \<Rightarrow> ((server_error + unit) \<times> server_node) outcome" where
  "load_from_durable_service r topic_list batch_retrieve n =
    (case topic_list of
       None \<Rightarrow> Inr (Inr (), n)
     | Some (Inl e) \<Rightarrow> Inr (Inl (error_new ''load topic list'' (KDurability e)), n)
     | Some (Inr ts) \<Rightarrow> load_stored_topics r batch_retrieve ts n)"

section \<open>Requests of edge nodes\<close>

text \<open>\<open>Display\<close> of a topic code: its bytes as a string.\<close>

definition topic_code_display :: "topic_code \<Rightarrow> string" where
  "topic_code_display code = map (\<lambda>b. char_of (unat b)) (topic_code_bytes code)"

definition topic_not_found :: "topic_code \<Rightarrow> edge_error" where
  "topic_not_found code =
    edge_error_new (''topic $'' @ topic_code_display code @ '' not found'') EdgeTopicNotFound"

text \<open>
  A request is answered at once, or, for a message, once its acknowledgement is there: then the
  reply is the handle the request waits on.
\<close>

datatype edge_reply = Reply "edge_error + edge_response_enum" | AwaitAck nat

fun check_all_eps :: "endpoint_addr list \<Rightarrow> node_id \<Rightarrow> server_node \<Rightarrow> edge_error + unit" where
  "check_all_eps [] from n = Inr ()"
| "check_all_eps (ep # eps) from n =
    (case check_ep_auth ep from n of Inl e \<Rightarrow> Inl e | Inr _ \<Rightarrow> check_all_eps eps from n)"

definition propose_for_edge ::
  "raft_env \<Rightarrow> string \<Rightarrow> proposal \<Rightarrow> server_node \<Rightarrow> (edge_error + unit) \<times> server_node" where
  "propose_for_edge r context p n =
    (case propose r p n of
       (Inl e, n) \<Rightarrow> (Inl (edge_error_with_message context (error_display r e) EdgeInternal), n)
     | (Inr _, n) \<Rightarrow> (Inr (), n))"

fun handle_request_kind ::
  "raft_env \<Rightarrow> node_id \<Rightarrow> edge_request_enum \<Rightarrow> server_node \<Rightarrow> (edge_reply \<times> server_node) outcome" where
  "handle_request_kind r from (ReqSendMessage edge_message) n =
    (let (fresh, ids) = draw_message (sn_ids n); n = n\<lparr>sn_ids := ids\<rparr> in
     and_then fresh (\<lambda>i.
       let (message, topic_code) = into_message i edge_message in
       case get_topic (sn_inner n) topic_code of
         None \<Rightarrow> Inr (Reply (Inl (topic_not_found topic_code)), n)
       | Some topic \<Rightarrow>
           (case send_message r topic message n of
              (Inl e, n) \<Rightarrow>
                Inr (Reply (Inl (edge_error_with_message ''send message'' (error_display r e) EdgeInternal)), n)
            | (Inr handle, n) \<Rightarrow> Inr (AwaitAck handle, n))))"
| "handle_request_kind r from (ReqEndpointOnline online) n =
    (case get_topic (sn_inner n) (eon_topic_code online) of
       None \<Rightarrow> Inr (Reply (Inl (topic_not_found (eon_topic_code online))), n)
     | Some topic \<Rightarrow>
         (let (fresh, ids) = draw_endpoint (sn_ids n); n = n\<lparr>sn_ids := ids\<rparr> in
          and_then fresh (\<lambda>endpoint.
            case propose_for_edge r ''endpoint online''
                (EpOnline \<lparr>on_topic_code = eon_topic_code online, on_endpoint = endpoint,
                   on_interests = eon_interests online, on_host = this_id n\<rparr>) n of
              (Inl e, n) \<Rightarrow> Inr (Reply (Inl e), n)
            | (Inr _, n) \<Rightarrow>
                Inr (Reply (Inr (RespEndpointOnline endpoint)),
                     set_edge_routing endpoint from (eon_topic_code online) n))))"
| "handle_request_kind r from (ReqEndpointOffline offline) n =
    (case get_topic (sn_inner n) (eoff_topic_code offline) of
       None \<Rightarrow> Inr (Reply (Inl (topic_not_found (eoff_topic_code offline))), n)
     | Some topic \<Rightarrow>
         (case check_ep_auth (eoff_endpoint offline) from n of
            Inl e \<Rightarrow> Inr (Reply (Inl e), n)
          | Inr _ \<Rightarrow>
              (case propose_for_edge r ''endpoint offline''
                  (ep_offline_proposal (eoff_topic_code offline) (eoff_endpoint offline) from) n of
                 (Inl e, n) \<Rightarrow> Inr (Reply (Inl e), n)
               | (Inr _, n) \<Rightarrow>
                   Inr (Reply (Inr RespEndpointOffline),
                        n\<lparr>edge_routing := hm_remove (eoff_endpoint offline) (edge_routing n)\<rparr>))))"
| "handle_request_kind r from (ReqEndpointInterest interest) n =
    (case get_topic (sn_inner n) (ei_topic_code interest) of
       None \<Rightarrow> Inr (Reply (Inl (topic_not_found (ei_topic_code interest))), n)
     | Some topic \<Rightarrow>
         (case check_ep_auth (ei_endpoint interest) from n of
            Inl e \<Rightarrow> Inr (Reply (Inl e), n)
          | Inr _ \<Rightarrow>
              (case propose_for_edge r ''endpoint interest'' (EpInterest interest) n of
                 (Inl e, n) \<Rightarrow> Inr (Reply (Inl e), n)
               | (Inr _, n) \<Rightarrow> Inr (Reply (Inr RespEndpointInterest), n))))"
| "handle_request_kind r from (ReqSetState set_state) n =
    (case get_topic (sn_inner n) (ss_topic set_state) of
       None \<Rightarrow> Inr (Reply (Inl (topic_not_found (ss_topic set_state))), n)
     | Some topic \<Rightarrow>
         (case check_all_eps (hm_keys (upd_status (ss_update set_state))) from n of
            Inl e \<Rightarrow> Inr (Reply (Inl e), n)
          | Inr _ \<Rightarrow>
              (case propose_for_edge r ''set state'' (SetState set_state) n of
                 (Inl e, n) \<Rightarrow> Inr (Reply (Inl e), n)
               | (Inr _, n) \<Rightarrow> Inr (Reply (Inr RespSetState), n))))"

definition handle_edge_request ::
  "raft_env \<Rightarrow> node_id \<Rightarrow> edge_request_enum \<Rightarrow> server_node \<Rightarrow> (edge_reply \<times> server_node) outcome" where
  "handle_edge_request r from request n =
    (case sn_edge_auth n of
       Some auth \<Rightarrow>
         (case edge_auth_check auth from request of
            Inl e \<Rightarrow>
              Inr (Reply (Inl (edge_error_with_message ''auth check failed'' (edge_auth_error_display e)
                EdgeUnauthorized)), n)
          | Inr _ \<Rightarrow> handle_request_kind r from request n)
     | None \<Rightarrow> handle_request_kind r from request n)"

text \<open>The reply of a message request, once the handle is ready.\<close>

definition finish_request :: "server_node \<Rightarrow> edge_reply \<Rightarrow> (edge_error + edge_response_enum) option" where
  "finish_request n reply =
    (case reply of
       Reply result \<Rightarrow> Some result
     | AwaitAck handle \<Rightarrow>
         map_option (\<lambda>r. Inr (RespSendMessage (edge_result_from_std r))) (wait_ack_poll n handle))"

section \<open>The connection task\<close>

text \<open>A request that came in over a connection, until its response is on the outbound channel.\<close>

record pending_request =
  pr_peer :: node_id
  pr_seq_id :: u32
  pr_reply :: edge_reply

text \<open>
  \<open>PollEvent::PacketIn\<close>: what does not decode is skipped, what is no request is ignored, and a
  request is handled in a task of its own.
\<close>

definition packet_in ::
  "raft_env \<Rightarrow> node_id \<Rightarrow> edge_packet \<Rightarrow> server_node \<Rightarrow> (pending_request option \<times> server_node) outcome" where
  "packet_in r peer packet n =
    (case registry_decode (sn_codecs n) (eph_codec (ep_header packet)) (ep_payload packet) of
       Inl _ \<Rightarrow> Inr (None, n)
     | Inr (PayloadRequest request) \<Rightarrow>
         and_then (handle_edge_request r peer (rq_request request) n) (\<lambda>(reply, n).
           Inr (Some \<lparr>pr_peer = peer, pr_seq_id = rq_seq_id request, pr_reply = reply\<rparr>, n))
     | Inr _ \<Rightarrow> Inr (None, n))"

text \<open>The end of that task: the response is encoded and sent to the connection that asked.\<close>

definition respond :: "pending_request \<Rightarrow> edge_connection \<Rightarrow> server_node \<Rightarrow> (edge_connection \<times> server_node) option outcome" where
  "respond pr c n =
    (case finish_request n (pr_reply pr) of
       None \<Rightarrow> Inr None
     | Some result \<Rightarrow>
         (let payload = PayloadResponse (edge_response_from_result (pr_seq_id pr) result) in
          and_then (encode_packet payload c (sn_ids n)) (\<lambda>(e, ids).
            case e of
              Inl _ \<Rightarrow> Inr None
            | Inr p \<Rightarrow> Inr (Some (snd (send_packet p c), n\<lparr>sn_ids := ids\<rparr>)))))"

text \<open>\<open>PollEvent::PacketOut\<close>: the next packet leaves the channel for the sink.\<close>

definition packet_out :: "edge_connection \<Rightarrow> (edge_packet \<times> edge_connection) option" where
  "packet_out c =
    (case ec_outbound c of [] \<Rightarrow> None | p # ps \<Rightarrow> Some (p, c\<lparr>ec_outbound := ps\<rparr>))"

text \<open>
  The end of the connection task of an instance: its own flag is cleared, then the node removes
  the connection of the peer.
\<close>

definition connection_closed :: "node_id \<Rightarrow> nat \<Rightarrow> server_node \<Rightarrow> server_node" where
  "connection_closed peer inst n =
    remove_edge_connection peer (n\<lparr>edge_connections :=
      hm_modify peer (\<lambda>c. if ec_instance c = inst then c\<lparr>ec_alive := False, ec_receiving := False\<rparr> else c)
        (edge_connections n)\<rparr>)"

section \<open>Spawned tasks\<close>

definition resolve_ack_task :: "nat \<Rightarrow> message_id \<Rightarrow> wait_ack_result \<Rightarrow> server_node \<Rightarrow> server_node" where
  "resolve_ack_task h i result n =
    (let ti = topic_at n h; (tx, pool) = pool_take i (ack_waiting_pool ti);
         n = set_topic_at h (ti\<lparr>ack_waiting_pool := pool\<rparr>) n
     in case tx of
          None \<Rightarrow> n
        | Some tx \<Rightarrow> n\<lparr>sn_oneshots := hm_insert tx (Delivered result) (sn_oneshots n)\<rparr>)"

definition dispatch_task ::
  "raft_env \<Rightarrow> nat \<Rightarrow> topic_code \<Rightarrow> message \<Rightarrow> endpoint_addr \<Rightarrow> server_node \<Rightarrow> server_node outcome" where
  "dispatch_task r h code m ep n =
    and_then (topic_dispatch_message h m ep n) (\<lambda>(status, n).
      Inr (snd (propose r (SetState \<lparr>ss_topic = code,
        ss_update = state_update_new (msg_id m)
          [(ep, case status of Some s \<Rightarrow> s | None \<Rightarrow> Unreachable)]\<rparr>) n)))"

fun run_task :: "raft_env \<Rightarrow> task \<Rightarrow> server_node \<Rightarrow> server_node outcome" where
  "run_task r (ResolveAckTask h i result) n = Inr (resolve_ack_task h i result n)"
| "run_task r (DispatchTask h code m ep) n = dispatch_task r h code m ep n"
| "run_task r (CommitTask code) n =
    (let (calls, inner) = commit_task (raft_linearizable r (replica_of n)) code (sn_inner n)
     in Inr (n\<lparr>sn_inner := inner, durable_calls := durable_calls n @ calls\<rparr>))"
| "run_task r (ProposeTask p) n = Inr (snd (propose r p n))"

section \<open>What the operations leave alone\<close>

lemma propose_replica: "\<exists>rep. snd (propose r p n) = set_replica rep n"
proof -
  obtain a rep where a: "raft_leader r (replica_of n) = (a, rep)" by (rule prod.exhaust)
  show ?thesis
  proof (cases a)
    case (Inl e)
    then have "snd (propose r p n) = set_replica rep n" using a by (simp add: propose_def)
    then show ?thesis by (rule exI)
  next
    case (Inr leader)
    obtain b rep' where b: "write_proposal r leader p n rep = (b, rep')" by (rule prod.exhaust)
    show ?thesis
    proof (cases b)
      case (Inl e)
      then have "snd (propose r p n) = set_replica rep' n" using a b \<open>a = Inr leader\<close> by (simp add: propose_def)
      then show ?thesis by (rule exI)
    next
      case i: (Inr i)
      obtain c rep'' where c: "raft_wait_applied r i rep' = (c, rep'')" by (rule prod.exhaust)
      have "snd (propose r p n) = set_replica rep'' n" using a b i Inr c by (cases c) (simp_all add: propose_def)
      then show ?thesis by (rule exI)
    qed
  qed
qed

lemma propose_frame:
  assumes "propose r p n = (res, n')"
  obtains rep where "n' = set_replica rep n"
  using propose_replica [of r p n] assms by auto

lemma set_replica_simps [simp]:
  "edge_routing (set_replica rep n) = edge_routing n" "edge_connections (set_replica rep n) = edge_connections n"
  "sn_oneshots (set_replica rep n) = sn_oneshots n" "sn_next (set_replica rep n) = sn_next n"
  "sn_ids (set_replica rep n) = sn_ids n" "sn_locals (set_replica rep n) = sn_locals n"
  "sn_edge_auth (set_replica rep n) = sn_edge_auth n" "sn_codecs (set_replica rep n) = sn_codecs n"
  "sn_network (set_replica rep n) = sn_network n"
  "replica_of (set_replica rep n) = rep"
  by (simp_all add: set_replica_def)

lemma propose_keeps:
  assumes "propose r p n = (res, n')"
  shows "edge_routing n' = edge_routing n" "edge_connections n' = edge_connections n"
    "sn_oneshots n' = sn_oneshots n" "sn_next n' = sn_next n" "sn_ids n' = sn_ids n"
    "sn_locals n' = sn_locals n" "sn_edge_auth n' = sn_edge_auth n" "sn_codecs n' = sn_codecs n"
  by (rule propose_frame [OF assms], simp)+

lemma draw_endpoint_eq:
  "draw_endpoint f = (Inr (endpoint_addr_layout (sf_clock f (sf_reads f)) (ucast (sf_digest f)) (ep_counter f)),
     f\<lparr>sf_reads := Suc (sf_reads f), ep_counter := ep_counter f + 1\<rparr>)"
  by (simp add: draw_endpoint_def tick_def epa.mk_eq)

lemma draw_message_eq:
  "draw_message f = (Inr (message_id_layout (sf_clock f (sf_reads f)) (ucast (sf_digest f)) (msg_counter f)),
     f\<lparr>sf_reads := Suc (sf_reads f), msg_counter := msg_counter f + 1\<rparr>)"
  by (simp add: draw_message_def tick_def mid.mk_eq)

lemma draw_packet_eq:
  "draw_packet f = (Inr (packet_layout (sf_clock f (sf_reads f)) (ucast (sf_digest f)) (packet_counter f)),
     f\<lparr>sf_reads := Suc (sf_reads f), packet_counter := packet_counter f + 1\<rparr>)"
  by (simp add: draw_packet_def tick_def pid.mk_eq)

text \<open>The identifiers the node draws next.\<close>

abbreviation next_endpoint :: "server_node \<Rightarrow> endpoint_addr" where
  "next_endpoint n \<equiv> endpoint_addr_layout (sf_clock (sn_ids n) (sf_reads (sn_ids n)))
     (ucast (sf_digest (sn_ids n))) (ep_counter (sn_ids n))"

abbreviation next_msg_id :: "server_node \<Rightarrow> message_id" where
  "next_msg_id n \<equiv> message_id_layout (sf_clock (sn_ids n) (sf_reads (sn_ids n)))
     (ucast (sf_digest (sn_ids n))) (msg_counter (sn_ids n))"

lemma check_ep_auth_ok: "check_ep_auth ep peer n = Inr () \<longleftrightarrow> get_edge_routing n ep = Some peer"
  by (auto simp: check_ep_auth_def get_edge_routing_def split: option.split)

lemma check_all_eps_ok:
  "check_all_eps eps peer n = Inr () \<longleftrightarrow> (\<forall>ep \<in> set eps. get_edge_routing n ep = Some peer)"
proof (induction eps)
  case (Cons ep eps)
  then show ?case
    by (cases "check_ep_auth ep peer n") (auto simp: check_ep_auth_ok simp flip: check_ep_auth_ok)
qed simp

section \<open>Who may do what\<close>

text \<open>The endpoints a request speaks for.\<close>

fun request_endpoints :: "edge_request_enum \<Rightarrow> endpoint_addr set" where
  "request_endpoints (ReqEndpointOffline offline) = {eoff_endpoint offline}"
| "request_endpoints (ReqEndpointInterest interest) = {ei_endpoint interest}"
| "request_endpoints (ReqSetState ss) = set (hm_keys (upd_status (ss_update ss)))"
| "request_endpoints _ = {}"

text \<open>
  An edge node speaks for its own endpoints only: a request that names an endpoint which is not
  routed to the sender (or not routed at all) is answered with an error, and nothing is proposed
  or changed.
\<close>

theorem foreign_endpoint_refused:
  assumes "ep \<in> request_endpoints request" "get_edge_routing n ep \<noteq> Some from"
  shows "\<exists>e. handle_edge_request r from request n = Inr (Reply (Inl e), n)"
proof -
  have "\<exists>e. handle_request_kind r from request n = Inr (Reply (Inl e), n)"
  proof (cases request)
    case (ReqSetState ss)
    then have "check_all_eps (hm_keys (upd_status (ss_update ss))) from n \<noteq> Inr ()"
      using assms unfolding check_all_eps_ok by auto
    then obtain e where "check_all_eps (hm_keys (upd_status (ss_update ss))) from n = Inl e"
      by (cases "check_all_eps (hm_keys (upd_status (ss_update ss))) from n") auto
    then show ?thesis using ReqSetState by (simp split: option.split)
  qed (use assms check_ep_auth_ok [of ep "from" n] in \<open>auto split: option.split sum.split\<close>)
  then show ?thesis by (auto simp: handle_edge_request_def split: option.split sum.split)
qed

section \<open>A concrete node\<close>

text \<open>
  A single-node cluster: this node is the leader, a write is applied at once and the wait for it
  is over.  Used by the witnesses.
\<close>

definition single_node_raft :: "node_id \<Rightarrow> raft_env" where
  "single_node_raft this =
    \<lparr>raft_leader = (\<lambda>rep. (Inr this, rep)),
     raft_client_write = (\<lambda>p rep. case apply_proposal p (fst rep) (snd rep) of
        Inl _ \<Rightarrow> (Inl ''panicked'', rep) | Inr rep' \<Rightarrow> (Inr 0, rep')),
     raft_remote_propose = (\<lambda>leader p rep. (Inl (error_unknown ''unexpected''), rep)),
     raft_wait_applied = (\<lambda>i rep. (Inr (), rep)),
     raft_linearizable = (\<lambda>_. True), error_display = se_context\<rparr>"

definition example_server :: server_node where
  "example_server =
    \<lparr>sn_inner = example_node, sn_data = example_node_data, sn_network = [], sn_edge_auth = None,
     sn_codecs = [(JSON, \<lparr>codec_encode = (\<lambda>_. []), codec_decode = (\<lambda>_. Inl ''no'')\<rparr>)],
     edge_connections = [], edge_routing = [(EndpointAddr [1], NodeId [7], example_topic)],
     sn_locals = [], sn_oneshots = [], sn_next = 0, sn_topics_held = {},
     sn_ids = \<lparr>sf_clock = of_nat, sf_reads = 0, sf_digest = 0, ep_counter = 0, msg_counter = 0, packet_counter = 0\<rparr>,
     durable_calls = []\<rparr>"

theorem foreign_endpoint_refused_witness:
  "\<exists>e. handle_edge_request (single_node_raft (NodeId [1])) (NodeId [8])
     (ReqEndpointOffline \<lparr>eoff_topic_code = example_topic, eoff_endpoint = EndpointAddr [1]\<rparr>) example_server
     = Inr (Reply (Inl e), example_server)"
  by (rule foreign_endpoint_refused [where ep = "EndpointAddr [1]"])
    (simp_all add: get_edge_routing_def example_server_def)

end
