(* ===== verification/MQ_Events.thy ===== *)
theory MQ_Events
  imports MQ_Node
begin

text \<open>
  Typed events over a local endpoint (\<open>event_handler.rs\<close>): the traits of an event as a record, the
  wrapper \<open>register_handler\<close> builds around a handler, the loop that hands messages to the wrappers,
  and \<open>send_event\<close>.

  The user writes the events and the handlers: the codec of an event and what a handler returns are
  arguments.
\<close>

section \<open>Events and handlers\<close>

text \<open>The traits \<open>EventAttribute\<close> and \<open>EventCodec\<close>.\<close>

record 'e event_type =
  ev_subject :: subject
  ev_broadcast :: bool
  ev_expect_ack_kind :: message_ack_expect_kind
  ev_from_bytes :: "bytes \<Rightarrow> 'e option"
  ev_to_bytes :: "'e \<Rightarrow> bytes"

text \<open>A step of an async block that \<open>?\<close> ends at the first error.\<close>

definition and_try ::
  "(server_error + unit) \<times> server_node \<Rightarrow> (server_node \<Rightarrow> (server_error + unit) \<times> server_node)
    \<Rightarrow> (server_error + unit) \<times> server_node" where
  "and_try x f = (case x of (Inl e, n) \<Rightarrow> (Inl e, n) | (Inr _, n) \<Rightarrow> f n)"

text \<open>The wrapper of a handler, as a message comes in.\<close>

definition inner_handler ::
  "raft_env \<Rightarrow> local_endpoint \<Rightarrow> 'e event_type \<Rightarrow> ('e \<Rightarrow> 'x + unit) \<Rightarrow> message \<Rightarrow> server_node
    \<Rightarrow> (server_error + unit) \<times> server_node" where
  "inner_handler r ep et handle m n =
    and_try
      (if ev_expect_ack_kind et = AckReceived \<or> ev_expect_ack_kind et = AckProcessed
       then local_ack_received r ep (header m) n else (Inr (), n))
      (\<lambda>n. case ev_from_bytes et (payload m) of
         None \<Rightarrow>
           and_try (if ev_expect_ack_kind et = AckProcessed then local_ack_failed r ep (header m) n else (Inr (), n))
             (\<lambda>n. (Inr (), n))
       | Some event \<Rightarrow>
           (let handle_result = handle event in
            and_try
              (if ev_expect_ack_kind et = AckProcessed then
                 (case handle_result of
                    Inl _ \<Rightarrow> local_ack_received r ep (header m) n
                  | Inr _ \<Rightarrow> local_ack_processed r ep (header m) n)
               else (Inr (), n))
              (\<lambda>n. (Inr (), n))))"

type_synonym handler_task = "server_node \<Rightarrow> (server_error + unit) \<times> server_node"

text \<open>\<open>HandleEventLoop\<close>: a local endpoint and the wrappers by subject.\<close>

record handle_event_loop =
  hl_ep :: nat
  hl_handlers :: "(subject, message \<Rightarrow> handler_task) hash_map"

definition event_loop_new :: "nat \<Rightarrow> handle_event_loop" where
  "event_loop_new ep = \<lparr>hl_ep = ep, hl_handlers = []\<rparr>"

definition register_handler ::
  "raft_env \<Rightarrow> local_endpoint \<Rightarrow> 'e event_type \<Rightarrow> ('e \<Rightarrow> 'x + unit) \<Rightarrow> handle_event_loop \<Rightarrow> handle_event_loop" where
  "register_handler r ep et handle l =
    l\<lparr>hl_handlers := hm_insert (ev_subject et) (inner_handler r ep et handle) (hl_handlers l)\<rparr>"

text \<open>One turn of \<open>run\<close>: a task is spawned for every subject of the message that has a handler.\<close>

definition event_tasks :: "handle_event_loop \<Rightarrow> message \<Rightarrow> handler_task list" where
  "event_tasks l m = List.map_filter (\<lambda>s. map_option (\<lambda>h. h m) (hm_get (hl_handlers l) s)) (subjects (header m))"

definition event_loop_turn :: "handle_event_loop \<Rightarrow> server_node \<Rightarrow> handler_task list \<times> server_node" where
  "event_loop_turn l n =
    (case next_message (hl_ep l) n of
       (None, n) \<Rightarrow> ([], n)
     | (Some m, n) \<Rightarrow> (event_tasks l m, n))"

section \<open>send\_event\<close>

definition event_message :: "'e event_type \<Rightarrow> message_id \<Rightarrow> 'e \<Rightarrow> message" where
  "event_message et i event =
    (let bytes = ev_to_bytes et event;
         b = header_builder_new [ev_subject et];
         b = (if ev_broadcast et then builder_mode_online b else builder_mode_push b);
         b = builder_ack_kind (ev_expect_ack_kind et) b
     in message_new (builder_build i b) bytes)"

definition send_event ::
  "raft_env \<Rightarrow> nat \<Rightarrow> 'e event_type \<Rightarrow> 'e \<Rightarrow> server_node \<Rightarrow> ((server_error + nat) \<times> server_node) outcome" where
  "send_event r h et event n =
    (let (fresh, ids) = draw_message (sn_ids n) in
     and_then fresh (\<lambda>i. Inr (send_message r h (event_message et i event) (n\<lparr>sn_ids := ids\<rparr>))))"

text \<open>The end of \<open>send_event\<close>, once the handle is ready.\<close>

definition send_event_result :: "server_node \<Rightarrow> nat \<Rightarrow> (server_error + unit) option" where
  "send_event_result n handle =
    map_option (\<lambda>r. case r of Inl e \<Rightarrow> Inl (error_new ''waiting event ack'' (KAck e)) | Inr _ \<Rightarrow> Inr ()) (wait_ack_poll n handle)"

section \<open>What a handler acknowledges\<close>

text \<open>The acknowledgements of a wrapper in order, and their execution.\<close>

definition event_acks :: "'e event_type \<Rightarrow> ('e \<Rightarrow> 'x + unit) \<Rightarrow> bytes \<Rightarrow> message_status_kind list" where
  "event_acks et handle p =
    (case ev_expect_ack_kind et of
       AckSent \<Rightarrow> []
     | AckReceived \<Rightarrow> [Received]
     | AckProcessed \<Rightarrow>
         [Received,
          case ev_from_bytes et p of
            None \<Rightarrow> Failed
          | Some event \<Rightarrow> (case handle event of Inl _ \<Rightarrow> Received | Inr _ \<Rightarrow> Processed)])"

fun run_acks :: "raft_env \<Rightarrow> local_endpoint \<Rightarrow> message_header \<Rightarrow> message_status_kind list \<Rightarrow> handler_task" where
  "run_acks r ep h [] n = (Inr (), n)"
| "run_acks r ep h (s # ss) n =
    and_try
      (local_endpoint_ack (\<lambda>h code from. header_ack h code from s) r ep h n)
      (run_acks r ep h ss)"

lemma local_acks:
  "local_ack_received r ep h n =
    local_endpoint_ack (\<lambda>h code from. header_ack h code from Received) r ep h n"
  "local_ack_processed r ep h n =
    local_endpoint_ack (\<lambda>h code from. header_ack h code from Processed) r ep h n"
  "local_ack_failed r ep h n =
    local_endpoint_ack (\<lambda>h code from. header_ack h code from Failed) r ep h n"
  by (simp_all add: local_ack_received_def local_ack_processed_def local_ack_failed_def local_endpoint_ack_def
      ack_received_def ack_processed_def ack_failed_def)

lemma and_try_return [simp]: "and_try (Inr u, n) f = f n"
  by (simp add: and_try_def)

lemma run_acks_fun:
  "run_acks r ep h [] = Pair (Inr ())"
  "run_acks r ep h (s # ss) =
    (\<lambda>n. and_try (local_endpoint_ack (\<lambda>h code from. header_ack h code from s) r ep h n) (run_acks r ep h ss))"
  by (intro ext, simp)+

lemma inner_handler_acks:
  "inner_handler r ep et handle m n = run_acks r ep (header m) (event_acks et handle (payload m)) n"
  by (cases "ev_expect_ack_kind et"; cases "ev_from_bytes et (payload m)")
    (auto simp: inner_handler_def event_acks_def local_acks run_acks_fun Let_def cong: if_cong split: sum.split)

lemma event_acks_resolve:
  "(\<exists>s \<in> set (event_acks et handle p). status_is_resolved s (ev_expect_ack_kind et)) \<longleftrightarrow>
    (case ev_expect_ack_kind et of
       AckSent \<Rightarrow> False
     | AckReceived \<Rightarrow> True
     | AckProcessed \<Rightarrow> (case ev_from_bytes et p of None \<Rightarrow> True | Some event \<Rightarrow> handle event = Inr ()))"
  by (cases "ev_expect_ack_kind et"; cases "ev_from_bytes et p"; cases "handle (the (ev_from_bytes et p))")
    (simp_all add: event_acks_def status_is_resolved_def is_failed_def)

text \<open>
  (C35) What the wrapper of a handler acknowledges, for every event: nothing for one that expects
  \<open>Sent\<close>; \<open>Received\<close>, once, for one that expects \<open>Received\<close>, whatever becomes of the event; for one that
  expects \<open>Processed\<close> first \<open>Received\<close> and then \<open>Failed\<close> where the event does not decode, \<open>Processed\<close> where
  the handler succeeds and \<open>Received\<close> again where it returns an error.  The acknowledgements are
  proposed in this order and the first that cannot be proposed ends the wrapper with its error.  So
  the wrapper resolves the message for its endpoint exactly when \<open>Received\<close> is expected, or \<open>Processed\<close>
  is and the event does not decode or the handler succeeds: a handler that fails leaves it
  unresolved.
\<close>

theorem event_handler_acknowledges:
  "\<exists>acks. inner_handler r ep et handle m = run_acks r ep (header m) acks \<and>
    acks =
      (case ev_expect_ack_kind et of
         AckSent \<Rightarrow> []
       | AckReceived \<Rightarrow> [Received]
       | AckProcessed \<Rightarrow>
           [Received,
            case ev_from_bytes et (payload m) of
              None \<Rightarrow> Failed
            | Some event \<Rightarrow> (case handle event of Inl _ \<Rightarrow> Received | Inr _ \<Rightarrow> Processed)]) \<and>
    ((\<exists>s \<in> set acks. status_is_resolved s (ev_expect_ack_kind et)) \<longleftrightarrow>
      (case ev_expect_ack_kind et of
         AckSent \<Rightarrow> False
       | AckReceived \<Rightarrow> True
       | AckProcessed \<Rightarrow> (case ev_from_bytes et (payload m) of None \<Rightarrow> True | Some event \<Rightarrow> handle event = Inr ())))"
proof (intro exI conjI)
  show "inner_handler r ep et handle m = run_acks r ep (header m) (event_acks et handle (payload m))"
    by (intro ext inner_handler_acks)
qed (rule event_acks_def, rule event_acks_resolve)

text \<open>
  An event arrives: the message \<open>send_event\<close> builds carries the subject of the event, goes to
  one endpoint or, for a broadcast, to all; a loop with a handler registered for that event starts
  exactly that handler for it, and a codec that reads back what it writes hands it the event that
  was sent.
\<close>

theorem event_delivered:
  assumes "ev_from_bytes et (ev_to_bytes et event) = Some event" "ev_expect_ack_kind et = AckProcessed"
  shows "event_tasks (register_handler r ep et handle l) (event_message et i event) =
      [run_acks r ep (header (event_message et i event))
        [Received, case handle event of Inl _ \<Rightarrow> Received | Inr _ \<Rightarrow> Processed]] \<and>
    target_kind (header (event_message et i event)) = (if ev_broadcast et then Online else Push) \<and>
    ack_kind (header (event_message et i event)) = ev_expect_ack_kind et"
proof -
  let ?m = "event_message et i event"
  have m: "payload ?m = ev_to_bytes et event" "subjects (header ?m) = [ev_subject et]"
    by (simp_all add: event_message_def Let_def message_new_def builder_build_def builder_ack_kind_def
        builder_mode_online_def builder_mode_push_def header_builder_new_def)
  have "inner_handler r ep et handle ?m =
      run_acks r ep (header ?m) [Received, case handle event of Inl _ \<Rightarrow> Received | Inr _ \<Rightarrow> Processed]"
    using assms by (intro ext) (simp add: inner_handler_acks event_acks_def m)
  then show ?thesis
    by (simp add: event_tasks_def register_handler_def m)
      (simp add: event_message_def Let_def message_new_def builder_build_def builder_ack_kind_def
        builder_mode_online_def builder_mode_push_def header_builder_new_def)
qed

definition example_event :: "bytes event_type" where
  "example_event = \<lparr>ev_subject = Subject [101, 118], ev_broadcast = False, ev_expect_ack_kind = AckProcessed,
    ev_from_bytes = Some, ev_to_bytes = id\<rparr>"

definition example_local :: local_endpoint where
  "example_local = \<lparr>le_address = EndpointAddr [1], le_topic_code = example_topic, le_interest = [], le_topic = 0, le_mail_box = []\<rparr>"

theorem event_handler_acknowledges_witness:
  "inner_handler (single_node_raft (NodeId [1])) example_local example_event (\<lambda>_. Inl ''failed'')
      (message_new (header (example_message 3 Online)) [1, 2]) example_server =
    run_acks (single_node_raft (NodeId [1])) example_local (header (example_message 3 Online)) [Received, Received] example_server"
  using event_handler_acknowledges [of "single_node_raft (NodeId [1])" example_local example_event "\<lambda>_. Inl ''failed''"
      "message_new (header (example_message 3 Online)) [1, 2]"]
  by (auto simp: example_event_def message_new_def)

theorem event_delivered_witness:
  "event_tasks (register_handler (single_node_raft (NodeId [1])) example_local example_event (\<lambda>_. Inr () :: string + unit) (event_loop_new 0))
      (event_message example_event (MessageId [1]) [1, 2]) =
    [run_acks (single_node_raft (NodeId [1])) example_local (header (event_message example_event (MessageId [1]) [1, 2])) [Received, Processed]]"
  using event_delivered [of example_event "[1, 2]" "single_node_raft (NodeId [1])" example_local "\<lambda>_. Inr () :: string + unit" "event_loop_new 0" "MessageId [1]"]
  by (simp add: example_event_def)

end
