(* ===== verification/MQ_Codec.thy ===== *)
theory MQ_Codec
  imports MQ_Events
begin

text \<open>
  The codecs that come with the server: \<open>Bincode\<close>, \<open>Cbor\<close> and \<open>Json\<close> for the payloads of edge packets
  (\<open>edge/codec/\<close>), and \<open>Json\<close> for typed events (\<open>event_handler/json.rs\<close>).  The crates that serialise are
  parameters: a writer that gives bytes or an error, and a reader.  A writer that fails makes the
  codec panic.
\<close>

section \<open>Payload codecs\<close>

text \<open>\<open>expect\<close> on the result of a writer.\<close>

definition expect_bytes :: "string + bytes \<Rightarrow> bytes outcome" where
  "expect_bytes r = (case r of Inl _ \<Rightarrow> Inl DecodeFailed | Inr bs \<Rightarrow> Inr bs)"

text \<open>\<open>map_err(CodecError::decode_error)\<close>.\<close>

definition map_decode_error :: "string + edge_payload \<Rightarrow> codec_error + edge_payload" where
  "map_decode_error r = (case r of Inl e \<Rightarrow> Inl (decode_error e) | Inr p \<Rightarrow> Inr p)"

definition bincode_decode :: "(bytes \<Rightarrow> string + edge_payload) \<Rightarrow> bytes \<Rightarrow> codec_error + edge_payload" where
  "bincode_decode deserialize bs = map_decode_error (deserialize bs)"

definition bincode_encode :: "(edge_payload \<Rightarrow> string + bytes) \<Rightarrow> edge_payload \<Rightarrow> bytes outcome" where
  "bincode_encode serialize value = expect_bytes (serialize value)"

text \<open>\<open>ciborium\<close> reads from the front of a slice, and what it does not need stays behind in the slice.\<close>

definition cbor_decode :: "(bytes \<Rightarrow> (string + edge_payload) \<times> bytes) \<Rightarrow> bytes \<Rightarrow> codec_error + edge_payload" where
  "cbor_decode from_reader bs = (case from_reader bs of (r, _) \<Rightarrow> map_decode_error r)"

text \<open>It writes to the end of a buffer, which is empty at first.\<close>

definition cbor_encode :: "(edge_payload \<Rightarrow> bytes \<Rightarrow> (string + unit) \<times> bytes) \<Rightarrow> edge_payload \<Rightarrow> bytes outcome" where
  "cbor_encode into_writer value =
    (case into_writer value [] of (Inl _, _) \<Rightarrow> Inl DecodeFailed | (Inr _, buffer) \<Rightarrow> Inr buffer)"

definition json_decode :: "(bytes \<Rightarrow> string + edge_payload) \<Rightarrow> bytes \<Rightarrow> codec_error + edge_payload" where
  "json_decode from_slice bs = map_decode_error (from_slice bs)"

definition json_encode :: "(edge_payload \<Rightarrow> string + bytes) \<Rightarrow> edge_payload \<Rightarrow> bytes outcome" where
  "json_encode to_vec value = expect_bytes (to_vec value)"

section \<open>The contract of a codec\<close>

text \<open>
  What a connection relies on: the codec writes every payload of \<open>P\<close> without a panic, and reads
  back what it wrote.
\<close>

locale payload_codec =
  fixes enc :: "edge_payload \<Rightarrow> bytes outcome"
    and dec :: "bytes \<Rightarrow> codec_error + edge_payload"
    and P :: "edge_payload set"
  assumes reads_back: "p \<in> P \<Longrightarrow> \<exists>bs. enc p = Inr bs \<and> dec bs = Inr p"
begin

lemma no_panic: "p \<in> P \<Longrightarrow> enc p \<noteq> Inl e"
  using reads_back by fastforce

lemma bytes_differ: "p \<in> P \<Longrightarrow> q \<in> P \<Longrightarrow> enc p = enc q \<Longrightarrow> p = q"
  using reads_back [of p] reads_back [of q] by auto

text \<open>Such a codec is one of the registry, which knows no panic.\<close>

lemma registered:
  assumes "\<And>p bs. enc p = Inr bs \<Longrightarrow> codec_encode c p = bs"
    "\<And>bs p. dec bs = Inr p \<Longrightarrow> codec_decode c bs = Inr p"
  shows "codec_faithful P c"
  unfolding codec_faithful_def
proof
  fix p assume "p \<in> P"
  then obtain bs where "enc p = Inr bs" "dec bs = Inr p" using reads_back by blast
  then show "codec_decode c (codec_encode c p) = Inr p" using assms by simp
qed

end

text \<open>
  The payloads a crate reads back as it wrote them; \<open>ciborium\<close> behind what is in the buffer, and with
  anything behind them in the slice.
\<close>

definition readable :: "(edge_payload \<Rightarrow> string + bytes) \<Rightarrow> (bytes \<Rightarrow> string + edge_payload) \<Rightarrow> edge_payload set" where
  "readable wr rd = {p. \<exists>bs. wr p = Inr bs \<and> rd bs = Inr p}"

definition streamable ::
  "(edge_payload \<Rightarrow> bytes \<Rightarrow> (string + unit) \<times> bytes) \<Rightarrow> (bytes \<Rightarrow> (string + edge_payload) \<times> bytes) \<Rightarrow> edge_payload set" where
  "streamable into_writer from_reader =
    {p. \<exists>bs. (\<forall>buf. into_writer p buf = (Inr (), buf @ bs)) \<and> (\<forall>rest. from_reader (bs @ rest) = (Inr p, rest))}"

interpretation bincode: payload_codec "bincode_encode serialize" "bincode_decode deserialize" "readable serialize deserialize"
  for serialize deserialize
  by unfold_locales (auto simp: readable_def bincode_encode_def bincode_decode_def expect_bytes_def map_decode_error_def)

interpretation json: payload_codec "json_encode to_vec" "json_decode from_slice" "readable to_vec from_slice"
  for to_vec from_slice
  by unfold_locales (auto simp: readable_def json_encode_def json_decode_def expect_bytes_def map_decode_error_def)

text \<open>\<open>Cbor\<close> ignores what follows the payload.\<close>

lemma cbor_reads_back:
  assumes "p \<in> streamable into_writer from_reader"
  shows "\<exists>bs. cbor_encode into_writer p = Inr bs \<and> (\<forall>rest. cbor_decode from_reader (bs @ rest) = Inr p)"
  using assms by (fastforce simp: streamable_def cbor_encode_def cbor_decode_def map_decode_error_def)

interpretation cbor: payload_codec "cbor_encode into_writer" "cbor_decode from_reader" "streamable into_writer from_reader"
  for into_writer from_reader
proof
  fix p assume "p \<in> streamable into_writer from_reader"
  from cbor_reads_back [OF this] obtain bs
    where "cbor_encode into_writer p = Inr bs" "cbor_decode from_reader (bs @ []) = Inr p" by blast
  then show "\<exists>bs. cbor_encode into_writer p = Inr bs \<and> cbor_decode from_reader bs = Inr p" by auto
qed

section \<open>A registry with the three codecs\<close>

text \<open>
  The registry of \<open>MQ_Edge\<close> has codecs without a panic: \<open>runs_as enc dec c\<close> says that \<open>c\<close> does what a codec
  of the server does where that does not panic.
\<close>

definition runs_as :: "(edge_payload \<Rightarrow> bytes outcome) \<Rightarrow> (bytes \<Rightarrow> codec_error + edge_payload) \<Rightarrow> codec \<Rightarrow> bool" where
  "runs_as enc dec c \<longleftrightarrow> (\<forall>p bs. enc p = Inr bs \<longrightarrow> codec_encode c p = bs) \<and>
    (\<forall>bs. dec bs = map_decode_error (codec_decode c bs))"

lemma runs_asD:
  assumes "runs_as enc dec c"
  shows "enc p = Inr bs \<Longrightarrow> codec_encode c p = bs" "dec bs = Inr p \<Longrightarrow> codec_decode c bs = Inr p"
  using assms by (auto simp: runs_as_def map_decode_error_def split: sum.splits)

text \<open>
  A server with the three codecs and a peer with the same: whatever kinds the peer supports, the kind
  that is picked carries every payload the crates read back, without a panic.
\<close>

theorem preloaded_codecs_carry:
  assumes "runs_as (cbor_encode into_writer) (cbor_decode from_reader) cb"
    "runs_as (bincode_encode serialize) (bincode_decode deserialize) bi"
    "runs_as (json_encode to_vec) (json_decode from_slice) js"
    and p: "p \<in> streamable into_writer from_reader \<inter> readable serialize deserialize \<inter> readable to_vec from_slice"
    and pick: "pick_preferred_codec (registry_new_preloaded (Some cb) bi js) supported = Some k"
  shows "k \<in> set supported \<and>
    (\<exists>bs. registry_encode (registry_new_preloaded (Some cb) bi js) k p = Inr bs \<and>
      registry_decode (registry_new_preloaded (Some cb) bi js) k bs = Inr p)"
proof -
  let ?P = "streamable into_writer from_reader \<inter> readable serialize deserialize \<inter> readable to_vec from_slice"
  let ?r = "registry_new_preloaded (Some cb) bi js"
  have "codec_faithful ?P cb" "codec_faithful ?P bi" "codec_faithful ?P js"
    using cbor.registered [OF runs_asD [OF assms(1)]] bincode.registered [OF runs_asD [OF assms(2)]]
      json.registered [OF runs_asD [OF assms(3)]] by (auto simp: codec_faithful_def)
  then have "registry_faithful ?P ?r"
    by (auto simp: registry_faithful_def registry_new_preloaded_def registry_register_def registry_new_empty_def Let_def
        split: if_splits)
  from codec_negotiation [OF this p, of supported] show ?thesis unfolding pick by simp
qed

section \<open>Events in JSON (event\_handler/json.rs)\<close>

definition json_to_bytes :: "('e \<Rightarrow> string + bytes) \<Rightarrow> 'e \<Rightarrow> bytes outcome" where
  "json_to_bytes to_vec event = expect_bytes (to_vec event)"

definition json_from_bytes :: "(bytes \<Rightarrow> string + 'e) \<Rightarrow> bytes \<Rightarrow> 'e option" where
  "json_from_bytes from_slice bs = (case from_slice bs of Inl _ \<Rightarrow> None | Inr event \<Rightarrow> Some event)"

text \<open>
  \<open>Json<T>\<close> has the attributes of \<open>T\<close>, and sends an event unless writing it panics; \<open>et\<close> is the event
  type of \<open>T\<close>, whose own codec does not matter.
\<close>

definition json_event :: "(bytes \<Rightarrow> string + 'e) \<Rightarrow> bytes \<Rightarrow> 'e event_type \<Rightarrow> 'e event_type" where
  "json_event from_slice written et =
    et\<lparr>ev_from_bytes := json_from_bytes from_slice, ev_to_bytes := (\<lambda>_. written)\<rparr>"

definition send_json_event ::
  "('e \<Rightarrow> string + bytes) \<Rightarrow> (bytes \<Rightarrow> string + 'e) \<Rightarrow> raft_env \<Rightarrow> nat \<Rightarrow> 'e event_type \<Rightarrow> 'e \<Rightarrow> server_node
    \<Rightarrow> ((server_error + nat) \<times> server_node) outcome" where
  "send_json_event to_vec from_slice r h et event n =
    and_then (json_to_bytes to_vec event) (\<lambda>bs. send_event r h (json_event from_slice bs et) event n)"

text \<open>
  A typed event that goes over the wire as JSON: if the crate writes it, sending does not panic on the
  encoding, and the message that is sent starts exactly the registered handler, with the event that was
  sent if the crate reads it back, and is acknowledged as failed if not.
\<close>

theorem json_event_delivered:
  assumes "to_vec event = Inr bs" "ev_expect_ack_kind et = AckProcessed"
  shows "send_json_event to_vec from_slice r h et event n = send_event r h (json_event from_slice bs et) event n \<and>
    event_tasks (register_handler r ep (json_event from_slice bs et) handle l) (event_message (json_event from_slice bs et) i event) =
      [run_acks r ep (header (event_message (json_event from_slice bs et) i event))
        [Received,
         case from_slice bs of
           Inl _ \<Rightarrow> Failed
         | Inr e \<Rightarrow> (case handle e of Inl _ \<Rightarrow> Received | Inr _ \<Rightarrow> Processed)]]"
proof -
  let ?et = "json_event from_slice bs et" let ?m = "event_message ?et i event"
  have m: "payload ?m = bs" "subjects (header ?m) = [ev_subject ?et]"
    by (simp_all add: event_message_def json_event_def Let_def message_new_def builder_build_def builder_ack_kind_def
        builder_mode_online_def builder_mode_push_def header_builder_new_def)
  have "inner_handler r ep ?et handle ?m = run_acks r ep (header ?m)
      [Received, case from_slice bs of Inl _ \<Rightarrow> Failed | Inr e \<Rightarrow> (case handle e of Inl _ \<Rightarrow> Received | Inr _ \<Rightarrow> Processed)]"
  proof -
    have "ev_expect_ack_kind ?et = AckProcessed" "ev_from_bytes ?et = json_from_bytes from_slice"
      using assms(2) by (simp_all add: json_event_def)
    then show ?thesis
      unfolding inner_handler_acks [abs_def] event_acks_def m(1) by (cases "from_slice bs") (simp_all add: json_from_bytes_def)
  qed
  then show ?thesis
    using assms(1) by (simp add: send_json_event_def json_to_bytes_def expect_bytes_def event_tasks_def register_handler_def m)
qed

section \<open>Requests the authentication service refuses\<close>

text \<open>A request that is refused is answered with the reason and changes nothing.\<close>

theorem unauthorized_request_refused:
  assumes "sn_edge_auth n = Some (edge_auth_service_new type_name check)"
    "check peer request = Inl (edge_auth_error_new_local reason)"
  shows "handle_edge_request r peer request n =
    Inr (Reply (Inl (edge_error_with_message ''auth check failed'' (''EdgeAuthError: '' @ reason) EdgeUnauthorized)), n)"
  using assms by (simp add: handle_edge_request_def edge_auth_check_def edge_auth_service_new_def edge_auth_error_new_local_def
      edge_auth_error_display_def)

end
