(* ===== verification/MQ_Gateway.thy ===== *)
theory MQ_Gateway
  imports MQ_Node
begin

text \<open>
  What the server promises its edge nodes and its users, over the definitions of \<open>MQ_Node\<close>: who
  owns an endpoint, what a disconnect does, where a dispatched message goes, how an answer
  finds the sender that waits for it, and how a request runs through the replicated state machine.
\<close>

section \<open>Routes\<close>

lemma fold_hm_remove:
  "hm_get (fold (\<lambda>(addr, _). hm_remove addr) xs m) k = (if k \<in> fst ` set xs then None else hm_get m k)"
  by (induction xs arbitrary: m) auto

lemma hm_wf_fold_remove: "hm_wf m \<Longrightarrow> hm_wf (fold (\<lambda>(addr, _). hm_remove addr) xs m)"
  by (induction xs arbitrary: m) auto

lemma fold_node_spawn:
  "fold (\<lambda>x. node_spawn (f x)) xs n =
    n\<lparr>sn_inner := (sn_inner n)\<lparr>spawned := spawned (sn_inner n) @ map f xs\<rparr>\<rparr>"
  by (induction xs arbitrary: n) (simp_all add: node_spawn_def spawn_task_def)

text \<open>The endpoints of a peer, with their topics, in the order of the routing map.\<close>

definition eps_of :: "node_id \<Rightarrow> server_node \<Rightarrow> (endpoint_addr \<times> topic_code) list" where
  "eps_of to n = map (\<lambda>(addr, _, topic). (addr, topic)) (filter (\<lambda>(addr, node_id, topic). node_id = to) (edge_routing n))"

lemma set_eps_of:
  "hm_wf (edge_routing n) \<Longrightarrow> set (eps_of to n) = {(ep, code). hm_get (edge_routing n) ep = Some (to, code)}"
proof -
  assume wf: "hm_wf (edge_routing n)"
  have "set (eps_of to n) = {(ep, code). (ep, to, code) \<in> set (edge_routing n)}"
    unfolding eps_of_def by (auto simp: image_iff)
  then show ?thesis unfolding hm_in_set_iff [OF wf] .
qed

lemma distinct_eps_of: "hm_wf (edge_routing n) \<Longrightarrow> distinct (map fst (eps_of to n))"
proof -
  have "map fst (eps_of to n) = map fst (filter (\<lambda>(addr, node_id, topic). node_id = to) (edge_routing n))"
    by (simp add: eps_of_def case_prod_beta comp_def)
  then show "hm_wf (edge_routing n) \<Longrightarrow> ?thesis" by (simp add: distinct_map_filter)
qed

lemma remove_edge_connection_eq:
  "remove_edge_connection to n =
    (case hm_get (edge_connections n) to of
       None \<Rightarrow> n
     | Some _ \<Rightarrow>
         n\<lparr>edge_connections := hm_remove to (edge_connections n),
           edge_routing := fold (\<lambda>(addr, _). hm_remove addr) (eps_of to n) (edge_routing n),
           sn_inner := (sn_inner n)\<lparr>spawned := spawned (sn_inner n) @
             map (\<lambda>(ep, code). ProposeTask (ep_offline_proposal code ep (this_id n))) (eps_of to n)\<rparr>\<rparr>)"
  using fold_node_spawn [of "\<lambda>(ep, code). ProposeTask (ep_offline_proposal code ep (this_id n))" "eps_of to n"
      "n\<lparr>edge_connections := hm_remove to (edge_connections n),
           edge_routing := fold (\<lambda>(addr, _). hm_remove addr) (eps_of to n) (edge_routing n)\<rparr>"]
  by (simp add: remove_edge_connection_def eps_of_def ep_offline_proposal_def case_prod_beta' Let_def
      split: option.split)

text \<open>
  (C33) When the connection of an edge node ends, no route leads to it any more, every other route is as
  before, and for each of its endpoints, once, the node proposes that it goes offline, under the
  endpoint's own topic and with this node as its host; doing it again changes nothing.
\<close>

theorem edge_disconnect_correct:
  assumes wf: "hm_wf (edge_routing n)" and conn: "hm_get (edge_connections n) to = Some c"
  defines "n' \<equiv> remove_edge_connection to n"
  shows "get_edge_connection n' to = None \<and>
    (\<forall>ep. hm_get (edge_routing n') ep =
       (if get_edge_routing n ep = Some to then None else hm_get (edge_routing n) ep)) \<and>
    (\<exists>eps. spawned (sn_inner n') = spawned (sn_inner n) @
         map (\<lambda>(ep, code). ProposeTask (ep_offline_proposal code ep (this_id n))) eps \<and>
       distinct (map fst eps) \<and> set eps = {(ep, code). hm_get (edge_routing n) ep = Some (to, code)}) \<and>
    remove_edge_connection to n' = n'"
proof -
  have n': "n' = n\<lparr>edge_connections := hm_remove to (edge_connections n),
      edge_routing := fold (\<lambda>(addr, _). hm_remove addr) (eps_of to n) (edge_routing n),
      sn_inner := (sn_inner n)\<lparr>spawned := spawned (sn_inner n) @
        map (\<lambda>(ep, code). ProposeTask (ep_offline_proposal code ep (this_id n))) (eps_of to n)\<rparr>\<rparr>"
    unfolding n'_def remove_edge_connection_eq conn by simp
  have "ep \<in> fst ` set (eps_of to n) \<longleftrightarrow> get_edge_routing n ep = Some to" for ep
    unfolding set_eps_of [OF wf] by (force simp: get_edge_routing_def)
  then have "hm_get (edge_routing n') ep =
      (if get_edge_routing n ep = Some to then None else hm_get (edge_routing n) ep)" for ep
    unfolding n' by (simp add: fold_hm_remove)
  moreover have "get_edge_connection n' to = None" "remove_edge_connection to n' = n'"
    unfolding n' by (simp_all add: get_edge_connection_def remove_edge_connection_eq)
  moreover have "spawned (sn_inner n') = spawned (sn_inner n) @
      map (\<lambda>(ep, code). ProposeTask (ep_offline_proposal code ep (this_id n))) (eps_of to n)"
    unfolding n' by simp
  ultimately show ?thesis using distinct_eps_of [OF wf] set_eps_of [OF wf] by blast
qed

section \<open>Who owns an endpoint\<close>

lemma propose_routes:
  "propose r p n = (res, n') \<Longrightarrow> edge_routing n' = edge_routing n \<and> sn_ids n' = sn_ids n"
  using propose_keeps(1,5) by simp

lemmas propose_snd [simp] = propose_keeps [OF prod.collapse [symmetric]]

lemma wait_ack_keeps [simp]:
  "edge_routing (snd (topic_wait_ack h i n)) = edge_routing n" "sn_ids (snd (topic_wait_ack h i n)) = sn_ids n"
  "edge_connections (snd (topic_wait_ack h i n)) = edge_connections n"
  by (simp_all add: topic_wait_ack_def set_topic_at_def Let_def)

lemma send_message_keeps:
  assumes "send_message r h m n = (res, n')"
  shows "edge_routing n' = edge_routing n" "sn_ids n' = sn_ids n" "edge_connections n' = edge_connections n"
  using assms wait_ack_keeps [of h "msg_id m" n]
  by (auto simp: send_message_def case_prod_beta split: prod.splits sum.splits dest!: propose_keeps)

text \<open>What a request does to the routes: at most the sender's own endpoint appears or disappears.\<close>

lemma request_routing:
  assumes "handle_request_kind r from req n = Inr (reply, n')"
  shows "edge_routing n' = edge_routing n \<or>
    (\<exists>on. req = ReqEndpointOnline on \<and> reply = Reply (Inr (RespEndpointOnline (next_endpoint n))) \<and>
       edge_routing n' = hm_insert (next_endpoint n) (from, eon_topic_code on) (edge_routing n) \<and>
       ep_counter (sn_ids n') = ep_counter (sn_ids n) + 1) \<or>
    (\<exists>off. req = ReqEndpointOffline off \<and> get_edge_routing n (eoff_endpoint off) = Some from \<and>
       edge_routing n' = hm_remove (eoff_endpoint off) (edge_routing n))"
proof (cases req)
  case (ReqSendMessage m)
  then show ?thesis using assms
    by (auto simp: draw_message_eq Let_def split: option.splits sum.splits prod.splits dest!: send_message_keeps(1))
next
  case (ReqEndpointOnline on)
  then show ?thesis using assms
    by (auto simp: draw_endpoint_eq Let_def propose_for_edge_def set_edge_routing_def
        split: option.splits sum.splits prod.splits dest!: propose_routes)
next
  case (ReqEndpointOffline off)
  then show ?thesis using assms
    by (auto simp: propose_for_edge_def check_ep_auth_ok
        split: option.splits sum.splits prod.splits dest!: propose_keeps(1))
next
  case (ReqEndpointInterest i)
  then show ?thesis using assms
    by (auto simp: propose_for_edge_def split: option.splits sum.splits prod.splits dest!: propose_keeps(1))
next
  case (ReqSetState ss)
  then show ?thesis using assms
    by (auto simp: propose_for_edge_def split: option.splits sum.splits prod.splits dest!: propose_keeps(1))
qed

text \<open>
  What can happen at the node: a request of an edge node, a new local endpoint, a connection that
  is made or ends, a task that runs.
\<close>

datatype node_event =
    EvRequest node_id edge_request_enum
  | EvLocalEndpoint nat "interest list"
  | EvConnect "codec_kind list" node_id
  | EvClosed node_id nat
  | EvTask task

inductive node_step :: "raft_env \<Rightarrow> server_node \<Rightarrow> node_event \<Rightarrow> server_node \<Rightarrow> bool" for r where
  request: "handle_edge_request r from req n = Inr (reply, n') \<Longrightarrow> node_step r n (EvRequest from req) n'"
| local: "create_endpoint r h is n = Inr (res, n') \<Longrightarrow> node_step r n (EvLocalEndpoint h is) n'"
| connect: "create_edge_connection ks peer n = (res, n') \<Longrightarrow> node_step r n (EvConnect ks peer) n'"
| closed: "node_step r n (EvClosed peer inst) (connection_closed peer inst n)"
| run: "run_task r t n = Inr n' \<Longrightarrow> node_step r n (EvTask t) n'"

inductive node_run :: "raft_env \<Rightarrow> server_node \<Rightarrow> node_event list \<Rightarrow> server_node \<Rightarrow> bool" for r where
  start: "node_run r n [] n"
| step: "node_run r n evs n' \<Longrightarrow> node_step r n' ev n'' \<Longrightarrow> node_run r n (evs @ [ev]) n''"

inductive_cases node_step_elims:
  "node_step r n (EvRequest from req) n'" "node_step r n (EvLocalEndpoint h is) n'"
  "node_step r n (EvConnect ks peer) n'" "node_step r n (EvClosed peer inst) n'" "node_step r n (EvTask t) n'"

lemma handle_edge_request_cases:
  assumes "handle_edge_request r from req n = Inr (reply, n')"
  shows "n' = n \<or> handle_request_kind r from req n = Inr (reply, n')"
  using assms by (auto simp: handle_edge_request_def split: option.splits sum.splits)

text \<open>Endpoint addresses come from the counter of the thread.\<close>

lemma request_counter:
  assumes "handle_request_kind r from req n = Inr (reply, n')"
  shows "sf_digest (sn_ids n') = sf_digest (sn_ids n) \<and>
    ep_counter (sn_ids n') \<in> {ep_counter (sn_ids n), ep_counter (sn_ids n) + 1}"
  using assms
  by (cases req)
    (auto simp: draw_message_eq draw_endpoint_eq Let_def propose_for_edge_def set_edge_routing_def
      split: option.splits sum.splits prod.splits dest!: propose_keeps(5) send_message_keeps(2))

lemma create_endpoint_routing:
  assumes "create_endpoint r h is n = Inr (res, n')"
  shows "edge_routing n' = edge_routing n" "sf_digest (sn_ids n') = sf_digest (sn_ids n)"
    "ep_counter (sn_ids n') = ep_counter (sn_ids n) + 1"
  using assms
  by (auto simp: create_endpoint_def draw_endpoint_eq Let_def node_spawn_def set_topic_at_def
      split: sum.splits prod.splits dest!: propose_routes)

lemma push_message_ids:
  assumes "push_message ep m c f = Inr (res, c', f')"
  shows "sf_digest f' = sf_digest f" "ep_counter f' = ep_counter f"
  using assms
  by (auto simp: push_message_def encode_packet_def draw_packet_eq and_then_Inr_iff Let_def case_prod_beta
      split: sum.splits)

lemma dispatch_routing:
  assumes "topic_dispatch_message h m ep n = Inr (st, n')"
  shows "edge_routing n' = edge_routing n" "sf_digest (sn_ids n') = sf_digest (sn_ids n)"
    "ep_counter (sn_ids n') = ep_counter (sn_ids n)"
  using assms
  by (auto simp: topic_dispatch_message_def and_then_Inr_iff Let_def split: option.splits sum.split_asm
      dest: push_message_ids) (metis sum.exhaust old.unit.exhaust)+

lemma run_task_routing:
  assumes "run_task r t n = Inr n'"
  shows "edge_routing n' = edge_routing n \<and> sf_digest (sn_ids n') = sf_digest (sn_ids n) \<and>
    ep_counter (sn_ids n') = ep_counter (sn_ids n)"
proof (cases t)
  case (DispatchTask h code m ep)
  then obtain st n1 p where d: "topic_dispatch_message h m ep n = Inr (st, n1)" and n': "n' = snd (propose r p n1)"
    using assms by (auto simp: dispatch_task_def and_then_Inr_iff)
  then show ?thesis using dispatch_routing [OF d] by simp
qed (use assms in \<open>auto simp: resolve_ack_task_def set_topic_at_def Let_def case_prod_beta split: option.splits\<close>)

text \<open>
  After \<open>k\<close> endpoint addresses were drawn, every routed endpoint is one of them, so the next one
  is new as long as the counter has not wrapped.
\<close>

definition routes_drawn :: "u64 \<Rightarrow> u32 \<Rightarrow> nat \<Rightarrow> server_node \<Rightarrow> bool" where
  "routes_drawn digest c0 k n \<longleftrightarrow>
    hm_wf (edge_routing n) \<and> sf_digest (sn_ids n) = digest \<and> ep_counter (sn_ids n) = c0 + of_nat k \<and>
    (\<forall>ep route. hm_get (edge_routing n) ep = Some route \<longrightarrow>
      (\<exists>t j. j < k \<and> ep = endpoint_addr_layout t (ucast digest) (c0 + of_nat j)))"

lemma routes_drawn_fresh:
  assumes "routes_drawn digest c0 k n" "k < 2 ^ 32"
  shows "hm_get (edge_routing n) (next_endpoint n) = None"
proof (rule ccontr)
  assume "hm_get (edge_routing n) (next_endpoint n) \<noteq> None"
  then obtain t j where j: "j < k" "next_endpoint n = endpoint_addr_layout t (ucast digest) (c0 + of_nat j)"
    using assms(1) unfolding routes_drawn_def by blast
  then have "(of_nat k :: u32) = of_nat j"
    using assms(1) epa.lay_inj unfolding routes_drawn_def by fastforce
  then have "unat (of_nat k :: u32) = unat (of_nat j :: u32)" by simp
  with j(1) assms(2) show False by (simp add: unat_of_nat)
qed

lemma routes_drawn_mono:
  assumes "routes_drawn digest c0 k n" "edge_routing n' = edge_routing n"
    "sf_digest (sn_ids n') = sf_digest (sn_ids n)"
    "ep_counter (sn_ids n') \<in> {ep_counter (sn_ids n), ep_counter (sn_ids n) + 1}"
  shows "routes_drawn digest c0 k n' \<or> routes_drawn digest c0 (Suc k) n'"
  using assms unfolding routes_drawn_def by (auto simp: less_Suc_eq) (metis less_Suc_eq)+

lemma routes_drawn_remove:
  assumes "routes_drawn digest c0 k n" "sn_ids n' = sn_ids n" "hm_wf (edge_routing n')"
    "\<And>ep x. hm_get (edge_routing n') ep = Some x \<Longrightarrow> hm_get (edge_routing n) ep = Some x"
  shows "routes_drawn digest c0 k n'"
  using assms(1) unfolding routes_drawn_def assms(2) using assms(3,4) by blast

lemma remove_edge_connection_routes:
  assumes "hm_wf (edge_routing n)"
  shows "sn_ids (remove_edge_connection to n) = sn_ids n" "hm_wf (edge_routing (remove_edge_connection to n))"
    "hm_get (edge_routing (remove_edge_connection to n)) ep =
      (if hm_get (edge_connections n) to \<noteq> None \<and> get_edge_routing n ep = Some to then None
       else hm_get (edge_routing n) ep)"
proof -
  have "ep \<in> fst ` set (eps_of to n) \<longleftrightarrow> get_edge_routing n ep = Some to"
    unfolding set_eps_of [OF assms] by (force simp: get_edge_routing_def)
  then show "hm_get (edge_routing (remove_edge_connection to n)) ep =
      (if hm_get (edge_connections n) to \<noteq> None \<and> get_edge_routing n ep = Some to then None
       else hm_get (edge_routing n) ep)"
    by (simp add: remove_edge_connection_eq fold_hm_remove split: option.split)
qed (simp_all add: remove_edge_connection_eq hm_wf_fold_remove assms split: option.split)

lemma connection_closed_routes:
  assumes "hm_wf (edge_routing n)"
  shows "sn_ids (connection_closed peer inst n) = sn_ids n" "hm_wf (edge_routing (connection_closed peer inst n))"
    "hm_get (edge_routing (connection_closed peer inst n)) ep \<noteq> None \<Longrightarrow>
      hm_get (edge_routing (connection_closed peer inst n)) ep = hm_get (edge_routing n) ep"
    "get_edge_routing n ep \<noteq> Some peer \<Longrightarrow>
      hm_get (edge_routing (connection_closed peer inst n)) ep = hm_get (edge_routing n) ep"
  unfolding connection_closed_def
  using assms by (simp_all add: remove_edge_connection_routes get_edge_routing_def split: if_splits) auto

text \<open>
  A peer that connects again before its old connection is torn down loses the new one: the end of
  the old connection task removes whatever connection the peer has, although the new one is alive,
  and with it every route to the peer.
\<close>

theorem stale_connection_removes_new:
  assumes "hm_wf (edge_routing n)" "pick_preferred_codec (sn_codecs n) supported = Some k" "old < sn_next n"
  shows "\<exists>n1. create_edge_connection supported peer n = (Inr peer, n1) \<and>
    get_edge_connection n1 peer \<noteq> None \<and>
    get_edge_connection (connection_closed peer old n1) peer = None \<and>
    (\<forall>ep. get_edge_routing (connection_closed peer old n1) ep \<noteq> Some peer)"
proof -
  obtain n1 c where n1: "create_edge_connection supported peer n = (Inr peer, n1)"
    "hm_get (edge_connections n1) peer = Some c" "ec_alive c" "edge_routing n1 = edge_routing n"
    using assms(2) by (auto simp: create_edge_connection_def)
  have "get_edge_connection (connection_closed peer old n1) peer = None"
    by (simp add: connection_closed_def remove_edge_connection_eq get_edge_connection_def n1(2))
  moreover have "get_edge_routing (connection_closed peer old n1) ep \<noteq> Some peer" for ep
    unfolding connection_closed_def get_edge_routing_def
    using assms(1) n1(2,4) by (simp add: remove_edge_connection_routes get_edge_routing_def)
  ultimately show ?thesis using n1 by (simp add: get_edge_connection_def)
qed

text \<open>One step of the node keeps the discipline, and draws at most one address.\<close>

lemma node_step_routes:
  assumes "node_step r n ev n'" "routes_drawn digest c0 k n"
  shows "routes_drawn digest c0 k n' \<or> routes_drawn digest c0 (Suc k) n'"
  using assms(1)
proof cases
  case (request peer req reply)
  have "n' = n \<or> handle_request_kind r peer req n = Inr (reply, n')"
    using handle_edge_request_cases [OF request(2)] .
  then consider (same) "n' = n" | (req) "handle_request_kind r peer req n = Inr (reply, n')" by blast
  then show ?thesis
  proof cases
    case req
    from request_routing [OF req] show ?thesis
    proof (elim disjE exE conjE)
      assume "edge_routing n' = edge_routing n"
      then show ?thesis using routes_drawn_mono [OF assms(2)] request_counter [OF req] by blast
    next
      fix "on"
      assume on: "edge_routing n' = hm_insert (next_endpoint n) (peer, eon_topic_code on) (edge_routing n)"
        "ep_counter (sn_ids n') = ep_counter (sn_ids n) + 1"
      have "routes_drawn digest c0 (Suc k) n'"
        using assms(2) on request_counter [OF req] unfolding routes_drawn_def
        by (auto simp: less_Suc_eq add.assoc) blast
      then show ?thesis ..
    next
      fix off
      assume off: "edge_routing n' = hm_remove (eoff_endpoint off) (edge_routing n)"
      let ?m = "n'\<lparr>edge_routing := edge_routing n\<rparr>"
      have "routes_drawn digest c0 k ?m \<or> routes_drawn digest c0 (Suc k) ?m"
        using routes_drawn_mono [OF assms(2), of ?m] request_counter [OF req] by simp
      moreover have "routes_drawn digest c0 j n'" if "routes_drawn digest c0 j ?m" for j
        by (rule routes_drawn_remove [OF that])
          (use assms(2) in \<open>simp_all add: off routes_drawn_def split: if_splits\<close>)
      ultimately show ?thesis by blast
    qed
  qed (use assms(2) in simp)
next
  case (local h "is" res)
  then show ?thesis using routes_drawn_mono [OF assms(2)] create_endpoint_routing [OF local(2)] by blast
next
  case (connect ks peer res)
  then show ?thesis using routes_drawn_mono [OF assms(2), of n']
    by (auto simp: create_edge_connection_def split: option.splits)
next
  case (closed peer inst)
  have wf: "hm_wf (edge_routing n)" using assms(2) by (simp add: routes_drawn_def)
  have "routes_drawn digest c0 k n'"
    using routes_drawn_remove [OF assms(2)] connection_closed_routes(1-3) [OF wf, of peer inst] unfolding closed(2)
    by (metis option.distinct(1))
  then show ?thesis ..
next
  case (run t)
  then show ?thesis using routes_drawn_mono [OF assms(2)] run_task_routing [OF run(2)] by blast
qed

lemma node_run_routes:
  assumes "node_run r n evs n'" "edge_routing n = []"
  shows "\<exists>k \<le> length evs. routes_drawn (sf_digest (sn_ids n)) (ep_counter (sn_ids n)) k n'"
  using assms
proof (induction rule: node_run.induct)
  case (start n)
  then show ?case by (simp add: routes_drawn_def)
next
  case (step n evs n' ev n'')
  then obtain k where "k \<le> length evs" "routes_drawn (sf_digest (sn_ids n)) (ep_counter (sn_ids n)) k n'" by blast
  with node_step_routes [OF step(2) this(2)] show ?case
    by (metis Suc_le_mono le_SucI length_append_singleton)
qed

lemma node_step_ownership:
  assumes "node_step r n ev n'" and wf: "hm_wf (edge_routing n)"
    and fresh: "hm_get (edge_routing n) (next_endpoint n) = None"
  shows "(hm_get (edge_routing n) ep = Some (p, code) \<longrightarrow>
      hm_get (edge_routing n') ep = Some (p, code) \<or>
      hm_get (edge_routing n') ep = None \<and>
        ((\<exists>inst. ev = EvClosed p inst) \<or> (\<exists>off. ev = EvRequest p (ReqEndpointOffline off) \<and> eoff_endpoint off = ep))) \<and>
    (hm_get (edge_routing n) ep = None \<longrightarrow> hm_get (edge_routing n') ep = Some (p, code) \<longrightarrow>
      (\<exists>on. ev = EvRequest p (ReqEndpointOnline on) \<and> eon_topic_code on = code))"
  using assms(1)
proof cases
  case (request peer req reply)
  have "n' = n \<or> handle_request_kind r peer req n = Inr (reply, n')"
    using handle_edge_request_cases [OF request(2)] .
  then consider (same) "edge_routing n' = edge_routing n" | (req) "handle_request_kind r peer req n = Inr (reply, n')"
    by blast
  then show ?thesis
  proof cases
    case req
    from request_routing [OF req] show ?thesis
    proof (elim disjE exE conjE)
      fix "on"
      assume "req = ReqEndpointOnline on"
        "edge_routing n' = hm_insert (next_endpoint n) (peer, eon_topic_code on) (edge_routing n)"
      then show ?thesis using fresh request(1) by auto
    next
      fix off
      assume "req = ReqEndpointOffline off" "get_edge_routing n (eoff_endpoint off) = Some peer"
        "edge_routing n' = hm_remove (eoff_endpoint off) (edge_routing n)"
      then show ?thesis using request(1) by (auto simp: get_edge_routing_def)
    qed simp
  qed simp
next
  case (local h "is" res)
  then show ?thesis using create_endpoint_routing(1) [OF local(2)] by simp
next
  case (connect ks peer res)
  then show ?thesis by (auto simp: create_edge_connection_def split: option.splits)
next
  case (closed peer inst)
  show ?thesis
  proof (cases "get_edge_routing n ep = Some peer")
    case True
    then have "hm_get (edge_routing n) ep = Some (p, code) \<Longrightarrow> peer = p" "hm_get (edge_routing n) ep \<noteq> None"
      by (auto simp: get_edge_routing_def)
    then show ?thesis using connection_closed_routes(3) [OF wf, of peer inst ep] closed by force
  next
    case False
    then show ?thesis using connection_closed_routes(4) [OF wf False, of inst] closed by simp
  qed
next
  case (run t)
  then show ?thesis using run_task_routing [OF run(2)] by simp
qed

text \<open>
  (C14) Ownership of an endpoint.  Along every run of fewer than \<open>2^32\<close> events that starts without
  routes, whatever the edge nodes ask for and however their requests, connections and tasks
  interleave: a route stays with its owner until the owner itself takes the endpoint offline or
  its connection ends, and a new route appears only for the edge node whose request brought the
  endpoint online, under the topic it named.
\<close>

theorem endpoint_ownership:
  assumes "node_run r n0 evs n" "edge_routing n0 = []" "length evs < 2 ^ 32" "node_step r n ev n'"
  shows "(\<forall>ep p code. hm_get (edge_routing n) ep = Some (p, code) \<longrightarrow>
      hm_get (edge_routing n') ep = Some (p, code) \<or>
      hm_get (edge_routing n') ep = None \<and>
        ((\<exists>inst. ev = EvClosed p inst) \<or> (\<exists>off. ev = EvRequest p (ReqEndpointOffline off) \<and> eoff_endpoint off = ep))) \<and>
    (\<forall>ep p code. hm_get (edge_routing n) ep = None \<longrightarrow> hm_get (edge_routing n') ep = Some (p, code) \<longrightarrow>
      (\<exists>on. ev = EvRequest p (ReqEndpointOnline on) \<and> eon_topic_code on = code))"
proof -
  obtain k where k: "k \<le> length evs" "routes_drawn (sf_digest (sn_ids n0)) (ep_counter (sn_ids n0)) k n"
    using node_run_routes [OF assms(1,2)] by blast
  then have "hm_wf (edge_routing n)" "hm_get (edge_routing n) (next_endpoint n) = None"
    using routes_drawn_fresh [OF k(2)] assms(3) by (auto simp: routes_drawn_def)
  from node_step_ownership [OF assms(4) this] show ?thesis by blast
qed

section \<open>Dispatching\<close>

text \<open>The payloads on their way to a peer, as the peer will decode them.\<close>

definition outbound_payloads :: "server_node \<Rightarrow> node_id \<Rightarrow> (codec_error + edge_payload) list" where
  "outbound_payloads n peer =
    (case hm_get (edge_connections n) peer of
       None \<Rightarrow> []
     | Some c \<Rightarrow> map (\<lambda>p. registry_decode (ec_codecs c) (eph_codec (ep_header p)) (ep_payload p)) (ec_outbound c))"

lemma edge_dispatch:
  assumes local: "get_local_ep n h ep = None"
    and conn: "get_edge_routing n ep = Some peer" "get_edge_connection n peer = Some c"
    and live: "ec_receiving c" "hm_get (ec_codecs c) (ec_preferred c) \<noteq> None"
    and codec: "registry_faithful {PayloadPush (PushMessage [ep] m)} (ec_codecs c)"
  obtains cs ids where "topic_dispatch_message h m ep n = Inr (Some Sent, n\<lparr>edge_connections := cs, sn_ids := ids\<rparr>)"
    "outbound_payloads (n\<lparr>edge_connections := cs, sn_ids := ids\<rparr>) peer =
      outbound_payloads n peer @ [Inr (PayloadPush (PushMessage [ep] m))]"
    "\<And>q. q \<noteq> peer \<Longrightarrow> outbound_payloads (n\<lparr>edge_connections := cs, sn_ids := ids\<rparr>) q = outbound_payloads n q"
proof -
  let ?p = "PayloadPush (PushMessage [ep] m)"
  obtain bs where enc: "registry_encode (ec_codecs c) (ec_preferred c) ?p = Inr bs"
    using live(2) by (auto simp: registry_encode_def)
  have dec: "registry_decode (ec_codecs c) (ec_preferred c) bs = Inr ?p"
    by (rule registry_roundtrip [OF codec _ enc]) simp
  have get: "hm_get (edge_connections n) peer = Some c"
    using conn(2) by (simp add: get_edge_connection_def split: option.splits if_splits)
  show thesis
    by (rule that, use local conn live(1) enc dec get in \<open>simp add: topic_dispatch_message_def push_message_def
        encode_packet_def draw_packet_eq send_packet_def edge_packet_new_def\<close>)
      (use get dec in \<open>simp_all add: outbound_payloads_def\<close>)
qed

text \<open>
  A message that is dispatched to an endpoint which is not local, but routed to an edge node with a
  live connection whose task runs: it is reported \<open>Sent\<close>, and the peer, and no other, finds it at the
  end of its channel, addressed to that endpoint.
\<close>

theorem dispatch_to_edge:
  assumes local: "get_local_ep n h ep = None"
    and conn: "get_edge_routing n ep = Some peer" "get_edge_connection n peer = Some c"
    and live: "ec_receiving c" "hm_get (ec_codecs c) (ec_preferred c) \<noteq> None"
    and codec: "registry_faithful {PayloadPush (PushMessage [ep] m)} (ec_codecs c)"
  shows "\<exists>n'. topic_dispatch_message h m ep n = Inr (Some Sent, n') \<and>
    outbound_payloads n' peer = outbound_payloads n peer @ [Inr (PayloadPush (PushMessage [ep] m))] \<and>
    (\<forall>q. q \<noteq> peer \<longrightarrow> outbound_payloads n' q = outbound_payloads n q)"
  by (rule edge_dispatch [OF assms]) blast

lemma dispatch_without_route:
  assumes "get_local_ep n h ep = None"
    "get_edge_routing n ep = None \<or> (\<exists>peer. get_edge_routing n ep = Some peer \<and> get_edge_connection n peer = None)"
  shows "topic_dispatch_message h m ep n = Inr (None, n)"
  using assms by (auto simp: topic_dispatch_message_def)

section \<open>Through the replicated state machine\<close>

text \<open>
  The part of openraft's contract that the results below use: at a node with the identifier
  \<open>this\<close>, a proposal that the state machine applies is committed, and when the proposer has waited
  for it, its own replica has applied it and nothing else.  Runs in which other proposals come in
  between are those of \<open>MQ_State_Machine\<close>.
\<close>

definition commits_alone :: "raft_env \<Rightarrow> node_id \<Rightarrow> bool" where
  "commits_alone r this \<longleftrightarrow>
    (\<forall>p m rep. this_id m = this \<longrightarrow> apply_proposal p (sn_data m) (sn_inner m) = Inr rep \<longrightarrow>
      propose r p m = (Inr (), set_replica rep m))"

lemma commits_aloneD:
  "commits_alone r this \<Longrightarrow> this_id m = this \<Longrightarrow> apply_proposal p (sn_data m) (sn_inner m) = Inr rep \<Longrightarrow>
    propose r p m = (Inr (), set_replica rep m)"
  unfolding commits_alone_def by blast

lemma single_node_commits [simp]: "commits_alone (single_node_raft this) this"
  by (simp add: commits_alone_def single_node_raft_def propose_def write_proposal_def)

lemma this_id_set_topic_at [simp]: "this_id (set_topic_at h ti n) = this_id n"
  by (simp add: set_topic_at_def)

text \<open>A handle that the node has registered, under the code it carries.\<close>

definition registered :: "server_node \<Rightarrow> topic_code \<Rightarrow> nat \<Rightarrow> bool" where
  "registered n code h \<longleftrightarrow> get_topic (sn_inner n) code = Some h \<and>
    (\<exists>ti. hm_get (topic_handles (sn_inner n)) h = Some ti \<and> ti_code ti = code)"

lemma topic_at_set [simp]: "topic_at (set_topic_at h ti n) h = ti"
  by (simp add: topic_at_def set_topic_at_def)

lemma sm_ok_set_topic_at:
  "sm_ok nd (sn_inner (set_topic_at h ti n)) \<longleftrightarrow> sm_ok nd (sn_inner n)"
  by (simp add: sm_ok_def set_topic_at_def get_topic_def)

text \<open>What a resolve task does: the waiting handle gets the result, no other handle is touched.\<close>

lemma resolve_ack_task_poll:
  assumes "hm_get (ack_waiting_pool (topic_at n h)) i = Some tx"
  shows "wait_ack_poll (resolve_ack_task h i result n) handle =
      (if handle = tx then Some result else wait_ack_poll n handle)"
    and "hm_get (ack_waiting_pool (topic_at (resolve_ack_task h i result n) h)) i = None"
  using assms
  by (simp_all add: resolve_ack_task_def pool_take_def wait_ack_poll_def set_topic_at_def topic_at_def Let_def)

lemma topic_wait_ack_registers:
  assumes "topic_wait_ack h i n = (tx, n1)"
  shows "hm_get (ack_waiting_pool (topic_at n1 h)) i = Some tx"
    "ti_code (topic_at n1 h) = ti_code (topic_at n h)" "sn_data n1 = sn_data n"
    "node_topics (sn_inner n1) = node_topics (sn_inner n)" "this_id n1 = this_id n"
    "node_platform (sn_inner n1) = node_platform (sn_inner n)"
    "node_durable (sn_inner n1) = node_durable (sn_inner n)"
  using assms by (auto simp: topic_wait_ack_def Let_def topic_at_def set_topic_at_def)

lemma topic_wait_ack_keeps:
  assumes "topic_wait_ack h i n = (tx, n1)"
  shows "edge_routing n1 = edge_routing n" "edge_connections n1 = edge_connections n"
    "get_local_ep n1 h ep = get_local_ep n h ep" "clock_reads (sn_inner n1) = clock_reads (sn_inner n)"
    "sm_ok nd (sn_inner n1) \<longleftrightarrow> sm_ok nd (sn_inner n)"
  using assms
  by (auto simp: topic_wait_ack_def Let_def get_local_ep_def topic_at_def set_topic_at_def sm_ok_def get_topic_def
      split: option.splits)

lemma topic_wait_ack_pending:
  "topic_wait_ack h i n = (tx, n1) \<Longrightarrow> hm_get (ack_waiting_pool (topic_at n h)) i = None \<Longrightarrow> wait_ack_poll n1 tx = None"
  by (auto simp: topic_wait_ack_def wait_ack_poll_def set_topic_at_def Let_def)

lemma commit_keeps_tasks:
  assumes "ctx_topic_code c = Some code"
  shows "\<exists>c'. commit_durable_commands c = Inr c' \<and> topic_handles (ctx_node c') = topic_handles (ctx_node c) \<and>
    set (spawned (ctx_node c)) \<subseteq> set (spawned (ctx_node c'))"
  using assms by (auto simp: commit_durable_commands_def spawn_task_def split: option.split)

text \<open>
  The request of a message up to the state the proposal leaves: a handle waits for the message, and
  the replica is the one the proposal gives.
\<close>

lemma edge_send_applied:
  fixes em n
  defines "code \<equiv> emh_topic (em_header em)" and "m \<equiv> fst (into_message (next_msg_id n) em)"
  assumes raft: "commits_alone r (this_id n)" and reg: "registered n code h" and auth: "sn_edge_auth n = None"
    and w: "topic_wait_ack h (next_msg_id n) (n\<lparr>sn_ids := snd (draw_message (sn_ids n))\<rparr>) = (tx, n1)"
    and ap: "apply_proposal (DelegateMessage \<lparr>dg_topic = code, dg_message = m\<rparr>) (sn_data n1) (sn_inner n1) = Inr rep"
  shows "handle_edge_request r from (ReqSendMessage em) n = Inr (AwaitAck tx, set_replica rep n1)"
proof -
  note w' = topic_wait_ack_registers [OF w]
  have m: "msg_id m = next_msg_id n" "snd (into_message (next_msg_id n) em) = code"
    by (simp_all add: m_def code_def into_message_def into_message_header_def message_new_def)
  have h: "get_topic (sn_inner n) code = Some h" "ti_code (topic_at n1 h) = code"
    using reg w'(2) by (auto simp: registered_def topic_at_def)
  have "propose r (DelegateMessage \<lparr>dg_topic = code, dg_message = m\<rparr>) n1 = (Inr (), set_replica rep n1)"
    using commits_aloneD [OF raft _ ap] w'(5) by simp
  then show ?thesis
    using auth h w m
    by (simp add: handle_edge_request_def draw_message_eq case_prod_beta send_message_def code_def m_def)
qed

text \<open>A message that nobody is interested in: what the topic makes of it.\<close>

lemma hold_for_nobody:
  assumes inv: "topic_inv d" "ctx_ok c" and nobody: "interested d (subjects (header m)) = {}"
    and kind: "target_kind (header m) = Online \<or> target_kind (header m) = Durable"
    and room: "has_room d" "\<not> blocking (td_queue d)" "entry_fresh (msg_id m) (fst (ctx_now c)) (td_queue d)"
  defines "hm \<equiv> \<lparr>held_message = m, held_wait_ack = \<lparr>expect = ack_kind (header m), wa_status = []\<rparr>\<rparr>"
  obtains q' c' where
    "hold_new_message m d c = Inr (d\<lparr>td_queue := q'\<rparr>,
       if finished_at (fst (ctx_now (snd (ctx_now c)))) hm then settle (msg_id m) hm c' else c')"
    "ctx_quiet c c'"
    "hm_get (hold_messages q') (msg_id m) = (if finished_at (fst (ctx_now (snd (ctx_now c)))) hm then None else Some hm)"
proof -
  let ?c1 = "push_durable_command (Create m) (snd (ctx_now c))" and ?u = "state_update_new_empty (msg_id m)"
  have none: "ep_order (node_platform (ctx_node c)) {} = []" using inv(2) unfolding platform_ok_def by (metis finite.emptyI set_empty)
  have "collect_addr_by_subjects d (subjects (header m)) = {}" using collect_addr_interested [OF inv(1)] nobody by simp
  then have hold: "hold_new_message m d c = enqueue_message hm d c"
    using kind put_in_queue_room [OF room(1)] none
    by (auto simp: hold_new_message_def hold_for_def hm_def wait_ack_new_def)
  have held: "held_message hm = m" by (simp add: hm_def)
  have q: "queue_inv (td_queue d)" "resolved (td_queue d) = {}" using inv(1) by (simp_all add: topic_inv_def)
  have fr: "entry_fresh (held_id hm) (fst (ctx_now c)) (td_queue d)" "hm_wf (held_status hm)"
    using room(3) by (simp_all add: hm_def)
  obtain q1 where q1: "queue_push hm (td_queue d) c = (q1, snd (ctx_now c))" "queue_inv q1" "resolved q1 = resolved (td_queue d)"
    "blocking q1 = blocking (td_queue d)" "hm_get (hold_messages q1) = (hm_get (hold_messages (td_queue d)))(held_id hm \<mapsto> hm)"
    by (rule queue_push_effect [OF q(1) fr])
  have quiet: "ctx_quiet c ?c1" by (rule ctx_quiet_trans [OF ctx_quiet_now ctx_quiet_create])
  have d1: "topic_inv (d\<lparr>td_queue := q1\<rparr>)" "ctx_ok ?c1" "\<not> blocking (td_queue (d\<lparr>td_queue := q1\<rparr>))"
    "hm_get (hold_messages (td_queue (d\<lparr>td_queue := q1\<rparr>))) (upd_message_id ?u) = Some hm"
    using inv q1(2-5) q(2) room(2) quiet ctx_ok_frame [of c ?c1]
    by (simp_all add: topic_inv_def ctx_quiet_def state_update_new_empty_def hm_def)
  have t: "fst (ctx_now ?c1) = fst (ctx_now (snd (ctx_now c)))"
    by (simp add: push_durable_command_def push_durable_commands_def ctx_now_def utc_now_def)
  have u: "acknowledged ?u hm = hm" "upd_message_id ?u = msg_id m" "sent_out R hm = hm" for R
    by (simp_all add: state_update_new_empty_def sent_out_def hm_def)
  obtain q' c' where up: "update_and_flush ?u (d\<lparr>td_queue := q1\<rparr>) ?c1 = Inr (d\<lparr>td_queue := q'\<rparr>,
       if finished_at (fst (ctx_now (snd (ctx_now c)))) hm then settle (msg_id m) hm c' else c')" "ctx_quiet ?c1 c'"
    "hm_get (hold_messages q') (msg_id m) = (if finished_at (fst (ctx_now (snd (ctx_now c)))) hm then None else Some hm)"
    using update_effect [OF d1] unfolding u t by auto
  have "hold_new_message m d c = update_and_flush ?u (d\<lparr>td_queue := q1\<rparr>) ?c1"
    using q1(1) held unfolding hold by (simp add: enqueue_message_def)
  with up ctx_quiet_trans [OF quiet up(2)] show thesis by (intro that) simp_all
qed

text \<open>The task of an answer is spawned and, when it runs, the sender's request gets that answer.\<close>

lemma answer_spawned:
  assumes ctx: "ctx_topic_code c = Some code" "get_topic (ctx_node c) code = Some h" "topic_handles (ctx_node c) = topic_handles (sn_inner n1)"
    and wait: "hm_get (ack_waiting_pool (topic_at n1 h)) i = Some tx"
    and c': "ctx_topic_code c' = Some code" "topic_handles (ctx_node c') = topic_handles (ctx_node c)"
      "set (spawned (ctx_node (resolve_ack i res c))) \<subseteq> set (spawned (ctx_node c'))"
  obtains c2 task n2 where "commit_durable_commands c' = Inr c2" "task \<in> set (spawned (ctx_node c2))"
    "run_task r task (set_replica (nd, ctx_node c2) n1) = Inr n2"
    "finish_request n2 (AwaitAck tx) = Some (Inr (RespSendMessage (edge_result_from_std res)))"
proof -
  obtain c2 where c2: "commit_durable_commands c' = Inr c2" "topic_handles (ctx_node c2) = topic_handles (sn_inner n1)"
    "set (spawned (ctx_node c')) \<subseteq> set (spawned (ctx_node c2))"
    using commit_keeps_tasks [OF c'(1)] c'(2) ctx(3) by auto
  let ?n = "set_replica (nd, ctx_node c2) n1"
  have "ResolveAckTask h i res \<in> set (spawned (ctx_node (resolve_ack i res c)))"
    using ctx(1,2) by (simp add: resolve_ack_def spawn_task_def)
  then have "ResolveAckTask h i res \<in> set (spawned (ctx_node c2))" using c'(3) c2(3) by blast
  moreover have "topic_at ?n h = topic_at n1 h" using c2(2) by (simp add: topic_at_def set_replica_def)
  then have "finish_request (resolve_ack_task h i res ?n) (AwaitAck tx) = Some (Inr (RespSendMessage (edge_result_from_std res)))"
    using resolve_ack_task_poll(1) [of ?n h i tx res tx] wait by (simp add: finish_request_def)
  ultimately show thesis by (rule that [OF c2(1) _ run_task.simps(1)])
qed

text \<open>The message as it is held for nobody.\<close>

abbreviation held_for_nobody :: "message \<Rightarrow> hold_message" where
  "held_for_nobody m \<equiv> \<lparr>held_message = m, held_wait_ack = \<lparr>expect = ack_kind (header m), wa_status = []\<rparr>\<rparr>"


text \<open>
  An edge node that takes its endpoint offline names itself as the host, but the endpoint was put
  online with the server as its host: the request succeeds and the server forgets the route, but
  the replicated routing table of the topic still counts the endpoint as reachable at the server,
  so messages go on being dispatched to it, in vain.  (A disconnect names the server.)
\<close>

theorem edge_offline_leaves_route:
  assumes raft: "commits_alone r (this_id n)" and sm: "sm_ok (sn_data n) (sn_inner n)"
    and topic: "hm_get (topics (sn_data n)) code = Some d"
    and owner: "get_edge_routing n ep = Some from" "from \<noteq> this_id n"
    and reach: "ep \<in> reachable_eps d (this_id n)" and auth: "sn_edge_auth n = None"
  shows "\<exists>n' d'. handle_edge_request r from (ReqEndpointOffline \<lparr>eoff_topic_code = code, eoff_endpoint = ep\<rparr>) n
      = Inr (Reply (Inr RespEndpointOffline), n') \<and>
    get_edge_routing n' ep = None \<and> hm_get (topics (sn_data n')) code = Some d' \<and> ep \<in> reachable_eps d' (this_id n)"
proof -
  let ?c = "topic_context code (sn_inner n)" and ?p = "ep_offline_proposal code ep from"
  have inv: "topic_inv d" "platform_ok (node_platform (sn_inner n))" "get_topic (sn_inner n) code \<noteq> None"
    using sm_okD [OF sm topic] by simp_all
  obtain ms c' d' where off: "ep_offline from ep d ?c = Inr (d', c')" and fr: "topic_step d ?c ms d' c'"
    and rt: "ep_routing_table d' = hm_insert from (reachable_eps d from - {ep}) (ep_routing_table d)"
    using ep_offline_step [of d ?c "from" ep] inv(1,2) by fastforce
  have "ctx_frame ?c c'" using fr by (simp add: topic_step_def releases_def)
  then have "ctx_topic_code c' = Some code" by (simp add: ctx_frame_def)
  then obtain c'' where c'': "commit_durable_commands c' = Inr c''" using commit_effect by blast
  let ?rep = "((sn_data n)\<lparr>topics := hm_insert code d' (topics (sn_data n))\<rparr>, ctx_node c'')"
  have "apply_proposal ?p (sn_data n) (sn_inner n) = Inr ?rep"
    using topic off c'' by (simp add: ep_offline_proposal_def apply_ep_offline_def on_topic_def commit_and_drop_def)
  then have p: "propose r ?p n = (Inr (), set_replica ?rep n)" using commits_aloneD [OF raft] by simp
  have "check_ep_auth ep from n = Inr ()" using owner(1) by (simp only: check_ep_auth_ok)
  then have "handle_edge_request r from (ReqEndpointOffline \<lparr>eoff_topic_code = code, eoff_endpoint = ep\<rparr>) n
      = Inr (Reply (Inr RespEndpointOffline), (set_replica ?rep n)\<lparr>edge_routing := hm_remove ep (edge_routing n)\<rparr>)"
    using auth inv(3) p by (auto simp: handle_edge_request_def propose_for_edge_def)
  moreover have "ep \<in> reachable_eps d' (this_id n)" using reach owner(2) rt by (simp add: reachable_eps_def)
  ultimately show ?thesis by (intro exI conjI) (auto simp: get_edge_routing_def set_replica_def)
qed

text \<open>
  Loading a new topic: the proposal is applied, the caller gets the handle the node registered, and
  the topic holds the messages that were loaded.  A topic that is registered is refused, and
  nothing is proposed.
\<close>

theorem load_topic_correct:
  assumes raft: "commits_alone r (this_id n)" and sm: "sm_ok (sn_data n) (sn_inner n)"
    and ok: "load_ok \<lparr>lt_config = config, lt_queue = queue\<rparr>"
  shows "if get_topic (sn_inner n) (cfg_code config) \<noteq> None
    then node_load_topic r config queue n = (Inl (error_new ''topic already exists'' KTopicAlreadyExists), n)
    else \<exists>n'. node_load_topic r config queue n = (Inr (next_handle (sn_inner n)), n') \<and>
      sm_ok (sn_data n') (sn_inner n') \<and> get_topic (sn_inner n') (cfg_code config) = Some (next_handle (sn_inner n)) \<and>
      hm_get (topics (sn_data n')) (cfg_code config) = Some (topic_from_durable config (sort_key dm_time queue))"
proof (cases "get_topic (sn_inner n) (cfg_code config) = None")
  case True
  let ?lt = "\<lparr>lt_config = config, lt_queue = queue\<rparr>"
  have "hm_get (topics (sn_data n)) (cfg_code config) = None"
    using sm_okD(3) [OF sm, of "cfg_code config"] True by fastforce
  with apply_load_topic_new [OF sm ok] obtain nd' n' where a:
    "apply_proposal (LoadTopic ?lt) (sn_data n) (sn_inner n) = Inr (nd', n')" "sm_ok nd' n'"
    "hm_get (topics nd') (cfg_code config) = Some (topic_from_durable config (sort_key dm_time queue))"
    "get_topic n' (cfg_code config) = Some (next_handle (sn_inner n))" by auto
  have "propose r (LoadTopic ?lt) n = (Inr (), set_replica (nd', n') n)" using commits_aloneD [OF raft _ a(1)] by simp
  then show ?thesis using True a(2-4) by (auto simp: node_load_topic_def get_topic_def set_replica_def)
qed (simp add: node_load_topic_def get_topic_def)

text \<open>
  Unloading a topic takes it out of the replicated state but leaves the node's handle to it, so the
  topic can never be loaded again at that node: every attempt is refused although no replica has it.
\<close>

theorem unloaded_topic_stays_registered:
  assumes raft: "commits_alone r (this_id n)" and reg: "get_topic (sn_inner n) code \<noteq> None"
  shows "\<exists>n'. propose r (UnloadTopic code) n = (Inr (), n') \<and> hm_get (topics (sn_data n')) code = None \<and>
    (\<forall>config queue. cfg_code config = code \<longrightarrow>
      node_load_topic r config queue n' = (Inl (error_new ''topic already exists'' KTopicAlreadyExists), n'))"
proof -
  let ?rep = "(apply_unload_topic code (sn_data n), sn_inner n)"
  have "propose r (UnloadTopic code) n = (Inr (), set_replica ?rep n)"
    by (rule commits_aloneD [OF raft]) simp_all
  then show ?thesis using reg
    by (auto simp: set_replica_def apply_unload_topic_def node_load_topic_def get_topic_def)
qed

section \<open>Witnesses\<close>

lemma example_server_simps [simp]:
  "sn_inner example_server = example_node" "sn_data example_server = example_node_data"
  "sn_edge_auth example_server = None" "node_config_id example_node = NodeId [1]"
  "hm_get (topic_handles example_node) 0 = Some \<lparr>ti_code = example_topic, ack_waiting_pool = [], local_endpoints = []\<rparr>"
  "edge_routing example_server = [(EndpointAddr [1], NodeId [7], example_topic)]"
  "hm_get (topics example_node_data) example_topic = Some (example_topic_data False)"
  "get_topic example_node example_topic = Some 0" "sn_next example_server = 0"
  by (simp_all add: example_server_def example_node_def example_node_data_def get_topic_def)

lemma example_server_ok [simp]: "sm_ok example_node_data example_node"
proof -
  have "platform_ok (node_platform example_node)" by (simp add: example_node_def)
  moreover have "get_topic example_node example_topic = Some 0" by simp
  ultimately show ?thesis by (simp add: sm_ok_def example_node_data_def)
qed

lemma example_commits [simp]: "commits_alone (single_node_raft (NodeId [1])) (NodeId [1])"
  by (rule single_node_commits)

definition example_edge_connection :: edge_connection where
  "example_edge_connection =
    \<lparr>ec_instance = 0, ec_codecs = [(JSON, \<lparr>codec_encode = (\<lambda>_. []),
        codec_decode = (\<lambda>_. Inr (PayloadPush (PushMessage [EndpointAddr [1]] (example_message 3 Online))))\<rparr>)],
     ec_preferred = JSON, ec_peer = NodeId [7], ec_alive = True, ec_receiving = True, ec_outbound = []\<rparr>"

definition connected_server :: server_node where
  "connected_server = example_server\<lparr>edge_connections := [(NodeId [7], example_edge_connection)], sn_next := 1\<rparr>"

theorem edge_disconnect_correct_witness:
  "get_edge_connection (remove_edge_connection (NodeId [7]) connected_server) (NodeId [7]) = None"
  using edge_disconnect_correct [of connected_server "NodeId [7]" example_edge_connection]
  by (simp add: connected_server_def)

theorem stale_connection_removes_new_witness:
  "\<exists>n1. create_edge_connection [JSON] (NodeId [7]) connected_server = (Inr (NodeId [7]), n1) \<and>
    get_edge_connection (connection_closed (NodeId [7]) 0 n1) (NodeId [7]) = None"
  using stale_connection_removes_new [of connected_server "[JSON]" JSON 0 "NodeId [7]"]
  by (auto simp: connected_server_def example_server_def pick_preferred_codec_def)

theorem dispatch_to_edge_witness:
  "\<exists>n'. topic_dispatch_message 0 (example_message 3 Online) (EndpointAddr [1]) connected_server = Inr (Some Sent, n') \<and>
    outbound_payloads n' (NodeId [7]) = [Inr (PayloadPush (PushMessage [EndpointAddr [1]] (example_message 3 Online)))]"
proof -
  have "get_local_ep connected_server 0 (EndpointAddr [1]) = None"
    by (simp add: get_local_ep_def topic_at_def connected_server_def example_node_def)
  moreover have "get_edge_routing connected_server (EndpointAddr [1]) = Some (NodeId [7])"
    "get_edge_connection connected_server (NodeId [7]) = Some example_edge_connection"
    "outbound_payloads connected_server (NodeId [7]) = []"
    by (simp_all add: get_edge_routing_def get_edge_connection_def connected_server_def outbound_payloads_def
        example_edge_connection_def)
  moreover have "registry_faithful {PayloadPush (PushMessage [EndpointAddr [1]] (example_message 3 Online))}
      (ec_codecs example_edge_connection)"
    by (simp add: registry_faithful_def codec_faithful_def example_edge_connection_def)
  ultimately show ?thesis
    using dispatch_to_edge [of connected_server 0 "EndpointAddr [1]" "NodeId [7]" example_edge_connection
        "example_message 3 Online"]
    by (auto simp: example_edge_connection_def)
qed

text \<open>A topic with an empty queue, a server with it, and a message without subjects.\<close>

definition quiet_topic :: topic_data where
  "quiet_topic = (example_topic_data False)\<lparr>td_queue := queue_new False 8\<rparr>"

lemma quiet_topic_ok: "topic_inv quiet_topic" "config_ok (td_config quiet_topic)"
  using example_topic_data_ok [of False] queue_inv_new [of False 8]
  by (simp_all add: quiet_topic_def topic_inv_def queue_new_def)

definition quiet_server :: server_node where
  "quiet_server = example_server\<lparr>sn_data := \<lparr>topics = [(example_topic, quiet_topic)]\<rparr>\<rparr>"

definition lone_message :: "message_target_kind \<Rightarrow> message_durable_config option \<Rightarrow> edge_message" where
  "lone_message k dur = \<lparr>em_header = \<lparr>emh_ack_kind = AckSent, emh_target_kind = k, emh_durability = dur,
      emh_subjects = [], emh_topic = example_topic\<rparr>, em_payload = []\<rparr>"


theorem edge_offline_leaves_route_witness:
  "\<exists>n' d'. handle_edge_request (single_node_raft (NodeId [1])) (NodeId [7])
      (ReqEndpointOffline \<lparr>eoff_topic_code = example_topic, eoff_endpoint = EndpointAddr [1]\<rparr>) example_server
      = Inr (Reply (Inr RespEndpointOffline), n') \<and>
    hm_get (topics (sn_data n')) example_topic = Some d' \<and> EndpointAddr [1] \<in> reachable_eps d' (NodeId [1])"
  using edge_offline_leaves_route [of "single_node_raft (NodeId [1])" example_server example_topic
      "example_topic_data False" "EndpointAddr [1]" "NodeId [7]"]
  by (auto simp: get_edge_routing_def reachable_eps_def example_topic_data_def)

theorem load_topic_correct_witness:
  "\<exists>n'. node_load_topic (single_node_raft (NodeId [1])) (topic_config_from_code (TopicCode [120])) [] example_server
      = (Inr 1, n') \<and> get_topic (sn_inner n') (TopicCode [120]) = Some 1"
proof -
  have "get_topic example_node (TopicCode [120]) = None" "next_handle example_node = 1"
    by (simp_all add: example_node_def get_topic_def example_topic_def)
  moreover have "load_ok \<lparr>lt_config = topic_config_from_code (TopicCode [120]), lt_queue = []\<rparr>"
    "cfg_code (topic_config_from_code (TopicCode [120])) = TopicCode [120]"
    by (simp_all add: load_ok_def topic_config_from_code_def config_ok_def)
  ultimately show ?thesis
    using load_topic_correct [of "single_node_raft (NodeId [1])" example_server
        "topic_config_from_code (TopicCode [120])" "[]"] by auto
qed

theorem unloaded_topic_stays_registered_witness:
  "\<exists>n'. propose (single_node_raft (NodeId [1])) (UnloadTopic example_topic) example_server = (Inr (), n') \<and>
    hm_get (topics (sn_data n')) example_topic = None"
  using unloaded_topic_stays_registered [of "single_node_raft (NodeId [1])" example_server example_topic] by auto

theorem endpoint_ownership_witness:
  "\<exists>n'. node_step (single_node_raft (NodeId [1])) (example_server\<lparr>edge_routing := []\<rparr>) (EvClosed (NodeId [7]) 0) n' \<and>
    (\<forall>ep p code. hm_get (edge_routing n') ep \<noteq> Some (p, code))"
proof -
  let ?r = "single_node_raft (NodeId [1])" and ?n = "example_server\<lparr>edge_routing := []\<rparr>"
  have run: "node_run ?r ?n [] ?n" by (rule node_run.start)
  have step: "node_step ?r ?n (EvClosed (NodeId [7]) 0) (connection_closed (NodeId [7]) 0 ?n)" by (rule node_step.closed)
  show ?thesis using endpoint_ownership [OF run _ _ step] step by (auto intro!: exI)
qed

end
