(* ===== verification/MQ_Delivery.thy ===== *)
theory MQ_Delivery
  imports MQ_Gateway
begin

text \<open>
  The way of one message through the server, from the request of the sending edge node to the
  response it gets: the proposal is applied and the message held, the task dispatches it to the
  connection of the receiving edge node and proposes what became of it, the receiving edge node
  acknowledges it if the sender wants to know more, the state machine releases the message, and the
  next task answers the sender.  Each stretch is a lemma of its own; the
  theorem at the end puts them together.
\<close>

section \<open>Accepting a message for one endpoint\<close>

lemma ep_order_single: "platform_ok pl \<Longrightarrow> ep_order pl {ep} = [ep]"
proof -
  assume "platform_ok pl"
  then have "set (ep_order pl {ep}) = {ep}" "distinct (ep_order pl {ep})" by (simp_all add: platform_ok_def)
  then show "ep_order pl {ep} = [ep]"
    by (metis (no_types, lifting) card.empty card_insert_disjoint distinct_card empty_iff finite.emptyI insertI1
        length_0_conv length_Suc_conv list.set_intros(1) singletonD)
qed

text \<open>The message as it is held for one endpoint.\<close>

definition held_at :: "endpoint_addr \<Rightarrow> message_status_kind \<Rightarrow> message \<Rightarrow> hold_message" where
  "held_at ep st m = \<lparr>held_message = m, held_wait_ack = \<lparr>expect = ack_kind (header m), wa_status = [(ep, st)]\<rparr>\<rparr>"

lemma held_at_message [simp]: "held_message (held_at ep st m) = m"
  by (simp add: held_at_def)

lemma hold_for_single:
  assumes inv: "topic_inv d" and pl: "ctx_ok c" and room: "has_room d"
    and kind: "target_kind (header m) = Online \<or> target_kind (header m) = Push"
    and one: "interested d (subjects (header m)) = {ep}"
  shows "hold_new_message m d c =
    enqueue_message \<lparr>held_message = m, held_wait_ack = \<lparr>expect = ack_kind (header m), wa_status = [(ep, Unsent)]\<rparr>\<rparr> d c"
proof -
  let ?pl = "node_platform (ctx_node c)"
  have eps: "collect_addr_by_subjects d (subjects (header m)) = {ep}"
    using collect_addr_interested [OF inv] one by simp
  have "hash_ring ?pl {ep} = [(hash64_ep ?pl ep, ep)]" by (simp add: hash_ring_def ep_order_single [OF pl])
  then have "hold_new_message m d c = hold_for {ep} m d c"
    using kind eps by (auto simp: hold_new_message_def)
  then show ?thesis
    by (simp add: hold_for_def wait_ack_new_def ep_order_single [OF pl] put_in_queue_room [OF room])
qed

lemma enqueue_dispatches:
  assumes q: "queue_inv (td_queue d)" "resolved (td_queue d) = {}" "\<not> blocking (td_queue d)"
    and ctx: "ctx_topic_code c = Some code" "get_topic (ctx_node c) code = Some h"
    and kind: "target_kind (header m) = Online \<or> target_kind (header m) = Push"
    and reach: "ep \<in> reachable_eps d (node_config_id (ctx_node c))"
    and fresh: "entry_fresh (msg_id m) (fst (ctx_now c)) (td_queue d)"
  obtains q' c' where
    "enqueue_message \<lparr>held_message = m, held_wait_ack = \<lparr>expect = k, wa_status = [(ep, Unsent)]\<rparr>\<rparr> d c
      = Inr (d\<lparr>td_queue := q'\<rparr>, c')"
    "ctx_frame c c'" "DispatchTask h code m ep \<in> set (spawned (ctx_node c'))" "\<not> blocking q'"
    "hm_get (hold_messages q') (msg_id m) =
      Some \<lparr>held_message = m, held_wait_ack = \<lparr>expect = k, wa_status = [(ep, Sending)]\<rparr>\<rparr>"
proof -
  let ?hm = "\<lambda>st. \<lparr>held_message = m, held_wait_ack = \<lparr>expect = k, wa_status = [(ep, st)]\<rparr>\<rparr>"
  let ?u = "state_update_new_empty (msg_id m)" and ?r = "reachable_eps d (node_config_id (ctx_node c))"
  have fr: "entry_fresh (held_id (?hm Unsent)) (fst (ctx_now c)) (td_queue d)" "hm_wf (held_status (?hm Unsent))"
    using fresh by simp_all
  obtain q1 where push: "queue_push (?hm Unsent) (td_queue d) c = (q1, snd (ctx_now c))" "queue_inv q1"
    "resolved q1 = resolved (td_queue d)" "blocking q1 = blocking (td_queue d)"
    "hm_get (hold_messages q1) = (hm_get (hold_messages (td_queue d)))(held_id (?hm Unsent) \<mapsto> ?hm Unsent)"
    by (rule queue_push_effect [OF q(1) fr])
  have q1: "resolved q1 = {}" "\<not> blocking q1" "hm_get (hold_messages q1) (msg_id m) = Some (?hm Unsent)"
    using push(3,4) q(2,3) by (simp_all add: push(5))
  define c1 where "c1 = push_durable_command (UpdateStatus ?u) (push_durable_command (Create m) (snd (ctx_now c)))"
  have f1: "ctx_frame c c1"
    unfolding c1_def by (rule ctx_frame_trans [OF ctx_frame_trans [OF ctx_frame_now ctx_frame_push] ctx_frame_push])
  have send: "send_unsent ?r (?hm Unsent) c1 = (?hm Sending, dispatch_message m ep c1)"
    using reach by (simp add: send_unsent_def is_unsent_def)
  have res: "hold_is_resolved (?hm Sending) (dispatch_message m ep c1) = (False, dispatch_message m ep c1)"
    using kind by (auto simp: hold_is_resolved_def)
  let ?q2 = "q1\<lparr>hold_messages := hm_insert (msg_id m) (?hm Sending) (hold_messages q1)\<rparr>"
  have poll: "poll_message (msg_id m) ?r q1 c1 = (Some poll.Pending, ?q2, dispatch_message m ep c1)"
    using poll_message_held [OF push(2) _ q1(3) _ send res] q1(1,2) by simp
  have node: "node_config_id (ctx_node (push_durable_command (Create m) (snd (ctx_now c)))) = node_config_id (ctx_node c)"
    "reachable_eps (d\<lparr>td_queue := q1\<rparr>) = reachable_eps d"
    by (simp_all add: push_durable_command_def push_durable_commands_def ctx_now_def utc_now_def reachable_eps_def fun_eq_iff)
  have en: "enqueue_message (?hm Unsent) d c = Inr (d\<lparr>td_queue := ?q2\<rparr>, dispatch_message m ep c1)"
    using poll by (simp add: enqueue_message_def push(1) update_and_flush_def node c1_def state_update_new_empty_def Let_def)
  have "DispatchTask h code m ep \<in> set (spawned (ctx_node (dispatch_message m ep c1)))"
    using ctx f1 by (simp add: dispatch_message_def spawn_task_def ctx_frame_def get_topic_def)
  moreover have "ctx_frame c (dispatch_message m ep c1)" using ctx_frame_trans [OF f1 ctx_frame_dispatch] .
  ultimately show thesis using q1(2) by (intro that [OF en]) simp_all
qed

section \<open>Acknowledging and releasing it\<close>

text \<open>The steps of a status from the dispatch to what the sender expects.\<close>

definition ack_follows :: "message_ack_expect_kind \<Rightarrow> message_status_kind \<Rightarrow> message_status_kind \<Rightarrow> bool" where
  "ack_follows k st st' \<longleftrightarrow> st = Sending \<and> st' = Sent \<or> st = Sent \<and> k \<noteq> AckSent \<and> st' = status_from_ack k"

lemma held_at_acknowledged:
  assumes "ack_follows (ack_kind (header m)) st st'"
  shows "acknowledged (state_update_new i [(ep, st')]) (held_at ep st m) = held_at ep st' m" "sent_out R (held_at ep st' m) = held_at ep st' m"
    "hold_resolve (held_at ep st' m) = Inr \<lparr>ok_status = [(ep, st')]\<rparr>"
    "target_kind (header m) \<noteq> Durable \<Longrightarrow> finished_at now (held_at ep st' m) \<longleftrightarrow> status_is_resolved st' (ack_kind (header m))"
  using assms
  by (cases "ack_kind (header m)"; auto simp: ack_follows_def status_is_resolved_def state_update_new_def held_at_def sent_out_def is_unsent_def update_ack_held_def update_ack_match_def
      hold_resolve_def is_failed_def finished_at_def statuses_resolved_def)+

lemma status_applied:
  assumes sm: "sm_ok nd n" and d: "hm_get (topics nd) code = Some d" and nb: "\<not> blocking (td_queue d)"
    and reg: "get_topic n code = Some h"
    and held: "hm_get (hold_messages (td_queue d)) (msg_id m) = Some (held_at ep st m)"
    and kind: "target_kind (header m) \<noteq> Durable" and st: "ack_follows (ack_kind (header m)) st st'"
  obtains nd' n' d' where
    "apply_proposal (SetState \<lparr>ss_topic = code, ss_update = state_update_new (msg_id m) [(ep, st')]\<rparr>) nd n = Inr (nd', n')"
    "sm_ok nd' n'" "hm_get (topics nd') code = Some d'" "\<not> blocking (td_queue d')" "get_topic n' code = Some h"
    "topic_handles n' = topic_handles n" "node_config_id n' = node_config_id n"
    "if status_is_resolved st' (ack_kind (header m))
     then hm_get (hold_messages (td_queue d')) (msg_id m) = None \<and>
       ResolveAckTask h (msg_id m) (Inr \<lparr>ok_status = [(ep, st')]\<rparr>) \<in> set (spawned n')
     else hm_get (hold_messages (td_queue d')) (msg_id m) = Some (held_at ep st' m)"
proof -
  let ?c = "topic_context code n" and ?u = "state_update_new (msg_id m) [(ep, st')]"
  let ?fin = "status_is_resolved st' (ack_kind (header m))" and ?hm = "held_at ep st' m"
  let ?p = "SetState \<lparr>ss_topic = code, ss_update = ?u\<rparr>"
  note a = held_at_acknowledged [OF st]
  have inv: "topic_inv d" "ctx_ok ?c" using sm_okD [OF sm d] by simp_all
  have i: "upd_message_id ?u = msg_id m" by (simp add: state_update_new_def)
  have "hm_get (hold_messages (td_queue d)) (upd_message_id ?u) = Some (held_at ep st m)" using held i by simp
  from update_effect [OF inv nb this, unfolded a(1,2) a(4) [OF kind] i] obtain q' c' where
    u: "update_and_flush ?u d ?c = Inr (d\<lparr>td_queue := q'\<rparr>, if ?fin then settle (msg_id m) ?hm c' else c')"
      "ctx_quiet ?c c'" "\<not> blocking q'"
      "hm_get (hold_messages q') = (hm_get (hold_messages (td_queue d)))(msg_id m := if ?fin then None else Some ?hm)"
    by blast
  let ?c3 = "if ?fin then settle (msg_id m) ?hm c' else c'"
  have q: "ctx_frame ?c c'" using u(2) by (simp add: ctx_quiet_def)
  have fr: "ctx_frame ?c ?c3" using q ctx_frame_trans [OF q settle_effect(1)] by simp
  have code: "ctx_topic_code ?c3 = Some code" using fr by (simp only: ctx_frame_def topic_context_simps)
  obtain c4 where c4: "commit_durable_commands ?c3 = Inr c4" "ctx_frame ?c3 c4"
    using commit_effect [OF code] by blast
  then have sub: "set (spawned (ctx_node ?c3)) \<subseteq> set (spawned (ctx_node c4))"
    using commit_keeps_tasks [OF code] by auto
  let ?nd' = "nd\<lparr>topics := hm_insert code (d\<lparr>td_queue := q'\<rparr>) (topics nd)\<rparr>"
  have ap: "apply_proposal ?p nd n = Inr (?nd', ctx_node c4)"
    using u(1) c4(1) d by (simp add: apply_set_state_def commit_and_drop_def on_topic_def)
  have "proposal_ok ?p nd n" by simp
  then have sm': "sm_ok ?nd' (ctx_node c4)" using apply_proposal_returns [OF sm] ap by fastforce
  have same: "get_topic (ctx_node c4) code = Some h" "topic_handles (ctx_node c4) = topic_handles n"
    "node_config_id (ctx_node c4) = node_config_id n"
    using ctx_frame_trans [OF fr c4(2)] reg by (simp_all add: ctx_frame_def get_topic_def)
  have "ResolveAckTask h (msg_id m) (Inr \<lparr>ok_status = [(ep, st')]\<rparr>) \<in> set (spawned (ctx_node ?c3))" if ?fin
    using that q reg
    by (simp add: settle_def push_durable_command_def push_durable_commands_def resolve_ack_def spawn_task_def a(3)
        ctx_frame_def get_topic_def)
  with sub u(3,4) show thesis by (intro that [OF ap sm' _ _ same]) auto
qed

section \<open>From the request to the response\<close>

lemma dispatched:
  assumes raft: "commits_alone r (this_id n)"
    and ap: "apply_proposal (SetState \<lparr>ss_topic = code, ss_update = state_update_new (msg_id m) [(ep, Sent)]\<rparr>) (sn_data n) (sn_inner n)
      = Inr rep"
    and conn: "get_local_ep n h ep = None" "get_edge_routing n ep = Some peer" "get_edge_connection n peer = Some c"
      "ec_receiving c" "hm_get (ec_codecs c) (ec_preferred c) \<noteq> None"
      "registry_faithful {PayloadPush (PushMessage [ep] m)} (ec_codecs c)"
  obtains cs ids where "run_task r (DispatchTask h code m ep) n = Inr (set_replica rep (n\<lparr>edge_connections := cs, sn_ids := ids\<rparr>))"
    "outbound_payloads (set_replica rep (n\<lparr>edge_connections := cs, sn_ids := ids\<rparr>)) peer =
      outbound_payloads n peer @ [Inr (PayloadPush (PushMessage [ep] m))]"
proof -
  obtain cs ids where disp: "topic_dispatch_message h m ep n = Inr (Some Sent, n\<lparr>edge_connections := cs, sn_ids := ids\<rparr>)"
    "outbound_payloads (n\<lparr>edge_connections := cs, sn_ids := ids\<rparr>) peer =
      outbound_payloads n peer @ [Inr (PayloadPush (PushMessage [ep] m))]"
    by (rule edge_dispatch [OF conn])
  let ?n1 = "n\<lparr>edge_connections := cs, sn_ids := ids\<rparr>"
  have "propose r (SetState \<lparr>ss_topic = code, ss_update = state_update_new (msg_id m) [(ep, Sent)]\<rparr>) ?n1 = (Inr (), set_replica rep ?n1)"
    by (rule commits_aloneD [OF raft]) (use ap in simp_all)
  then have "run_task r (DispatchTask h code m ep) n = Inr (set_replica rep ?n1)"
    using disp(1) by (simp add: dispatch_task_def)
  then show thesis using that disp(2) by (simp add: outbound_payloads_def)
qed

text \<open>The edge node at which the endpoint lives reports a status.\<close>

lemma status_reported:
  assumes raft: "commits_alone r (this_id n)" and auth: "sn_edge_auth n = None"
    and reg: "get_topic (sn_inner n) code = Some h" and owner: "get_edge_routing n ep = Some peer"
    and ap: "apply_proposal (SetState \<lparr>ss_topic = code, ss_update = state_update_new (msg_id m) [(ep, st)]\<rparr>) (sn_data n) (sn_inner n)
      = Inr rep"
  shows "handle_edge_request r peer (ReqSetState \<lparr>ss_topic = code, ss_update = state_update_new (msg_id m) [(ep, st)]\<rparr>) n
    = Inr (Reply (Inr RespSetState), set_replica rep n)"
proof -
  have "check_all_eps [ep] peer n = Inr ()"
    using owner by (auto simp: check_ep_auth_def get_edge_routing_def split: option.splits)
  then have "check_all_eps (hm_keys (upd_status (state_update_new (msg_id m) [(ep, st)]))) peer n = Inr ()"
    by (simp add: state_update_new_def)
  moreover have "propose_for_edge r ''set state'' (SetState \<lparr>ss_topic = code, ss_update = state_update_new (msg_id m) [(ep, st)]\<rparr>) n
      = (Inr (), set_replica rep n)"
    using commits_aloneD [OF raft refl ap] by (simp add: propose_for_edge_def)
  ultimately show ?thesis using auth reg by (simp add: handle_edge_request_def)
qed

text \<open>The task of the answer.\<close>

lemma sender_answered:
  assumes "hm_get (ack_waiting_pool (topic_at n h)) i = Some tx"
  shows "finish_request (resolve_ack_task h i (Inr ok) n) (AwaitAck tx) = Some (Inr (RespSendMessage (EdgeOk ok)))"
  using resolve_ack_task_poll(1) [OF assms] by (simp add: finish_request_def)

lemma delegate_applied:
  assumes sm: "sm_ok nd n" and d: "hm_get (topics nd) code = Some d" and nb: "\<not> blocking (td_queue d)"
    and room: "has_room d" and reg: "get_topic n code = Some h" and kind: "target_kind (header m) = Online \<or> target_kind (header m) = Push"
    and one: "interested d (subjects (header m)) = {ep}" and reach: "ep \<in> reachable_eps d (node_config_id n)"
    and fresh: "entry_fresh (msg_id m) (clock (node_platform n) (clock_reads n)) (td_queue d)"
  obtains nd' n' d' where
    "apply_proposal (DelegateMessage \<lparr>dg_topic = code, dg_message = m\<rparr>) nd n = Inr (nd', n')"
    "sm_ok nd' n'" "hm_get (topics nd') code = Some d'" "\<not> blocking (td_queue d')"
    "hm_get (hold_messages (td_queue d')) (msg_id m) = Some (held_at ep Sending m)"
    "DispatchTask h code m ep \<in> set (spawned n')" "topic_handles n' = topic_handles n" "node_topics n' = node_topics n"
    "node_config_id n' = node_config_id n"
proof -
  let ?c = "topic_context code n" and ?p = "DelegateMessage \<lparr>dg_topic = code, dg_message = m\<rparr>"
  have inv: "topic_inv d" "ctx_ok ?c" using sm_okD [OF sm d] by simp_all
  then have q: "queue_inv (td_queue d)" "resolved (td_queue d) = {}" by (simp_all add: topic_inv_def)
  have f: "entry_fresh (msg_id m) (fst (ctx_now ?c)) (td_queue d)" using fresh by (simp add: ctx_now_def utc_now_def)
  have ctx: "ctx_topic_code ?c = Some code" "get_topic (ctx_node ?c) code = Some h"
    "ep \<in> reachable_eps d (node_config_id (ctx_node ?c))" using reg reach by simp_all
  obtain q' c' where e:
    "enqueue_message \<lparr>held_message = m, held_wait_ack = \<lparr>expect = ack_kind (header m), wa_status = [(ep, Unsent)]\<rparr>\<rparr> d ?c
      = Inr (d\<lparr>td_queue := q'\<rparr>, c')"
    "ctx_frame ?c c'" "DispatchTask h code m ep \<in> set (spawned (ctx_node c'))" "\<not> blocking q'"
    "hm_get (hold_messages q') (msg_id m) =
      Some \<lparr>held_message = m, held_wait_ack = \<lparr>expect = ack_kind (header m), wa_status = [(ep, Sending)]\<rparr>\<rparr>"
    by (rule enqueue_dispatches [OF q nb ctx(1,2) kind ctx(3) f])
  have hold: "hold_new_message m d ?c = Inr (d\<lparr>td_queue := q'\<rparr>, c')"
    using hold_for_single [OF inv room kind one] e(1) by simp
  have fr: "ctx_topic_code c' = Some code" "topic_handles (ctx_node c') = topic_handles n"
    using e(2) by (simp_all add: ctx_frame_def)
  obtain c2 where c2: "commit_durable_commands c' = Inr c2" "topic_handles (ctx_node c2) = topic_handles n"
    "set (spawned (ctx_node c')) \<subseteq> set (spawned (ctx_node c2))"
    using commit_keeps_tasks [OF fr(1)] fr(2) by auto
  have c2': "node_topics (ctx_node c2) = node_topics n" "node_config_id (ctx_node c2) = node_config_id n"
    using commit_effect [OF fr(1)] c2(1) e(2) by (auto simp: ctx_frame_def)
  let ?nd' = "nd\<lparr>topics := hm_insert code (d\<lparr>td_queue := q'\<rparr>) (topics nd)\<rparr>"
  have ap: "apply_proposal ?p nd n = Inr (?nd', ctx_node c2)"
    using hold c2(1) d by (simp add: apply_delegate_message_def commit_and_drop_def on_topic_def)
  have "proposal_ok ?p nd n" using d f kind by auto
  then have sm': "sm_ok ?nd' (ctx_node c2)" using apply_proposal_returns [OF sm] ap by fastforce
  show thesis by (rule that [OF ap sm']) (use c2 c2' e(3,4,5) in \<open>auto simp: held_at_def\<close>)
qed

text \<open>From the request to the dispatch: what the server is like once the message is on its way.\<close>

lemma message_dispatched:
  fixes em n
  defines "code \<equiv> emh_topic (em_header em)" and "m \<equiv> fst (into_message (next_msg_id n) em)"
  assumes raft: "commits_alone r (this_id n)" and sm: "sm_ok (sn_data n) (sn_inner n)"
    and reg: "registered n code h" and auth: "sn_edge_auth n = None"
    and kind: "target_kind (header m) = Online \<or> target_kind (header m) = Push"
    and d: "hm_get (topics (sn_data n)) code = Some d" "\<not> blocking (td_queue d)" "has_room d"
    and one: "interested d (subjects (header m)) = {ep}" "ep \<in> reachable_eps d (this_id n)"
    and fresh: "entry_fresh (msg_id m) (clock (node_platform (sn_inner n)) (clock_reads (sn_inner n))) (td_queue d)"
      "hm_get (ack_waiting_pool (topic_at n h)) (msg_id m) = None"
    and conn: "get_local_ep n h ep = None" "get_edge_routing n ep = Some peer" "get_edge_connection n peer = Some c"
      "ec_receiving c" "hm_get (ec_codecs c) (ec_preferred c) \<noteq> None"
      "registry_faithful {PayloadPush (PushMessage [ep] m)} (ec_codecs c)"
  obtains tx n1 n2 d2 where
    "handle_edge_request r from (ReqSendMessage em) n = Inr (AwaitAck tx, n1)"
    "DispatchTask h code m ep \<in> set (spawned (sn_inner n1))" "run_task r (DispatchTask h code m ep) n1 = Inr n2"
    "outbound_payloads n2 peer = outbound_payloads n peer @ [Inr (PayloadPush (PushMessage [ep] m))]"
    "sm_ok (sn_data n2) (sn_inner n2)" "hm_get (topics (sn_data n2)) code = Some d2" "\<not> blocking (td_queue d2)"
    "get_topic (sn_inner n2) code = Some h" "this_id n2 = this_id n" "sn_edge_auth n2 = None"
    "get_edge_routing n2 ep = Some peer" "hm_get (ack_waiting_pool (topic_at n2 h)) (msg_id m) = Some tx"
    "finish_request n2 (AwaitAck tx) = None"
    "if status_is_resolved Sent (ack_kind (header m))
     then hm_get (hold_messages (td_queue d2)) (msg_id m) = None \<and>
       ResolveAckTask h (msg_id m) (Inr \<lparr>ok_status = [(ep, Sent)]\<rparr>) \<in> set (spawned (sn_inner n2))
     else hm_get (hold_messages (td_queue d2)) (msg_id m) = Some (held_at ep Sent m)"
proof -
  obtain tx n1 where w: "topic_wait_ack h (next_msg_id n) (n\<lparr>sn_ids := snd (draw_message (sn_ids n))\<rparr>) = (tx, n1)"
    by (rule prod.exhaust)
  note w1 = topic_wait_ack_registers [OF w] and w2 = topic_wait_ack_keeps [OF w]
  have i: "next_msg_id n = msg_id m" by (simp add: m_def into_message_def message_new_def into_message_header_def)
  have reg1: "get_topic (sn_inner n1) code = Some h" using reg w1(4) by (simp add: registered_def get_topic_def)
  have sm1: "sm_ok (sn_data n) (sn_inner n1)" using w2(5) sm by simp
  have one1: "ep \<in> reachable_eps d (node_config_id (sn_inner n1))" using one(2) w1(5) by simp
  have fr1: "entry_fresh (msg_id m) (clock (node_platform (sn_inner n1)) (clock_reads (sn_inner n1))) (td_queue d)"
    using fresh(1) w1(6) w2(4) by simp
  obtain nd1 ni1 d1 where ap1:
    "apply_proposal (DelegateMessage \<lparr>dg_topic = code, dg_message = m\<rparr>) (sn_data n) (sn_inner n1) = Inr (nd1, ni1)"
    "sm_ok nd1 ni1" "hm_get (topics nd1) code = Some d1" "\<not> blocking (td_queue d1)"
    "hm_get (hold_messages (td_queue d1)) (msg_id m) = Some (held_at ep Sending m)"
    "DispatchTask h code m ep \<in> set (spawned ni1)" "topic_handles ni1 = topic_handles (sn_inner n1)"
    "node_topics ni1 = node_topics (sn_inner n1)" "node_config_id ni1 = node_config_id (sn_inner n1)"
    by (rule delegate_applied [OF sm1 d reg1 kind one(1) one1 fr1])
  let ?n1 = "set_replica (nd1, ni1) n1"
  have nd: "target_kind (header m) \<noteq> Durable" and reg2: "get_topic ni1 code = Some h"
    using kind reg1 ap1(8) by (auto simp: get_topic_def)
  have req: "handle_edge_request r from (ReqSendMessage em) n = Inr (AwaitAck tx, ?n1)"
    using edge_send_applied [OF raft _ auth w] reg ap1(1) w1(3) unfolding code_def m_def by simp
  have "ack_follows (ack_kind (header m)) Sending Sent" by (simp add: ack_follows_def)
  from status_applied [OF ap1(2-4) reg2 ap1(5) nd this] obtain nd2 ni2 d2 where ap2:
    "apply_proposal (SetState \<lparr>ss_topic = code, ss_update = state_update_new (msg_id m) [(ep, Sent)]\<rparr>) nd1 ni1 = Inr (nd2, ni2)"
    "sm_ok nd2 ni2" "hm_get (topics nd2) code = Some d2" "\<not> blocking (td_queue d2)" "get_topic ni2 code = Some h"
    "topic_handles ni2 = topic_handles ni1" "node_config_id ni2 = node_config_id ni1"
    "if status_is_resolved Sent (ack_kind (header m))
     then hm_get (hold_messages (td_queue d2)) (msg_id m) = None \<and>
       ResolveAckTask h (msg_id m) (Inr \<lparr>ok_status = [(ep, Sent)]\<rparr>) \<in> set (spawned ni2)
     else hm_get (hold_messages (td_queue d2)) (msg_id m) = Some (held_at ep Sent m)" by blast
  have conn1: "get_local_ep ?n1 h ep = None" "get_edge_routing ?n1 ep = Some peer" "get_edge_connection ?n1 peer = Some c"
    using conn(1-3) w2(1,2) w2(3) [of ep] ap1(7)
    by (simp_all add: get_local_ep_def topic_at_def get_edge_routing_def get_edge_connection_def set_replica_def)
  have raft1: "commits_alone r (this_id ?n1)" using raft ap1(9) w1(5) by (simp add: set_replica_def)
  have ap2': "apply_proposal (SetState \<lparr>ss_topic = code, ss_update = state_update_new (msg_id m) [(ep, Sent)]\<rparr>)
      (sn_data ?n1) (sn_inner ?n1) = Inr (nd2, ni2)" using ap2(1) by (simp add: set_replica_def)
  obtain cs ids where run: "run_task r (DispatchTask h code m ep) ?n1 = Inr (set_replica (nd2, ni2) (?n1\<lparr>edge_connections := cs, sn_ids := ids\<rparr>))"
    "outbound_payloads (set_replica (nd2, ni2) (?n1\<lparr>edge_connections := cs, sn_ids := ids\<rparr>)) peer =
      outbound_payloads ?n1 peer @ [Inr (PayloadPush (PushMessage [ep] m))]"
    by (rule dispatched [OF raft1 ap2' conn1 conn(4-6)])
  have auth1: "sn_edge_auth n1 = None" using auth w by (auto simp: topic_wait_ack_def set_topic_at_def Let_def)
  let ?n2 = "set_replica (nd2, ni2) (?n1\<lparr>edge_connections := cs, sn_ids := ids\<rparr>)"
  have out: "outbound_payloads ?n1 peer = outbound_payloads n peer"
    using w2(2) by (simp add: outbound_payloads_def set_replica_def)
  have task: "DispatchTask h code m ep \<in> set (spawned (sn_inner ?n1))" using ap1(6) by (simp add: set_replica_def)
  have "hm_get (ack_waiting_pool (topic_at ?n2 h)) (msg_id m) = Some tx"
    using w1(1) ap1(7) ap2(6) i by (simp add: topic_at_def set_replica_def)
  moreover have "finish_request ?n2 (AwaitAck tx) = None"
    using topic_wait_ack_pending [OF w] fresh(2) i
    by (simp add: finish_request_def wait_ack_poll_def set_replica_def topic_at_def)
  ultimately show thesis
    using that [OF req task run(1)] run(2) out ap2(2-5,7,8) ap1(9) w1(5) auth1 conn1(2)
    by (simp add: set_replica_def get_edge_routing_def)
qed

text \<open>
  (C3) A message for one endpoint is delivered, and its sender learns of it.  An edge node sends an
  \<open>Online\<close> or \<open>Push\<close> message that exactly one endpoint is interested in, which lives at an edge node that
  is connected to this server; the topic does not block and has room, and there is no
  authentication.  The request is accepted and its handle waits; the message is held and a task
  spawned; the task puts the message, addressed to that endpoint, at the end of the channel to that
  edge node and proposes the status \<open>Sent\<close>.  If the sender expects no more than \<open>Sent\<close>, this releases
  the message.  If it expects \<open>Received\<close> or \<open>Processed\<close>, the message is still held and the sender still
  waits, until the edge node of the endpoint reports that status, which is accepted and releases the
  message.  The task which the release spawns answers the sender with the endpoint and the status it
  expected.
\<close>

theorem message_delivered:
  fixes em n
  defines "code \<equiv> emh_topic (em_header em)" and "m \<equiv> fst (into_message (next_msg_id n) em)"
  defines "expected \<equiv> status_from_ack (ack_kind (header m))"
  assumes raft: "commits_alone r (this_id n)" and sm: "sm_ok (sn_data n) (sn_inner n)"
    and reg: "registered n code h" and auth: "sn_edge_auth n = None"
    and kind: "target_kind (header m) = Online \<or> target_kind (header m) = Push"
    and d: "hm_get (topics (sn_data n)) code = Some d" "\<not> blocking (td_queue d)" "has_room d"
    and one: "interested d (subjects (header m)) = {ep}" "ep \<in> reachable_eps d (this_id n)"
    and fresh: "entry_fresh (msg_id m) (clock (node_platform (sn_inner n)) (clock_reads (sn_inner n))) (td_queue d)"
      "hm_get (ack_waiting_pool (topic_at n h)) (msg_id m) = None"
    and conn: "get_local_ep n h ep = None" "get_edge_routing n ep = Some peer" "get_edge_connection n peer = Some c"
      "ec_receiving c" "hm_get (ec_codecs c) (ec_preferred c) \<noteq> None"
      "registry_faithful {PayloadPush (PushMessage [ep] m)} (ec_codecs c)"
  shows "\<exists>handle n1 n2 n3 n4 dispatch answer d2 d3.
    handle_edge_request r from (ReqSendMessage em) n = Inr (AwaitAck handle, n1) \<and>
    dispatch \<in> set (spawned (sn_inner n1)) \<and> run_task r dispatch n1 = Inr n2 \<and>
    outbound_payloads n2 peer = outbound_payloads n peer @ [Inr (PayloadPush (PushMessage [ep] m))] \<and>
    (if ack_kind (header m) = AckSent then n3 = n2
     else hm_get (topics (sn_data n2)) code = Some d2 \<and>
       hm_get (hold_messages (td_queue d2)) (msg_id m) = Some (held_at ep Sent m) \<and> finish_request n2 (AwaitAck handle) = None \<and>
       handle_edge_request r peer
         (ReqSetState \<lparr>ss_topic = code, ss_update = state_update_new (msg_id m) [(ep, expected)]\<rparr>) n2
         = Inr (Reply (Inr RespSetState), n3)) \<and>
    hm_get (topics (sn_data n3)) code = Some d3 \<and> hm_get (hold_messages (td_queue d3)) (msg_id m) = None \<and>
    answer \<in> set (spawned (sn_inner n3)) \<and> run_task r answer n3 = Inr n4 \<and>
    finish_request n4 (AwaitAck handle) = Some (Inr (RespSendMessage (EdgeOk \<lparr>ok_status = [(ep, expected)]\<rparr>)))"
proof -
  have nd: "target_kind (header m) \<noteq> Durable" using kind by auto
  obtain tx n1 n2 d2 where n2:
    "handle_edge_request r from (ReqSendMessage em) n = Inr (AwaitAck tx, n1)"
    "DispatchTask h code m ep \<in> set (spawned (sn_inner n1))" "run_task r (DispatchTask h code m ep) n1 = Inr n2"
    "outbound_payloads n2 peer = outbound_payloads n peer @ [Inr (PayloadPush (PushMessage [ep] m))]"
    "sm_ok (sn_data n2) (sn_inner n2)" "hm_get (topics (sn_data n2)) code = Some d2" "\<not> blocking (td_queue d2)"
    "get_topic (sn_inner n2) code = Some h" "this_id n2 = this_id n" "sn_edge_auth n2 = None"
    "get_edge_routing n2 ep = Some peer" "hm_get (ack_waiting_pool (topic_at n2 h)) (msg_id m) = Some tx"
    "finish_request n2 (AwaitAck tx) = None"
    "if status_is_resolved Sent (ack_kind (header m))
     then hm_get (hold_messages (td_queue d2)) (msg_id m) = None \<and>
       ResolveAckTask h (msg_id m) (Inr \<lparr>ok_status = [(ep, Sent)]\<rparr>) \<in> set (spawned (sn_inner n2))
     else hm_get (hold_messages (td_queue d2)) (msg_id m) = Some (held_at ep Sent m)"
    unfolding code_def m_def
    by (rule message_dispatched [OF raft sm reg [unfolded code_def] auth kind [unfolded m_def] d(1) [unfolded code_def] d(2,3)
        one(1) [unfolded m_def] one(2) fresh [unfolded m_def] conn [unfolded m_def]])
  let ?answer = "\<lambda>st. ResolveAckTask h (msg_id m) (Inr \<lparr>ok_status = [(ep, st)]\<rparr>)"
  show ?thesis
  proof (cases "ack_kind (header m) = AckSent")
    case True
    then have "expected = Sent" "status_is_resolved Sent (ack_kind (header m))" by (simp_all add: expected_def status_is_resolved_def)
    with True n2 sender_answered [OF n2(12)] show ?thesis
      by (intro exI [of _ tx] exI [of _ n1] exI [of _ n2] exI [of _ "DispatchTask h code m ep"] exI [of _ "?answer Sent"]
          exI [of _ d2] exI [of _ "resolve_ack_task h (msg_id m) (Inr \<lparr>ok_status = [(ep, Sent)]\<rparr>) n2"]) simp
  next
    case False
    then have ack: "ack_follows (ack_kind (header m)) Sent expected" "\<not> status_is_resolved Sent (ack_kind (header m))"
      "status_is_resolved expected (ack_kind (header m))"
      by (cases "ack_kind (header m)"; simp add: ack_follows_def expected_def status_is_resolved_def is_failed_def)+
    then have held: "hm_get (hold_messages (td_queue d2)) (msg_id m) = Some (held_at ep Sent m)" using n2(14) by simp
    obtain nd3 ni3 d3 where ap3:
      "apply_proposal (SetState \<lparr>ss_topic = code, ss_update = state_update_new (msg_id m) [(ep, expected)]\<rparr>)
        (sn_data n2) (sn_inner n2) = Inr (nd3, ni3)"
      "hm_get (topics nd3) code = Some d3" "topic_handles ni3 = topic_handles (sn_inner n2)"
      "hm_get (hold_messages (td_queue d3)) (msg_id m) = None" "?answer expected \<in> set (spawned ni3)"
      using status_applied [OF n2(5-8) held nd ack(1)] if_P [OF ack(3)] by metis
    let ?n3 = "set_replica (nd3, ni3) n2"
    have report: "handle_edge_request r peer
         (ReqSetState \<lparr>ss_topic = code, ss_update = state_update_new (msg_id m) [(ep, expected)]\<rparr>) n2
         = Inr (Reply (Inr RespSetState), ?n3)"
      using status_reported [OF _ n2(10,8,11) ap3(1)] raft n2(9) by simp
    have "hm_get (ack_waiting_pool (topic_at ?n3 h)) (msg_id m) = Some tx"
      using n2(12) ap3(3) by (simp add: topic_at_def set_replica_def)
    from sender_answered [OF this] show ?thesis
      using False n2(1-4,6,13) held report ap3(2,4,5)
      by (intro exI [of _ tx] exI [of _ n1] exI [of _ n2] exI [of _ ?n3] exI [of _ "DispatchTask h code m ep"]
          exI [of _ "?answer expected"] exI [of _ d2] exI [of _ d3]
          exI [of _ "resolve_ack_task h (msg_id m) (Inr \<lparr>ok_status = [(ep, expected)]\<rparr>) ?n3"])
        (simp add: set_replica_def)
  qed
qed

section \<open>Witness\<close>

text \<open>A server with the empty topic, one endpoint that is interested, and the edge node it lives at.\<close>

definition sent_message :: edge_message where
  "sent_message = \<lparr>em_header = \<lparr>emh_ack_kind = AckProcessed, emh_target_kind = Online, emh_durability = None,
      emh_subjects = [Subject [97]], emh_topic = example_topic\<rparr>, em_payload = [1, 2]\<rparr>"

definition push_connection :: edge_connection where
  "push_connection = example_edge_connection\<lparr>ec_codecs := [(JSON, \<lparr>codec_encode = (\<lambda>_. []),
      codec_decode = (\<lambda>_. Inr (PayloadPush (PushMessage [EndpointAddr [1]]
        (fst (into_message (next_msg_id example_server) sent_message)))))\<rparr>)]\<rparr>"

definition delivering_server :: server_node where
  "delivering_server = example_server\<lparr>sn_data := \<lparr>topics = [(example_topic, quiet_topic)]\<rparr>,
    edge_connections := [(NodeId [7], push_connection)]\<rparr>"

lemma delivering_server_simps [simp]:
  "sn_inner delivering_server = example_node" "sn_data delivering_server = \<lparr>topics = [(example_topic, quiet_topic)]\<rparr>"
  "sn_ids delivering_server = sn_ids example_server" "sn_edge_auth delivering_server = None"
  "edge_connections delivering_server = [(NodeId [7], push_connection)]"
  "edge_routing delivering_server = [(EndpointAddr [1], NodeId [7], example_topic)]"
  by (simp_all add: delivering_server_def)

theorem message_delivered_witness:
  "\<exists>handle n1 n2 n3 n4 dispatch answer m.
    handle_edge_request (single_node_raft (NodeId [1])) (NodeId [8]) (ReqSendMessage sent_message) delivering_server
      = Inr (AwaitAck handle, n1) \<and>
    run_task (single_node_raft (NodeId [1])) dispatch n1 = Inr n2 \<and>
    outbound_payloads n2 (NodeId [7]) = [Inr (PayloadPush (PushMessage [EndpointAddr [1]] m))] \<and>
    finish_request n2 (AwaitAck handle) = None \<and>
    handle_edge_request (single_node_raft (NodeId [1])) (NodeId [7]) (ReqSetState \<lparr>ss_topic = example_topic,
      ss_update = state_update_new (msg_id m) [(EndpointAddr [1], Processed)]\<rparr>) n2 = Inr (Reply (Inr RespSetState), n3) \<and>
    run_task (single_node_raft (NodeId [1])) answer n3 = Inr n4 \<and>
    finish_request n4 (AwaitAck handle) = Some (Inr (RespSendMessage (EdgeOk \<lparr>ok_status = [(EndpointAddr [1], Processed)]\<rparr>)))"
proof -
  let ?n = delivering_server and ?m = "fst (into_message (next_msg_id delivering_server) sent_message)"
  have sm: "sm_ok (sn_data ?n) (sn_inner ?n)"
    using quiet_topic_ok example_server_ok by (simp add: sm_ok_def)
  have reg: "registered ?n (emh_topic (em_header sent_message)) 0" by (simp add: registered_def sent_message_def)
  have kind: "target_kind (header ?m) = Online \<or> target_kind (header ?m) = Push" and ack: "ack_kind (header ?m) = AckProcessed"
    and subs: "subjects (header ?m) = [Subject [97]]" and code: "emh_topic (em_header sent_message) = example_topic"
    by (simp_all add: into_message_def into_message_header_def message_new_def sent_message_def)
  have d: "hm_get (topics (sn_data ?n)) (emh_topic (em_header sent_message)) = Some quiet_topic"
    "\<not> blocking (td_queue quiet_topic)" "has_room quiet_topic"
    by (simp_all add: sent_message_def quiet_topic_def queue_new_def has_room_def example_topic_data_def
        queue_len_def new_drop_old_def overflow_config_size_def non_zero_or_max_def)
  have one: "interested quiet_topic (subjects (header ?m)) = {EndpointAddr [1]}"
    "EndpointAddr [1] \<in> reachable_eps quiet_topic (this_id ?n)"
  proof -
    have "map_subscribed (ep_interest_map quiet_topic) = (\<lambda>_. {})(EndpointAddr [1] := {Interest [97]})"
      by (simp add: quiet_topic_def example_topic_data_def map_subscribed_insert)
        (simp add: map_subscribed_def interest_map_new_def fun_eq_iff)
    moreover have "interest_matches (Interest [97]) (Subject [97])" by code_simp
    ultimately show "interested quiet_topic (subjects (header ?m)) = {EndpointAddr [1]}"
      unfolding subs by (auto split: if_splits)
  qed (simp add: quiet_topic_def example_topic_data_def reachable_eps_def)
  have fresh: "entry_fresh (msg_id ?m) (clock (node_platform (sn_inner ?n)) (clock_reads (sn_inner ?n))) (td_queue quiet_topic)"
    "hm_get (ack_waiting_pool (topic_at ?n 0)) (msg_id ?m) = None"
    by (simp_all add: entry_fresh_def quiet_topic_def queue_new_def topic_at_def)
  have conn: "get_local_ep ?n 0 (EndpointAddr [1]) = None" "get_edge_routing ?n (EndpointAddr [1]) = Some (NodeId [7])"
    "get_edge_connection ?n (NodeId [7]) = Some push_connection" "ec_receiving push_connection"
    "hm_get (ec_codecs push_connection) (ec_preferred push_connection) \<noteq> None"
    "registry_faithful {PayloadPush (PushMessage [EndpointAddr [1]] ?m)} (ec_codecs push_connection)"
    "outbound_payloads ?n (NodeId [7]) = []"
    by (simp_all add: get_local_ep_def topic_at_def get_edge_routing_def get_edge_connection_def push_connection_def
        example_edge_connection_def registry_faithful_def codec_faithful_def outbound_payloads_def)
  have raft: "commits_alone (single_node_raft (NodeId [1])) (this_id ?n)" by simp
  show ?thesis
    using message_delivered [OF raft sm reg delivering_server_simps(4) kind d one fresh conn(1-6), of "NodeId [8]"]
    unfolding conn(7) append_Nil ack code by simp blast
qed

end
