(* ===== verification/MQ_Store.thy ===== *)
theory MQ_Store
  imports MQ_Durable
begin

text \<open>
  The durable service (\<open>topic/durable_message.rs\<close>): its errors, the trait \<open>Durable\<close> as a record of
  operations over the state of a provider, \<open>DurableService\<close> in front of it, and the provider the
  repository has, \<open>MemoryDurable\<close> (\<open>tests/test_durable_service.rs\<close>).  The locale \<open>durable_store\<close>
  is what a node relies on; \<open>MemoryDurable\<close> is shown to provide it.
\<close>

section \<open>DurableError\<close>

text \<open>The boxed source of an error shows only in how it prints itself.\<close>

record durable_error =
  de_context :: string
  de_source :: "string option"

definition durable_error_new_local :: "string \<Rightarrow> durable_error" where
  "durable_error_new_local context = \<lparr>de_context = context, de_source = None\<rparr>"

definition durable_error_with_source :: "string \<Rightarrow> string \<Rightarrow> durable_error" where
  "durable_error_with_source context source = \<lparr>de_context = context, de_source = Some source\<rparr>"

definition durable_error_display :: "durable_error \<Rightarrow> string" where
  "durable_error_display e = ''DurableError: '' @ de_context e @
    (case de_source e of Some source \<Rightarrow> ''with source: '' @ source | None \<Rightarrow> [])"

section \<open>Durable and DurableService\<close>

text \<open>
  The trait, over the type \<open>'s\<close> of what a provider keeps behind its shared reference.
\<close>

record 's durable =
  save_op :: "topic_code \<Rightarrow> durable_message \<Rightarrow> 's \<Rightarrow> (durable_error + unit) \<times> 's"
  update_status_op :: "topic_code \<Rightarrow> message_state_update \<Rightarrow> 's \<Rightarrow> (durable_error + unit) \<times> 's"
  retrieve_op :: "topic_code \<Rightarrow> message_id \<Rightarrow> 's \<Rightarrow> durable_error + durable_message"
  batch_retrieve_op :: "topic_code \<Rightarrow> durable_message_query \<Rightarrow> 's \<Rightarrow> durable_error + durable_message list"
  archive_op :: "topic_code \<Rightarrow> message_id \<Rightarrow> 's \<Rightarrow> (durable_error + unit) \<times> 's"
  create_topic_op :: "topic_config \<Rightarrow> 's \<Rightarrow> (durable_error + unit) \<times> 's"
  delete_topic_op :: "topic_code \<Rightarrow> 's \<Rightarrow> (durable_error + unit) \<times> 's"
  topic_code_list_op :: "'s \<Rightarrow> durable_error + topic_code list"
  topic_list_op :: "'s \<Rightarrow> durable_error + topic_config list"

text \<open>
  The object a service keeps of its provider: for every \<open>T: Durable\<close> the sealed trait
  \<open>DurabilityObjectTrait\<close> boxes what the operation of \<open>T\<close> with the same name returns.
\<close>

definition durability_object :: "'s durable \<Rightarrow> 's durable" where
  "durability_object inner =
    \<lparr>save_op = (\<lambda>topic message. save_op inner topic message),
     update_status_op = (\<lambda>topic update. update_status_op inner topic update),
     retrieve_op = (\<lambda>topic message_id. retrieve_op inner topic message_id),
     batch_retrieve_op = (\<lambda>topic query. batch_retrieve_op inner topic query),
     archive_op = (\<lambda>topic message_id. archive_op inner topic message_id),
     create_topic_op = (\<lambda>topic. create_topic_op inner topic), delete_topic_op = (\<lambda>topic. delete_topic_op inner topic),
     topic_code_list_op = topic_code_list_op inner, topic_list_op = topic_list_op inner\<rparr>"

lemma durability_object_id [simp]: "durability_object inner = inner"
  by (simp add: durability_object_def)

text \<open>The name and the identifier of the provider's type are what the compiler makes of it.\<close>

record 's durable_service =
  ds_provider :: string
  ds_provider_type :: u64
  ds_inner :: "'s durable"

definition durable_service_new :: "string \<Rightarrow> u64 \<Rightarrow> 's durable \<Rightarrow> 's durable_service" where
  "durable_service_new type_name type_id inner =
    \<lparr>ds_provider = type_name, ds_provider_type = type_id, ds_inner = durability_object inner\<rparr>"

definition downcast_ref :: "u64 \<Rightarrow> 's durable_service \<Rightarrow> 's durable option" where
  "downcast_ref type_id svc = (if ds_provider_type svc = type_id then Some (ds_inner svc) else None)"

definition service_save where "service_save svc = save_op (ds_inner svc)"
definition service_update_status where "service_update_status svc = update_status_op (ds_inner svc)"
definition service_archive where "service_archive svc = archive_op (ds_inner svc)"
definition service_retrieve where "service_retrieve svc = retrieve_op (ds_inner svc)"
definition service_batch_retrieve where "service_batch_retrieve svc = batch_retrieve_op (ds_inner svc)"
definition service_create_topic where "service_create_topic svc = create_topic_op (ds_inner svc)"
definition service_delete_topic where "service_delete_topic svc = delete_topic_op (ds_inner svc)"
definition service_topic_code_list where "service_topic_code_list svc = topic_code_list_op (ds_inner svc)"
definition service_topic_list where "service_topic_list svc = topic_list_op (ds_inner svc)"

text \<open>
  The calls of the commit task, one after the other; an error is written to the log and the next
  call is made.
\<close>

fun run_call :: "'s durable_service \<Rightarrow> durable_call \<Rightarrow> 's \<Rightarrow> (durable_error + unit) \<times> 's" where
  "run_call svc (CallSave topic m) = service_save svc topic m"
| "run_call svc (CallUpdateStatus topic u) = service_update_status svc topic u"
| "run_call svc (CallArchive topic i) = service_archive svc topic i"

definition run_calls :: "'s durable_service \<Rightarrow> durable_call list \<Rightarrow> 's \<Rightarrow> 's" where
  "run_calls svc calls s = fold (\<lambda>call s. snd (run_call svc call s)) calls s"

section \<open>MemoryDurable\<close>

type_synonym message_tree = "(message_id, durable_message) btree_map"

record memory_durable =
  md_messages :: "(topic_code, message_tree) hash_map"
  md_archived :: "(topic_code, message_tree) hash_map"
  md_topics :: "(topic_code, topic_config) hash_map"

definition memory_durable_new :: memory_durable where
  "memory_durable_new = \<lparr>md_messages = [], md_archived = [], md_topics = []\<rparr>"

text \<open>\<open>entry(topic).or_insert_with(BTreeMap::new)\<close>, and what is done with the tree.\<close>

definition with_entry :: "topic_code \<Rightarrow> (message_tree \<Rightarrow> message_tree) \<Rightarrow> (topic_code, message_tree) hash_map
    \<Rightarrow> (topic_code, message_tree) hash_map" where
  "with_entry topic f m = hm_insert topic (f (case hm_get m topic of Some tree \<Rightarrow> tree | None \<Rightarrow> [])) m"

definition memory_archive :: "topic_code \<Rightarrow> message_id \<Rightarrow> memory_durable \<Rightarrow> (durable_error + unit) \<times> memory_durable" where
  "memory_archive topic i s =
    (case Option.bind (hm_get (md_messages s) topic) (\<lambda>m. map_of m i) of
       None \<Rightarrow> (Inl (durable_error_new_local ''message not found''), s)
     | Some message \<Rightarrow>
         (Inr (), s\<lparr>md_archived := with_entry topic (bt_insert i message) (md_archived s),
            md_messages := hm_modify topic (bt_remove i) (md_messages s)\<rparr>))"

text \<open>The loop of \<open>update_status\<close> over the reported statuses.\<close>

definition add_status :: "message_state_update \<Rightarrow> durable_message \<Rightarrow> durable_message" where
  "add_status update m = m\<lparr>dm_status := fold (\<lambda>(ep, st). hm_insert ep st) (upd_status update) (dm_status m)\<rparr>"

definition memory_update_status ::
  "topic_code \<Rightarrow> message_state_update \<Rightarrow> memory_durable \<Rightarrow> (durable_error + unit) \<times> memory_durable" where
  "memory_update_status topic update s =
    (Inr (), s\<lparr>md_messages := with_entry topic
       (\<lambda>tree. case map_of tree (upd_message_id update) of
                 Some message \<Rightarrow> bt_insert (upd_message_id update) (add_status update message) tree
               | None \<Rightarrow> tree) (md_messages s)\<rparr>)"

definition memory_save :: "topic_code \<Rightarrow> durable_message \<Rightarrow> memory_durable \<Rightarrow> (durable_error + unit) \<times> memory_durable" where
  "memory_save topic m s =
    (Inr (), s\<lparr>md_messages := with_entry topic (bt_insert (msg_id (dm_message m)) m) (md_messages s)\<rparr>)"

definition memory_create_topic :: "topic_config \<Rightarrow> memory_durable \<Rightarrow> (durable_error + unit) \<times> memory_durable" where
  "memory_create_topic config s = (Inr (), s\<lparr>md_topics := hm_insert (cfg_code config) config (md_topics s)\<rparr>)"

definition memory_delete_topic :: "topic_code \<Rightarrow> memory_durable \<Rightarrow> (durable_error + unit) \<times> memory_durable" where
  "memory_delete_topic topic s = (Inr (), s\<lparr>md_topics := hm_remove topic (md_topics s)\<rparr>)"

definition memory_batch_retrieve ::
  "topic_code \<Rightarrow> durable_message_query \<Rightarrow> memory_durable \<Rightarrow> durable_error + durable_message list" where
  "memory_batch_retrieve topic query s =
    (case hm_get (md_messages s) topic of
       Some queue \<Rightarrow> Inr (take (unat (q_limit query)) (drop (unat (q_offset query)) (map snd queue)))
     | None \<Rightarrow> Inr [])"

definition memory_retrieve :: "topic_code \<Rightarrow> message_id \<Rightarrow> memory_durable \<Rightarrow> durable_error + durable_message" where
  "memory_retrieve topic i s =
    (case hm_get (md_messages s) topic of
       None \<Rightarrow> Inl (durable_error_new_local ''topic not found'')
     | Some topic_messages \<Rightarrow>
         (case map_of topic_messages i of
            None \<Rightarrow> Inl (durable_error_new_local ''message not found'')
          | Some m \<Rightarrow> Inr m))"

definition memory_topic_code_list :: "memory_durable \<Rightarrow> durable_error + topic_code list" where
  "memory_topic_code_list s = Inr (hm_keys (md_topics s))"

definition memory_topic_list :: "memory_durable \<Rightarrow> durable_error + topic_config list" where
  "memory_topic_list s = Inr (map snd (md_topics s))"

definition memory_provider :: "memory_durable durable" where
  "memory_provider =
    \<lparr>save_op = memory_save, update_status_op = memory_update_status, retrieve_op = memory_retrieve,
     batch_retrieve_op = memory_batch_retrieve, archive_op = memory_archive, create_topic_op = memory_create_topic,
     delete_topic_op = memory_delete_topic, topic_code_list_op = memory_topic_code_list,
     topic_list_op = memory_topic_list\<rparr>"

section \<open>What a node relies on\<close>

text \<open>What a call does to the messages a store has of each topic.\<close>

type_synonym stored_messages = "topic_code \<Rightarrow> message_id \<Rightarrow> durable_message option"

fun call_effect :: "durable_call \<Rightarrow> stored_messages \<Rightarrow> stored_messages" where
  "call_effect (CallSave t m) M = M(t := (M t)(msg_id (dm_message m) \<mapsto> m))"
| "call_effect (CallUpdateStatus t u) M =
    M(t := (M t)(upd_message_id u := map_option (add_status u) (M t (upd_message_id u))))"
| "call_effect (CallArchive t i) M = M(t := (M t)(i := None))"

text \<open>
  A store: its operations do what their names say to the messages of the topic and to no other, and
  the pages of a topic are pages of one list of its messages.
\<close>

locale durable_store =
  fixes ops :: "'s durable"
    and stored :: "'s \<Rightarrow> stored_messages"
    and ok :: "'s \<Rightarrow> bool"
  assumes save: "ok s \<Longrightarrow> ok (snd (save_op ops t m s)) \<and> fst (save_op ops t m s) = Inr () \<and>
      stored (snd (save_op ops t m s)) = call_effect (CallSave t m) (stored s)"
    and update: "ok s \<Longrightarrow> ok (snd (update_status_op ops t u s)) \<and> fst (update_status_op ops t u s) = Inr () \<and>
      stored (snd (update_status_op ops t u s)) = call_effect (CallUpdateStatus t u) (stored s)"
    and archive: "ok s \<Longrightarrow> ok (snd (archive_op ops t i s)) \<and>
      (fst (archive_op ops t i s) = Inr () \<longleftrightarrow> stored s t i \<noteq> None) \<and>
      stored (snd (archive_op ops t i s)) = call_effect (CallArchive t i) (stored s)"
    and pages: "ok s \<Longrightarrow> \<exists>ms. serves (\<lambda>q. batch_retrieve_op ops t q s) ms \<and>
      distinct (map (msg_id \<circ> dm_message) ms) \<and>
      stored s t = map_of (map (\<lambda>m. (msg_id (dm_message m), m)) ms)"
    and retrieve: "ok s \<Longrightarrow> retrieve_op ops t i s = Inr m \<longleftrightarrow> stored s t i = Some m"
begin

lemma run_call_effect: "ok s \<Longrightarrow> ok (snd (run_call (durable_service_new nm ty ops) call s)) \<and>
    stored (snd (run_call (durable_service_new nm ty ops) call s)) = call_effect call (stored s)"
  using save update archive
  by (cases call) (simp_all add: durable_service_new_def service_save_def service_update_status_def service_archive_def)

text \<open>However many calls are made, the store follows them.\<close>

lemma run_calls_effect:
  assumes "ok s"
  shows "ok (run_calls (durable_service_new nm ty ops) calls s) \<and>
    stored (run_calls (durable_service_new nm ty ops) calls s) = fold call_effect calls (stored s)"
  using assms run_call_effect by (induction calls arbitrary: s) (simp_all add: run_calls_def)

lemma saved_then_retrieved:
  "ok s \<Longrightarrow> retrieve_op ops t (msg_id (dm_message m)) (snd (save_op ops t m s)) = Inr m"
  using save [of s t m] retrieve by simp

text \<open>Loading the messages of a topic page by page gives each of them once.\<close>

lemma load_stored:
  assumes "ok s" "card (dom (stored s t)) < 2 ^ 32 - 100"
  obtains ms where "load_queue (\<lambda>q. service_batch_retrieve (durable_service_new nm ty ops) t q s) = Inr (Inr ms)"
    "distinct (map (msg_id \<circ> dm_message) ms)" "stored s t = map_of (map (\<lambda>m. (msg_id (dm_message m), m)) ms)"
proof -
  obtain ms where ms: "serves (\<lambda>q. batch_retrieve_op ops t q s) ms" "distinct (map (msg_id \<circ> dm_message) ms)"
    "stored s t = map_of (map (\<lambda>m. (msg_id (dm_message m), m)) ms)" using pages [OF assms(1)] by blast
  have "length ms = card (dom (stored s t))"
    using distinct_card [OF ms(2)] ms(3) by (simp add: dom_map_of_conv_image_fst image_image comp_def)
  then have "load_queue (\<lambda>q. batch_retrieve_op ops t q s) = Inr (Inr ms)"
    unfolding load_queue_def using assms(2) by (intro retrieve_pages_suffix [OF ms(1)]) simp_all
  then show thesis using that [OF _ ms(2,3)] by (simp add: durable_service_new_def service_batch_retrieve_def)
qed

end

section \<open>MemoryDurable is a store\<close>

definition memory_tree :: "memory_durable \<Rightarrow> topic_code \<Rightarrow> message_tree" where
  "memory_tree s t = (case hm_get (md_messages s) t of Some tree \<Rightarrow> tree | None \<Rightarrow> [])"

definition memory_stored :: "memory_durable \<Rightarrow> stored_messages" where
  "memory_stored s t = map_of (memory_tree s t)"

text \<open>Every tree is ordered, and keeps a message under its own identifier.\<close>

definition tree_ok :: "message_tree \<Rightarrow> bool" where
  "tree_ok tree \<longleftrightarrow> bt_sorted tree \<and> (\<forall>(i, m) \<in> set tree. msg_id (dm_message m) = i)"

definition memory_ok :: "memory_durable \<Rightarrow> bool" where
  "memory_ok s \<longleftrightarrow> (\<forall>t. tree_ok (memory_tree s t))"

lemma memory_tree_with_entry [simp]:
  "memory_tree (s\<lparr>md_messages := with_entry t f (md_messages s)\<rparr>) = (memory_tree s)(t := f (memory_tree s t))"
  by (auto simp: memory_tree_def with_entry_def fun_eq_iff)

lemma memory_tree_archived [simp]: "memory_tree (s\<lparr>md_archived := a, md_messages := m\<rparr>) = memory_tree (s\<lparr>md_messages := m\<rparr>)"
  by (simp add: memory_tree_def fun_eq_iff)

lemma dm_message_add_status [simp]: "dm_message (add_status u m) = dm_message m"
  by (simp add: add_status_def)

lemma tree_ok_Nil [simp]: "tree_ok []"
  by (simp add: tree_ok_def)

lemma tree_ok_insert: "tree_ok tree \<Longrightarrow> msg_id (dm_message m) = i \<Longrightarrow> tree_ok (bt_insert i m tree)"
proof -
  assume a: "tree_ok tree" "msg_id (dm_message m) = i"
  have "set (bt_insert i m tree) \<subseteq> insert (i, m) (set tree)" by (induction i m tree rule: bt_insert.induct) auto
  then show ?thesis using a bt_sorted_insert by (fastforce simp: tree_ok_def)
qed

lemma tree_ok_remove: "tree_ok tree \<Longrightarrow> tree_ok (bt_remove i tree)"
  by (auto simp: tree_ok_def bt_remove_def sorted_wrt_filter)

lemma tree_ok_get: "tree_ok tree \<Longrightarrow> map_of tree i = Some m \<Longrightarrow> msg_id (dm_message m) = i"
  by (auto simp: tree_ok_def dest: map_of_SomeD)

lemma memory_archive_eq:
  "memory_archive t i s =
    (case memory_stored s t i of
       None \<Rightarrow> (Inl (durable_error_new_local ''message not found''), s)
     | Some m \<Rightarrow> (Inr (), s\<lparr>md_archived := with_entry t (bt_insert i m) (md_archived s),
          md_messages := with_entry t (bt_remove i) (md_messages s)\<rparr>))"
  by (auto simp: memory_archive_def memory_stored_def memory_tree_def hm_modify_def with_entry_def split: option.split)

lemma memory_pages:
  assumes "memory_ok s"
  shows "\<exists>ms. serves (\<lambda>q. memory_batch_retrieve t q s) ms \<and> distinct (map (msg_id \<circ> dm_message) ms) \<and>
    memory_stored s t = map_of (map (\<lambda>m. (msg_id (dm_message m), m)) ms)"
proof (intro exI conjI)
  let ?tree = "memory_tree s t"
  have "tree_ok ?tree" using assms by (simp add: memory_ok_def)
  then have keys: "map (\<lambda>m. (msg_id (dm_message m), m)) (map snd ?tree) = ?tree" and "distinct (map fst ?tree)"
    using bt_sorted_distinct by (auto simp: tree_ok_def intro!: map_idI)
  moreover have "map (msg_id \<circ> dm_message) (map snd ?tree) = map fst (map (\<lambda>m. (msg_id (dm_message m), m)) (map snd ?tree))"
    by simp
  ultimately show "distinct (map (msg_id \<circ> dm_message) (map snd ?tree))" by (simp only: keys)
  show "memory_stored s t = map_of (map (\<lambda>m. (msg_id (dm_message m), m)) (map snd ?tree))"
    unfolding keys by (simp add: memory_stored_def)
  show "serves (\<lambda>q. memory_batch_retrieve t q s) (map snd ?tree)"
    by (simp add: serves_def memory_batch_retrieve_def memory_tree_def split: option.split)
qed

interpretation memory: durable_store memory_provider memory_stored memory_ok
proof
  fix s t m
  assume ok: "memory_ok s"
  then show "memory_ok (snd (save_op memory_provider t m s)) \<and> fst (save_op memory_provider t m s) = Inr () \<and>
      memory_stored (snd (save_op memory_provider t m s)) = call_effect (CallSave t m) (memory_stored s)"
    by (simp add: memory_provider_def memory_save_def memory_ok_def tree_ok_insert memory_stored_def map_of_bt_insert fun_eq_iff)
next
  fix s t u
  assume ok: "memory_ok s"
  then have "tree_ok (memory_tree s t)" by (simp add: memory_ok_def)
  then show "memory_ok (snd (update_status_op memory_provider t u s)) \<and> fst (update_status_op memory_provider t u s) = Inr () \<and>
      memory_stored (snd (update_status_op memory_provider t u s)) = call_effect (CallUpdateStatus t u) (memory_stored s)"
    using ok by (auto simp: memory_provider_def memory_update_status_def memory_ok_def memory_stored_def
        map_of_bt_insert fun_eq_iff intro!: tree_ok_insert dest: tree_ok_get [rotated] split: option.split)
next
  fix s t i
  assume ok: "memory_ok s"
  then show "memory_ok (snd (archive_op memory_provider t i s)) \<and>
      (fst (archive_op memory_provider t i s) = Inr () \<longleftrightarrow> memory_stored s t i \<noteq> None) \<and>
      memory_stored (snd (archive_op memory_provider t i s)) = call_effect (CallArchive t i) (memory_stored s)"
    by (auto simp: memory_provider_def memory_archive_eq memory_ok_def tree_ok_remove
        memory_stored_def map_of_bt_remove fun_eq_iff split: option.split)
next
  fix s t i m
  show "retrieve_op memory_provider t i s = Inr m \<longleftrightarrow> memory_stored s t i = Some m"
    by (auto simp: memory_provider_def memory_retrieve_def memory_stored_def memory_tree_def split: option.split)
qed (use memory_pages in \<open>simp add: memory_provider_def\<close>)

end
