(* ===== verification/MQ_Recovery.thy ===== *)
theory MQ_Recovery
  imports MQ_Store MQ_Topic
begin

text \<open>
  What survives a crash.  The operations of a topic queue durable commands, the commit task of a
  leader turns them into calls of the durable service, and a node that starts again loads what the
  store has.  The commands of a topic are shown to follow its queue, so that after a commit the
  loaded topic holds the messages the lost one held; with the policy \<open>DropOld\<close> this fails.
\<close>

section \<open>The commands an operation queues\<close>

abbreviation commands :: "proposal_context \<Rightarrow> durable_command list" where
  "commands c \<equiv> durable_commands_queue (ctx_node c)"

fun creates :: "durable_command \<Rightarrow> bool" where
  "creates (Create m) \<longleftrightarrow> True"
| "creates _ \<longleftrightarrow> False"

text \<open>Only commands that create nothing are added.\<close>

definition adds_updates :: "proposal_context \<Rightarrow> proposal_context \<Rightarrow> bool" where
  "adds_updates c c' \<longleftrightarrow> (\<exists>cmds. commands c' = commands c @ cmds \<and> (\<forall>cmd \<in> set cmds. \<not> creates cmd))"

lemma adds_updates_same: "commands c' = commands c \<Longrightarrow> adds_updates c c'"
  by (simp add: adds_updates_def)

lemma adds_updates_trans: "adds_updates a b \<Longrightarrow> adds_updates b c \<Longrightarrow> adds_updates a c"
  unfolding adds_updates_def by fastforce

lemma adds_updates_push: "\<not> creates cmd \<Longrightarrow> adds_updates c (push_durable_command cmd c)"
  by (simp add: adds_updates_def push_durable_command_def push_durable_commands_def)

lemma commands_simps [simp]:
  "commands (dispatch_message m ep c) = commands c" "commands (resolve_ack i r c) = commands c"
  "commands (snd (ctx_now c)) = commands c" "commands (push_durable_command cmd c) = commands c @ [cmd]"
  by (simp_all add: dispatch_message_def resolve_ack_def ctx_now_def utc_now_def spawn_task_def
      push_durable_command_def push_durable_commands_def split: option.split)

lemma commands_send_unsent_loop: "commands (snd (send_unsent_loop m r st c)) = commands c"
  by (induction m r st c rule: send_unsent_loop.induct) (auto simp: Let_def case_prod_beta)

lemma commands_hold_is_resolved: "commands (snd (hold_is_resolved hm c)) = commands c"
  by (auto simp: hold_is_resolved_def ctx_now_def utc_now_def split: message_target_kind.split option.split)

lemma commands_poll_message: "commands (snd (snd (poll_message i r q c))) = commands c"
  by (simp add: poll_message_def poll_message_inner_def send_unsent_def Let_def case_prod_beta commands_send_unsent_loop
      commands_hold_is_resolved split: option.split poll.split)

lemma adds_updates_settle: "adds_updates c (settle i m c)"
  unfolding settle_def by (rule adds_updates_trans [OF adds_updates_same adds_updates_push]) simp_all

lemma adds_updates_flush_blocking: "flush_blocking r q c = Inr (q', c') \<Longrightarrow> adds_updates c c'"
proof (induction r q c rule: flush_blocking.induct)
  case (1 r q c)
  have pop: "commands c1 = commands c" if "blocking_pop r q c = Inr (m, q1, c1)" for m q1 c1
    using that commands_poll_message [of _ r q c]
    by (auto simp: blocking_pop_def and_then_Inr_iff split: option.splits prod.splits poll.splits) (metis snd_conv)+
  show ?case
  proof (cases "blocking_pop r q c")
    case (Inr p)
    obtain m q1 c1 where p: "p = (m, q1, c1)" by (rule prod_cases3)
    show ?thesis
    proof (cases m)
      case None
      then show ?thesis using 1(2) Inr p pop by (auto simp: flush_blocking.simps [of r q c] intro: adds_updates_same)
    next
      case (Some hm)
      then have "adds_updates (settle (held_id hm) hm c1) c'"
        using 1 Inr p by (auto simp: flush_blocking.simps [of r q c])
      then show ?thesis
        using pop Inr p adds_updates_trans [OF adds_updates_trans [OF adds_updates_same adds_updates_settle]] by blast
    qed
  qed (use 1(2) in \<open>simp add: flush_blocking.simps [of r q c]\<close>)
qed

lemma adds_updates_flush_ids: "flush_ids is q c = Inr (q', c') \<Longrightarrow> adds_updates c c'"
proof (induction "is" q c rule: flush_ids.induct)
  case (2 i "is" q c)
  then obtain m q1 where "flush_ids is q1 (case m of Some m \<Rightarrow> settle i m c | None \<Rightarrow> c) = Inr (q', c')"
    "queue_remove i q = Inr (m, q1)" by (auto simp: and_then_Inr_iff)
  with 2 have "adds_updates (case m of Some m \<Rightarrow> settle i m c | None \<Rightarrow> c) c'" by simp
  then show ?case using adds_updates_trans [OF adds_updates_settle] by (cases m) auto
qed (simp add: adds_updates_same)

lemma adds_updates_update: "update_and_flush u d c = Inr (d', c') \<Longrightarrow> adds_updates c c'"
proof -
  assume a: "update_and_flush u d c = Inr (d', c')"
  let ?r = "reachable_eps d (node_config_id (ctx_node c))" and ?c1 = "push_durable_command (UpdateStatus u) c"
  let ?q1 = "fold (\<lambda>(from, status). update_ack (upd_message_id u) from status) (upd_status u) (td_queue d)"
  obtain r q2 c2 where poll: "poll_message (upd_message_id u) ?r ?q1 ?c1 = (r, q2, c2)" by (rule prod_cases3)
  have "commands c2 = commands ?c1" using commands_poll_message [of "upd_message_id u" ?r ?q1 ?c1] poll by simp
  then have 2: "adds_updates c c2" by (auto simp: adds_updates_def)
  have "c' = c2 \<or> (\<exists>q3. flush ?r q2 c2 = Inr (q3, c'))"
    using a poll by (auto simp: update_and_flush_def Let_def and_then_Inr_iff split: option.splits poll.splits)
  moreover have "adds_updates c2 c'" if "flush ?r q2 c2 = Inr (q3, c')" for q3
    using that adds_updates_flush_blocking adds_updates_flush_ids
    by (auto simp: flush_def swap_out_resolved_def split: if_splits)
  ultimately show ?thesis using 2 adds_updates_trans by blast
qed

lemma adds_updates_flush_messages: "flush_messages need d c = Inr (d', c') \<Longrightarrow> adds_updates c c'"
proof -
  have "adds_updates c c'" if "fold_outcome (\<lambda>i (d, c). update_and_flush (state_update_new_empty i) d c) is (d, c) = Inr (d', c')"
    for "is" d c
    using that
  proof (induction "is" arbitrary: d c)
    case (Cons i "is")
    then obtain d1 c1 where "update_and_flush (state_update_new_empty i) d c = Inr (d1, c1)" "adds_updates c1 c'"
      by (fastforce simp: and_then_Inr_iff)
    then show ?case using adds_updates_trans adds_updates_update by blast
  qed (simp add: adds_updates_same)
  then show "flush_messages need d c = Inr (d', c') \<Longrightarrow> adds_updates c c'" by (simp add: flush_messages_def)
qed

lemma adds_updates_endpoints:
  "update_ep_interest ep interests d c = Inr (d', c') \<Longrightarrow> adds_updates c c'"
  "ep_online ep interests host d c = Inr (d', c') \<Longrightarrow> adds_updates c c'"
  "ep_offline host ep d c = Inr (d', c') \<Longrightarrow> adds_updates c c'"
  by (auto simp: update_ep_interest_def ep_online_def ep_offline_def Let_def dest: adds_updates_flush_messages)

section \<open>The commands follow the queue\<close>

type_synonym messages = "message_id \<Rightarrow> message option"

definition held_messages_of :: "message_queue \<Rightarrow> messages" where
  "held_messages_of q i = map_option held_message (hm_get (hold_messages q) i)"

text \<open>What the commands make of a set of messages.\<close>

fun replay :: "durable_command list \<Rightarrow> messages \<Rightarrow> messages" where
  "replay [] M = M"
| "replay (Create m # cs) M = replay cs (M(msg_id m \<mapsto> m))"
| "replay (UpdateStatus u # cs) M = replay cs M"
| "replay (Archive i # cs) M = replay cs (M(i := None))"

lemma replay_append: "replay (as @ bs) M = replay bs (replay as M)"
proof (induction as arbitrary: M)
  case (Cons a as)
  then show ?case by (cases a) (simp_all add: fun_upd_def)
qed simp

definition tracks :: "message_queue \<Rightarrow> proposal_context \<Rightarrow> message_queue \<Rightarrow> proposal_context \<Rightarrow> bool" where
  "tracks q c q' c' \<longleftrightarrow> (\<exists>cmds. commands c' = commands c @ cmds \<and> replay cmds (held_messages_of q) = held_messages_of q')"

lemma tracks_refl: "commands c' = commands c \<Longrightarrow> tracks q c q c'"
  by (simp add: tracks_def)

lemma tracks_trans: "tracks q c q1 c1 \<Longrightarrow> tracks q1 c1 q2 c2 \<Longrightarrow> tracks q c q2 c2"
  unfolding tracks_def using replay_append by fastforce

text \<open>Without creations the commands remove exactly the archived messages.\<close>

lemma replay_updates:
  assumes "\<forall>cmd \<in> set cmds. \<not> creates cmd"
  shows "replay cmds M =
    (\<lambda>i. if i \<in> set (List.map_filter (\<lambda>cmd. case cmd of Archive i \<Rightarrow> Some i | _ \<Rightarrow> None) cmds) then None else M i)"
  using assms
proof (induction cmds arbitrary: M)
  case (Cons a cmds)
  then show ?case by (cases a) (auto simp: fun_eq_iff List.map_filter_simps)
qed (simp add: List.map_filter_simps)

text \<open>The commands after a release: none creates, and they archive exactly what was released.\<close>

lemma releases_commands:
  assumes rel: "releases q c ms q' c'" and add: "adds_updates c c'"
  obtains cmds where "commands c' = commands c @ cmds"
    "\<And>M. replay cmds M = (\<lambda>i. if i \<in> held_id ` set ms then None else M i)"
proof -
  obtain cmds where cmds: "commands c' = commands c @ cmds" "\<forall>cmd \<in> set cmds. \<not> creates cmd"
    using add by (auto simp: adds_updates_def)
  have "archived c' = archived c @ map held_id ms" using rel by (simp add: releases_def)
  then have "List.map_filter (\<lambda>cmd. case cmd of Archive i \<Rightarrow> Some i | _ \<Rightarrow> None) cmds = map held_id ms"
    using cmds(1) by (simp add: archived_def List.map_filter_def)
  then show thesis using that [OF cmds(1)] replay_updates [OF cmds(2)] by simp
qed

lemma releases_tracks:
  assumes rel: "releases q c ms q' c'" and add: "adds_updates c c'"
  shows "tracks q c q' c'"
proof -
  obtain cmds where cmds: "commands c' = commands c @ cmds"
    "\<And>M. replay cmds M = (\<lambda>i. if i \<in> held_id ` set ms then None else M i)"
    by (rule releases_commands [OF assms]) blast
  have "same_message (hm_get (hold_messages q') j) (if j \<in> held_id ` set ms then None else hm_get (hold_messages q) j)" for j
    using rel by (simp add: releases_def)
  then have "held_messages_of q' j = (if j \<in> held_id ` set ms then None else held_messages_of q j)" for j
    by (auto simp: held_messages_of_def same_message_def split: if_splits)
  then show ?thesis using cmds by (auto simp: tracks_def fun_eq_iff)
qed

lemma enqueue_effect:
  assumes inv: "topic_inv d" and pl: "ctx_ok c" and wf: "hm_wf (held_status hm)"
    and fresh: "entry_fresh (held_id hm) (fst (ctx_now c)) (td_queue d)"
    and en: "enqueue_message hm d c = Inr (d', c')"
  obtains q1 c1 ms where "commands c1 = commands c @ [Create (held_message hm)]"
    "held_messages_of q1 = (held_messages_of (td_queue d))(held_id hm \<mapsto> held_message hm)"
    "releases q1 c1 ms (td_queue d') c'" "adds_updates c1 c'"
proof -
  let ?c = "push_durable_command (Create (held_message hm)) (snd (ctx_now c))"
  have q: "queue_inv (td_queue d)" "resolved (td_queue d) = {}" using inv by (simp_all add: topic_inv_def)
  obtain q1 where q1: "queue_push hm (td_queue d) c = (q1, snd (ctx_now c))" "queue_inv q1"
    "resolved q1 = resolved (td_queue d)" "hm_get (hold_messages q1) = (hm_get (hold_messages (td_queue d)))(held_id hm \<mapsto> hm)"
    by (rule queue_push_effect [OF q(1) fresh wf])
  have "ctx_frame c ?c" using ctx_frame_trans [OF ctx_frame_now ctx_frame_push] .
  then have pl1: "ctx_ok ?c" using ctx_ok_frame pl by blast
  have inv1: "topic_inv (d\<lparr>td_queue := q1\<rparr>)" using inv q1(2,3) q(2) by (simp add: topic_inv_def)
  have up: "update_and_flush (state_update_new_empty (held_id hm)) (d\<lparr>td_queue := q1\<rparr>) ?c = Inr (d', c')"
    using en by (simp add: enqueue_message_def q1(1))
  then obtain ms where "releases q1 ?c ms (td_queue d') c'"
    using update_and_flush_releases [OF inv1 pl1, of "state_update_new_empty (held_id hm)"] by auto
  then show thesis
    by (intro that [of ?c q1 ms]) (simp_all add: adds_updates_update [OF up] held_messages_of_def q1(4) fun_eq_iff)
qed

lemma enqueue_tracks:
  assumes "topic_inv d" "ctx_ok c" "hm_wf (held_status hm)"
    "entry_fresh (held_id hm) (fst (ctx_now c)) (td_queue d)" "enqueue_message hm d c = Inr (d', c')"
  shows "tracks (td_queue d) c (td_queue d') c'"
proof -
  obtain q1 c1 ms where 1: "commands c1 = commands c @ [Create (held_message hm)]"
    "held_messages_of q1 = (held_messages_of (td_queue d))(held_id hm \<mapsto> held_message hm)"
    "releases q1 c1 ms (td_queue d') c'" "adds_updates c1 c'"
    by (rule enqueue_effect [OF assms])
  have "tracks (td_queue d) c q1 c1" by (simp add: tracks_def 1(1,2))
  from tracks_trans [OF this releases_tracks [OF 1(3,4)]] show ?thesis .
qed

text \<open>A topic whose overflow policy never throws out a held message.\<close>

definition drops_nothing :: "topic_config \<Rightarrow> bool" where
  "drops_nothing config \<longleftrightarrow> (case overflow_config config of Some oc \<Rightarrow> policy oc = RejectNew | None \<Rightarrow> True)"

lemma hold_tracks:
  assumes inv: "topic_inv d" and pl: "ctx_ok c" and ok: "hold_ok m d c" and keep: "drops_nothing (td_config d)"
    and h: "hold_new_message m d c = Inr (d', c')"
  shows "tracks (td_queue d) c (td_queue d') c'"
proof -
  have put: "tracks (td_queue d) c (td_queue d') c'"
    if p: "put_in_queue hm d c = Inr (d', c')" and hm: "held_message hm = m" "hm_wf (held_status hm)" for hm
  proof -
    have "enqueue_message hm d c = Inr (d', c') \<or> d' = d \<and> commands c' = commands c"
      using p keep by (auto simp: put_in_queue_def drops_nothing_def split: option.splits if_splits topic_overflow_policy.splits)
    then show ?thesis using enqueue_tracks [OF inv pl hm(2)] ok hm(1) tracks_refl by auto
  qed
  have "tracks (td_queue d) c (td_queue d') c'" if "hold_for eps m d c = Inr (d', c')" "finite eps" for eps
    using put that wait_ack_new_wf [OF pl] by (auto simp: hold_for_def)
  then show ?thesis using h tracks_refl finite_collect_addr [OF inv]
    by (auto simp: hold_new_message_def Let_def split: message_target_kind.splits if_splits)
qed

section \<open>Operations that are followed\<close>

text \<open>
  The contract of a topic operation, with the commands it queues: on a topic that throws nothing
  out they turn the messages held before into those held after.
\<close>

locale followed_operation = topic_operation +
  assumes follows: "topic_inv d \<Longrightarrow> ctx_ok c \<Longrightarrow> drops_nothing (td_config d) \<Longrightarrow> ok d c \<Longrightarrow> op d c = Inr (d', c') \<Longrightarrow>
    tracks (td_queue d) c (td_queue d') c'"
begin

lemma returns_followed:
  assumes "topic_inv d" "ctx_ok c" "config_ok (td_config d)" "drops_nothing (td_config d)" "ok d c"
  shows "\<exists>d' c'. op d c = Inr (d', c') \<and> keeps S d c d' c' \<and> tracks (td_queue d) c (td_queue d') c'"
  using returns [OF assms(1-3,5)] follows [OF assms(1,2,4,5)] by blast

end

lemma step_tracks:
  assumes "topic_step d c ms d' c'" "adds_updates c c'"
  shows "tracks (td_queue d) c (td_queue d') c'"
  using assms releases_tracks unfolding topic_step_def by blast

interpretation hold_f: followed_operation "hold_new_message m" "hold_ok m" "{msg_id m}" for m
  by unfold_locales (rule hold_tracks)

interpretation update_f: followed_operation "update_and_flush u" always "{}" for u
proof
  fix d c d' c' assume "topic_inv d" "ctx_ok c" and u: "update_and_flush u d c = Inr (d', c')"
  then obtain ms where "releases (td_queue d) c ms (td_queue d') c'"
    using update_and_flush_releases [of d c u] by auto
  then show "tracks (td_queue d) c (td_queue d') c'" by (rule releases_tracks [OF _ adds_updates_update [OF u]])
qed

interpretation interest_f: followed_operation "update_ep_interest ep interests" always "{}" for ep interests
proof
  fix d c d' c' assume "topic_inv d" "ctx_ok c" and u: "update_ep_interest ep interests d c = Inr (d', c')"
  then obtain ms where "topic_step d c ms d' c'" using update_ep_interest_step [of d c ep interests] by auto
  then show "tracks (td_queue d) c (td_queue d') c'" by (rule step_tracks [OF _ adds_updates_endpoints(1) [OF u]])
qed

interpretation online_f: followed_operation "ep_online ep interests host" always "{}" for ep interests host
proof
  fix d c d' c' assume "topic_inv d" "ctx_ok c" and u: "ep_online ep interests host d c = Inr (d', c')"
  then obtain ms where "topic_step d c ms d' c'" using ep_online_step [of d c ep interests host] by auto
  then show "tracks (td_queue d) c (td_queue d') c'" by (rule step_tracks [OF _ adds_updates_endpoints(2) [OF u]])
qed

interpretation offline_f: followed_operation "ep_offline host ep" always "{}" for host ep
proof
  fix d c d' c' assume "topic_inv d" "ctx_ok c" and u: "ep_offline host ep d c = Inr (d', c')"
  then obtain ms where "topic_step d c ms d' c'" using ep_offline_step [of d c host ep] by auto
  then show "tracks (td_queue d) c (td_queue d') c'" by (rule step_tracks [OF _ adds_updates_endpoints(3) [OF u]])
qed

lemma topic_exec_tracks:
  "topic_inv d \<Longrightarrow> ctx_ok c \<Longrightarrow> drops_nothing (td_config d) \<Longrightarrow> op_ok op d c \<Longrightarrow> topic_exec op d c = Inr (d', c') \<Longrightarrow>
    tracks (td_queue d) c (td_queue d') c'"
  by (cases op) (simp_all add: hold_f.follows update_f.follows interest_f.follows online_f.follows offline_f.follows)

lemma topic_run_tracks:
  assumes "topic_run d c A d' c'" "topic_inv d" "ctx_ok c" "config_ok (td_config d)" "drops_nothing (td_config d)"
  shows "tracks (td_queue d) c (td_queue d') c'"
  using assms
proof (induction rule: topic_run.induct)
  case (step A d1 c1 op d2 c2)
  have "topic_inv d1" "ctx_ok c1" "td_config d1 = td_config d"
    using topic_run_keeps [OF step.hyps(1) step.prems(1-3)] step.prems(2) ctx_ok_frame by (auto simp: keeps_def)
  then have "tracks (td_queue d1) c1 (td_queue d2) c2" using topic_exec_tracks step.hyps(2,4) step.prems(4) by simp
  then show ?case using step.IH [OF step.prems] tracks_trans by blast
qed (rule tracks_refl, simp)

section \<open>From the commands to the loaded topic\<close>

lemma call_effect_replay:
  assumes "call_topic call = t"
  shows "(\<lambda>i. map_option dm_message (call_effect call M t i)) =
    replay [call_command call] (\<lambda>i. map_option dm_message (M t i))"
  using assms by (cases call) (auto simp: fun_eq_iff option.map_comp comp_def)

lemma calls_replay:
  assumes "set (map call_topic calls) \<subseteq> {t}"
  shows "(\<lambda>i. map_option dm_message (fold call_effect calls M t i)) =
    replay (map call_command calls) (\<lambda>i. map_option dm_message (M t i))"
  using assms
proof (induction calls arbitrary: M)
  case (Cons call calls)
  then have "(\<lambda>i. map_option dm_message (fold call_effect calls (call_effect call M) t i)) =
      replay (map call_command calls) (replay [call_command call] (\<lambda>i. map_option dm_message (M t i)))"
    using call_effect_replay [of call t M] by simp
  then show ?case using replay_append [of "[call_command call]" "map call_command calls"] by simp
qed simp

lemma calls_other_topic: "set (map call_topic calls) \<subseteq> {t} \<Longrightarrow> t' \<noteq> t \<Longrightarrow> fold call_effect calls M t' = M t'"
proof (induction calls arbitrary: M)
  case (Cons call calls)
  then show ?case by (cases call) simp_all
qed simp

text \<open>The messages of a topic that is loaded from stored ones with different identifiers.\<close>

lemma held_after_push_durable:
  assumes "distinct (map (msg_id \<circ> dm_message) ms)"
  shows "held_messages_of (fold push_durable_message ms q) i = Some x \<longleftrightarrow>
    x \<in> dm_message ` set ms \<and> msg_id x = i \<or>
    i \<notin> msg_id ` dm_message ` set ms \<and> held_messages_of q i = Some x"
  using assms
proof (induction ms arbitrary: q)
  case (Cons m ms)
  have "held_messages_of (push_durable_message m q) i =
      (if i = msg_id (dm_message m) then Some (dm_message m) else held_messages_of q i)"
    by (simp add: held_messages_of_def hm_get_push_durable)
  then show ?case using Cons by (auto simp: image_iff)
qed simp

lemma option_eqI: "(\<And>x. a = Some x \<longleftrightarrow> b = Some x) \<Longrightarrow> a = b"
  by (cases a; cases b) auto

lemma held_after_load:
  assumes "distinct (map (msg_id \<circ> dm_message) ms)"
  shows "held_messages_of (td_queue (topic_from_durable config ms)) i =
    map_option dm_message (map_of (map (\<lambda>m. (msg_id (dm_message m), m)) ms) i)"
proof -
  have "held_messages_of (td_queue (topic_from_durable config ms)) i = Some x \<longleftrightarrow>
      map_option dm_message (map_of (map (\<lambda>m. (msg_id (dm_message m), m)) ms) i) = Some x" for x
  proof -
    have d: "distinct (map fst (map (\<lambda>m. (msg_id (dm_message m), m)) ms))" using assms by (simp add: comp_def)
    have "distinct (map (msg_id \<circ> dm_message) (sort_key dm_time ms))"
      using assms by (simp add: distinct_map)
    from held_after_push_durable [OF this] have
      "held_messages_of (td_queue (topic_from_durable config ms)) i = Some x \<longleftrightarrow> x \<in> dm_message ` set ms \<and> msg_id x = i"
      by (simp add: topic_from_durable_def held_messages_of_def queue_new_def)
    also have "\<dots> \<longleftrightarrow> (\<exists>m. map_of (map (\<lambda>m. (msg_id (dm_message m), m)) ms) i = Some m \<and> dm_message m = x)"
      unfolding map_of_eq_Some_iff [OF d] by auto
    finally show ?thesis by (auto simp: map_option_case split: option.split)
  qed
  then show ?thesis by (rule option_eqI)
qed

text \<open>
  (C11) Held messages survive a crash.  A topic runs on a leader, from a state the store knows, through any
  operations; its overflow policy throws nothing out.  When the commit task has carried the queued
  commands to the durable service, whichever provider is behind it, loading the topic page by page gives
  a topic that holds exactly the messages the running one held, and the other topics of the store are
  as they were.
\<close>

theorem held_messages_survive:
  assumes run: "topic_run d c A d' c'" "topic_inv d" "ctx_ok c" "config_ok (td_config d)"
    and keep: "drops_nothing (td_config d)" and queued: "commands c = []"
    and store: "durable_store ops stored ok" "ok s"
    and start: "\<forall>i. map_option dm_message (stored s topic i) = held_messages_of (td_queue d) i"
    and commit: "commit_task True topic (ctx_node c') = (calls, n)"
    and size: "card (held_ids (td_queue d')) < 2 ^ 32 - 100"
  shows "\<exists>ms. load_queue (\<lambda>q. service_batch_retrieve (durable_service_new nm ty ops) topic q
        (run_calls (durable_service_new nm ty ops) calls s)) = Inr (Inr ms) \<and>
    held_messages_of (td_queue (topic_from_durable config ms)) = held_messages_of (td_queue d') \<and>
    (\<forall>t. t \<noteq> topic \<longrightarrow> stored (run_calls (durable_service_new nm ty ops) calls s) t = stored s t)"
proof -
  let ?s = "run_calls (durable_service_new nm ty ops) calls s"
  have cmds: "replay (commands c') (held_messages_of (td_queue d)) = held_messages_of (td_queue d')"
    using topic_run_tracks [OF run keep] queued by (auto simp: tracks_def)
  have calls: "map call_command calls = commands c'" "set (map call_topic calls) \<subseteq> {topic}"
    using commit_task_leader(1,2) [of topic "ctx_node c'"] commit by simp_all
  have s: "ok ?s" "stored ?s = fold call_effect calls (stored s)"
    using durable_store.run_calls_effect [OF store] by blast+
  have held: "(\<lambda>i. map_option dm_message (stored ?s topic i)) = held_messages_of (td_queue d')"
    using calls_replay [OF calls(2), of "stored s"] start cmds by (simp add: s(2) calls(1))
  have "stored ?s topic i = None \<longleftrightarrow> hm_get (hold_messages (td_queue d')) i = None" for i
    using arg_cong [OF fun_cong [OF held, of i], of "\<lambda>x. x = None"] by (simp add: held_messages_of_def)
  then have "dom (stored ?s topic) = held_ids (td_queue d')" by (simp add: dom_def)
  then have "card (dom (stored ?s topic)) < 2 ^ 32 - 100" using size by simp
  then obtain ms where ms:
    "load_queue (\<lambda>q. service_batch_retrieve (durable_service_new nm ty ops) topic q ?s) = Inr (Inr ms)"
    "distinct (map (msg_id \<circ> dm_message) ms)" "stored ?s topic = map_of (map (\<lambda>m. (msg_id (dm_message m), m)) ms)"
    by (rule durable_store.load_stored [OF store(1) s(1)])
  have "held_messages_of (td_queue (topic_from_durable config ms)) = held_messages_of (td_queue d')"
    unfolding held [symmetric] ms(3) by (rule ext) (rule held_after_load [OF ms(2)])
  then show ?thesis
    by (intro exI [of _ ms] conjI ms(1) allI impI) (simp_all add: s(2) calls_other_topic [OF calls(2)])
qed

section \<open>A message that was thrown out comes back\<close>

lemma drop_old_pops:
  assumes inv: "topic_inv d"
    and fresh: "entry_fresh (held_id hm) (fst (ctx_now c)) (td_queue d)"
    and full: "overflow_config (td_config d) = Some oc" "policy oc = DropOld"
      "overflow_config_size oc \<le> queue_len (td_queue d)"
    and front: "get_front (td_queue d) = Some old"
  obtains q1 c1 where "put_in_queue hm d c = enqueue_message hm (d\<lparr>td_queue := q1\<rparr>) c1"
    "c1 = resolve_ack (held_id old) (Inl (wait_ack_error_of Overflow)) c"
    "topic_inv (d\<lparr>td_queue := q1\<rparr>)" "entry_fresh (held_id hm) (fst (ctx_now c1)) (td_queue (d\<lparr>td_queue := q1\<rparr>))"
    "held_messages_of q1 (held_id old) = None" "held_messages_of (td_queue d) (held_id old) = Some (held_message old)"
proof -
  let ?c = "resolve_ack (held_id old) (Inl (wait_ack_error_of Overflow)) c"
  have q: "queue_inv (td_queue d)" "resolved (td_queue d) = {}" using inv by (simp_all add: topic_inv_def)
  obtain t k rest where tid: "time_id (td_queue d) = (t, k) # rest"
    using front by (cases "time_id (td_queue d)") (auto simp: get_front_def)
  obtain old' q1 where pop: "hm_get (hold_messages (td_queue d)) k = Some old'" "get_front (td_queue d) = Some old'" "held_id old' = k"
    "queue_pop (td_queue d) = Inr (Some old', q1)" "queue_inv q1" "time_id q1 = rest"
    "blocking q1 = blocking (td_queue d)" "hm_get (hold_messages q1) = (hm_get (hold_messages (td_queue d)))(k := None)"
    "resolved q1 = resolved (td_queue d) - {k}"
    by (rule queue_pop_Cons [OF q(1) tid])
  have old: "old' = old" "k = held_id old" using pop(2,3) front by simp_all
  have en: "put_in_queue hm d c = enqueue_message hm (d\<lparr>td_queue := q1\<rparr>) ?c"
    using full pop(4) old by (simp add: put_in_queue_def)
  have inv1: "topic_inv (d\<lparr>td_queue := q1\<rparr>)" using inv pop(5,9) q(2) by (simp add: topic_inv_def)
  have "held_ids q1 \<subseteq> held_ids (td_queue d)" "set (time_id q1) \<subseteq> set (time_id (td_queue d))"
    unfolding pop(6,8) tid by auto
  then have fresh1: "entry_fresh (held_id hm) (fst (ctx_now ?c)) (td_queue (d\<lparr>td_queue := q1\<rparr>))"
    unfolding ctx_now_resolve using entry_fresh_removed [OF fresh] by simp
  show thesis
    by (rule that [OF en refl inv1 fresh1]) (use pop(1,8) old in \<open>simp_all add: held_messages_of_def\<close>)
qed

text \<open>
  (C37) With the policy \<open>DropOld\<close> the message at the front of a full queue is thrown out and its sender is
  told so, but no command archives it: to the store it is a held message still, and a node that
  loads the topic holds it again.
\<close>

theorem dropped_message_stays_stored:
  assumes inv: "topic_inv d" and pl: "ctx_ok c" "ctx_handle c \<noteq> None" and wf: "hm_wf (held_status hm)"
    and fresh: "entry_fresh (held_id hm) (fst (ctx_now c)) (td_queue d)"
    and full: "overflow_config (td_config d) = Some oc" "policy oc = DropOld"
      "overflow_config_size oc \<le> queue_len (td_queue d)"
    and front: "get_front (td_queue d) = Some old"
  shows "\<exists>d' c' cmds. put_in_queue hm d c = Inr (d', c') \<and>
    (held_id old, Inl (wait_ack_error_of Overflow)) \<in> set (acks c') \<and>
    held_messages_of (td_queue d') (held_id old) = None \<and> commands c' = commands c @ cmds \<and>
    replay cmds (held_messages_of (td_queue d)) (held_id old) = Some (held_message old)"
proof -
  let ?k = "held_id old"
  obtain q1 c1 where p: "put_in_queue hm d c = enqueue_message hm (d\<lparr>td_queue := q1\<rparr>) c1"
    "c1 = resolve_ack (held_id old) (Inl (wait_ack_error_of Overflow)) c"
    "topic_inv (d\<lparr>td_queue := q1\<rparr>)" "entry_fresh (held_id hm) (fst (ctx_now c1)) (td_queue (d\<lparr>td_queue := q1\<rparr>))"
    "held_messages_of q1 ?k = None" "held_messages_of (td_queue d) ?k = Some (held_message old)"
    by (rule drop_old_pops [OF inv fresh full front])
  have new: "held_id hm \<noteq> ?k" using fresh p(6) by (auto simp: entry_fresh_def held_messages_of_def)
  have c1: "ctx_ok c1" "ctx_handle c1 \<noteq> None" "acks c1 = acks c @ [(?k, Inl (wait_ack_error_of Overflow))]"
    using ctx_ok_frame [OF ctx_frame_resolve pl(1)] ctx_frame_handle [OF ctx_frame_resolve] pl(2) by (simp_all add: p(2) acks_resolve)
  obtain d' c' where en: "enqueue_message hm (d\<lparr>td_queue := q1\<rparr>) c1 = Inr (d', c')"
    and acc: "accepts (held_id hm) (d\<lparr>td_queue := q1\<rparr>) c1 d' c'"
    using enqueue_message_accepts [OF p(3) c1(1) wf p(4)] by blast
  obtain q2 c2 ms where e: "commands c2 = commands c1 @ [Create (held_message hm)]"
    "held_messages_of q2 = (held_messages_of (td_queue (d\<lparr>td_queue := q1\<rparr>)))(held_id hm \<mapsto> held_message hm)"
    "releases q2 c2 ms (td_queue d') c'" "adds_updates c2 c'"
    by (rule enqueue_effect [OF p(3) c1(1) wf p(4) en])
  have none: "held_messages_of q2 ?k = None" using new p(5) by (simp add: e(2))
  then have kept: "?k \<notin> held_id ` set ms"
    using releasesD(8) [OF e(3)] by (auto simp: held_messages_of_def same_message_def)
  have "held_messages_of (td_queue d') ?k = None"
    using releasesD(9) [OF e(3), THEN spec, of ?k] none kept by (simp add: held_messages_of_def)
  moreover obtain cmds where cmds: "commands c' = commands c2 @ cmds"
    "\<And>M. replay cmds M = (\<lambda>i. if i \<in> held_id ` set ms then None else M i)"
    by (rule releases_commands [OF e(3,4)]) blast
  moreover have "(?k, Inl (wait_ack_error_of Overflow)) \<in> set (acks c')"
    using acc c1(2,3) by (auto simp: accepts_def accounts_def)
  ultimately show ?thesis using p(1,6) en e(1) kept new
    by (intro exI [of _ d'] exI [of _ c'] exI [of _ "Create (held_message hm) # cmds"]) (simp add: p(2) cmds(2))
qed

section \<open>Witnesses\<close>

definition empty_topic :: topic_data where
  "empty_topic = (example_topic_data False)\<lparr>td_config := topic_config_from_code example_topic, td_queue := queue_new False 8\<rparr>"

lemma empty_topic_ok [simp]: "topic_inv empty_topic" "config_ok (td_config empty_topic)" "drops_nothing (td_config empty_topic)"
  "hold_messages (td_queue empty_topic) = []" "time_id (td_queue empty_topic) = []"
  using example_topic_data_ok(1) [of False] queue_inv_new [of False 8]
  by (simp_all add: empty_topic_def topic_inv_def queue_new_def topic_config_from_code_def config_ok_def drops_nothing_def)

theorem held_messages_survive_witness:
  "\<exists>d' c' ms. topic_run empty_topic later_context {MessageId [3]} d' c' \<and>
    load_queue (\<lambda>q. service_batch_retrieve (durable_service_new ''memory'' 0 memory_provider) example_topic q
      (run_calls (durable_service_new ''memory'' 0 memory_provider)
        (fst (commit_task True example_topic (ctx_node c'))) memory_durable_new)) = Inr (Inr ms) \<and>
    held_messages_of (td_queue (topic_from_durable (td_config empty_topic) ms)) = held_messages_of (td_queue d')"
proof -
  let ?op = "OpHold (example_message 3 Online)"
  have ok: "op_ok ?op empty_topic later_context" "op_accepts ?op = {MessageId [3]}"
    by (simp_all add: entry_fresh_def) (simp_all add: example_message_def)
  obtain d' c' where e: "topic_exec ?op empty_topic later_context = Inr (d', c')"
    using topic_exec_keeps [OF empty_topic_ok(1) later_context_simps(1) empty_topic_ok(2) ok(1)] by blast
  have run: "topic_run empty_topic later_context {MessageId [3]} d' c'"
    using topic_run.step [OF topic_run.start ok(1) _ e] unfolding ok(2) by simp
  have "held_ids (td_queue d') \<subseteq> {MessageId [3]}"
    using topic_run_keeps [OF run] by (auto simp: keeps_def accounts_def)
  then have "card (held_ids (td_queue d')) \<le> 1" using card_mono [of "{MessageId [3]}"] by fastforce
  then have "card (held_ids (td_queue d')) < 2 ^ 32 - 100" by simp
  moreover have "commands later_context = []" by (simp add: later_context_def) (simp add: example_context_def example_node_def)
  moreover have "\<forall>i. map_option dm_message (memory_stored memory_durable_new example_topic i) = held_messages_of (td_queue empty_topic) i"
    by (simp add: memory_stored_def memory_tree_def memory_durable_new_def held_messages_of_def)
  moreover have "memory_ok memory_durable_new" by (simp add: memory_ok_def memory_tree_def memory_durable_new_def)
  ultimately show ?thesis
    using held_messages_survive [OF run empty_topic_ok(1) later_context_simps(1) empty_topic_ok(2,3) _
        memory.durable_store_axioms _ _ prod.collapse [symmetric], of memory_durable_new example_topic "''memory''" 0 "td_config empty_topic"]
      run by blast
qed

theorem dropped_message_stays_stored_witness:
  "\<exists>d' c' cmds. put_in_queue (example_held 3 []) (example_topic_data False) later_context = Inr (d', c') \<and>
    held_messages_of (td_queue d') (MessageId [1]) = None \<and> commands c' = commands later_context @ cmds \<and>
    replay cmds (held_messages_of (td_queue (example_topic_data False))) (MessageId [1]) = Some (example_message 1 Online)"
proof -
  let ?d = "example_topic_data False" and ?old = "example_held 1 [(EndpointAddr [1], Received)]"
  have hm: "hm_wf (held_status (example_held 3 []))" by simp
  have fresh: "entry_fresh (held_id (example_held 3 [])) (fst (ctx_now later_context)) (td_queue ?d)"
    using example_fresh [of Online False] by (simp add: example_message_def)
  have ctx: "ctx_handle later_context \<noteq> None" by simp
  have full: "overflow_config (td_config ?d) = Some (new_drop_old 2)" "policy (new_drop_old 2) = DropOld"
    "overflow_config_size (new_drop_old 2) \<le> queue_len (td_queue ?d)" "get_front (td_queue ?d) = Some ?old"
    by (simp_all add: example_topic_data_def new_drop_old_def overflow_config_size_def non_zero_or_max_def queue_len_def
        example_queue_def get_front_def)
  have old: "msg_id (example_message 1 Online) = MessageId [1]" "held_message ?old = example_message 1 Online"
    by (simp_all add: example_held_def example_message_def)
  from dropped_message_stays_stored [OF example_topic_data_ok(1) later_context_simps(1) ctx hm fresh full]
  show ?thesis unfolding old(2) unfolding old(1) by blast
qed

end
