(* ===== verification/MQ_Session.thy ===== *)
theory MQ_Session
  imports MQ_Gateway
begin

text \<open>
  One edge connection from its start to its end (\<open>EdgeConnectionInstance::init\<close> in
  \<open>edge/connection.rs\<close>): the checks before the task is spawned, the loop that takes packets from the
  stream and from the outbound channel, the tasks of the requests, and what follows the loop.  The
  transport is a source of events, and what its sink has taken is a list.  The outbound channel holds
  1024 packets and a sender that finds it full waits in line, so \<open>ec_outbound\<close> is the buffer followed by
  the packets of the senders that wait.
\<close>

section \<open>EdgeConnectionInstance::init\<close>

definition connection_init ::
  "codec_registry \<Rightarrow> codec_kind \<Rightarrow> node_id \<Rightarrow> nat \<Rightarrow> bool \<Rightarrow> node_connection_error + edge_connection" where
  "connection_init codecs preferred peer inst node_alive =
    (case registry_get codecs preferred of
       None \<Rightarrow> Inl (connection_error_new ConnProtocol ''preferred codec is not registered'')
     | Some encoder \<Rightarrow>
         if \<not> node_alive then Inl (connection_error_new ConnClosed ''node is already dropped'')
         else Inr \<lparr>ec_instance = inst, ec_codecs = codecs, ec_preferred = preferred, ec_peer = peer, ec_alive = True,
                   ec_receiving = True, ec_outbound = []\<rparr>)"

text \<open>
  A connection, the server it belongs to, its requests that are not answered, and what the sink has
  taken.  The table of the node refers to the same connection: what other tasks send over it comes here
  as \<open>Queued\<close>.
\<close>

record session =
  se_node :: server_node
  se_conn :: edge_connection
  se_pending :: "pending_request list"
  se_sink :: "edge_packet list"

datatype session_event =
    NextPacket edge_packet
  | StreamEnded
  | StreamFailed
  | OutboundReady
  | SinkFailed node_connection_error
  | RequestDone nat       \<comment> \<open>the task of a request that waits goes on\<close>
  | Queued edge_packet    \<comment> \<open>another task sends a packet\<close>
  | NodeTask task         \<comment> \<open>a task of the node runs\<close>

datatype session_state =
    Going session
  | Over "node_connection_error + unit" session

text \<open>One turn of the loop, or of one of the tasks around it.\<close>

fun session_turn :: "raft_env \<Rightarrow> session_event \<Rightarrow> session \<Rightarrow> session_state outcome" where
  "session_turn r (NextPacket packet) s =
    and_then (packet_in r (ec_peer (se_conn s)) packet (se_node s)) (\<lambda>(pr, n).
      Inr (Going (s\<lparr>se_node := n, se_pending := se_pending s @ (case pr of Some pr \<Rightarrow> [pr] | None \<Rightarrow> [])\<rparr>)))"
| "session_turn r StreamEnded s = Inr (Over (Inr ()) s)"
| "session_turn r StreamFailed s = Inr (Over (Inl (connection_error_new ConnIo ''read next event'')) s)"
| "session_turn r OutboundReady s =
    (case packet_out (se_conn s) of
       None \<Rightarrow> Inr (Going s)
     | Some (p, c) \<Rightarrow> Inr (Going (s\<lparr>se_conn := c, se_sink := se_sink s @ [p]\<rparr>)))"
| "session_turn r (SinkFailed e) s =
    (case packet_out (se_conn s) of
       None \<Rightarrow> Inr (Going s)
     | Some (p, c) \<Rightarrow> Inr (Over (Inl e) (s\<lparr>se_conn := c\<rparr>)))"
| "session_turn r (RequestDone k) s =
    (if k < length (se_pending s) then
       and_then (respond (se_pending s ! k) (se_conn s) (se_node s)) (\<lambda>res.
         Inr (Going
           (case res of
              None \<Rightarrow> s
            | Some (c, n) \<Rightarrow> s\<lparr>se_conn := c, se_node := n,
                se_pending := take k (se_pending s) @ drop (Suc k) (se_pending s)\<rparr>)))
     else Inr (Going s))"
| "session_turn r (NodeTask t) s = and_then (run_task r t (se_node s)) (\<lambda>n. Inr (Going (s\<lparr>se_node := n\<rparr>)))"
| "session_turn r (Queued packet) s = Inr (Going (s\<lparr>se_conn := snd (send_packet packet (se_conn s))\<rparr>))"

fun session_run :: "raft_env \<Rightarrow> session_event list \<Rightarrow> session \<Rightarrow> session_state outcome" where
  "session_run r [] s = Inr (Going s)"
| "session_run r (ev # evs) s =
    and_then (session_turn r ev s) (\<lambda>st. case st of Going s' \<Rightarrow> session_run r evs s' | Over e s' \<Rightarrow> Inr (Over e s'))"

text \<open>The task starts with nothing sent and nothing asked.\<close>

definition session_new :: "server_node \<Rightarrow> edge_connection \<Rightarrow> session" where
  "session_new n c = \<lparr>se_node = n, se_conn = c, se_pending = [], se_sink = []\<rparr>"

text \<open>After the loop, however it ended: the connection is marked dead and taken out of the node.\<close>

definition session_end :: "session \<Rightarrow> server_node" where
  "session_end s = connection_closed (ec_peer (se_conn s)) (ec_instance (se_conn s)) (se_node s)"

section \<open>Properties\<close>

text \<open>\<open>create_edge_connection\<close> hands \<open>init\<close> a codec of its own registry, so \<open>init\<close> does not fail.\<close>

lemma create_edge_connection_inits:
  "create_edge_connection supported peer n =
    (case pick_preferred_codec (sn_codecs n) supported of
       None \<Rightarrow> (Inl (connection_error_new ConnProtocol ''no codec available''), n)
     | Some preferred \<Rightarrow>
         (case connection_init (sn_codecs n) preferred peer (sn_next n) True of
            Inl e \<Rightarrow> (Inl e, n)
          | Inr c \<Rightarrow> (Inr peer, n\<lparr>sn_next := Suc (sn_next n), edge_connections := hm_insert peer c (edge_connections n)\<rparr>)))"
proof (cases "pick_preferred_codec (sn_codecs n) supported")
  case (Some preferred)
  then have "registry_get (sn_codecs n) preferred \<noteq> None"
    by (auto simp: pick_preferred_codec_def find_Some_iff registry_get_def)
  then show ?thesis using Some by (auto simp: create_edge_connection_def connection_init_def)
qed (simp add: create_edge_connection_def)

subsection \<open>Requests and responses\<close>

definition packet_payload :: "codec_registry \<Rightarrow> edge_packet \<Rightarrow> codec_error + edge_payload" where
  "packet_payload cs p = registry_decode cs (eph_codec (ep_header p)) (ep_payload p)"

fun payload_request :: "codec_error + edge_payload \<Rightarrow> u32 option" where
  "payload_request (Inr (PayloadRequest request)) = Some (rq_seq_id request)"
| "payload_request _ = None"

fun payload_response :: "codec_error + edge_payload \<Rightarrow> u32 option" where
  "payload_response (Inr (PayloadResponse response)) = Some (rs_seq_id response)"
| "payload_response _ = None"

text \<open>The sequence ids of the requests that came in, of the responses in a list of packets, and what others sent.\<close>

definition response_id :: "codec_registry \<Rightarrow> edge_packet \<Rightarrow> u32 option" where
  "response_id cs p = payload_response (packet_payload cs p)"

fun event_requests :: "codec_registry \<Rightarrow> session_event \<Rightarrow> u32 list" where
  "event_requests cs (NextPacket p) = (case payload_request (packet_payload cs p) of None \<Rightarrow> [] | Some i \<Rightarrow> [i])"
| "event_requests cs _ = []"

fun event_queued :: "session_event \<Rightarrow> edge_packet list" where
  "event_queued (Queued p) = [p]"
| "event_queued _ = []"

definition response_ids :: "codec_registry \<Rightarrow> edge_packet list \<Rightarrow> u32 list" where
  "response_ids cs ps = List.map_filter (response_id cs) ps"

definition session_packets :: "session \<Rightarrow> edge_packet list" where
  "session_packets s = se_sink s @ ec_outbound (se_conn s)"

text \<open>A response is read back with the sequence id it was written with.\<close>

definition keeps_seq_ids :: "codec_registry \<Rightarrow> codec_kind \<Rightarrow> bool" where
  "keeps_seq_ids cs k \<longleftrightarrow> (\<forall>resp bs. registry_encode cs k (PayloadResponse resp) = Inr bs \<longrightarrow>
    payload_response (registry_decode cs k bs) = Some (rs_seq_id resp))"

text \<open>The connection as \<open>init\<close> made it: its codec is registered and its task still receives.\<close>

definition session_ok :: "codec_registry \<Rightarrow> codec_kind \<Rightarrow> session \<Rightarrow> bool" where
  "session_ok cs k s \<longleftrightarrow> sn_codecs (se_node s) = cs \<and> ec_codecs (se_conn s) = cs \<and> ec_preferred (se_conn s) = k \<and>
    ec_receiving (se_conn s) \<and> hm_get cs k \<noteq> None"

lemma send_message_codecs: "send_message r h m n = (res, n') \<Longrightarrow> sn_codecs n' = sn_codecs n"
  by (auto simp: send_message_def topic_wait_ack_def set_topic_at_def Let_def case_prod_beta
      split: prod.splits sum.splits dest!: propose_keeps(8))

lemma request_codecs:
  assumes "handle_edge_request r from req n = Inr (reply, n')"
  shows "sn_codecs n' = sn_codecs n"
proof -
  have "sn_codecs n' = sn_codecs n" if "handle_request_kind r from req n = Inr (reply, n')"
    using that
    by (cases req)
      (auto simp: draw_message_eq draw_endpoint_eq Let_def propose_for_edge_def set_edge_routing_def
        split: option.splits sum.splits prod.splits dest!: propose_keeps(8) send_message_codecs)
  then show ?thesis using handle_edge_request_cases [OF assms] by blast
qed

lemma run_task_codecs:
  assumes "run_task r t n = Inr n'"
  shows "sn_codecs n' = sn_codecs n"
proof (cases t)
  case (DispatchTask h code m ep)
  then obtain st n1 p where d: "topic_dispatch_message h m ep n = Inr (st, n1)" and n': "n' = snd (propose r p n1)"
    using assms by (auto simp: dispatch_task_def and_then_Inr_iff)
  have "sn_codecs n1 = sn_codecs n" using d
    by (auto simp: topic_dispatch_message_def and_then_Inr_iff Let_def split: option.splits sum.split_asm)
      (metis sum.exhaust old.unit.exhaust)
  then show ?thesis using n' by simp
qed (use assms in \<open>auto simp: resolve_ack_task_def set_topic_at_def Let_def case_prod_beta split: option.splits\<close>)

lemma packet_in_requests:
  assumes "packet_in r peer p n = Inr (pr, n')"
  shows "map pr_seq_id (case pr of Some pr \<Rightarrow> [pr] | None \<Rightarrow> []) = event_requests (sn_codecs n) (NextPacket p)"
    "sn_codecs n' = sn_codecs n"
  using assms
  by (auto simp: packet_in_def packet_payload_def and_then_Inr_iff split: sum.splits edge_payload.splits
      dest: request_codecs)

lemma respond_packet:
  assumes "respond pr c n = Inr (Some (c', n'))" "ec_receiving c" "keeps_seq_ids (ec_codecs c) (ec_preferred c)"
  shows "\<exists>p. c' = c\<lparr>ec_outbound := ec_outbound c @ [p]\<rparr> \<and> response_id (ec_codecs c) p = Some (pr_seq_id pr)"
    "sn_codecs n' = sn_codecs n"
  using assms
  by (auto simp: respond_def encode_packet_def draw_packet_eq send_packet_def edge_packet_new_def and_then_Inr_iff
      keeps_seq_ids_def response_id_def packet_payload_def edge_response_from_result_def
      split: option.splits sum.splits)

lemma map_filter_append: "List.map_filter f (xs @ ys) = List.map_filter f xs @ List.map_filter f ys"
  by (simp add: List.map_filter_def)

text \<open>
  One turn: the requests that come in and those that wait are, together with the responses, as many
  as before, and what others sent keeps its order.
\<close>

lemma session_turn_accounts:
  assumes turn: "session_turn r ev s = Inr (Going s')" and ok: "session_ok cs k s" and keeps: "keeps_seq_ids cs k"
    and queued: "\<forall>p \<in> set (event_queued ev). response_id cs p = None"
  shows "session_ok cs k s'" (is ?ok)
    "mset (event_requests cs ev) + mset (map pr_seq_id (se_pending s)) + mset (response_ids cs (session_packets s)) =
       mset (map pr_seq_id (se_pending s')) + mset (response_ids cs (session_packets s'))" (is ?count)
    "filter (\<lambda>p. response_id cs p = None) (session_packets s') =
       filter (\<lambda>p. response_id cs p = None) (session_packets s) @ event_queued ev" (is ?order)
proof -
  have "?ok \<and> ?count \<and> ?order"
  proof (cases ev)
    case (NextPacket p)
    then obtain pr n' where "packet_in r (ec_peer (se_conn s)) p (se_node s) = Inr (pr, n')"
      "s' = s\<lparr>se_node := n', se_pending := se_pending s @ (case pr of Some pr \<Rightarrow> [pr] | None \<Rightarrow> [])\<rparr>"
      using turn by (auto simp: and_then_Inr_iff)
    then show ?thesis using packet_in_requests ok NextPacket
      by (force simp: session_ok_def session_packets_def)
  next
    case OutboundReady
    then show ?thesis using turn ok
      by (auto simp: packet_out_def session_ok_def session_packets_def split: list.splits)
  next
    case (RequestDone j)
    then show ?thesis
    proof (cases "s' = s")
      case False
      then obtain c n' where j: "j < length (se_pending s)"
        and resp: "respond (se_pending s ! j) (se_conn s) (se_node s) = Inr (Some (c, n'))"
        and s': "s' = s\<lparr>se_conn := c, se_node := n', se_pending := take j (se_pending s) @ drop (Suc j) (se_pending s)\<rparr>"
        using turn RequestDone by (auto simp: and_then_Inr_iff split: if_splits option.splits)
      have conn: "ec_receiving (se_conn s)" "keeps_seq_ids (ec_codecs (se_conn s)) (ec_preferred (se_conn s))"
        using ok keeps by (simp_all add: session_ok_def)
      obtain p where c: "c = (se_conn s)\<lparr>ec_outbound := ec_outbound (se_conn s) @ [p]\<rparr>"
        and p: "response_id cs p = Some (pr_seq_id (se_pending s ! j))"
        using respond_packet(1) [OF resp conn] ok by (auto simp: session_ok_def)
      have "mset (se_pending s) = add_mset (se_pending s ! j) (mset (take j (se_pending s) @ drop (Suc j) (se_pending s)))"
        using arg_cong [OF id_take_nth_drop [OF j], of mset] by simp
      then have "mset (map pr_seq_id (se_pending s)) =
          add_mset (pr_seq_id (se_pending s ! j)) (mset (map pr_seq_id (take j (se_pending s) @ drop (Suc j) (se_pending s))))"
        by (metis mset_map image_mset_add_mset)
      then show ?thesis using ok p respond_packet(2) [OF resp conn] RequestDone
        by (simp add: s' c session_ok_def session_packets_def response_ids_def map_filter_append map_filter_simps)
    qed (simp add: RequestDone ok)
  next
    case (Queued p)
    then show ?thesis using turn ok queued
      by (auto simp: send_packet_def session_ok_def session_packets_def response_ids_def map_filter_append map_filter_simps)
  next
    case (NodeTask t)
    then show ?thesis using turn ok by (auto simp: and_then_Inr_iff session_ok_def session_packets_def dest: run_task_codecs)
  next
    case (SinkFailed e)
    then show ?thesis using turn ok by (auto split: option.splits)
  qed (use turn in simp_all)
  then show ?ok ?count ?order by blast+
qed

lemma session_run_accounts:
  assumes "session_run r evs s = Inr (Going s')" "session_ok cs k s" "keeps_seq_ids cs k"
    "\<forall>p \<in> set (concat (map event_queued evs)). response_id cs p = None"
  shows "mset (concat (map (event_requests cs) evs)) + mset (map pr_seq_id (se_pending s)) +
        mset (response_ids cs (session_packets s)) =
      mset (map pr_seq_id (se_pending s')) + mset (response_ids cs (session_packets s')) \<and>
    filter (\<lambda>p. response_id cs p = None) (session_packets s') =
      filter (\<lambda>p. response_id cs p = None) (session_packets s) @ concat (map event_queued evs)"
  using assms
proof (induction evs arbitrary: s)
  case (Cons ev evs)
  obtain st where "session_turn r ev s = Inr st"
    "(case st of Going s1 \<Rightarrow> session_run r evs s1 | Over e s1 \<Rightarrow> Inr (Over e s1)) = Inr (Going s')"
    using Cons.prems(1) by (auto simp: and_then_Inr_iff)
  then obtain s1 where t: "session_turn r ev s = Inr (Going s1)" and run: "session_run r evs s1 = Inr (Going s')"
    by (cases st) simp_all
  have q: "\<forall>p \<in> set (event_queued ev). response_id cs p = None" using Cons.prems(4) by simp
  note turn = session_turn_accounts [OF t Cons.prems(2,3) q]
  have "mset (concat (map (event_requests cs) evs)) + mset (map pr_seq_id (se_pending s1)) +
        mset (response_ids cs (session_packets s1)) =
      mset (map pr_seq_id (se_pending s')) + mset (response_ids cs (session_packets s')) \<and>
    filter (\<lambda>p. response_id cs p = None) (session_packets s') =
      filter (\<lambda>p. response_id cs p = None) (session_packets s1) @ concat (map event_queued evs)"
    using Cons.IH [OF run turn(1) Cons.prems(3)] Cons.prems(4) by simp
  moreover have "mset (concat (map (event_requests cs) (ev # evs))) + mset (map pr_seq_id (se_pending s)) +
        mset (response_ids cs (session_packets s)) =
      mset (concat (map (event_requests cs) evs)) +
        (mset (event_requests cs ev) + mset (map pr_seq_id (se_pending s)) + mset (response_ids cs (session_packets s)))"
    by (simp add: ac_simps)
  ultimately show ?case using turn(3) unfolding turn(2) by (simp add: ac_simps)
qed simp

text \<open>
  (C20) Every request on an edge connection is answered once, and what is sent over it keeps its order.
  From the start of a connection, after any sequence of packets that come in, tasks of requests that
  end, tasks of the node that run and packets that other tasks send: the requests that came in are
  exactly those whose task is still waiting together with those whose response is written or on its
  way, each with the sequence id of its request, and the packets of the other tasks are written or on
  their way in the order in which they were sent, none lost and none twice.
\<close>

theorem session_answers_once:
  assumes "connection_init (sn_codecs n) k peer inst True = Inr c"
    and "session_run r evs (session_new n c) = Inr (Going s)"
    and "keeps_seq_ids (sn_codecs n) k"
    and "\<forall>p \<in> set (concat (map event_queued evs)). response_id (sn_codecs n) p = None"
  shows "mset (concat (map (event_requests (sn_codecs n)) evs)) =
      mset (map pr_seq_id (se_pending s)) + mset (response_ids (sn_codecs n) (session_packets s)) \<and>
    filter (\<lambda>p. response_id (sn_codecs n) p = None) (session_packets s) = concat (map event_queued evs)"
proof -
  have "session_ok (sn_codecs n) k (session_new n c)"
    using assms(1) by (auto simp: connection_init_def session_ok_def session_new_def registry_get_def split: option.splits)
  moreover have "ec_outbound c = []" using assms(1) by (auto simp: connection_init_def split: option.splits)
  ultimately show ?thesis using session_run_accounts [OF assms(2) _ assms(3,4)]
    by (simp add: session_new_def session_packets_def response_ids_def map_filter_simps)
qed

section \<open>Witness\<close>

text \<open>A codec of requests and responses that keeps their sequence ids, and a request over it.\<close>

fun example_decode :: "bytes \<Rightarrow> string + edge_payload" where
  "example_decode (b # bs) =
    (if b = 0 then Inr (PayloadRequest \<lparr>rq_seq_id = u32_from_be_bytes bs,
       rq_request = ReqEndpointOffline \<lparr>eoff_topic_code = example_topic, eoff_endpoint = EndpointAddr [9]\<rparr>\<rparr>)
     else Inr (PayloadResponse \<lparr>rs_seq_id = u32_from_be_bytes bs, rs_result = EdgeOk RespEndpointOffline\<rparr>))"
| "example_decode [] = Inr (PayloadPush (PushMessage [EndpointAddr [1]] (example_message 3 Online)))"

fun example_encode :: "edge_payload \<Rightarrow> bytes" where
  "example_encode (PayloadResponse resp) = 1 # u32_to_be_bytes (rs_seq_id resp)"
| "example_encode _ = []"

definition session_server :: server_node where
  "session_server = example_server\<lparr>sn_codecs := [(JSON, \<lparr>codec_encode = example_encode, codec_decode = example_decode\<rparr>)]\<rparr>"

definition example_packet_of :: "bytes \<Rightarrow> edge_packet" where
  "example_packet_of bs = edge_packet_new (EdgePacketId []) JSON bs"

definition session_events :: "session_event list" where
  "session_events = [NextPacket (example_packet_of (0 # u32_to_be_bytes 5)), Queued (example_packet_of []),
    RequestDone 0, OutboundReady]"

theorem session_answers_once_witness:
  "\<exists>c s. connection_init (sn_codecs session_server) JSON (NodeId [7]) 0 True = Inr c \<and>
    session_run (single_node_raft (NodeId [1])) session_events (session_new session_server c) = Inr (Going s) \<and>
    se_pending s = [] \<and> mset (response_ids (sn_codecs session_server) (session_packets s)) = {#5#} \<and>
    filter (\<lambda>p. response_id (sn_codecs session_server) p = None) (session_packets s) = [example_packet_of []]"
proof -
  let ?cs = "sn_codecs session_server"
  obtain c where init: "connection_init ?cs JSON (NodeId [7]) 0 True = Inr c"
    by (simp add: connection_init_def registry_get_def session_server_def)
  then have c: "c = \<lparr>ec_instance = 0, ec_codecs = ?cs, ec_preferred = JSON, ec_peer = NodeId [7], ec_alive = True,
      ec_receiving = True, ec_outbound = []\<rparr>"
    by (simp add: connection_init_def registry_get_def session_server_def)
  obtain s where run: "session_run (single_node_raft (NodeId [1])) session_events (session_new session_server c) = Inr (Going s)"
    "se_pending s = []"
    by (simp add: c session_events_def session_new_def session_server_def packet_in_def example_packet_of_def
        edge_packet_new_def registry_decode_def registry_encode_def handle_edge_request_def check_ep_auth_def get_edge_routing_def
        respond_def finish_request_def encode_packet_def draw_packet_eq send_packet_def packet_out_def)
  have keeps: "keeps_seq_ids ?cs JSON"
    by (auto simp: keeps_seq_ids_def registry_encode_def registry_decode_def session_server_def)
  have queued: "\<forall>p \<in> set (concat (map event_queued session_events)). response_id ?cs p = None"
    by (simp add: session_events_def response_id_def packet_payload_def registry_decode_def session_server_def
        example_packet_of_def edge_packet_new_def)
  have "concat (map (event_requests ?cs) session_events) = [5]"
    "concat (map event_queued session_events) = [example_packet_of []]"
    by (simp_all add: session_events_def packet_payload_def registry_decode_def session_server_def
        example_packet_of_def edge_packet_new_def)
  then show ?thesis using session_answers_once [OF init run(1) keeps queued] init run by (intro exI [of _ c] exI [of _ s]) auto
qed

end
