(* ===== verification/MQ_Tcp.thy ===== *)
theory MQ_Tcp
  imports MQ_Edge
begin

text \<open>
  The framing of edge packets over TCP (\<open>edge/connection/tokio_tcp.rs\<close>): the reading state machine
  of \<open>poll_next\<close>, and the sending side with \<open>start_send\<close> and \<open>poll_flush\<close>.

  The socket is a list of chunks that have arrived and are not read yet, with what comes behind
  them: nothing yet, the end of the stream, or an error.  A loop of \<open>poll_next\<close> or \<open>poll_flush\<close> has
  fuel; without fuel left the result is \<open>None\<close>.
\<close>

section \<open>The socket\<close>

datatype stream_tail = Open | Eof | Broken

record tcp_source =
  chunks :: "bytes list"
  tail :: stream_tail

datatype 'a io_poll = PollPending | PollReady 'a

text \<open>\<open>poll_read\<close> into a buffer with room for \<open>cap\<close> bytes; at the end of the stream it reads nothing.\<close>

definition poll_read :: "nat \<Rightarrow> tcp_source \<Rightarrow> (unit + bytes) io_poll \<times> tcp_source" where
  "poll_read cap src =
    (case chunks src of
       c # cs \<Rightarrow>
         if length c \<le> cap then (PollReady (Inr c), src\<lparr>chunks := cs\<rparr>)
         else (PollReady (Inr (take cap c)), src\<lparr>chunks := drop cap c # cs\<rparr>)
     | [] \<Rightarrow>
         (case tail src of
            Open \<Rightarrow> (PollPending, src)
          | Eof \<Rightarrow> (PollReady (Inr []), src)
          | Broken \<Rightarrow> (PollReady (Inl ()), src)))"

section \<open>Reading\<close>

datatype read_state = ExpectingHeader | ExpectingPayload
datatype write_state = WReady | WritingHeader | WritingPayload

abbreviation EXTENDED_HEADER_SIZE :: nat where "EXTENDED_HEADER_SIZE \<equiv> 21"

record tokio_tcp =
  read_state :: read_state
  read_header_buf :: bytes
  read_payload_size :: u32
  read_payload_buf :: bytes
  read_index :: nat
  read_header :: "edge_packet_header option"
  write_header_buf :: bytes
  write_payload_buf :: bytes
  write_state :: write_state
  write_index :: nat

definition tokio_tcp_new :: tokio_tcp where
  "tokio_tcp_new =
    \<lparr>read_state = ExpectingHeader, read_header_buf = replicate 21 0, read_payload_size = 0, read_payload_buf = [],
     read_index = 0, read_header = None, write_header_buf = replicate 21 0, write_payload_buf = [],
     write_state = WReady, write_index = 0\<rparr>"

text \<open>Bytes read into a buffer from an index on.\<close>

definition fill :: "nat \<Rightarrow> bytes \<Rightarrow> bytes \<Rightarrow> bytes" where
  "fill i bs buf = take i buf @ bs @ drop (i + length bs) buf"

text \<open>
  One turn of the loop: it returns from the poll, goes round again, or panics.  The payload
  buffer is not initialised in the code; the model has zeros there.
\<close>

datatype read_turn =
    Again tcp_source tokio_tcp
  | Return "(unit + edge_packet) io_poll" tcp_source tokio_tcp
  | ReadPanic panic

definition read_header_turn :: "tcp_source \<Rightarrow> tokio_tcp \<Rightarrow> read_turn" where
  "read_header_turn src st =
    (let cap = EXTENDED_HEADER_SIZE - read_index st in
     case poll_read cap src of
       (PollPending, src) \<Rightarrow> Return PollPending src st
     | (PollReady (Inl _), src) \<Rightarrow> Return (PollReady (Inl ())) src st
     | (PollReady (Inr bs), src) \<Rightarrow>
         (let buf = fill (read_index st) bs (read_header_buf st); remaining = cap - length bs in
          if remaining = 0 then
            (let size = u32_from_be_bytes (sub_slice 17 21 buf) in
             Again src (st\<lparr>read_header_buf := buf, read_state := ExpectingPayload, read_index := 0,
               read_payload_size := size, read_payload_buf := replicate (unat size) 0,
               read_header := Some \<lparr>eph_id = EdgePacketId (sub_slice 0 16 buf), eph_codec = buf ! 16\<rparr>\<rparr>))
          else Again src (st\<lparr>read_header_buf := buf, read_index := EXTENDED_HEADER_SIZE - remaining\<rparr>)))"

definition read_payload_turn :: "tcp_source \<Rightarrow> tokio_tcp \<Rightarrow> read_turn" where
  "read_payload_turn src st =
    (let payload_size = unat (read_payload_size st) in
     if payload_size = 0 then
       (case read_header st of
          None \<Rightarrow> ReadPanic HeaderNotSet
        | Some h \<Rightarrow>
            Return (PollReady (Inr \<lparr>ep_header = h, ep_payload = []\<rparr>)) src
              (st\<lparr>read_header := None, read_state := ExpectingHeader\<rparr>))
     else
       (let cap = length (read_payload_buf st) - read_index st in
        case poll_read cap src of
          (PollPending, src) \<Rightarrow> Return PollPending src st
        | (PollReady (Inl _), src) \<Rightarrow> Return (PollReady (Inl ())) src st
        | (PollReady (Inr bs), src) \<Rightarrow>
            (let buf = fill (read_index st) bs (read_payload_buf st); remain = cap - length bs in
             if remain = 0 then
               (case read_header st of
                  None \<Rightarrow> ReadPanic HeaderNotSet
                | Some h \<Rightarrow>
                    Return (PollReady (Inr \<lparr>ep_header = h, ep_payload = buf\<rparr>)) src
                      (st\<lparr>read_header := None, read_payload_buf := [], read_state := ExpectingHeader, read_index := 0\<rparr>))
             else Again src (st\<lparr>read_payload_buf := buf, read_index := payload_size - remain\<rparr>))))"

definition one_read_turn :: "tcp_source \<Rightarrow> tokio_tcp \<Rightarrow> read_turn" where
  "one_read_turn src st =
    (case read_state st of ExpectingHeader \<Rightarrow> read_header_turn src st | ExpectingPayload \<Rightarrow> read_payload_turn src st)"

fun poll_next :: "nat \<Rightarrow> tcp_source \<Rightarrow> tokio_tcp \<Rightarrow> (((unit + edge_packet) io_poll \<times> tcp_source \<times> tokio_tcp) outcome) option" where
  "poll_next 0 src st = None"
| "poll_next (Suc fuel) src st =
    (case one_read_turn src st of
       Again src st \<Rightarrow> poll_next fuel src st
     | Return r src st \<Rightarrow> Some (Inr (r, src, st))
     | ReadPanic p \<Rightarrow> Some (Inl p))"

section \<open>Writing\<close>

text \<open>\<open>poll_ready\<close> and \<open>poll_close\<close> ask the socket and name what failed.\<close>

definition map_io_error :: "string \<Rightarrow> ('e + unit) io_poll \<Rightarrow> ('e \<times> string + unit) io_poll" where
  "map_io_error what r =
    (case r of
       PollPending \<Rightarrow> PollPending
     | PollReady (Inl e) \<Rightarrow> PollReady (Inl (e, what))
     | PollReady (Inr u) \<Rightarrow> PollReady (Inr u))"

definition poll_ready :: "('e + unit) io_poll \<Rightarrow> tokio_tcp \<Rightarrow> ('e \<times> string + unit) io_poll \<times> tokio_tcp" where
  "poll_ready write_ready st = (map_io_error ''failed to poll ready'' write_ready, st)"

definition poll_close :: "('e + unit) io_poll \<Rightarrow> tokio_tcp \<Rightarrow> ('e \<times> string + unit) io_poll \<times> tokio_tcp" where
  "poll_close shutdown st = (map_io_error ''failed to shutdown'' shutdown, st)"

text \<open>\<open>usize::to_be_bytes\<close> on a 64-bit machine has eight bytes.\<close>

definition start_send :: "edge_packet \<Rightarrow> tokio_tcp \<Rightarrow> tokio_tcp outcome" where
  "start_send item st =
    and_then (copy_from_slice 0 16 (packet_id_bytes (eph_id (ep_header item))) (write_header_buf st)) (\<lambda>buf.
    let buf = buf[16 := eph_codec (ep_header item)] in
    and_then (copy_from_slice 17 21 (u64_to_be_bytes (of_nat (length (ep_payload item)))) buf) (\<lambda>buf.
    Inr (st\<lparr>write_header_buf := buf, write_payload_buf := ep_payload item\<rparr>)))"

text \<open>
  \<open>poll_flush\<close> writes the buffers out; the socket takes some of the bytes it is offered: the next
  number in the list, or as many as are offered.
\<close>

definition poll_write :: "bytes \<Rightarrow> nat list \<Rightarrow> (nat \<times> nat list) option" where
  "poll_write bs room = (case room of [] \<Rightarrow> None | k # ks \<Rightarrow> Some (min k (length bs), ks))"

fun poll_flush :: "nat \<Rightarrow> nat list \<Rightarrow> bytes \<Rightarrow> tokio_tcp \<Rightarrow> (unit io_poll \<times> nat list \<times> bytes \<times> tokio_tcp) option" where
  "poll_flush 0 room out st = None"
| "poll_flush (Suc fuel) room out st =
    (case write_state st of
       WReady \<Rightarrow> poll_flush fuel room out (st\<lparr>write_state := WritingHeader\<rparr>)
     | WritingHeader \<Rightarrow>
         (let offer = drop (write_index st) (write_header_buf st) in
          case poll_write offer room of
            None \<Rightarrow> Some (PollPending, room, out, st)
          | Some (written, room) \<Rightarrow>
              (let out = out @ take written offer; st = st\<lparr>write_index := write_index st + written\<rparr> in
               if write_index st = EXTENDED_HEADER_SIZE
               then poll_flush fuel room out (st\<lparr>write_state := WritingPayload, write_index := 0\<rparr>)
               else poll_flush fuel room out st))
     | WritingPayload \<Rightarrow>
         (let offer = drop (write_index st) (write_payload_buf st) in
          case poll_write offer room of
            None \<Rightarrow> Some (PollPending, room, out, st)
          | Some (written, room) \<Rightarrow>
              (let out = out @ take written offer; st = st\<lparr>write_index := write_index st + written\<rparr> in
               if write_index st = length (write_payload_buf st)
               then Some (PollReady (), room, out, st\<lparr>write_state := WReady, write_index := 0\<rparr>)
               else poll_flush fuel room out st)))"

section \<open>Sending panics\<close>

text \<open>
  Sending a packet always panics: the length of the payload has eight bytes and the field four.
\<close>

theorem start_send_panics: "start_send item st = Inl SliceLength"
proof (cases "length (packet_id_bytes (eph_id (ep_header item))) = 16")
  case True
  then show ?thesis by (simp add: start_send_def copy_from_slice_def)
qed (simp add: start_send_def copy_from_slice_def)

section \<open>Reading is parsing\<close>

text \<open>The layout of a packet on the wire, and a parser that sees the whole stream at once.\<close>

definition frame :: "edge_packet \<Rightarrow> bytes" where
  "frame p = packet_id_bytes (eph_id (ep_header p)) @ [eph_codec (ep_header p)] @
    u32_to_be_bytes (of_nat (length (ep_payload p))) @ ep_payload p"

definition header_of :: "bytes \<Rightarrow> edge_packet_header" where
  "header_of bs = \<lparr>eph_id = EdgePacketId (sub_slice 0 16 bs), eph_codec = bs ! 16\<rparr>"

definition size_of :: "bytes \<Rightarrow> u32" where
  "size_of bs = u32_from_be_bytes (sub_slice 17 21 bs)"

definition parse_frame :: "bytes \<Rightarrow> (edge_packet \<times> bytes) option" where
  "parse_frame bs =
    (if length bs < 21 \<or> length bs < 21 + unat (size_of bs) then None
     else Some (\<lparr>ep_header = header_of bs, ep_payload = take (unat (size_of bs)) (drop 21 bs)\<rparr>,
                drop (21 + unat (size_of bs)) bs))"

text \<open>A packet that fits: its identifier has 16 bytes, and its length is a \<open>u32\<close>.\<close>

definition packet_ok :: "edge_packet \<Rightarrow> bool" where
  "packet_ok p \<longleftrightarrow> length (packet_id_bytes (eph_id (ep_header p))) = 16 \<and> length (ep_payload p) < 2 ^ 32"

lemma parse_frame_frame:
  assumes "packet_ok p"
  shows "parse_frame (frame p @ rest) = Some (p, rest)"
proof -
  let ?id = "packet_id_bytes (eph_id (ep_header p))" and ?n = "of_nat (length (ep_payload p)) :: u32"
  have n: "unat ?n = length (ep_payload p)" using assms by (simp add: packet_ok_def unat_of_nat)
  have size: "size_of (frame p @ rest) = ?n"
    using assms by (simp add: size_of_def sub_slice_def frame_def packet_ok_def)
  have "header_of (frame p @ rest) = ep_header p"
    using assms by (simp add: header_of_def sub_slice_def frame_def packet_ok_def nth_append)
  then show ?thesis
    using assms by (simp add: parse_frame_def size n) (simp add: frame_def packet_ok_def)
qed

lemma header_prefix:
  assumes "length h = 21"
  shows "size_of (h @ bs) = size_of h" "header_of (h @ bs) = header_of h"
  using assms by (simp_all add: size_of_def header_of_def sub_slice_def nth_append)

text \<open>What the reader has taken of the packet it is reading, and when its buffers are consistent.\<close>

definition buffered :: "tokio_tcp \<Rightarrow> bytes" where
  "buffered st =
    (case read_state st of
       ExpectingHeader \<Rightarrow> take (read_index st) (read_header_buf st)
     | ExpectingPayload \<Rightarrow> read_header_buf st @ take (read_index st) (read_payload_buf st))"

definition reader_inv :: "tokio_tcp \<Rightarrow> bool" where
  "reader_inv st \<longleftrightarrow> length (read_header_buf st) = 21 \<and>
    (case read_state st of
       ExpectingHeader \<Rightarrow> read_index st < 21
     | ExpectingPayload \<Rightarrow>
         read_header st = Some (header_of (read_header_buf st)) \<and>
         read_payload_size st = size_of (read_header_buf st) \<and>
         length (read_payload_buf st) = unat (read_payload_size st) \<and>
         (if read_payload_size st = 0 then read_index st = 0 else read_index st < unat (read_payload_size st)))"

definition source_ok :: "tcp_source \<Rightarrow> bool" where
  "source_ok src \<longleftrightarrow> tail src = Open \<and> [] \<notin> set (chunks src)"

definition the_stream :: "tcp_source \<Rightarrow> tokio_tcp \<Rightarrow> bytes" where
  "the_stream src st = buffered st @ concat (chunks src)"

lemma poll_read_chunk:
  assumes "source_ok src" "chunks src \<noteq> []" "0 < cap"
  obtains bs src' where "poll_read cap src = (PollReady (Inr bs), src')" "bs \<noteq> []" "length bs \<le> cap"
    "concat (chunks src) = bs @ concat (chunks src')" "source_ok src'"
proof -
  obtain c cs where c: "chunks src = c # cs" "c \<noteq> []" "[] \<notin> set cs" "tail src = Open"
    using assms(1,2) by (cases "chunks src") (auto simp: source_ok_def)
  show ?thesis
  proof (cases "length c \<le> cap")
    case True
    with c show ?thesis by (intro that [of c "src\<lparr>chunks := cs\<rparr>"]) (simp_all add: poll_read_def source_ok_def)
  next
    case False
    with c assms(3) show ?thesis
      by (intro that [of "take cap c" "src\<lparr>chunks := drop cap c # cs\<rparr>"]) (auto simp: poll_read_def source_ok_def)
  qed
qed

lemma poll_read_empty: "source_ok src \<Longrightarrow> chunks src = [] \<Longrightarrow> poll_read cap src = (PollPending, src)"
  by (simp add: poll_read_def source_ok_def)

lemma fill_take: "i \<le> length buf \<Longrightarrow> take (i + length bs) (fill i bs buf) = take i buf @ bs"
  by (simp add: fill_def)

lemma fill_all: "i + length bs = length buf \<Longrightarrow> fill i bs buf = take i buf @ bs"
  by (simp add: fill_def)

lemma length_fill: "i + length bs \<le> length buf \<Longrightarrow> length (fill i bs buf) = length buf"
  by (simp add: fill_def)

text \<open>
  What one turn of the loop owes: going round again, it has moved bytes from the socket to the
  buffers and lost none; returning, it agrees with the parser on the whole stream.
\<close>

fun turn_ok :: "tcp_source \<Rightarrow> tokio_tcp \<Rightarrow> read_turn \<Rightarrow> bool" where
  "turn_ok src st (Again src' st') \<longleftrightarrow> source_ok src' \<and> reader_inv st' \<and>
    the_stream src' st' = the_stream src st \<and> length (concat (chunks src')) < length (concat (chunks src))"
| "turn_ok src st (Return r src' st') \<longleftrightarrow> source_ok src' \<and> reader_inv st' \<and>
    (case parse_frame (the_stream src st) of
       None \<Rightarrow> r = PollPending \<and> chunks src' = [] \<and> buffered st' = the_stream src st
     | Some (p, rest) \<Rightarrow> r = PollReady (Inr p) \<and> buffered st' = [] \<and> concat (chunks src') = rest)"
| "turn_ok src st (ReadPanic p) \<longleftrightarrow> False"

lemma header_turn_ok:
  assumes src: "source_ok src" and inv: "reader_inv st" and h: "read_state st = ExpectingHeader"
  shows "turn_ok src st (read_header_turn src st)"
proof (cases "chunks src = []")
  case True
  have "length (buffered st) < 21" using inv h by (simp add: buffered_def reader_inv_def)
  then show ?thesis using True src inv poll_read_empty [OF src True]
    by (simp add: read_header_turn_def the_stream_def parse_frame_def)
next
  case False
  have idx: "read_index st < 21" "length (read_header_buf st) = 21" using inv h by (simp_all add: reader_inv_def)
  then obtain bs src' where r: "poll_read (21 - read_index st) src = (PollReady (Inr bs), src')" "bs \<noteq> []"
    "length bs \<le> 21 - read_index st" "concat (chunks src) = bs @ concat (chunks src')" "source_ok src'"
    using poll_read_chunk [OF src False, of "21 - read_index st"] by auto
  let ?buf = "fill (read_index st) bs (read_header_buf st)"
  have len: "length ?buf = 21" using length_fill [of "read_index st" bs "read_header_buf st"] idx r(3) by simp
  show ?thesis
  proof (cases "length bs = 21 - read_index st")
    case True
    then have buf: "?buf = take (read_index st) (read_header_buf st) @ bs" using idx by (intro fill_all) simp
    let ?size = "u32_from_be_bytes (sub_slice 17 21 ?buf)"
    have "read_header_turn src st = Again src' (st\<lparr>read_header_buf := ?buf, read_state := ExpectingPayload, read_index := 0,
               read_payload_size := ?size, read_payload_buf := replicate (unat ?size) 0,
               read_header := Some (header_of ?buf)\<rparr>)"
      using r(1) True by (simp add: read_header_turn_def header_of_def Let_def)
    then show ?thesis using r(2,4,5) len h buf
      by (simp add: reader_inv_def the_stream_def buffered_def size_of_def unat_gt_0)
  next
    case False
    then have small: "length bs < 21 - read_index st" using r(3) by simp
    have "read_header_turn src st = Again src' (st\<lparr>read_header_buf := ?buf, read_index := read_index st + length bs\<rparr>)"
      using r(1) small idx by (simp add: read_header_turn_def Let_def)
    then show ?thesis using r(2,4,5) len h small idx fill_take [of "read_index st" "read_header_buf st" bs]
      by (simp add: reader_inv_def the_stream_def buffered_def)
  qed
qed

lemma payload_turn_ok:
  assumes src: "source_ok src" and inv: "reader_inv st" and h: "read_state st = ExpectingPayload"
  shows "turn_ok src st (read_payload_turn src st)"
proof -
  let ?hb = "read_header_buf st" and ?pb = "read_payload_buf st" and ?size = "unat (read_payload_size st)"
  have i: "length ?hb = 21" "read_header st = Some (header_of ?hb)" "read_payload_size st = size_of ?hb"
    "length ?pb = ?size" "if read_payload_size st = 0 then read_index st = 0 else read_index st < ?size"
    using inv unfolding reader_inv_def h read_state.case by blast+
  have str: "the_stream src st = ?hb @ take (read_index st) ?pb @ concat (chunks src)"
    using h by (simp add: the_stream_def buffered_def)
  have size: "size_of (the_stream src st) = read_payload_size st" "header_of (the_stream src st) = header_of ?hb"
    unfolding str using header_prefix [OF i(1)] i(3) by simp_all
  show ?thesis
  proof (cases "read_payload_size st = 0")
    case True
    then have "parse_frame (the_stream src st) = Some (\<lparr>ep_header = header_of ?hb, ep_payload = []\<rparr>, concat (chunks src))"
      using i by (simp add: parse_frame_def size) (simp add: str)
    then show ?thesis using True i src h by (simp add: read_payload_turn_def reader_inv_def buffered_def)
  next
    case nz: False
    then have idx: "read_index st < ?size" "?size \<noteq> 0" using i(5) by (simp_all add: unat_eq_0)
    show ?thesis
    proof (cases "chunks src = []")
      case True
      then have "length (the_stream src st) < 21 + ?size" unfolding str using i idx by simp
      then have "parse_frame (the_stream src st) = None" by (simp add: parse_frame_def size)
      then show ?thesis using True src inv idx poll_read_empty [OF src True]
        by (simp add: read_payload_turn_def the_stream_def Let_def)
    next
      case False
      obtain bs src' where r: "poll_read (length ?pb - read_index st) src = (PollReady (Inr bs), src')" "bs \<noteq> []"
        "length bs \<le> length ?pb - read_index st" "concat (chunks src) = bs @ concat (chunks src')" "source_ok src'"
        using poll_read_chunk [OF src False, of "length ?pb - read_index st"] idx i(4) by auto
      let ?buf = "fill (read_index st) bs ?pb"
      show ?thesis
      proof (cases "length bs = length ?pb - read_index st")
        case True
        then have buf: "?buf = take (read_index st) ?pb @ bs" using idx i(4) by (intro fill_all) simp
        have "parse_frame (the_stream src st) = Some (\<lparr>ep_header = header_of ?hb, ep_payload = ?buf\<rparr>, concat (chunks src'))"
          using True i idx r(4) by (simp add: parse_frame_def size buf) (simp add: str)
        then show ?thesis using True idx r(1,5) i by (simp add: read_payload_turn_def reader_inv_def buffered_def Let_def)
      next
        case False
        then have small: "length bs < ?size - read_index st" using r(3) i(4) by simp
        then have not_full: "\<not> ?size \<le> read_index st + length bs" "length bs \<le> ?size - read_index st" using idx by simp_all
        have len: "length ?buf = ?size" using length_fill [of "read_index st" bs ?pb] i(4) small by simp
        have "read_payload_turn src st = Again src' (st\<lparr>read_payload_buf := ?buf, read_index := read_index st + length bs\<rparr>)"
          using r(1) not_full idx i(4) by (simp add: read_payload_turn_def Let_def)
        then show ?thesis using r(2,4,5) len small idx i fill_take [of "read_index st" ?pb bs] nz h str
          by (simp add: reader_inv_def the_stream_def buffered_def)
      qed
    qed
  qed
qed

lemma read_turn_ok: "source_ok src \<Longrightarrow> reader_inv st \<Longrightarrow> turn_ok src st (one_read_turn src st)"
  by (cases "read_state st") (simp_all add: one_read_turn_def header_turn_ok payload_turn_ok)

lemma poll_next_parses:
  assumes "source_ok src" "reader_inv st" "length (concat (chunks src)) < fuel"
  shows "\<exists>r src' st'. poll_next fuel src st = Some (Inr (r, src', st')) \<and> turn_ok src st (Return r src' st')"
  using assms
proof (induction fuel arbitrary: src st)
  case (Suc fuel)
  have ok: "turn_ok src st (one_read_turn src st)" using read_turn_ok Suc.prems by blast
  show ?case
  proof (cases "one_read_turn src st")
    case (Again src1 st1)
    with ok have a: "source_ok src1" "reader_inv st1" "the_stream src1 st1 = the_stream src st"
      "length (concat (chunks src1)) < length (concat (chunks src))" by simp_all
    then obtain r src' st' where "poll_next fuel src1 st1 = Some (Inr (r, src', st'))" "turn_ok src1 st1 (Return r src' st')"
      using Suc.IH [OF a(1,2)] Suc.prems(3) by auto
    then show ?thesis using Again unfolding turn_ok.simps a(3) by auto
  qed (use ok in auto)
qed simp

text \<open>A connection over time: chunks arrive one after the other, and after each the reader is polled until it waits.\<close>

fun poll_all :: "nat \<Rightarrow> nat \<Rightarrow> tcp_source \<Rightarrow> tokio_tcp \<Rightarrow> (edge_packet list \<times> tcp_source \<times> tokio_tcp) option" where
  "poll_all 0 fuel src st = None"
| "poll_all (Suc k) fuel src st =
    (case poll_next fuel src st of
       Some (Inr (PollPending, src, st)) \<Rightarrow> Some ([], src, st)
     | Some (Inr (PollReady (Inr p), src, st)) \<Rightarrow>
         (case poll_all k fuel src st of None \<Rightarrow> None | Some (ps, src, st) \<Rightarrow> Some (p # ps, src, st))
     | _ \<Rightarrow> None)"

fun receive_chunks :: "nat \<Rightarrow> nat \<Rightarrow> bytes list \<Rightarrow> tokio_tcp \<Rightarrow> (edge_packet list \<times> tokio_tcp) option" where
  "receive_chunks k fuel [] st = Some ([], st)"
| "receive_chunks k fuel (c # cs) st =
    (case poll_all k fuel \<lparr>chunks = [c], tail = Open\<rparr> st of
       None \<Rightarrow> None
     | Some (ps, _, st) \<Rightarrow>
         (case receive_chunks k fuel cs st of None \<Rightarrow> None | Some (qs, st) \<Rightarrow> Some (ps @ qs, st)))"

text \<open>The packets of a stream, by the parser alone.\<close>

function parse_all :: "bytes \<Rightarrow> edge_packet list \<times> bytes" where
  "parse_all bs =
    (case parse_frame bs of None \<Rightarrow> ([], bs) | Some (p, rest) \<Rightarrow> (let (ps, r) = parse_all rest in (p # ps, r)))"
  by pat_completeness auto

termination
  by (relation "measure length") (auto simp: parse_frame_def split: if_splits)

declare parse_all.simps [simp del]

lemma parse_frame_append: "parse_frame bs = Some (p, rest) \<Longrightarrow> parse_frame (bs @ cs) = Some (p, rest @ cs)"
  unfolding parse_frame_def
  by (auto simp: size_of_def header_of_def sub_slice_def nth_append split: if_splits)

lemma parse_all_append:
  "parse_all (bs @ cs) = (let (ps, r) = parse_all bs; (qs, r') = parse_all (r @ cs) in (ps @ qs, r'))"
proof (induction bs rule: parse_all.induct)
  case (1 bs)
  show ?case
  proof (cases "parse_frame bs")
    case None
    then show ?thesis by (simp add: parse_all.simps [of bs] case_prod_beta)
  next
    case (Some x)
    obtain p rest where x: "parse_frame bs = Some (p, rest)" using Some by (cases x) simp
    show ?thesis
      using parse_frame_append [OF x, of cs] 1 [OF x refl] x
      by (simp add: parse_all.simps [of bs] parse_all.simps [of "bs @ cs"] case_prod_beta Let_def)
  qed
qed

lemma parse_all_frames:
  "\<forall>p \<in> set ps. packet_ok p \<Longrightarrow> parse_all (concat (map frame ps)) = (ps, [])"
proof (induction ps)
  case Nil
  then show ?case by (simp add: parse_all.simps parse_frame_def)
next
  case (Cons p ps)
  then show ?case by (simp add: parse_all.simps [of "frame p @ _"] parse_frame_frame)
qed

lemma poll_all_parses:
  assumes "source_ok src" "reader_inv st" "length (the_stream src st) < fuel" "length (the_stream src st) < k"
  shows "\<exists>src' st'. poll_all k fuel src st = Some (fst (parse_all (the_stream src st)), src', st') \<and>
    reader_inv st' \<and> buffered st' = snd (parse_all (the_stream src st))"
  using assms
proof (induction k arbitrary: src st)
  case (Suc k)
  obtain r src' st' where n: "poll_next fuel src st = Some (Inr (r, src', st'))" "turn_ok src st (Return r src' st')"
    using poll_next_parses [OF Suc.prems(1,2), of fuel] Suc.prems(3) by (auto simp: the_stream_def)
  show ?case
  proof (cases "parse_frame (the_stream src st)")
    case None
    then show ?thesis using n by (simp add: parse_all.simps)
  next
    case (Some x)
    then obtain p rest where x: "parse_frame (the_stream src st) = Some (p, rest)" by (cases x) simp
    with n have s: "source_ok src'" "reader_inv st'" "r = PollReady (Inr p)" "the_stream src' st' = rest"
      "concat (chunks src') = rest" by (simp_all add: the_stream_def)
    have len: "length rest < length (the_stream src st)" using x by (auto simp: parse_frame_def split: if_splits)
    obtain src2 st2 where "poll_all k fuel src' st' = Some (fst (parse_all rest), src2, st2)"
      "reader_inv st2" "buffered st2 = snd (parse_all rest)"
      using Suc.IH [OF s(1,2)] s(4) len Suc.prems(3,4) by auto
    then show ?thesis using n(1) s(3) x by (simp add: parse_all.simps [of "the_stream src st"] case_prod_beta)
  qed
qed simp

lemma parse_all_rest: "parse_frame (snd (parse_all bs)) = None \<and> length (snd (parse_all bs)) \<le> length bs"
proof (induction bs rule: parse_all.induct)
  case (1 bs)
  show ?case
  proof (cases "parse_frame bs")
    case None
    then show ?thesis by (simp add: parse_all.simps [of bs])
  next
    case (Some x)
    obtain p rest where x: "parse_frame bs = Some (p, rest)" using Some by (cases x) simp
    then have "length rest \<le> length bs" by (auto simp: parse_frame_def split: if_splits)
    then show ?thesis using 1 [OF x refl] x by (simp add: parse_all.simps [of bs] case_prod_beta)
  qed
qed

lemma receive_chunks_parses:
  assumes "reader_inv st" "parse_frame (buffered st) = None" "[] \<notin> set cs"
    "length (buffered st) + length (concat cs) < k"
  shows "\<exists>st'. receive_chunks k k cs st = Some (fst (parse_all (buffered st @ concat cs)), st') \<and>
    buffered st' = snd (parse_all (buffered st @ concat cs))"
  using assms
proof (induction cs arbitrary: st)
  case Nil
  then show ?case by (simp add: parse_all.simps)
next
  case (Cons c cs)
  let ?src = "\<lparr>chunks = [c], tail = Open\<rparr>"
  have str: "the_stream ?src st = buffered st @ c" by (simp add: the_stream_def)
  have "source_ok ?src" using Cons.prems(3) by (simp add: source_ok_def)
  from poll_all_parses [OF this Cons.prems(1), of k k] obtain src1 st1 where
    p: "poll_all k k ?src st = Some (fst (parse_all (buffered st @ c)), src1, st1)" "reader_inv st1"
    "buffered st1 = snd (parse_all (buffered st @ c))"
    using Cons.prems(4) unfolding str by auto
  then have "length (buffered st1) \<le> length (buffered st @ c)" "parse_frame (buffered st1) = None"
    using parse_all_rest [of "buffered st @ c"] by simp_all
  then obtain st2 where "receive_chunks k k cs st1 = Some (fst (parse_all (buffered st1 @ concat cs)), st2)"
    "buffered st2 = snd (parse_all (buffered st1 @ concat cs))"
    using Cons.IH [OF p(2)] Cons.prems(3,4) by auto
  then show ?case using p(1,3) parse_all_append [of "buffered st @ c" "concat cs"] by (simp add: case_prod_beta)
qed

text \<open>
  (C18) Framing: however the bytes of a sequence of packets are cut into chunks on their way, the reader
  hands out exactly those packets, in order, and keeps nothing back; enough fuel is the number
  of bytes plus one.
\<close>

theorem frames_received:
  assumes "\<forall>p \<in> set ps. packet_ok p" "concat cs = concat (map frame ps)" "[] \<notin> set cs"
  shows "\<exists>st. receive_chunks (Suc (length (concat cs))) (Suc (length (concat cs))) cs tokio_tcp_new = Some (ps, st) \<and>
    buffered st = []"
proof -
  have "reader_inv tokio_tcp_new" "buffered tokio_tcp_new = []" "parse_frame [] = None"
    by (simp_all add: reader_inv_def buffered_def tokio_tcp_new_def parse_frame_def)
  then show ?thesis
    using receive_chunks_parses [of tokio_tcp_new cs "Suc (length (concat cs))"] parse_all_frames [OF assms(1)] assms(2,3)
    by simp
qed

lemma eof_turn:
  assumes "reader_inv st" "chunks src = []" "tail src = Eof" "read_state st = ExpectingPayload \<longrightarrow> read_payload_size st \<noteq> 0"
  shows "\<exists>st'. one_read_turn src st = Again src st' \<and> reader_inv st' \<and>
    (read_state st' = ExpectingPayload \<longrightarrow> read_payload_size st' \<noteq> 0)"
proof (cases "read_state st")
  case ExpectingHeader
  then show ?thesis using assms
    by (auto simp: one_read_turn_def read_header_turn_def poll_read_def reader_inv_def fill_def)
next
  case ExpectingPayload
  then have "unat (read_payload_size st) \<noteq> 0" using assms(4) by (simp add: unat_eq_0)
  then show ?thesis using ExpectingPayload assms
    by (auto simp: one_read_turn_def read_payload_turn_def poll_read_def reader_inv_def fill_def)
qed

text \<open>
  The end of the stream in the middle of a packet: the reader spins.  Reading gives no bytes, which
  it takes for a short read, and goes round again; no fuel is enough.
\<close>

theorem eof_spins:
  assumes "reader_inv st" "chunks src = []" "tail src = Eof" "read_state st = ExpectingPayload \<longrightarrow> read_payload_size st \<noteq> 0"
  shows "poll_next fuel src st = None"
  using assms
proof (induction fuel arbitrary: st)
  case (Suc fuel)
  obtain st' where "one_read_turn src st = Again src st'" "reader_inv st'"
    "read_state st' = ExpectingPayload \<longrightarrow> read_payload_size st' \<noteq> 0"
    using eof_turn [OF Suc.prems] by blast
  then show ?case using Suc.IH Suc.prems(2,3) by simp
qed simp

section \<open>Flushing\<close>

text \<open>The bytes of the packet in the buffers that are still to be written.\<close>

definition unwritten :: "tokio_tcp \<Rightarrow> bytes" where
  "unwritten st =
    (case write_state st of
       WReady \<Rightarrow> write_header_buf st @ write_payload_buf st
     | WritingHeader \<Rightarrow> drop (write_index st) (write_header_buf st) @ write_payload_buf st
     | WritingPayload \<Rightarrow> drop (write_index st) (write_payload_buf st))"

definition writer_inv :: "tokio_tcp \<Rightarrow> bool" where
  "writer_inv st \<longleftrightarrow> length (write_header_buf st) = 21 \<and>
    (case write_state st of
       WReady \<Rightarrow> write_index st = 0
     | WritingHeader \<Rightarrow> write_index st < 21
     | WritingPayload \<Rightarrow> write_index st < length (write_payload_buf st) \<or> write_index st = 0)"

definition flush_ok :: "bytes \<Rightarrow> tokio_tcp \<Rightarrow> (unit io_poll \<times> nat list \<times> bytes \<times> tokio_tcp) option \<Rightarrow> bool" where
  "flush_ok out st res \<longleftrightarrow>
    (\<exists>r room' out' st'. res = Some (r, room', out', st') \<and> writer_inv st' \<and>
       (case r of
          PollPending \<Rightarrow> room' = [] \<and> out' @ unwritten st' = out @ unwritten st
        | PollReady _ \<Rightarrow> write_state st' = WReady \<and> out' = out @ unwritten st))"

lemma flush_ok_step:
  assumes "flush_ok out1 st1 res" "out1 @ unwritten st1 = out @ unwritten st"
  shows "flush_ok out st res"
  using assms(1) unfolding flush_ok_def assms(2) .

text \<open>One write of the header moves bytes from the buffer to the socket.\<close>

lemma flush_header_step:
  assumes inv: "writer_inv st" "write_state st = WritingHeader" and k: "0 < k"
  obtains out' st' where "poll_flush (Suc fuel) (k # ks) out st = poll_flush fuel ks out' st'"
    "writer_inv st'" "write_state st' \<noteq> WReady" "out' @ unwritten st' = out @ unwritten st"
proof -
  let ?offer = "drop (write_index st) (write_header_buf st)"
  let ?w = "min k (length ?offer)"
  let ?st1 = "st\<lparr>write_index := write_index st + ?w\<rparr>"
  have idx: "write_index st < 21" "length (write_header_buf st) = 21" using inv by (simp_all add: writer_inv_def)
  have all: "take ?w ?offer @ drop ?w ?offer = ?offer" by (rule append_take_drop_id)
  show ?thesis
  proof (cases "write_index st + ?w = 21")
    case True
    then show ?thesis using inv(2) idx
      by (intro that [of "out @ take ?w ?offer" "?st1\<lparr>write_state := WritingPayload, write_index := 0\<rparr>"])
        (simp_all add: poll_write_def Let_def writer_inv_def unwritten_def)
  next
    case False
    then have "k + write_index st \<noteq> 21" using idx by (auto simp: min_def split: if_splits)
    then show ?thesis using False inv(2) idx all k
      by (intro that [of "out @ take ?w ?offer" ?st1])
        (simp_all add: poll_write_def Let_def writer_inv_def unwritten_def add.commute)
  qed
qed

text \<open>One write of the payload ends the flush or moves bytes, too.\<close>

lemma flush_payload_step:
  assumes inv: "writer_inv st" "write_state st = WritingPayload" and k: "0 < k"
  shows "flush_ok out st (poll_flush (Suc fuel) (k # ks) out st) \<or>
    (\<exists>out' st'. poll_flush (Suc fuel) (k # ks) out st = poll_flush fuel ks out' st' \<and>
      writer_inv st' \<and> write_state st' \<noteq> WReady \<and> out' @ unwritten st' = out @ unwritten st)"
proof -
  let ?offer = "drop (write_index st) (write_payload_buf st)"
  let ?w = "min k (length ?offer)"
  let ?st1 = "st\<lparr>write_index := write_index st + ?w\<rparr>"
  have idx: "write_index st < length (write_payload_buf st) \<or> write_index st = 0" "length (write_header_buf st) = 21"
    using inv by (simp_all add: writer_inv_def)
  have all: "take ?w ?offer @ drop ?w ?offer = ?offer" by (rule append_take_drop_id)
  show ?thesis
  proof (cases "write_index st + ?w = length (write_payload_buf st)")
    case True
    then have "take ?w ?offer = ?offer" by simp
    then show ?thesis using True inv(2) idx(2)
      by (simp add: poll_write_def Let_def flush_ok_def unwritten_def writer_inv_def)
  next
    case False
    then have "poll_flush (Suc fuel) (k # ks) out st = poll_flush fuel ks (out @ take ?w ?offer) ?st1" "writer_inv ?st1"
      "(out @ take ?w ?offer) @ unwritten ?st1 = out @ unwritten st" "write_state ?st1 \<noteq> WReady"
      using inv(2) idx all by (auto simp: poll_write_def Let_def writer_inv_def unwritten_def add.commute)
    then show ?thesis by blast
  qed
qed

lemma poll_flush_ok:
  assumes "writer_inv st" "0 \<notin> set room" "length room + (if write_state st = WReady then 2 else 1) \<le> fuel"
  shows "flush_ok out st (poll_flush fuel room out st)"
  using assms
proof (induction fuel arbitrary: room out st)
  case (Suc fuel)
  show ?case
  proof (cases "write_state st = WReady")
    case True
    let ?st = "st\<lparr>write_state := WritingHeader\<rparr>"
    have "writer_inv ?st" "out @ unwritten ?st = out @ unwritten st"
      using Suc.prems(1) True by (simp_all add: writer_inv_def unwritten_def)
    with Suc.IH [of ?st room out] Suc.prems(2,3) True show ?thesis by (auto intro: flush_ok_step)
  next
    case False
    show ?thesis
    proof (cases room)
      case Nil
      then show ?thesis using False Suc.prems(1)
        by (cases "write_state st") (simp_all add: flush_ok_def poll_write_def)
    next
      case (Cons k ks)
      then have k: "0 < k" "0 \<notin> set ks" "length ks + 1 \<le> fuel" using Suc.prems(2,3) False by auto
      have "flush_ok out st (poll_flush (Suc fuel) (k # ks) out st) \<or>
        (\<exists>out' st'. poll_flush (Suc fuel) (k # ks) out st = poll_flush fuel ks out' st' \<and>
          writer_inv st' \<and> write_state st' \<noteq> WReady \<and> out' @ unwritten st' = out @ unwritten st)"
      proof (cases "write_state st")
        case WritingHeader
        then show ?thesis using flush_header_step [OF Suc.prems(1) _ k(1)] by metis
      next
        case WritingPayload
        then show ?thesis using flush_payload_step [OF Suc.prems(1) _ k(1)] by blast
      qed (use False in simp)
      then show ?thesis using Suc.IH k(2,3) flush_ok_step unfolding Cons by (metis (full_types))
    qed
  qed
qed (simp split: if_splits)

text \<open>
  Flushing writes the header and payload buffers out byte for byte, whatever part of them the socket
  takes at a time: interrupted, what was written and what is left make up the packet; finished,
  everything is written and the writer is ready for the next packet.
\<close>

theorem flush_writes_exactly:
  assumes "writer_inv st" "0 \<notin> set room" "length room + 2 \<le> fuel"
  shows "\<exists>r room' out' st'. poll_flush fuel room out st = Some (r, room', out', st') \<and> writer_inv st' \<and>
    (case r of
       PollPending \<Rightarrow> room' = [] \<and> out' @ unwritten st' = out @ unwritten st
     | PollReady _ \<Rightarrow> write_state st' = WReady \<and> out' = out @ unwritten st)"
  using poll_flush_ok [OF assms(1,2), of fuel out] assms(3) unfolding flush_ok_def by (auto split: if_splits)

section \<open>Witnesses\<close>

definition example_packet :: edge_packet where
  "example_packet = edge_packet_new (packet_layout 1 2 3) JSON [5, 6]"

theorem frames_received_witness:
  "\<exists>st. receive_chunks 47 47 [take 10 (frame example_packet), drop 10 (frame example_packet @ frame example_packet)]
      tokio_tcp_new = Some ([example_packet, example_packet], st) \<and> buffered st = []"
proof -
  have ok: "packet_ok example_packet"
    by (simp add: packet_ok_def example_packet_def edge_packet_new_def packet_layout_def)
  then have len: "length (frame example_packet) = 23"
    by (simp add: frame_def packet_ok_def) (simp add: example_packet_def edge_packet_new_def)
  then have "frame example_packet \<noteq> []" by auto
  then show ?thesis
    using frames_received [of "[example_packet, example_packet]"
        "[take 10 (frame example_packet), drop 10 (frame example_packet @ frame example_packet)]"] ok len
    by (simp add: drop_append)
qed

theorem eof_spins_witness: "poll_next 1000 \<lparr>chunks = [], tail = Eof\<rparr> tokio_tcp_new = None"
  by (rule eof_spins) (simp_all add: reader_inv_def tokio_tcp_new_def)

theorem flush_writes_exactly_witness:
  "\<exists>room' st'. poll_flush 10 [7, 30, 1] [] tokio_tcp_new = Some (PollReady (), room', replicate 21 0, st')"
proof -
  have "writer_inv tokio_tcp_new" "unwritten tokio_tcp_new = replicate 21 0"
    by (simp_all add: writer_inv_def unwritten_def tokio_tcp_new_def)
  moreover have "\<exists>room' out' st'. poll_flush 10 [7, 30, 1] [] tokio_tcp_new = Some (PollReady (), room', out', st')"
    by (simp add: eval_nat_numeral tokio_tcp_new_def poll_write_def Let_def)
  ultimately show ?thesis
    using flush_writes_exactly [of tokio_tcp_new "[7, 30, 1]" 10 "[]"] by auto
qed

end
