(* ===== verification/MQ_Net.thy ===== *)
theory MQ_Net
  imports MQ_Node
begin

text \<open>
  The network between the servers (\<open>raft/network.rs\<close>, \<open>raft/network_factory.rs\<close>): requests and
  responses with their sequence numbers, the framing on the stream, a connection with its pool of
  waiting requests, and the rules by which connections are made and accepted.

  The contents of Raft's own messages are openraft's and stand as type variables: \<open>'v\<close>, \<open>'a\<close>, \<open>'s\<close>
  for the requests to vote, append and install a snapshot, \<open>'x\<close>, \<open>'y\<close>, \<open>'z\<close> for the answers,
  and \<open>'w\<close> for the answer to a proposal.  The serialisation (bincode) is a pair of functions.
\<close>

section \<open>Packets (network.rs)\<close>

datatype ('v, 'a, 's) net_request =
    RaftVote 'v | RaftAppendEntries 'a | RaftInstallSnapshot 's | RaftProposal proposal

datatype ('x, 'y, 'z, 'w) net_response =
    VoteResult 'x | AppendEntriesResult 'y | InstallSnapshotResult 'z | ProposalResult 'w

datatype ('q, 'p) net_payload = NetRequest 'q | NetResponse 'p

record ('q, 'p) net_packet =
  np_seq_id :: u64
  np_payload :: "('q, 'p) net_payload"

section \<open>Framing\<close>

definition u64_from_be_bytes :: "bytes \<Rightarrow> u64" where
  "u64_from_be_bytes bs = word_of_nat (nat_of_be bs)"

text \<open>The write loop: sequence number, length (\<open>as u32\<close>), payload.\<close>

definition write_packet :: "(('q, 'p) net_payload \<Rightarrow> bytes) \<Rightarrow> ('q, 'p) net_packet \<Rightarrow> bytes" where
  "write_packet serialize p =
    (let bs = serialize (np_payload p) in
     u64_to_be_bytes (np_seq_id p) @ u32_to_be_bytes (of_nat (length bs)) @ bs)"

text \<open>
  One turn of the read loop on the bytes that have come in: \<open>None\<close> while it waits for more,
  otherwise the packet, or no packet if its bytes do not deserialise, and the bytes behind it.
\<close>

definition read_packet ::
  "(bytes \<Rightarrow> ('q, 'p) net_payload option) \<Rightarrow> bytes \<Rightarrow> (('q, 'p) net_packet option \<times> bytes) option" where
  "read_packet deserialize bs =
    (if length bs < 12 then None
     else
       (let seq_id = u64_from_be_bytes (take 8 bs); len = unat (u32_from_be_bytes (take 4 (drop 8 bs))) in
        if length bs < 12 + len then None
        else
          (let data = take len (drop 12 bs); rest = drop (12 + len) bs in
           case deserialize data of
             None \<Rightarrow> Some (None, rest)
           | Some content \<Rightarrow> Some (Some \<lparr>np_seq_id = seq_id, np_payload = content\<rparr>, rest))))"

text \<open>\<open>RaftNodeInfo\<close>, and the hello that each side sends first.\<close>

record raft_node_info =
  ni_id :: node_id
  ni_addr :: string

definition write_hello :: "(raft_node_info \<Rightarrow> bytes) \<Rightarrow> raft_node_info \<Rightarrow> bytes" where
  "write_hello serialize info = (let bs = serialize info in u32_to_be_bytes (of_nat (length bs)) @ bs)"

definition read_hello :: "(bytes \<Rightarrow> raft_node_info option) \<Rightarrow> bytes \<Rightarrow> (raft_node_info option \<times> bytes) option" where
  "read_hello deserialize bs =
    (if length bs < 4 then None
     else
       (let len = unat (u32_from_be_bytes (take 4 bs)) in
        if length bs < 4 + len then None
        else Some (deserialize (take len (drop 4 bs)), drop (4 + len) bs)))"

section \<open>A connection (network_factory.rs)\<close>

text \<open>
  \<open>rc_delivered\<close> are the one-shot channels that have got their response, by the number of the
  request.  \<open>rc_writing\<close> says that the write task holds the receiving end of the packet channel.
\<close>

record ('q, 'p) raft_connection =
  rc_peer :: raft_node_info
  rc_packets :: "('q, 'p) net_packet list"
  rc_writing :: bool
  wait_poll :: "(u64, nat) hash_map"
  local_seq :: u64
  rc_alive :: bool
  rc_next :: nat
  rc_delivered :: "(nat, 'p) hash_map"

definition connection_new :: "raft_node_info \<Rightarrow> ('q, 'p) raft_connection" where
  "connection_new peer =
    \<lparr>rc_peer = peer, rc_packets = [], rc_writing = True, wait_poll = [], local_seq = 0, rc_alive = True,
     rc_next = 0, rc_delivered = []\<rparr>"

definition peer_id :: "('q, 'p) raft_connection \<Rightarrow> node_id" where
  "peer_id c = ni_id (rc_peer c)"

text \<open>\<open>fetch_add\<close> wraps around.\<close>

definition next_seq :: "('q, 'p) raft_connection \<Rightarrow> u64 \<times> ('q, 'p) raft_connection" where
  "next_seq c = (local_seq c, c\<lparr>local_seq := local_seq c + 1\<rparr>)"

datatype net_error = Unreachable | ConnectionNotEstablished

definition conn_send_request ::
  "'q \<Rightarrow> ('q, 'p) raft_connection \<Rightarrow> (net_error + nat) \<times> ('q, 'p) raft_connection" where
  "conn_send_request req c =
    (let (seq_id, c) = next_seq c; rx = rc_next c;
         packet = \<lparr>np_seq_id = seq_id, np_payload = NetRequest req\<rparr>;
         c = c\<lparr>rc_next := Suc rx, wait_poll := hm_insert seq_id rx (wait_poll c)\<rparr>
     in if rc_writing c then (Inr rx, c\<lparr>rc_packets := rc_packets c @ [packet]\<rparr>)
        else (Inl Unreachable, c\<lparr>wait_poll := hm_remove seq_id (wait_poll c)\<rparr>))"

text \<open>What the local Raft answers: a record of openraft's four entry points.\<close>

record ('v, 'a, 's, 'x, 'y, 'z, 'w) raft_rpc =
  rpc_vote :: "'v \<Rightarrow> 'x"
  rpc_append_entries :: "'a \<Rightarrow> 'y"
  rpc_install_snapshot :: "'s \<Rightarrow> 'z"
  rpc_client_write :: "proposal \<Rightarrow> 'w"

fun answer_request ::
  "('v, 'a, 's, 'x, 'y, 'z, 'w) raft_rpc \<Rightarrow> ('v, 'a, 's) net_request \<Rightarrow> ('x, 'y, 'z, 'w) net_response" where
  "answer_request r (RaftVote v) = VoteResult (rpc_vote r v)"
| "answer_request r (RaftAppendEntries a) = AppendEntriesResult (rpc_append_entries r a)"
| "answer_request r (RaftInstallSnapshot s) = InstallSnapshotResult (rpc_install_snapshot r s)"
| "answer_request r (RaftProposal p) = ProposalResult (rpc_client_write r p)"

text \<open>The read loop on one packet; the answer of a request goes out under the sequence number it came with.\<close>

fun receive_packet ::
  "('q \<Rightarrow> 'p) \<Rightarrow> ('q, 'p) net_packet \<Rightarrow> ('q, 'p) raft_connection \<Rightarrow> ('q, 'p) raft_connection" where
  "receive_packet answer packet c =
    (case np_payload packet of
       NetRequest req \<Rightarrow>
         (if rc_writing c
          then c\<lparr>rc_packets := rc_packets c @ [\<lparr>np_seq_id = np_seq_id packet, np_payload = NetResponse (answer req)\<rparr>]\<rparr>
          else c)
     | NetResponse resp \<Rightarrow>
         (case pool_take (np_seq_id packet) (wait_poll c) of
            (Some rx, pool) \<Rightarrow> c\<lparr>wait_poll := pool, rc_delivered := hm_insert rx resp (rc_delivered c)\<rparr>
          | (None, pool) \<Rightarrow> c\<lparr>wait_poll := pool\<rparr>))"

text \<open>\<open>RaftTcpConnection::propose\<close> and the three calls of \<open>TcpNetwork\<close>, once the response is there.\<close>

definition propose_result ::
  "(('x, 'y, 'z, string + 'w) net_response) option \<Rightarrow> server_error + 'w" where
  "propose_result resp =
    (case resp of
       None \<Rightarrow> Inl (contextual_custom ''waiting for proposal response'' ''channel closed'')
     | Some (ProposalResult (Inr w)) \<Rightarrow> Inr w
     | Some (ProposalResult (Inl e)) \<Rightarrow> Inl (error_new ''remote proposal'' (KRaftClient e))
     | Some _ \<Rightarrow> Inl (error_unknown ''unexpected response''))"

datatype 'e rpc_error = RpcUnreachable | RpcNetwork | RpcRemote node_id 'e

text \<open>\<open>unreachable!\<close> is a panic.\<close>

definition vote_result :: "node_id \<Rightarrow> (('e + 'x, 'y, 'z, 'w) net_response) option \<Rightarrow> ('e rpc_error + 'x) outcome" where
  "vote_result peer resp =
    (case resp of
       None \<Rightarrow> Inr (Inl RpcNetwork)
     | Some (VoteResult (Inr x)) \<Rightarrow> Inr (Inr x)
     | Some (VoteResult (Inl e)) \<Rightarrow> Inr (Inl (RpcRemote peer e))
     | Some _ \<Rightarrow> Inl Unimplemented)"

definition append_entries_result ::
  "node_id \<Rightarrow> (('x, 'e + 'y, 'z, 'w) net_response) option \<Rightarrow> ('e rpc_error + 'y) outcome" where
  "append_entries_result peer resp =
    (case resp of
       None \<Rightarrow> Inr (Inl RpcNetwork)
     | Some (AppendEntriesResult (Inr x)) \<Rightarrow> Inr (Inr x)
     | Some (AppendEntriesResult (Inl e)) \<Rightarrow> Inr (Inl (RpcRemote peer e))
     | Some _ \<Rightarrow> Inl Unimplemented)"

definition install_snapshot_result ::
  "node_id \<Rightarrow> (('x, 'y, 'e + 'z, 'w) net_response) option \<Rightarrow> ('e rpc_error + 'z) outcome" where
  "install_snapshot_result peer resp =
    (case resp of
       None \<Rightarrow> Inr (Inl RpcNetwork)
     | Some (InstallSnapshotResult (Inr x)) \<Rightarrow> Inr (Inr x)
     | Some (InstallSnapshotResult (Inl e)) \<Rightarrow> Inr (Inl (RpcRemote peer e))
     | Some _ \<Rightarrow> Inl Unimplemented)"

section \<open>Making and accepting connections\<close>

record ('q, 'p) tcp_network_service =
  ns_info :: raft_node_info
  ns_connections :: "(node_id, ('q, 'p) raft_connection) hash_map"

text \<open>\<open>TcpNetwork::send_request\<close>; \<open>dial\<close> is what connecting to the peer and its hello give.\<close>

definition net_send_request ::
  "(net_error + raft_node_info) \<Rightarrow> node_id \<Rightarrow> 'q \<Rightarrow> ('q, 'p) tcp_network_service
    \<Rightarrow> (net_error + nat) \<times> ('q, 'p) tcp_network_service" where
  "net_send_request dial peer req s =
    (let missing = (case hm_get (ns_connections s) peer of None \<Rightarrow> True | Some c \<Rightarrow> \<not> rc_alive c);
         connected =
           (if missing then
              (if peer < ni_id (ns_info s) then Inl ConnectionNotEstablished
               else
                 (case dial of
                    Inl e \<Rightarrow> Inl e
                  | Inr info \<Rightarrow>
                      Inr (s\<lparr>ns_connections := hm_insert (ni_id info) (connection_new info) (ns_connections s)\<rparr>)))
            else Inr s)
     in case connected of
          Inl e \<Rightarrow> (Inl e, s)
        | Inr s \<Rightarrow>
            (case hm_get (ns_connections s) peer of
               None \<Rightarrow> (Inl ConnectionNotEstablished, s)
             | Some c \<Rightarrow>
                 (let (r, c) = conn_send_request req c
                  in (r, s\<lparr>ns_connections := hm_insert peer c (ns_connections s)\<rparr>))))"

text \<open>The accept loop of \<open>TcpNetworkService::run\<close>, for a connection whose hello named \<open>info\<close>.\<close>

definition accept_connection :: "raft_node_info \<Rightarrow> ('q, 'p) tcp_network_service \<Rightarrow> ('q, 'p) tcp_network_service" where
  "accept_connection info s =
    (if ni_id info \<ge> ni_id (ns_info s) then s
     else
       (case hm_get (ns_connections s) (ni_id info) of
          None \<Rightarrow> s\<lparr>ns_connections := hm_insert (ni_id info) (connection_new info) (ns_connections s)\<rparr>
        | Some _ \<Rightarrow> s))"


section \<open>Framing loses nothing\<close>

lemma u64_from_to_be [simp]: "u64_from_be_bytes (u64_to_be_bytes w) = w"
proof -
  have "unat w < 2 ^ 64" using unsigned_less [of w] by simp
  then show ?thesis by (simp add: u64_from_be_bytes_def u64_to_be_bytes_def nat_of_be_to_be)
qed

lemma read_write_packet:
  assumes "deserialize (serialize (np_payload p)) = Some (np_payload p)" "length (serialize (np_payload p)) < 2 ^ 32"
  shows "read_packet deserialize (write_packet serialize p @ rest) = Some (Some p, rest)"
proof -
  have "unat (of_nat (length (serialize (np_payload p))) :: u32) = length (serialize (np_payload p))"
    using assms(2) by (simp add: unat_of_nat)
  then show ?thesis using assms(1) by (simp add: read_packet_def write_packet_def Let_def)
qed

lemma read_write_hello:
  assumes "deserialize (serialize info) = Some info" "length (serialize info) < 2 ^ 32"
  shows "read_hello deserialize (write_hello serialize info @ rest) = Some (Some info, rest)"
proof -
  have "unat (of_nat (length (serialize info)) :: u32) = length (serialize info)"
    using assms(2) by (simp add: unat_of_nat)
  then show ?thesis using assms(1) by (simp add: read_hello_def write_hello_def Let_def)
qed

section \<open>Requests and responses\<close>

text \<open>
  The abstract view of a connection: the list of the requests sent, each with the response it has
  got.  A response fills the place its sequence number names, once.
\<close>

definition responses :: "('q, 'p) raft_connection \<Rightarrow> 'p option list" where
  "responses c = map (hm_get (rc_delivered c)) [0..<rc_next c]"

definition spec_respond :: "u64 \<Rightarrow> 'p \<Rightarrow> 'p option list \<Rightarrow> 'p option list" where
  "spec_respond seq resp ps =
    (if unat seq < length ps \<and> ps ! unat seq = None then ps[unat seq := Some resp] else ps)"

definition conn_inv :: "('q, 'p) raft_connection \<Rightarrow> bool" where
  "conn_inv c \<longleftrightarrow> rc_writing c \<and> rc_next c \<le> 2 ^ 64 \<and> local_seq c = of_nat (rc_next c) \<and>
    (\<forall>rx. hm_get (rc_delivered c) rx \<noteq> None \<longrightarrow> rx < rc_next c) \<and>
    (\<forall>seq. hm_get (wait_poll c) seq =
      (if unat seq < rc_next c \<and> hm_get (rc_delivered c) (unat seq) = None then Some (unat seq) else None))"

lemma conn_inv_new: "conn_inv (connection_new peer)" "responses (connection_new peer) = []"
  "rc_next (connection_new peer) = 0"
  by (simp_all add: conn_inv_def connection_new_def responses_def)

lemma send_refines:
  assumes "conn_inv c" "rc_next c < 2 ^ 64"
  shows "\<exists>c'. conn_send_request req c = (Inr (rc_next c), c') \<and> conn_inv c' \<and> responses c' = responses c @ [None] \<and>
    rc_packets c' = rc_packets c @ [\<lparr>np_seq_id = of_nat (rc_next c), np_payload = NetRequest req\<rparr>] \<and>
    rc_next c' = Suc (rc_next c) \<and> rc_delivered c' = rc_delivered c"
proof -
  note i = assms(1) [unfolded conn_inv_def]
  have u: "unat (of_nat (rc_next c) :: u64) = rc_next c" using assms(2) by (simp add: unat_of_nat)
  have none: "hm_get (rc_delivered c) (rc_next c) = None" using i by blast
  have eq: "unat seq = rc_next c \<longleftrightarrow> seq = local_seq c" for seq :: u64
    using u i by (metis unsigned_word_eqI)
  show ?thesis
    using i none eq assms(2)
    by (auto simp: conn_send_request_def next_seq_def Let_def conn_inv_def responses_def less_Suc_eq)
      (metis u option.distinct(1))+
qed

lemma respond_refines:
  assumes "conn_inv c"
  shows "conn_inv (receive_packet answer \<lparr>np_seq_id = seq, np_payload = NetResponse resp\<rparr> c) \<and>
    responses (receive_packet answer \<lparr>np_seq_id = seq, np_payload = NetResponse resp\<rparr> c) =
      spec_respond seq resp (responses c) \<and>
    rc_next (receive_packet answer \<lparr>np_seq_id = seq, np_payload = NetResponse resp\<rparr> c) = rc_next c"
proof (cases "unat seq < rc_next c \<and> hm_get (rc_delivered c) (unat seq) = None")
  case True
  then have w: "hm_get (wait_poll c) seq = Some (unat seq)" using assms by (simp add: conn_inv_def)
  have "spec_respond seq resp (responses c) = map ((hm_get (rc_delivered c))(unat seq \<mapsto> resp)) [0..<rc_next c]"
    using True by (auto simp: spec_respond_def responses_def list_eq_iff_nth_eq nth_list_update)
  then show ?thesis using True w assms
    by (auto simp: conn_inv_def responses_def pool_take_def hm.get_ins intro: unsigned_word_eqI)
next
  case False
  then have w: "hm_get (wait_poll c) seq = None" using assms by (auto simp: conn_inv_def)
  have "spec_respond seq resp (responses c) = responses c" using False by (auto simp: spec_respond_def responses_def)
  then show ?thesis using w assms by (auto simp: conn_inv_def responses_def pool_take_def)
qed

text \<open>Any interleaving of requests sent and responses received.\<close>

datatype ('q, 'p) conn_event = ConnSend 'q | ConnResponse u64 'p

fun conn_step :: "('q \<Rightarrow> 'p) \<Rightarrow> ('q, 'p) conn_event \<Rightarrow> ('q, 'p) raft_connection \<Rightarrow> ('q, 'p) raft_connection" where
  "conn_step answer (ConnSend req) c = snd (conn_send_request req c)"
| "conn_step answer (ConnResponse seq resp) c =
    receive_packet answer \<lparr>np_seq_id = seq, np_payload = NetResponse resp\<rparr> c"

fun spec_step :: "('q, 'p) conn_event \<Rightarrow> 'p option list \<Rightarrow> 'p option list" where
  "spec_step (ConnSend req) ps = ps @ [None]"
| "spec_step (ConnResponse seq resp) ps = spec_respond seq resp ps"

lemma conn_steps_refine:
  assumes "conn_inv c" "rc_next c + length evs \<le> 2 ^ 64"
  shows "conn_inv (fold (conn_step answer) evs c) \<and> responses (fold (conn_step answer) evs c) = fold spec_step evs (responses c)"
  using assms
proof (induction evs arbitrary: c)
  case (Cons ev evs)
  show ?case
  proof (cases ev)
    case (ConnSend req)
    then show ?thesis using send_refines [of c req] Cons by auto
  next
    case (ConnResponse seq resp)
    then show ?thesis using respond_refines [of c answer seq resp] Cons by (auto simp del: receive_packet.simps)
  qed
qed simp

text \<open>
  (C16) Calls over a connection: after any interleaving of at most $2^{64}$ requests and responses, in
  whatever order the responses come and however often, each request has got the first response
  that carried its sequence number, and nothing else.
\<close>

theorem rpc_refines_calls:
  assumes "length evs \<le> 2 ^ 64"
  shows "responses (fold (conn_step answer) evs (connection_new peer)) = fold spec_step evs []"
  using conn_steps_refine [OF conn_inv_new(1) [of peer], of evs answer] assms
  by (simp add: conn_inv_new)

text \<open>
  A call from one server to another, over the wire: the packet of the caller is read back by the
  callee, whose answer is read back by the caller and lands at the call, with the kind of
  response the caller expects; for a proposal the caller has the leader's result in hand.
\<close>

theorem remote_proposal_answered:
  fixes a :: "(('v, 'a, 's) net_request, ('x, 'y, 'z, string + 'w) net_response) raft_connection"
  assumes inv: "conn_inv a" "rc_next a < 2 ^ 64" and b: "rc_writing b"
    and codec: "\<And>p. p \<in> {NetRequest (RaftProposal prop), NetResponse (ProposalResult (rpc_client_write rpc prop))} \<Longrightarrow>
      deserialize (serialize p) = Some p \<and> length (serialize p) < 2 ^ 32"
  shows "\<exists>rx a1 pa b1 pb. conn_send_request (RaftProposal prop) a = (Inr rx, a1) \<and>
    read_packet deserialize (write_packet serialize (last (rc_packets a1))) = Some (Some pa, []) \<and>
    b1 = receive_packet (answer_request rpc) pa b \<and>
    read_packet deserialize (write_packet serialize (last (rc_packets b1))) = Some (Some pb, []) \<and>
    propose_result (hm_get (rc_delivered (receive_packet answer pb a1)) rx) =
      (case rpc_client_write rpc prop of Inr w \<Rightarrow> Inr w | Inl e \<Rightarrow> Inl (error_new ''remote proposal'' (KRaftClient e)))"
proof -
  let ?rx = "rc_next a" and ?seq = "of_nat (rc_next a) :: u64"
  let ?pa = "\<lparr>np_seq_id = ?seq, np_payload = NetRequest (RaftProposal prop)\<rparr>"
  let ?resp = "ProposalResult (rpc_client_write rpc prop)"
  let ?pb = "\<lparr>np_seq_id = ?seq, np_payload = NetResponse ?resp\<rparr>"
  obtain a1 where a1: "conn_send_request (RaftProposal prop) a = (Inr ?rx, a1)" "conn_inv a1"
    "responses a1 = responses a @ [None]" "rc_packets a1 = rc_packets a @ [?pa]" "rc_next a1 = Suc ?rx" "rc_delivered a1 = rc_delivered a"
    using send_refines [OF inv, of "RaftProposal prop"] by blast
  have rd: "read_packet deserialize (write_packet serialize (last (rc_packets a1))) = Some (Some ?pa, [])"
    "read_packet deserialize (write_packet serialize ?pb) = Some (Some ?pb, [])"
    using read_write_packet [of deserialize serialize ?pa "[]"] read_write_packet [of deserialize serialize ?pb "[]"] codec
    unfolding a1(4) by simp_all
  have lb: "last (rc_packets (receive_packet (answer_request rpc) ?pa b)) = ?pb" using b by simp
  have u: "unat ?seq = ?rx" using inv(2) by (simp add: unat_of_nat)
  have "hm_get (rc_delivered a) ?rx = None" using inv(1) unfolding conn_inv_def by blast
  then have "hm_get (wait_poll a1) ?seq = Some ?rx"
    using a1(2,5,6) u unfolding conn_inv_def by simp
  then have "hm_get (rc_delivered (receive_packet answer ?pb a1)) ?rx = Some ?resp" by (simp add: pool_take_def)
  then have "propose_result (hm_get (rc_delivered (receive_packet answer ?pb a1)) ?rx) =
      (case rpc_client_write rpc prop of Inr w \<Rightarrow> Inr w | Inl e \<Rightarrow> Inl (error_new ''remote proposal'' (KRaftClient e)))"
    by (simp add: propose_result_def split: sum.split)
  with a1(1) rd lb show ?thesis by metis
qed

section \<open>Who connects to whom\<close>

text \<open>
  Of two servers exactly the one with the smaller identifier dials: without a connection, the
  other refuses to send, and only the larger one accepts.
\<close>

theorem smaller_side_dials:
  assumes "hm_get (ns_connections s) peer = None"
  shows "if peer < ni_id (ns_info s)
    then net_send_request dial peer req s = (Inl ConnectionNotEstablished, s) \<and>
      (\<forall>info. ni_id info = peer \<longrightarrow> hm_get (ns_connections (accept_connection info s)) peer \<noteq> None)
    else (\<forall>info. ni_id info = peer \<longrightarrow> accept_connection info s = s \<and>
      (\<exists>s'. net_send_request (Inr info) peer req s = (Inr 0, s') \<and> hm_get (ns_connections s') peer \<noteq> None))"
  using assms
  by (auto simp: net_send_request_def accept_connection_def conn_send_request_def connection_new_def next_seq_def
      Let_def not_less)

text \<open>
  A connection that has died is never replaced on the accepting side: it stays in the map, so the
  server neither sends to the peer nor accepts the connection the peer makes again.
\<close>

theorem dead_connection_blocks_reconnect:
  assumes "hm_get (ns_connections s) peer = Some c" "\<not> rc_alive c" "peer < ni_id (ns_info s)"
  shows "net_send_request dial peer req s = (Inl ConnectionNotEstablished, s) \<and>
    (\<forall>info. ni_id info = peer \<longrightarrow> accept_connection info s = s)"
  using assms by (simp add: net_send_request_def accept_connection_def)

section \<open>Witnesses\<close>

definition example_service :: "nat \<Rightarrow> (nat, nat) tcp_network_service" where
  "example_service i = \<lparr>ns_info = \<lparr>ni_id = NodeId [of_nat i], ni_addr = ''a''\<rparr>, ns_connections = []\<rparr>"

theorem rpc_refines_calls_witness:
  "responses (fold (conn_step Suc) [ConnSend 3, ConnSend 4, ConnResponse 1 5, ConnResponse 7 9, ConnResponse 1 6]
     (connection_new \<lparr>ni_id = NodeId [], ni_addr = ''a''\<rparr>)) = [None, Some 5]"
  by (subst rpc_refines_calls) (simp_all add: spec_respond_def)

theorem smaller_side_dials_witness:
  "net_send_request (Inl Unreachable) (NodeId [1]) 0 (example_service 2) = (Inl ConnectionNotEstablished, example_service 2)"
proof -
  have "NodeId [1] < ni_id (ns_info (example_service 2))" "hm_get (ns_connections (example_service 2)) (NodeId [1]) = None"
    by (simp_all add: example_service_def less_node_id_def)
  then show ?thesis using smaller_side_dials [of "example_service 2" "NodeId [1]" "Inl Unreachable" 0] by simp
qed

definition dead_service :: "(nat, nat) tcp_network_service" where
  "dead_service = (example_service 2)\<lparr>ns_connections :=
    [(NodeId [1], (connection_new \<lparr>ni_id = NodeId [1], ni_addr = ''a''\<rparr>)\<lparr>rc_alive := False\<rparr>)]\<rparr>"

theorem dead_connection_blocks_reconnect_witness:
  "accept_connection \<lparr>ni_id = NodeId [1], ni_addr = ''a''\<rparr> dead_service = dead_service"
proof -
  have "hm_get (ns_connections dead_service) (NodeId [1]) =
      Some ((connection_new \<lparr>ni_id = NodeId [1], ni_addr = ''a''\<rparr>)\<lparr>rc_alive := False\<rparr>)"
    "NodeId [1] < ni_id (ns_info dead_service)"
    by (simp_all add: dead_service_def example_service_def less_node_id_def)
  from dead_connection_blocks_reconnect [OF this(1) _ this(2), of "Inl Unreachable" 0] show ?thesis by simp
qed

type_synonym example_request = "(unit, unit, unit) net_request"
type_synonym example_response = "(unit, unit, unit, string + nat) net_response"

definition example_request :: example_request where
  "example_request = RaftProposal (UnloadTopic example_topic)"

definition example_connection :: "(example_request, example_response) raft_connection" where
  "example_connection = connection_new \<lparr>ni_id = NodeId [], ni_addr = ''a''\<rparr>"

theorem remote_proposal_answered_witness:
  "\<exists>pb. propose_result (hm_get (rc_delivered (receive_packet (\<lambda>_. VoteResult ()) pb
      (snd (conn_send_request example_request example_connection)))) 0) = Inr 7"
proof -
  let ?rpc = "\<lparr>rpc_vote = id, rpc_append_entries = id, rpc_install_snapshot = id, rpc_client_write = (\<lambda>_. Inr 7)\<rparr>
    :: (unit, unit, unit, unit, unit, unit, string + nat) raft_rpc"
  let ?ser = "\<lambda>p :: (example_request, example_response) net_payload. (case p of NetRequest _ \<Rightarrow> [0] | NetResponse _ \<Rightarrow> [1]) :: bytes"
  let ?de = "\<lambda>bs :: bytes. Some (if bs = [0] then NetRequest example_request else NetResponse (ProposalResult (Inr 7)))
    :: (example_request, example_response) net_payload option"
  have c: "conn_inv example_connection" "rc_next example_connection < 2 ^ 64" "rc_writing example_connection"
    using conn_inv_new(1) by (simp_all add: example_connection_def connection_new_def)
  from remote_proposal_answered [OF c, of "UnloadTopic example_topic" ?rpc ?de ?ser "\<lambda>_. VoteResult ()"]
  obtain rx a1 pb where "conn_send_request example_request example_connection = (Inr rx, a1)"
    "propose_result (hm_get (rc_delivered (receive_packet (\<lambda>_. VoteResult ()) pb a1)) rx) = Inr 7"
    by (fastforce simp: example_request_def simp del: receive_packet.simps)
  moreover have "fst (conn_send_request example_request example_connection) = Inr 0"
    by (simp add: conn_send_request_def next_seq_def example_connection_def connection_new_def)
  ultimately show ?thesis by (auto simp del: receive_packet.simps)
qed

end
