(* ===== verification/MQ_Link.thy ===== *)
theory MQ_Link
  imports MQ_Net
begin

text \<open>
  A connection between two servers with its tasks (\<open>RaftTcpConnection::from_tokio_tcp_stream\<close> in
  \<open>raft/network_factory.rs\<close>): the handshake, the write task, the read task, the tasks that answer
  requests, and what ends them.  The two sides and the bytes between them are one state, the tasks
  of both sides interleave in any order, and TCP delivers the bytes in any pieces.
\<close>

section \<open>The handshake\<close>

text \<open>
  \<open>from_tokio_tcp_stream\<close> once the raft is there: the hello goes out, the hello of the peer is
  awaited (\<open>None\<close> while it is not complete) and must deserialise.
\<close>

datatype io_error = InvalidData

definition from_tokio_tcp_stream ::
  "(raft_node_info \<Rightarrow> bytes) \<Rightarrow> (bytes \<Rightarrow> raft_node_info option) \<Rightarrow> raft_node_info \<Rightarrow> bytes
    \<Rightarrow> bytes \<times> ((io_error + ('q, 'p) raft_connection) \<times> bytes) option" where
  "from_tokio_tcp_stream serialize deserialize info incoming =
    (write_hello serialize info,
     map_option (\<lambda>(peer, rest).
       (case peer of None \<Rightarrow> Inl InvalidData | Some peer \<Rightarrow> Inr (connection_new peer), rest))
       (read_hello deserialize incoming))"

text \<open>Both sides of a fresh stream learn who the other is.\<close>

lemma handshake:
  assumes "deserialize (serialize info) = Some info" "length (serialize info) < 2 ^ 32"
  shows "snd (from_tokio_tcp_stream serialize deserialize mine (write_hello serialize info @ rest)) =
    Some (Inr (connection_new info), rest)"
  using read_write_hello [of deserialize serialize info rest] assms by (simp add: from_tokio_tcp_stream_def)

text \<open>\<open>TcpNetworkService::new\<close>, and the accept loop of \<open>run\<close> over what the listener and the handshake give.\<close>

definition network_service_new :: "raft_node_info \<Rightarrow> ('q, 'p) tcp_network_service" where
  "network_service_new info = \<lparr>ns_info = info, ns_connections = []\<rparr>"

datatype accept_event = ServiceCancelled | AcceptFailed | HandshakeFailed | HandshakeDone raft_node_info

fun accept_loop :: "accept_event list \<Rightarrow> ('q, 'p) tcp_network_service \<Rightarrow> ('q, 'p) tcp_network_service" where
  "accept_loop [] s = s"
| "accept_loop (ServiceCancelled # evs) s = s"
| "accept_loop (AcceptFailed # evs) s = accept_loop evs s"
| "accept_loop (HandshakeFailed # evs) s = accept_loop evs s"
| "accept_loop (HandshakeDone info # evs) s = accept_loop evs (accept_connection info s)"

text \<open>What is accepted comes from a smaller identifier and is filed under it, and nothing is replaced.\<close>

lemma accept_loop_smaller:
  assumes "hm_get (ns_connections (accept_loop evs s)) i = Some c"
  shows "hm_get (ns_connections s) i = Some c \<or> i < ni_id (ns_info s) \<and> peer_id c = i"
  using assms
proof (induction evs s rule: accept_loop.induct)
  case (5 info evs s)
  then have "hm_get (ns_connections (accept_connection info s)) i = Some c \<or>
      i < ni_id (ns_info (accept_connection info s)) \<and> peer_id c = i" by simp
  then show ?case
    by (auto simp: accept_connection_def peer_id_def connection_new_def split: if_splits option.splits)
qed simp_all

lemma accept_loop_keeps:
  "hm_get (ns_connections s) i = Some c \<Longrightarrow> hm_get (ns_connections (accept_loop evs s)) i = Some c"
proof (induction evs s rule: accept_loop.induct)
  case (5 info evs s)
  then have "hm_get (ns_connections (accept_connection info s)) i = Some c"
    by (auto simp: accept_connection_def split: option.splits)
  then show ?case using 5 by simp
qed simp_all

section \<open>One side\<close>

text \<open>
  \<open>sd_in\<close> are the bytes that have arrived and are not read, \<open>sd_wire\<close> those on their way to this
  side, \<open>sd_tasks\<close> the requests whose answering tasks have been spawned, \<open>sd_reading\<close> that the read task
  runs.
\<close>

record ('q, 'p) side =
  sd_conn :: "('q, 'p) raft_connection"
  sd_in :: bytes
  sd_wire :: bytes
  sd_tasks :: "(u64 \<times> 'q) list"
  sd_reading :: bool

definition side_new :: "('q, 'p) raft_connection \<Rightarrow> ('q, 'p) side" where
  "side_new c = \<lparr>sd_conn = c, sd_in = [], sd_wire = [], sd_tasks = [], sd_reading = True\<rparr>"

text \<open>The read loop: a packet that is complete, a request to a task of its own, a response to its sender.\<close>

definition read_turn ::
  "(bytes \<Rightarrow> ('q, 'p) net_payload option) \<Rightarrow> ('q, 'p) side \<Rightarrow> ('q, 'p) side option" where
  "read_turn deserialize s =
    (if \<not> sd_reading s then None
     else
       (case read_packet deserialize (sd_in s) of
          None \<Rightarrow> None
        | Some (None, rest) \<Rightarrow> Some (s\<lparr>sd_in := rest\<rparr>)
        | Some (Some packet, rest) \<Rightarrow>
            (case np_payload packet of
               NetRequest req \<Rightarrow> Some (s\<lparr>sd_in := rest, sd_tasks := sd_tasks s @ [(np_seq_id packet, req)]\<rparr>)
             | NetResponse resp \<Rightarrow>
                 (let c = sd_conn s in
                  case pool_take (np_seq_id packet) (wait_poll c) of
                    (Some rx, pool) \<Rightarrow>
                      Some (s\<lparr>sd_in := rest, sd_conn := c\<lparr>wait_poll := pool, rc_delivered := hm_insert rx resp (rc_delivered c)\<rparr>\<rparr>)
                  | (None, pool) \<Rightarrow> Some (s\<lparr>sd_in := rest, sd_conn := c\<lparr>wait_poll := pool\<rparr>\<rparr>)))))"

text \<open>The end of the read task, by an error of the socket or by cancellation.\<close>

definition read_stop :: "('q, 'p) side \<Rightarrow> ('q, 'p) side" where
  "read_stop s = s\<lparr>sd_reading := False, sd_conn := (sd_conn s)\<lparr>rc_alive := False\<rparr>\<rparr>"

text \<open>A spawned task: its answer goes to the write task, if that still receives.\<close>

definition answer_turn :: "nat \<Rightarrow> 'p \<Rightarrow> ('q, 'p) side \<Rightarrow> ('q, 'p) side" where
  "answer_turn j resp s =
    (let c = sd_conn s; packet = \<lparr>np_seq_id = fst (sd_tasks s ! j), np_payload = NetResponse resp\<rparr> in
     s\<lparr>sd_tasks := take j (sd_tasks s) @ drop (Suc j) (sd_tasks s),
       sd_conn := (if rc_writing c then c\<lparr>rc_packets := rc_packets c @ [packet]\<rparr> else c)\<rparr>)"

text \<open>
  The write loop: the bytes of the next packet.  A write that fails, or a task that is aborted, leaves
  a part of the packet on the stream and drops the receiver with what is queued.
\<close>

definition write_turn ::
  "(('q, 'p) net_payload \<Rightarrow> bytes) \<Rightarrow> ('q, 'p) side \<Rightarrow> (bytes \<times> ('q, 'p) side) option" where
  "write_turn serialize s =
    (case rc_packets (sd_conn s) of
       [] \<Rightarrow> None
     | packet # queue \<Rightarrow>
         if rc_writing (sd_conn s)
         then Some (write_packet serialize packet, s\<lparr>sd_conn := (sd_conn s)\<lparr>rc_packets := queue\<rparr>\<rparr>) else None)"

definition write_stop ::
  "(('q, 'p) net_payload \<Rightarrow> bytes) \<Rightarrow> nat \<Rightarrow> ('q, 'p) side \<Rightarrow> bytes \<times> ('q, 'p) side" where
  "write_stop serialize k s =
    (case rc_packets (sd_conn s) of
       packet # _ \<Rightarrow> (if k < length (write_packet serialize packet) then take k (write_packet serialize packet) else [])
     | [] \<Rightarrow> [],
     s\<lparr>sd_conn := (sd_conn s)\<lparr>rc_packets := [], rc_writing := False\<rparr>\<rparr>)"

text \<open>\<open>Drop\<close> of a connection: both tasks are aborted.\<close>

definition connection_drop ::
  "(('q, 'p) net_payload \<Rightarrow> bytes) \<Rightarrow> nat \<Rightarrow> ('q, 'p) side \<Rightarrow> bytes \<times> ('q, 'p) side" where
  "connection_drop serialize k s = (case write_stop serialize k s of (bs, s) \<Rightarrow> (bs, read_stop s))"

section \<open>Two sides\<close>

datatype side_id = Dialer | Acceptor

fun other :: "side_id \<Rightarrow> side_id" where
  "other Dialer = Acceptor"
| "other Acceptor = Dialer"

lemma other_simps [simp]: "other (other x) = x" "other x \<noteq> x" "x \<noteq> other x" "other x = other y \<longleftrightarrow> x = y"
  by (cases x; cases y; simp)+

type_synonym ('q, 'p) link = "side_id \<Rightarrow> ('q, 'p) side"

definition put_on_wire :: "side_id \<Rightarrow> bytes \<Rightarrow> ('q, 'p) link \<Rightarrow> ('q, 'p) link" where
  "put_on_wire x bs l = l(x := (l x)\<lparr>sd_wire := sd_wire (l x) @ bs\<rparr>)"

datatype ('q, 'p) link_event =
    LSend side_id 'q | LWrite side_id | LRead side_id | LAnswer side_id nat 'p
  | LArrive side_id nat | LWriteStop side_id nat | LReadStop side_id | LDrop side_id nat

text \<open>\<open>raft x q p\<close>: the raft of the side may answer the request \<open>q\<close> with \<open>p\<close>.\<close>

inductive link_step ::
  "(('q, 'p) net_payload \<Rightarrow> bytes) \<Rightarrow> (bytes \<Rightarrow> ('q, 'p) net_payload option) \<Rightarrow> (side_id \<Rightarrow> 'q \<Rightarrow> 'p \<Rightarrow> bool)
    \<Rightarrow> ('q, 'p) link \<Rightarrow> ('q, 'p) link_event \<Rightarrow> ('q, 'p) link \<Rightarrow> bool"
  for ser deser raft where
  sends: "link_step ser deser raft l (LSend x q)
    (l(x := (l x)\<lparr>sd_conn := snd (conn_send_request q (sd_conn (l x)))\<rparr>))"
| writes: "write_turn ser (l x) = Some (bs, s) \<Longrightarrow>
    link_step ser deser raft l (LWrite x) (put_on_wire (other x) bs (l(x := s)))"
| reads: "read_turn deser (l x) = Some s \<Longrightarrow> link_step ser deser raft l (LRead x) (l(x := s))"
| answers: "j < length (sd_tasks (l x)) \<Longrightarrow> raft x (snd (sd_tasks (l x) ! j)) p \<Longrightarrow>
    link_step ser deser raft l (LAnswer x j p) (l(x := answer_turn j p (l x)))"
| arrives: "link_step ser deser raft l (LArrive x k)
    (l(x := (l x)\<lparr>sd_in := sd_in (l x) @ take k (sd_wire (l x)), sd_wire := drop k (sd_wire (l x))\<rparr>))"
| write_stops: "write_stop ser k (l x) = (bs, s) \<Longrightarrow> rc_writing (sd_conn (l x)) \<Longrightarrow>
    link_step ser deser raft l (LWriteStop x k) (put_on_wire (other x) bs (l(x := s)))"
| read_stops: "link_step ser deser raft l (LReadStop x) (l(x := read_stop (l x)))"
| drops: "connection_drop ser k (l x) = (bs, s) \<Longrightarrow> rc_writing (sd_conn (l x)) \<Longrightarrow>
    link_step ser deser raft l (LDrop x k) (put_on_wire (other x) bs (l(x := s)))"

inductive link_run ::
  "(('q, 'p) net_payload \<Rightarrow> bytes) \<Rightarrow> (bytes \<Rightarrow> ('q, 'p) net_payload option) \<Rightarrow> (side_id \<Rightarrow> 'q \<Rightarrow> 'p \<Rightarrow> bool)
    \<Rightarrow> ('q, 'p) link \<Rightarrow> ('q, 'p) link_event list \<Rightarrow> ('q, 'p) link \<Rightarrow> bool"
  for ser deser raft l0 where
  start: "link_run ser deser raft l0 [] l0"
| step: "link_run ser deser raft l0 evs l \<Longrightarrow> link_step ser deser raft l ev l' \<Longrightarrow> link_run ser deser raft l0 (evs @ [ev]) l'"

text \<open>The requests a side has sent in a run, in order.\<close>

fun sent_of :: "side_id \<Rightarrow> ('q, 'p) link_event \<Rightarrow> 'q list" where
  "sent_of x (LSend y q) = (if x = y then [q] else [])"
| "sent_of x _ = []"

definition sent_by :: "side_id \<Rightarrow> ('q, 'p) link_event list \<Rightarrow> 'q list" where
  "sent_by x evs = concat (map (sent_of x) evs)"

definition link_new :: "raft_node_info \<Rightarrow> raft_node_info \<Rightarrow> ('q, 'p) link" where
  "link_new dialer acceptor = (\<lambda>x. side_new (connection_new (case x of Dialer \<Rightarrow> acceptor | Acceptor \<Rightarrow> dialer)))"

section \<open>What is on its way is genuine\<close>

text \<open>A payload that bincode brings back, and whose length fits its field.\<close>

definition wire_ok ::
  "(('q, 'p) net_payload \<Rightarrow> bytes) \<Rightarrow> (bytes \<Rightarrow> ('q, 'p) net_payload option) \<Rightarrow> ('q, 'p) net_payload \<Rightarrow> bool" where
  "wire_ok ser deser x \<longleftrightarrow> deser (ser x) = Some x \<and> length (ser x) < 2 ^ 32"

fun event_ok ::
  "(('q, 'p) net_payload \<Rightarrow> bytes) \<Rightarrow> (bytes \<Rightarrow> ('q, 'p) net_payload option) \<Rightarrow> ('q, 'p) link_event \<Rightarrow> bool" where
  "event_ok ser deser (LSend x q) = wire_ok ser deser (NetRequest q)"
| "event_ok ser deser (LAnswer x j p) = wire_ok ser deser (NetResponse p)"
| "event_ok ser deser _ = True"

text \<open>
  A packet of a side, given the requests both sides have sent: a request is the one with its number, a
  response is an answer of this side's raft to the request of the other side with its number.
\<close>

type_synonym 'q sent = "side_id \<Rightarrow> 'q list"

definition genuine ::
  "(side_id \<Rightarrow> 'q \<Rightarrow> 'p \<Rightarrow> bool) \<Rightarrow> 'q sent \<Rightarrow> side_id \<Rightarrow> ('q, 'p) net_packet \<Rightarrow> bool" where
  "genuine raft sent x p \<longleftrightarrow>
    (let k = unat (np_seq_id p) in
     case np_payload p of
       NetRequest q \<Rightarrow> k < length (sent x) \<and> sent x ! k = q
     | NetResponse r \<Rightarrow> k < length (sent (other x)) \<and> raft x (sent (other x) ! k) r)"

definition packet_ok ::
  "(('q, 'p) net_payload \<Rightarrow> bytes) \<Rightarrow> (bytes \<Rightarrow> ('q, 'p) net_payload option) \<Rightarrow> (side_id \<Rightarrow> 'q \<Rightarrow> 'p \<Rightarrow> bool)
    \<Rightarrow> 'q sent \<Rightarrow> side_id \<Rightarrow> ('q, 'p) net_packet \<Rightarrow> bool" where
  "packet_ok ser deser raft sent x p \<longleftrightarrow> genuine raft sent x p \<and> wire_ok ser deser (np_payload p)"

text \<open>The state of a connection: the calls that wait are those with a number and no response.\<close>

definition calls_ok :: "(side_id \<Rightarrow> 'q \<Rightarrow> 'p \<Rightarrow> bool) \<Rightarrow> 'q sent \<Rightarrow> side_id \<Rightarrow> ('q, 'p) raft_connection \<Rightarrow> bool" where
  "calls_ok raft sent x c \<longleftrightarrow>
    rc_next c = length (sent x) \<and> local_seq c = of_nat (length (sent x)) \<and>
    (\<forall>seq rx. hm_get (wait_poll c) seq = Some rx \<longrightarrow> rx = unat seq \<and> rx < length (sent x) \<and> hm_get (rc_delivered c) rx = None) \<and>
    (\<forall>rx p. hm_get (rc_delivered c) rx = Some p \<longrightarrow> rx < length (sent x) \<and> raft (other x) (sent x ! rx) p)"

definition tasks_ok :: "'q sent \<Rightarrow> side_id \<Rightarrow> (u64 \<times> 'q) list \<Rightarrow> bool" where
  "tasks_ok sent x ts \<longleftrightarrow> (\<forall>(seq, q) \<in> set ts. unat seq < length (sent (other x)) \<and> sent (other x) ! unat seq = q)"

text \<open>
  The bytes between the sides: whole packets, and a part of one behind them only if the write task
  has ended.
\<close>

definition stream_ok ::
  "(('q, 'p) net_payload \<Rightarrow> bytes) \<Rightarrow> (bytes \<Rightarrow> ('q, 'p) net_payload option) \<Rightarrow> (side_id \<Rightarrow> 'q \<Rightarrow> 'p \<Rightarrow> bool)
    \<Rightarrow> 'q sent \<Rightarrow> side_id \<Rightarrow> bool \<Rightarrow> bytes \<Rightarrow> bool" where
  "stream_ok ser deser raft sent x writing bs \<longleftrightarrow>
    (\<exists>ps tail. bs = concat (map (write_packet ser) ps) @ tail \<and> (\<forall>p \<in> set ps. packet_ok ser deser raft sent x p) \<and>
      (tail \<noteq> [] \<longrightarrow> \<not> writing \<and> (\<exists>p k. tail = take k (write_packet ser p) \<and> k < length (write_packet ser p) \<and>
        wire_ok ser deser (np_payload p))))"

definition link_inv ::
  "(('q, 'p) net_payload \<Rightarrow> bytes) \<Rightarrow> (bytes \<Rightarrow> ('q, 'p) net_payload option) \<Rightarrow> (side_id \<Rightarrow> 'q \<Rightarrow> 'p \<Rightarrow> bool)
    \<Rightarrow> 'q sent \<Rightarrow> ('q, 'p) link \<Rightarrow> bool" where
  "link_inv ser deser raft sent l \<longleftrightarrow>
    (\<forall>x. calls_ok raft sent x (sd_conn (l x)) \<and> tasks_ok sent x (sd_tasks (l x)) \<and>
      (\<forall>p \<in> set (rc_packets (sd_conn (l x))). packet_ok ser deser raft sent x p) \<and>
      stream_ok ser deser raft sent (other x) (rc_writing (sd_conn (l (other x)))) (sd_in (l x) @ sd_wire (l x)))"

section \<open>Reading\<close>

lemma read_packet_prefix:
  "read_packet deser bs = Some (x, rest) \<Longrightarrow> read_packet deser (bs @ bs2) = Some (x, rest @ bs2)"
  by (auto simp: read_packet_def Let_def split: if_splits option.splits)

lemma read_partial:
  assumes "wire_ok ser deser (np_payload p)" "k < length (write_packet ser p)"
  shows "read_packet deser (take k (write_packet ser p)) = None"
proof -
  let ?bs = "ser (np_payload p)"
  have len: "unat (of_nat (length ?bs) :: u32) = length ?bs" using assms(1) by (simp add: wire_ok_def unat_of_nat)
  show ?thesis
  proof (cases "k < 12")
    case False
    then have "take 4 (drop 8 (take k (write_packet ser p))) = u32_to_be_bytes (of_nat (length ?bs))"
      by (simp add: write_packet_def Let_def)
    then show ?thesis using False len assms(2) by (simp add: read_packet_def write_packet_def Let_def)
  next
    case True
    then have "length (take k (write_packet ser p)) < 12" by simp
    then show ?thesis by (simp only: read_packet_def if_True)
  qed
qed

text \<open>What the read loop takes off a stream is its first packet.\<close>

lemma read_stream:
  assumes stream: "stream_ok ser deser raft sent x w (bs @ wire)" and read: "read_packet deser bs = Some (r, rest)"
  obtains p where "r = Some p" "packet_ok ser deser raft sent x p" "stream_ok ser deser raft sent x w (rest @ wire)"
proof -
  obtain ps tail where s: "bs @ wire = concat (map (write_packet ser) ps) @ tail" "\<forall>p \<in> set ps. packet_ok ser deser raft sent x p"
    "tail \<noteq> [] \<longrightarrow> \<not> w \<and> (\<exists>p k. tail = take k (write_packet ser p) \<and> k < length (write_packet ser p) \<and>
        wire_ok ser deser (np_payload p))" using stream by (auto simp: stream_ok_def)
  have all: "read_packet deser (bs @ wire) = Some (r, rest @ wire)" by (rule read_packet_prefix [OF read])
  show thesis
  proof (cases ps)
    case Nil
    then have "tail \<noteq> []" using all s(1) by (auto simp: read_packet_def)
    then show thesis using s(1,3) Nil all read_partial [of ser deser] by fastforce
  next
    case (Cons p qs)
    then have "read_packet deser (bs @ wire) = Some (Some p, concat (map (write_packet ser) qs) @ tail)"
      using s(1,2) read_write_packet [of deser ser p "concat (map (write_packet ser) qs) @ tail"]
      by (simp add: packet_ok_def wire_ok_def)
    then have "r = Some p" "rest @ wire = concat (map (write_packet ser) qs) @ tail" using all by simp_all
    moreover have "stream_ok ser deser raft sent x w (concat (map (write_packet ser) qs) @ tail)"
      unfolding stream_ok_def using s(2,3) Cons by (intro exI [of _ qs] exI [of _ tail]) simp
    ultimately show thesis using that s(2) Cons by simp
  qed
qed

section \<open>Every step keeps it so\<close>

lemma packet_ok_grows: "packet_ok ser deser raft sent x p \<Longrightarrow> packet_ok ser deser raft (sent(y := sent y @ qs)) x p"
  by (auto simp: packet_ok_def genuine_def Let_def nth_append split: net_payload.splits)

lemma stream_ok_grows:
  assumes "stream_ok ser deser raft sent x w bs"
  shows "stream_ok ser deser raft (sent(y := sent y @ qs)) x w bs"
proof -
  obtain ps tail where "bs = concat (map (write_packet ser) ps) @ tail" "\<forall>p \<in> set ps. packet_ok ser deser raft sent x p"
    "tail \<noteq> [] \<longrightarrow> \<not> w \<and> (\<exists>p k. tail = take k (write_packet ser p) \<and> k < length (write_packet ser p) \<and>
        wire_ok ser deser (np_payload p))" using assms by (auto simp: stream_ok_def)
  then show ?thesis unfolding stream_ok_def using packet_ok_grows by (intro exI [of _ ps] exI [of _ tail]) blast
qed

lemma tasks_ok_grows: "tasks_ok sent x ts \<Longrightarrow> tasks_ok (sent(y := sent y @ qs)) x ts"
  by (auto simp: tasks_ok_def nth_append)

lemma calls_ok_grows: "calls_ok raft sent x c \<Longrightarrow> x \<noteq> y \<Longrightarrow> calls_ok raft (sent(y := sent y @ qs)) x c"
  by (auto simp: calls_ok_def)

lemma stream_ok_append:
  assumes "stream_ok ser deser raft sent x True bs" "packet_ok ser deser raft sent x p"
  shows "stream_ok ser deser raft sent x True (bs @ write_packet ser p)"
proof -
  obtain ps where "bs = concat (map (write_packet ser) ps)" "\<forall>p \<in> set ps. packet_ok ser deser raft sent x p"
    using assms(1) by (auto simp: stream_ok_def)
  then show ?thesis unfolding stream_ok_def using assms(2) by (intro exI [of _ "ps @ [p]"] exI [of _ "[]"]) auto
qed

lemma stream_ok_stop:
  assumes "stream_ok ser deser raft sent x True bs" "\<forall>p \<in> set queue. packet_ok ser deser raft sent x p"
    and "part = (case queue of p # _ \<Rightarrow> (if k < length (write_packet ser p) then take k (write_packet ser p) else []) | [] \<Rightarrow> [])"
  shows "stream_ok ser deser raft sent x False (bs @ part)"
proof -
  obtain ps where ps: "bs = concat (map (write_packet ser) ps)" "\<forall>p \<in> set ps. packet_ok ser deser raft sent x p"
    using assms(1) by (auto simp: stream_ok_def)
  have "part = [] \<or> (\<exists>p. part = take k (write_packet ser p) \<and> k < length (write_packet ser p) \<and> wire_ok ser deser (np_payload p))"
    using assms(2,3) by (auto simp: packet_ok_def split: list.splits if_splits)
  then show ?thesis unfolding stream_ok_def using ps by (intro exI [of _ ps] exI [of _ part]) blast
qed

lemma calls_ok_send:
  assumes ok: "calls_ok raft sent x c" and "length (sent x) < 2 ^ 64"
  shows "calls_ok raft (sent(x := sent x @ [q])) x (snd (conn_send_request q c))"
    "rc_writing (snd (conn_send_request q c)) = rc_writing c"
    "set (rc_packets (snd (conn_send_request q c))) \<subseteq>
      insert \<lparr>np_seq_id = of_nat (length (sent x)), np_payload = NetRequest q\<rparr> (set (rc_packets c))"
proof -
  have u: "unat (of_nat (length (sent x)) :: u64) = length (sent x)" using assms(2) by (simp add: unat_of_nat)
  have c: "rc_next c = length (sent x)" "local_seq c = of_nat (length (sent x))" using ok by (simp_all add: calls_ok_def)
  have "hm_get (rc_delivered c) (length (sent x)) \<noteq> Some p" for p using ok by (auto simp: calls_ok_def)
  then have "hm_get (rc_delivered c) (length (sent x)) = None" by (cases "hm_get (rc_delivered c) (length (sent x))") auto
  then show "calls_ok raft (sent(x := sent x @ [q])) x (snd (conn_send_request q c))"
    using ok u by (fastforce simp: calls_ok_def conn_send_request_def next_seq_def Let_def nth_append)
  show "rc_writing (snd (conn_send_request q c)) = rc_writing c"
    "set (rc_packets (snd (conn_send_request q c))) \<subseteq>
      insert \<lparr>np_seq_id = of_nat (length (sent x)), np_payload = NetRequest q\<rparr> (set (rc_packets c))"
    using c by (auto simp: conn_send_request_def next_seq_def Let_def)
qed

lemma link_invD:
  assumes "link_inv ser deser raft sent l"
  shows "calls_ok raft sent x (sd_conn (l x))" "tasks_ok sent x (sd_tasks (l x))"
    "\<forall>p \<in> set (rc_packets (sd_conn (l x))). packet_ok ser deser raft sent x p"
    "stream_ok ser deser raft sent (other x) (rc_writing (sd_conn (l (other x)))) (sd_in (l x) @ sd_wire (l x))"
  using assms by (simp_all add: link_inv_def)

text \<open>A step changes one side, and what it puts on the wire to the other.\<close>

lemma link_inv_change:
  assumes inv: "link_inv ser deser raft sent l"
    and side: "calls_ok raft sent x (sd_conn s)" "tasks_ok sent x (sd_tasks s)"
      "\<forall>p \<in> set (rc_packets (sd_conn s)). packet_ok ser deser raft sent x p"
      "stream_ok ser deser raft sent (other x) (rc_writing (sd_conn (l (other x)))) (sd_in s @ sd_wire s)"
    and out: "stream_ok ser deser raft sent x (rc_writing (sd_conn s)) (sd_in (l (other x)) @ sd_wire (l (other x)) @ bs)"
  shows "link_inv ser deser raft sent (put_on_wire (other x) bs (l(x := s)))"
proof (unfold link_inv_def, rule allI)
  let ?l = "put_on_wire (other x) bs (l(x := s))"
  fix y
  have l: "?l x = s" "?l (other x) = (l (other x))\<lparr>sd_wire := sd_wire (l (other x)) @ bs\<rparr>" by (simp_all add: put_on_wire_def)
  consider "y = x" | "y = other x" by (cases x; cases y) auto
  then show "calls_ok raft sent y (sd_conn (?l y)) \<and> tasks_ok sent y (sd_tasks (?l y)) \<and>
      (\<forall>p \<in> set (rc_packets (sd_conn (?l y))). packet_ok ser deser raft sent y p) \<and>
      stream_ok ser deser raft sent (other y) (rc_writing (sd_conn (?l (other y)))) (sd_in (?l y) @ sd_wire (?l y))"
  proof cases
    case 1
    then show ?thesis using side l by simp
  next
    case 2
    then show ?thesis using link_invD [OF inv, of "other x"] out l by simp
  qed
qed

lemma put_nothing [simp]: "put_on_wire x [] l = l"
  by (simp add: put_on_wire_def)

lemma calls_ok_respond:
  assumes ok: "calls_ok raft sent x c" and "packet_ok ser deser raft sent (other x) p" "np_payload p = NetResponse resp"
    and take: "pool_take (np_seq_id p) (wait_poll c) = (Some rx, pool)"
  shows "calls_ok raft sent x (c\<lparr>wait_poll := pool, rc_delivered := hm_insert rx resp (rc_delivered c)\<rparr>)"
proof -
  have rx: "hm_get (wait_poll c) (np_seq_id p) = Some rx" "pool = hm_remove (np_seq_id p) (wait_poll c)"
    using take by (simp_all add: pool_take_def)
  then have "rx = unat (np_seq_id p)" "rx < length (sent x)" using ok by (auto simp: calls_ok_def)
  moreover have "raft (other x) (sent x ! unat (np_seq_id p)) resp"
    using assms(2,3) by (simp add: packet_ok_def genuine_def Let_def)
  moreover have "hm_get (wait_poll c) s \<noteq> Some rx" if "s \<noteq> np_seq_id p" for s
  proof
    assume "hm_get (wait_poll c) s = Some rx"
    then have "unat s = unat (np_seq_id p)" using ok calculation(1) by (auto simp: calls_ok_def)
    with that show False by (simp add: unsigned_word_eqI)
  qed
  ultimately show ?thesis using ok rx(2) by (auto simp: calls_ok_def)
qed

lemma read_turn_inv:
  assumes inv: "link_inv ser deser raft sent l" and read: "read_turn deser (l x) = Some s"
  shows "link_inv ser deser raft sent (l(x := s))"
proof -
  note i = link_invD [OF inv]
  obtain r rest where r: "read_packet deser (sd_in (l x)) = Some (r, rest)"
    using read by (auto simp: read_turn_def split: if_splits option.splits)
  obtain p where p: "r = Some p" "packet_ok ser deser raft sent (other x) p"
    "stream_ok ser deser raft sent (other x) (rc_writing (sd_conn (l (other x)))) (rest @ sd_wire (l x))"
    by (rule read_stream [OF i(4) r])
  have keep: "link_inv ser deser raft sent (l(x := s))"
    if "sd_in s = rest" "sd_wire s = sd_wire (l x)" "calls_ok raft sent x (sd_conn s)" "tasks_ok sent x (sd_tasks s)"
      "rc_packets (sd_conn s) = rc_packets (sd_conn (l x))" "rc_writing (sd_conn s) = rc_writing (sd_conn (l x))"
    using link_inv_change [OF inv that(3,4), where bs = "[]"] that i(3) [of x] i(4) [of "other x"] p(3) by simp
  show ?thesis
  proof (cases "np_payload p")
    case (NetRequest q)
    then have "s = (l x)\<lparr>sd_in := rest, sd_tasks := sd_tasks (l x) @ [(np_seq_id p, q)]\<rparr>"
      using read r p(1) by (simp add: read_turn_def split: if_splits)
    moreover have "unat (np_seq_id p) < length (sent (other x)) \<and> sent (other x) ! unat (np_seq_id p) = q"
      using p(2) NetRequest by (simp add: packet_ok_def genuine_def Let_def)
    ultimately show ?thesis using i(1,2) [of x] by (intro keep) (auto simp: tasks_ok_def)
  next
    case (NetResponse resp)
    obtain rx pool where t: "pool_take (np_seq_id p) (wait_poll (sd_conn (l x))) = (rx, pool)" by fastforce
    show ?thesis
    proof (cases rx)
      case None
      then have "s = (l x)\<lparr>sd_in := rest, sd_conn := (sd_conn (l x))\<lparr>wait_poll := pool\<rparr>\<rparr>"
        using read r p(1) NetResponse t by (simp add: read_turn_def Let_def split: if_splits)
      moreover have "calls_ok raft sent x ((sd_conn (l x))\<lparr>wait_poll := pool\<rparr>)"
        using i(1) [of x] t None by (auto simp: calls_ok_def pool_take_def split: if_splits)
      ultimately show ?thesis using i(2) [of x] by (intro keep) simp_all
    next
      case (Some k)
      then have "s = (l x)\<lparr>sd_in := rest, sd_conn := (sd_conn (l x))\<lparr>wait_poll := pool,
          rc_delivered := hm_insert k resp (rc_delivered (sd_conn (l x)))\<rparr>\<rparr>"
        using read r p(1) NetResponse t by (simp add: read_turn_def Let_def split: if_splits)
      then show ?thesis
        using i(2) [of x] calls_ok_respond [OF i(1) p(2) NetResponse] t Some by (intro keep) simp_all
    qed
  qed
qed

lemma write_turn_inv:
  assumes inv: "link_inv ser deser raft sent l" and w: "write_turn ser (l x) = Some (bs, s)"
  shows "link_inv ser deser raft sent (put_on_wire (other x) bs (l(x := s)))"
proof -
  note i = link_invD [OF inv]
  obtain p queue where p: "rc_packets (sd_conn (l x)) = p # queue" "rc_writing (sd_conn (l x))" "bs = write_packet ser p"
    "s = (l x)\<lparr>sd_conn := (sd_conn (l x))\<lparr>rc_packets := queue\<rparr>\<rparr>"
    using w by (auto simp: write_turn_def split: list.splits if_splits)
  have "stream_ok ser deser raft sent x True ((sd_in (l (other x)) @ sd_wire (l (other x))) @ write_packet ser p)"
    by (rule stream_ok_append) (use i(3) [of x] i(4) [of "other x"] p in simp_all)
  moreover have "calls_ok raft sent x (sd_conn s)" using i(1) [of x] p(4) by (simp add: calls_ok_def)
  ultimately show ?thesis using i(2-4) [of x] p by (intro link_inv_change [OF inv]) simp_all
qed

lemma write_stop_inv:
  assumes inv: "link_inv ser deser raft sent l" and w: "write_stop ser k (l x) = (bs, s)" "rc_writing (sd_conn (l x))"
  shows "link_inv ser deser raft sent (put_on_wire (other x) bs (l(x := s)))"
proof -
  note i = link_invD [OF inv]
  have s: "s = (l x)\<lparr>sd_conn := (sd_conn (l x))\<lparr>rc_packets := [], rc_writing := False\<rparr>\<rparr>" using w(1) by (simp add: write_stop_def)
  have "stream_ok ser deser raft sent x False ((sd_in (l (other x)) @ sd_wire (l (other x))) @ bs)"
    by (rule stream_ok_stop [of _ _ _ _ _ _ "rc_packets (sd_conn (l x))" _ k])
      (use i(3) [of x] i(4) [of "other x"] w in \<open>simp_all add: write_stop_def\<close>)
  moreover have "calls_ok raft sent x (sd_conn s)" using i(1) [of x] s by (simp add: calls_ok_def)
  ultimately show ?thesis using i(2,4) [of x] s by (intro link_inv_change [OF inv]) simp_all
qed

lemma read_stop_inv:
  assumes inv: "link_inv ser deser raft sent l"
  shows "link_inv ser deser raft sent (l(x := read_stop (l x)))"
proof -
  note i = link_invD [OF inv]
  have "calls_ok raft sent x (sd_conn (read_stop (l x)))" using i(1) [of x] by (simp add: calls_ok_def read_stop_def)
  from link_inv_change [OF inv this, where bs = "[]"] i(2,3) [of x] i(4) [of x] i(4) [of "other x"]
  show ?thesis by (simp add: read_stop_def)
qed

lemma answer_turn_inv:
  assumes inv: "link_inv ser deser raft sent l" and j: "j < length (sd_tasks (l x))" "raft x (snd (sd_tasks (l x) ! j)) p"
    and wire: "wire_ok ser deser (NetResponse p)"
  shows "link_inv ser deser raft sent (l(x := answer_turn j p (l x)))"
proof -
  note i = link_invD [OF inv]
  let ?s = "answer_turn j p (l x)" and ?t = "sd_tasks (l x) ! j"
  have "?t \<in> set (sd_tasks (l x))" using j(1) by simp
  then have "unat (fst ?t) < length (sent (other x)) \<and> sent (other x) ! unat (fst ?t) = snd ?t"
    using i(2) [of x] unfolding tasks_ok_def case_prod_beta by blast
  then have ok: "packet_ok ser deser raft sent x \<lparr>np_seq_id = fst ?t, np_payload = NetResponse p\<rparr>"
    using j(2) wire by (simp add: packet_ok_def genuine_def Let_def)
  have s: "calls_ok raft sent x (sd_conn ?s)" "tasks_ok sent x (sd_tasks ?s)"
    using i(1,2) [of x] set_take_subset [of j "sd_tasks (l x)"] set_drop_subset [of "Suc j" "sd_tasks (l x)"]
    by (auto simp: answer_turn_def Let_def calls_ok_def tasks_ok_def)
  have "\<forall>p \<in> set (rc_packets (sd_conn ?s)). packet_ok ser deser raft sent x p" "rc_writing (sd_conn ?s) = rc_writing (sd_conn (l x))"
    "sd_in ?s = sd_in (l x)" "sd_wire ?s = sd_wire (l x)"
    using i(3) [of x] ok by (auto simp: answer_turn_def Let_def)
  with link_inv_change [OF inv s, where bs = "[]"] i(4) [of x] i(4) [of "other x"] show ?thesis by simp
qed

lemma send_inv:
  assumes inv: "link_inv ser deser raft sent l" and n: "length (sent x) < 2 ^ 64" and wire: "wire_ok ser deser (NetRequest q)"
  shows "link_inv ser deser raft (sent(x := sent x @ [q])) (l(x := (l x)\<lparr>sd_conn := snd (conn_send_request q (sd_conn (l x)))\<rparr>))"
proof -
  note i = link_invD [OF inv]
  let ?sent = "sent(x := sent x @ [q])" and ?c = "snd (conn_send_request q (sd_conn (l x)))"
  note c = calls_ok_send [OF i(1) n, of q]
  have u: "unat (of_nat (length (sent x)) :: u64) = length (sent x)" using n by (simp add: unat_of_nat)
  have "packet_ok ser deser raft ?sent x \<lparr>np_seq_id = of_nat (length (sent x)), np_payload = NetRequest q\<rparr>"
    using wire u by (simp add: packet_ok_def genuine_def Let_def)
  then have p: "\<forall>p \<in> set (rc_packets ?c). packet_ok ser deser raft ?sent x p"
    using c(3) i(3) [of x] packet_ok_grows [of ser deser raft sent x _ x "[q]"] by blast
  show ?thesis unfolding link_inv_def
  proof
    fix y
    consider "y = x" | "y = other x" by (cases x; cases y) auto
    then show "calls_ok raft ?sent y (sd_conn ((l(x := (l x)\<lparr>sd_conn := ?c\<rparr>)) y)) \<and>
      tasks_ok ?sent y (sd_tasks ((l(x := (l x)\<lparr>sd_conn := ?c\<rparr>)) y)) \<and>
      (\<forall>p \<in> set (rc_packets (sd_conn ((l(x := (l x)\<lparr>sd_conn := ?c\<rparr>)) y))). packet_ok ser deser raft ?sent y p) \<and>
      stream_ok ser deser raft ?sent (other y) (rc_writing (sd_conn ((l(x := (l x)\<lparr>sd_conn := ?c\<rparr>)) (other y))))
        (sd_in ((l(x := (l x)\<lparr>sd_conn := ?c\<rparr>)) y) @ sd_wire ((l(x := (l x)\<lparr>sd_conn := ?c\<rparr>)) y))"
    proof cases
      case 1
      then show ?thesis using c(1) p tasks_ok_grows [OF i(2)] stream_ok_grows [OF i(4)] by simp
    next
      case 2
      have "\<forall>p \<in> set (rc_packets (sd_conn (l (other x)))). packet_ok ser deser raft ?sent (other x) p"
        using i(3) [of "other x"] packet_ok_grows by blast
      with 2 show ?thesis
        using calls_ok_grows [OF i(1), of "other x" x] tasks_ok_grows [OF i(2)] stream_ok_grows [OF i(4) [of "other x"]] c(2) by simp
    qed
  qed
qed

lemma link_step_inv:
  assumes "link_step ser deser raft l ev l'" and inv: "link_inv ser deser raft sent l"
    and ok: "event_ok ser deser ev" "\<forall>x. length (sent x) < 2 ^ 64"
  shows "link_inv ser deser raft (\<lambda>x. sent x @ sent_of x ev) l'"
  using assms(1)
proof cases
  case (sends x q)
  have "(\<lambda>y. sent y @ sent_of y ev) = sent(x := sent x @ [q])" using sends(1) by auto
  then show ?thesis using send_inv [OF inv] sends ok by simp
next
  case (arrives x k)
  have "link_inv ser deser raft sent (l(x := (l x)\<lparr>sd_in := sd_in (l x) @ take k (sd_wire (l x)),
      sd_wire := drop k (sd_wire (l x))\<rparr>))"
    using link_inv_change [OF inv, of x _ "[]"] link_invD [OF inv, of x] link_invD(4) [OF inv, of "other x"] by simp
  then show ?thesis using arrives by simp
next
  case (drops k x bs s)
  obtain s' where w: "write_stop ser k (l x) = (bs, s')" "s = read_stop s'"
    using drops(3) by (auto simp: connection_drop_def split: prod.splits)
  from read_stop_inv [OF write_stop_inv [OF inv w(1) drops(4)], of x]
  have "link_inv ser deser raft sent ((put_on_wire (other x) bs (l(x := s')))(x := read_stop s'))" by (simp add: put_on_wire_def)
  moreover have "(put_on_wire (other x) bs (l(x := s')))(x := read_stop s') = put_on_wire (other x) bs (l(x := s))"
    using w(2) by (auto simp: put_on_wire_def fun_eq_iff)
  ultimately show ?thesis using drops by simp
qed (use inv ok write_turn_inv read_turn_inv answer_turn_inv write_stop_inv read_stop_inv in auto)

lemma sent_by_append: "sent_by x (evs @ [ev]) = sent_by x evs @ sent_of x ev"
  by (simp add: sent_by_def)

lemma sent_by_length: "length (sent_by x evs) \<le> length evs"
proof (induction evs)
  case (Cons ev evs)
  then show ?case by (cases ev) (auto simp: sent_by_def)
qed (simp add: sent_by_def)

lemma link_run_inv:
  assumes "link_run ser deser raft (link_new dialer acceptor) evs l" "\<forall>ev \<in> set evs. event_ok ser deser ev" "length evs \<le> 2 ^ 64"
  shows "link_inv ser deser raft (\<lambda>x. sent_by x evs) l"
  using assms
proof (induction rule: link_run.induct)
  case start
  have "stream_ok ser deser raft sent x w []" for sent x w
    unfolding stream_ok_def by (intro exI [of _ "[]"]) simp
  then show ?case
    by (simp add: link_inv_def link_new_def side_new_def connection_new_def calls_ok_def tasks_ok_def sent_by_def)
next
  case (step evs l ev l')
  have "\<forall>x. length (sent_by x evs) < 2 ^ 64"
    using step.prems(2) sent_by_length [of _ evs] by (fastforce dest: le_less_trans)
  from link_step_inv [OF step.hyps(2) _ _ this] step.IH step.prems show ?case by (simp add: sent_by_append)
qed

lemma delivered_stays:
  assumes "link_step ser deser raft l ev l'" and ok: "calls_ok raft sent x (sd_conn (l x))"
    and got: "hm_get (rc_delivered (sd_conn (l x))) rx = Some p"
  shows "hm_get (rc_delivered (sd_conn (l' x))) rx = Some p"
  using assms(1)
proof cases
  case (reads y s)
  have "hm_get (wait_poll (sd_conn (l x))) seq \<noteq> Some rx" for seq using ok got by (auto simp: calls_ok_def)
  then show ?thesis using reads got
    by (auto simp: read_turn_def pool_take_def Let_def split: if_splits option.splits net_payload.splits)
qed (use got in \<open>auto simp: put_on_wire_def conn_send_request_def next_seq_def Let_def write_turn_def write_stop_def
      connection_drop_def read_stop_def answer_turn_def split: list.splits if_splits\<close>)

text \<open>
  (C17) Calls between two servers, whatever happens on the way.  Both sides send requests, their tasks
  write, read and answer in any order, TCP cuts the stream anywhere, tasks end and connections are
  dropped in the middle of a packet: a response that a call has got is an answer of the other
  side's raft to the request of that very call, and no later step replaces it.
\<close>

theorem link_answers_are_genuine:
  assumes "link_run ser deser raft (link_new dialer acceptor) evs l" "\<forall>ev \<in> set evs. event_ok ser deser ev" "length evs < 2 ^ 64"
    and got: "hm_get (rc_delivered (sd_conn (l x))) rx = Some p"
  shows "rx < length (sent_by x evs) \<and> raft (other x) (sent_by x evs ! rx) p \<and>
    (\<forall>ev l'. link_step ser deser raft l ev l' \<longrightarrow> hm_get (rc_delivered (sd_conn (l' x))) rx = Some p)"
proof -
  have inv: "link_inv ser deser raft (\<lambda>x. sent_by x evs) l" by (rule link_run_inv [OF assms(1,2)]) (use assms(3) in simp)
  note c = link_invD(1) [OF inv, of x]
  have "rx < length (sent_by x evs) \<and> raft (other x) (sent_by x evs ! rx) p" using c got by (auto simp: calls_ok_def)
  moreover have "hm_get (rc_delivered (sd_conn (l' x))) rx = Some p" if s: "link_step ser deser raft l ev l'" for ev l'
    using delivered_stays [OF s c got] .
  ultimately show ?thesis by blast
qed

section \<open>The steps as a function\<close>

fun link_exec ::
  "(('q, 'p) net_payload \<Rightarrow> bytes) \<Rightarrow> (bytes \<Rightarrow> ('q, 'p) net_payload option) \<Rightarrow> (side_id \<Rightarrow> 'q \<Rightarrow> 'p \<Rightarrow> bool)
    \<Rightarrow> ('q, 'p) link_event \<Rightarrow> ('q, 'p) link \<Rightarrow> ('q, 'p) link option" where
  "link_exec ser deser raft (LSend x q) l = Some (l(x := (l x)\<lparr>sd_conn := snd (conn_send_request q (sd_conn (l x)))\<rparr>))"
| "link_exec ser deser raft (LWrite x) l = map_option (\<lambda>(bs, s). put_on_wire (other x) bs (l(x := s))) (write_turn ser (l x))"
| "link_exec ser deser raft (LRead x) l = map_option (\<lambda>s. l(x := s)) (read_turn deser (l x))"
| "link_exec ser deser raft (LAnswer x j p) l =
    (if j < length (sd_tasks (l x)) \<and> raft x (snd (sd_tasks (l x) ! j)) p then Some (l(x := answer_turn j p (l x))) else None)"
| "link_exec ser deser raft (LArrive x k) l =
    Some (l(x := (l x)\<lparr>sd_in := sd_in (l x) @ take k (sd_wire (l x)), sd_wire := drop k (sd_wire (l x))\<rparr>))"
| "link_exec ser deser raft (LWriteStop x k) l =
    (if rc_writing (sd_conn (l x)) then (case write_stop ser k (l x) of (bs, s) \<Rightarrow> Some (put_on_wire (other x) bs (l(x := s)))) else None)"
| "link_exec ser deser raft (LReadStop x) l = Some (l(x := read_stop (l x)))"
| "link_exec ser deser raft (LDrop x k) l =
    (if rc_writing (sd_conn (l x)) then (case connection_drop ser k (l x) of (bs, s) \<Rightarrow> Some (put_on_wire (other x) bs (l(x := s)))) else None)"

lemma link_exec_step: "link_exec ser deser raft ev l = Some l' \<Longrightarrow> link_step ser deser raft l ev l'"
  by (cases ev) (auto intro: link_step.intros split: if_splits prod.splits)

fun link_exec_all where
  "link_exec_all ser deser raft [] l = Some l"
| "link_exec_all ser deser raft (ev # evs) l = Option.bind (link_exec ser deser raft ev l) (link_exec_all ser deser raft evs)"

lemma link_exec_run:
  assumes "link_run ser deser raft l0 evs l" "link_exec_all ser deser raft evs' l = Some l'"
  shows "link_run ser deser raft l0 (evs @ evs') l'"
  using assms
proof (induction evs' arbitrary: evs l)
  case (Cons ev evs')
  then obtain l1 where l1: "link_exec ser deser raft ev l = Some l1" "link_exec_all ser deser raft evs' l1 = Some l'"
    by (auto simp: bind_eq_Some_conv)
  from Cons.IH [OF link_run.step [OF Cons.prems(1) link_exec_step [OF l1(1)]] l1(2)] show ?case by simp
qed simp

section \<open>Witness\<close>

text \<open>A request goes out, its bytes arrive in two pieces, and the answer comes back.\<close>

fun example_ser :: "(bool, bool) net_payload \<Rightarrow> bytes" where
  "example_ser (NetRequest b) = [0, if b then 1 else 0]"
| "example_ser (NetResponse b) = [1, if b then 1 else 0]"

definition example_deser :: "bytes \<Rightarrow> (bool, bool) net_payload option" where
  "example_deser bs = (if length bs = 2 then Some ((if bs ! 0 = 0 then NetRequest else NetResponse) (bs ! 1 = 1)) else None)"

definition example_raft :: "side_id \<Rightarrow> bool \<Rightarrow> bool \<Rightarrow> bool" where
  "example_raft x q p \<longleftrightarrow> p = (\<not> q)"

definition example_link :: "(bool, bool) link" where
  "example_link = link_new \<lparr>ni_id = NodeId [1], ni_addr = ''a''\<rparr> \<lparr>ni_id = NodeId [2], ni_addr = ''b''\<rparr>"

definition example_events :: "(bool, bool) link_event list" where
  "example_events = [LSend Dialer True, LWrite Dialer, LArrive Acceptor 5, LArrive Acceptor 20, LRead Acceptor,
    LAnswer Acceptor 0 False, LWrite Acceptor, LArrive Dialer 20, LRead Dialer]"

lemma example_link_run:
  "map_option (\<lambda>l. hm_get (rc_delivered (sd_conn (l Dialer))) 0)
    (link_exec_all example_ser example_deser example_raft example_events example_link) = Some (Some False)"
  by code_simp

theorem link_answers_are_genuine_witness:
  "\<exists>l p. link_run example_ser example_deser example_raft example_link example_events l \<and>
    hm_get (rc_delivered (sd_conn (l Dialer))) 0 = Some p \<and> example_raft Acceptor True p"
proof -
  obtain l where l: "link_exec_all example_ser example_deser example_raft example_events example_link = Some l"
    "hm_get (rc_delivered (sd_conn (l Dialer))) 0 = Some False"
    using example_link_run by (cases "link_exec_all example_ser example_deser example_raft example_events example_link") auto
  have run: "link_run example_ser example_deser example_raft example_link example_events l"
    using link_exec_run [OF link_run.start l(1)] by simp
  have ok: "\<forall>ev \<in> set example_events. event_ok example_ser example_deser ev" "length example_events < 2 ^ 64"
    by (simp_all add: example_events_def wire_ok_def example_deser_def)
  have "sent_by Dialer example_events = [True]" by (simp add: sent_by_def example_events_def)
  with link_answers_are_genuine [OF run [unfolded example_link_def] ok l(2)] run l(2) show ?thesis by auto
qed

end
