(* ===== verification/MQ_Client.thy ===== *)
theory MQ_Client
  imports MQ_Node
begin

text \<open>
  The Rust client (\<open>sdk/rust/src\<close>): \<open>ClientNode\<close> with its pool of responders and its two tasks
  (\<open>node.rs\<close>), the endpoints and received messages (\<open>endpoint.rs\<close>), the errors (\<open>error.rs\<close>).

  The web socket and its JSON text are those of other packages: the tasks exchange payloads with
  the socket, and what does not parse is skipped before it gets here.
\<close>

section \<open>Errors (error.rs)\<close>

text \<open>The errors of the web socket and of the operating system are their text.\<close>

datatype client_error =
    UnexpectedResponse edge_response_enum
  | ClientEdge edge_error
  | ClientWs string
  | NoConnection edge_request_enum
  | Disconnected
  | ClientIo string
  | ClientWaitAck wait_ack_error

section \<open>ClientNodeInner (node.rs)\<close>

text \<open>
  \<open>cn_queue\<close> is the channel to the sending task, \<open>cn_sent\<close> what that task has put on the socket.  A
  responder is a number; \<open>cn_results\<close> are those that have got a result, \<open>cn_dropped\<close> those that
  were dropped without one.  \<open>cn_mail\<close> are the mailboxes whose endpoint still exists.
\<close>

record client_node =
  cn_seq :: u32
  cn_queue :: "(edge_request \<times> nat) list"
  cn_tx_alive :: bool
  cn_rx_alive :: bool
  response_pool :: "(u32, nat) hash_map"
  cn_sent :: "edge_payload list"
  cn_next :: nat
  cn_results :: "(nat, edge_error + edge_response_enum) hash_map"
  cn_dropped :: "nat set"
  endpoint_map :: "(endpoint_addr, nat) hash_map"
  cn_mail :: "(nat, message list) hash_map"

definition client_connect :: client_node where
  "client_connect =
    \<lparr>cn_seq = 0, cn_queue = [], cn_tx_alive = True, cn_rx_alive = True, response_pool = [], cn_sent = [], cn_next = 0, cn_results = [],
     cn_dropped = {}, endpoint_map = [], cn_mail = []\<rparr>"

text \<open>The sending half of \<open>send_request\<close>: the request is queued under the next sequence number.\<close>

definition client_send_request :: "edge_request_enum \<Rightarrow> client_node \<Rightarrow> (client_error + nat) \<times> client_node" where
  "client_send_request request c =
    (let rx = cn_next c; rq = \<lparr>rq_seq_id = cn_seq c, rq_request = request\<rparr>;
         c = c\<lparr>cn_seq := cn_seq c + 1, cn_next := Suc rx\<rparr>
     in if cn_tx_alive c then (Inr rx, c\<lparr>cn_queue := cn_queue c @ [(rq, rx)]\<rparr>)
        else (Inl (NoConnection request), c))"

text \<open>Its waiting half: \<open>None\<close> while there is no answer.\<close>

definition client_response :: "client_node \<Rightarrow> nat \<Rightarrow> (client_error + edge_response_enum) option" where
  "client_response c rx =
    (case hm_get (cn_results c) rx of
       Some (Inr resp) \<Rightarrow> Some (Inr resp)
     | Some (Inl e) \<Rightarrow> Some (Inl (ClientEdge e))
     | None \<Rightarrow> if rx \<in> cn_dropped c then Some (Inl Disconnected) else None)"

text \<open>
  The pool is shared by the two tasks: when the last of them ends, the responders in it are
  dropped.
\<close>

definition release_pool :: "client_node \<Rightarrow> client_node" where
  "release_pool c =
    (if cn_tx_alive c \<or> cn_rx_alive c then c
     else c\<lparr>response_pool := [], cn_dropped := cn_dropped c \<union> snd ` set (response_pool c)\<rparr>)"

text \<open>
  One turn of the sending task; \<open>ok\<close> says whether the socket took the message.  When it did not,
  the task ends and drops the requests that are still queued.
\<close>

definition tx_turn :: "bool \<Rightarrow> client_node \<Rightarrow> client_node" where
  "tx_turn ok c =
    (case cn_queue c of
       [] \<Rightarrow> c
     | (request, responder) # rest \<Rightarrow>
         (let dropped = (case hm_get (response_pool c) (rq_seq_id request) of Some old \<Rightarrow> {old} | None \<Rightarrow> {});
              c = c\<lparr>cn_queue := rest, cn_dropped := cn_dropped c \<union> dropped,
                    response_pool := hm_insert (rq_seq_id request) responder (response_pool c)\<rparr>
          in if ok then c\<lparr>cn_sent := cn_sent c @ [PayloadRequest request]\<rparr>
             else release_pool (c\<lparr>cn_tx_alive := False, cn_queue := [], cn_dropped := cn_dropped c \<union> snd ` set rest\<rparr>)))"

text \<open>Delivering a pushed message to one endpoint; an unknown or dropped one is skipped.\<close>

definition deliver :: "message \<Rightarrow> endpoint_addr \<Rightarrow> client_node \<Rightarrow> client_node" where
  "deliver m ep c =
    (case hm_get (endpoint_map c) ep of
       None \<Rightarrow> c
     | Some mb \<Rightarrow> c\<lparr>cn_mail := hm_modify mb (\<lambda>ms. ms @ [m]) (cn_mail c)\<rparr>)"

text \<open>One turn of the receiving task, for a payload.\<close>

fun rx_turn :: "edge_payload \<Rightarrow> client_node \<Rightarrow> client_node" where
  "rx_turn (PayloadPush (PushMessage endpoints m)) c = fold (deliver m) endpoints c"
| "rx_turn (PayloadResponse response) c =
    (case pool_take (rs_seq_id response) (response_pool c) of
       (Some responder, pool) \<Rightarrow>
         c\<lparr>response_pool := pool, cn_results := hm_insert responder (edge_result_into_std (rs_result response)) (cn_results c)\<rparr>
     | (None, pool) \<Rightarrow> c\<lparr>response_pool := pool\<rparr>)"
| "rx_turn _ c = c"

text \<open>When the socket closes, the receiving task ends; the sending task is not told.\<close>

definition rx_closed :: "client_node \<Rightarrow> client_node" where
  "rx_closed c = release_pool (c\<lparr>cn_rx_alive := False\<rparr>)"

text \<open>
  Dropping the node cancels both tasks: the queued requests and the pool go, and the receiving
  task clears the map of mailboxes.
\<close>

definition client_cancelled :: "client_node \<Rightarrow> client_node" where
  "client_cancelled c =
    release_pool (c\<lparr>cn_tx_alive := False, cn_rx_alive := False, cn_queue := [], endpoint_map := [],
      cn_dropped := cn_dropped c \<union> snd ` set (cn_queue c)\<rparr>)"

section \<open>What the client makes of a response\<close>

definition send_message_reply :: "client_error + edge_response_enum \<Rightarrow> client_error + wait_ack_success" where
  "send_message_reply r =
    (case r of
       Inl e \<Rightarrow> Inl e
     | Inr (RespSendMessage result) \<Rightarrow>
         (case edge_result_into_std result of Inl e \<Rightarrow> Inl (ClientWaitAck e) | Inr ok \<Rightarrow> Inr ok)
     | Inr response \<Rightarrow> Inl (UnexpectedResponse response))"

definition send_ep_online_reply :: "client_error + edge_response_enum \<Rightarrow> client_error + endpoint_addr" where
  "send_ep_online_reply r =
    (case r of
       Inl e \<Rightarrow> Inl e
     | Inr (RespEndpointOnline addr) \<Rightarrow> Inr addr
     | Inr response \<Rightarrow> Inl (UnexpectedResponse response))"

definition send_ep_offline_reply :: "client_error + edge_response_enum \<Rightarrow> client_error + unit" where
  "send_ep_offline_reply r =
    (case r of
       Inl e \<Rightarrow> Inl e
     | Inr RespEndpointOffline \<Rightarrow> Inr ()
     | Inr response \<Rightarrow> Inl (UnexpectedResponse response))"

definition send_ep_interests_reply :: "client_error + edge_response_enum \<Rightarrow> client_error + unit" where
  "send_ep_interests_reply r =
    (case r of
       Inl e \<Rightarrow> Inl e
     | Inr RespEndpointInterest \<Rightarrow> Inr ()
     | Inr response \<Rightarrow> Inl (UnexpectedResponse response))"

definition send_single_ack_reply :: "client_error + edge_response_enum \<Rightarrow> client_error + unit" where
  "send_single_ack_reply r =
    (case r of
       Inl e \<Rightarrow> Inl e
     | Inr RespSetState \<Rightarrow> Inr ()
     | Inr response \<Rightarrow> Inl (UnexpectedResponse response))"

text \<open>The requests themselves.\<close>

definition ep_offline_request :: "topic_code \<Rightarrow> endpoint_addr \<Rightarrow> edge_request_enum" where
  "ep_offline_request code ep = ReqEndpointOffline \<lparr>eoff_topic_code = code, eoff_endpoint = ep\<rparr>"

definition ep_interests_request :: "topic_code \<Rightarrow> endpoint_addr \<Rightarrow> interest list \<Rightarrow> edge_request_enum" where
  "ep_interests_request code ep is = ReqEndpointInterest \<lparr>ei_topic_code = code, ei_endpoint = ep, ei_interests = is\<rparr>"

definition single_ack_request :: "message_ack \<Rightarrow> edge_request_enum" where
  "single_ack_request ack =
    ReqSetState \<lparr>ss_topic = ack_topic_code ack,
      ss_update = \<lparr>upd_message_id = ack_to ack, upd_status = [(ack_from ack, ack_status ack)]\<rparr>\<rparr>"

section \<open>Endpoints (endpoint.rs)\<close>

record client_endpoint =
  ce_addr :: endpoint_addr
  ce_topic_code :: topic_code
  ce_interests :: "interest set"
  ce_mailbox :: nat

text \<open>
  \<open>create_endpoint\<close>: the mailbox is made first, the endpoint enters the map once the server has
  answered with its address.
\<close>

definition open_mailbox :: "client_node \<Rightarrow> nat \<times> client_node" where
  "open_mailbox c = (cn_next c, c\<lparr>cn_next := Suc (cn_next c), cn_mail := hm_insert (cn_next c) [] (cn_mail c)\<rparr>)"

definition finish_create_endpoint ::
  "topic_code \<Rightarrow> interest set \<Rightarrow> nat \<Rightarrow> client_error + endpoint_addr \<Rightarrow> client_node \<Rightarrow> (client_error + client_endpoint) \<times> client_node" where
  "finish_create_endpoint code is mb r c =
    (case r of
       Inl e \<Rightarrow> (Inl e, c\<lparr>cn_mail := hm_remove mb (cn_mail c)\<rparr>)
     | Inr addr \<Rightarrow>
         (Inr \<lparr>ce_addr = addr, ce_topic_code = code, ce_interests = is, ce_mailbox = mb\<rparr>,
          c\<lparr>endpoint_map := hm_insert addr mb (endpoint_map c)\<rparr>))"

record client_received_message =
  crm_ep_addr :: endpoint_addr
  crm_topic_code :: topic_code
  crm_message :: message

definition client_next_message :: "client_endpoint \<Rightarrow> client_node \<Rightarrow> client_received_message option \<times> client_node" where
  "client_next_message e c =
    (case hm_get (cn_mail c) (ce_mailbox e) of
       Some (m # ms) \<Rightarrow>
         (Some \<lparr>crm_ep_addr = ce_addr e, crm_topic_code = ce_topic_code e, crm_message = m\<rparr>,
          c\<lparr>cn_mail := hm_insert (ce_mailbox e) ms (cn_mail c)\<rparr>)
     | _ \<Rightarrow> (None, c))"

text \<open>The request of an acknowledgement; \<open>alive\<close> says that the node still exists.\<close>

definition received_ack ::
  "(message_header \<Rightarrow> topic_code \<Rightarrow> endpoint_addr \<Rightarrow> message_ack) \<Rightarrow> bool \<Rightarrow> client_received_message
    \<Rightarrow> client_error + edge_request_enum" where
  "received_ack mk alive m =
    (if alive then Inr (single_ack_request (mk (header (crm_message m)) (crm_topic_code m) (crm_ep_addr m)))
     else Inl Disconnected)"

definition client_ack_failed where "client_ack_failed = received_ack ack_failed"
definition client_ack_processed where "client_ack_processed = received_ack ack_processed"
definition client_ack_received where "client_ack_received = received_ack ack_received"

text \<open>\<open>update_interests\<close> after the response.\<close>

definition finish_update_interests ::
  "interest list \<Rightarrow> client_error + unit \<Rightarrow> client_endpoint \<Rightarrow> (client_error + unit) \<times> client_endpoint" where
  "finish_update_interests is r e =
    (case r of Inl x \<Rightarrow> (Inl x, e) | Inr _ \<Rightarrow> (Inr (), e\<lparr>ce_interests := set is\<rparr>))"

text \<open>Dropping an endpoint: its mailbox goes at once, the map entry when the server has answered.\<close>

definition drop_endpoint :: "client_endpoint \<Rightarrow> client_node \<Rightarrow> (client_error + nat) \<times> client_node" where
  "drop_endpoint e c =
    client_send_request (ep_offline_request (ce_topic_code e) (ce_addr e))
      (c\<lparr>cn_mail := hm_remove (ce_mailbox e) (cn_mail c)\<rparr>)"

definition finish_drop_endpoint :: "client_endpoint \<Rightarrow> client_node \<Rightarrow> client_node" where
  "finish_drop_endpoint e c = c\<lparr>endpoint_map := hm_remove (ce_addr e) (endpoint_map c)\<rparr>"

section \<open>Calls\<close>

text \<open>The responses that answer a request.\<close>

fun answers_request :: "edge_request_enum \<Rightarrow> edge_response_enum \<Rightarrow> bool" where
  "answers_request (ReqSendMessage _) (RespSendMessage _) \<longleftrightarrow> True"
| "answers_request (ReqEndpointOnline _) (RespEndpointOnline _) \<longleftrightarrow> True"
| "answers_request (ReqEndpointOffline _) RespEndpointOffline \<longleftrightarrow> True"
| "answers_request (ReqEndpointInterest _) RespEndpointInterest \<longleftrightarrow> True"
| "answers_request (ReqSetState _) RespSetState \<longleftrightarrow> True"
| "answers_request _ _ \<longleftrightarrow> False"

lemma request_kind_answered:
  assumes "handle_request_kind r from request n = Inr (reply, n')" "finish_request n'' reply = Some (Inr resp)"
  shows "answers_request request resp"
  using assms
  by (cases request)
    (auto simp: draw_message_eq draw_endpoint_eq finish_request_def Let_def case_prod_beta
      split: option.splits sum.splits prod.splits)

lemma handled_request_answered:
  assumes "handle_edge_request r from request n = Inr (reply, n')" "finish_request n'' reply = Some (Inr resp)"
  shows "answers_request request resp"
  using assms request_kind_answered [of r "from" request n reply n' n'' resp]
  by (auto simp: handle_edge_request_def finish_request_def split: option.splits sum.splits)

lemma request_kind_waits:
  assumes "handle_request_kind r from request n = Inr (AwaitAck h, n')"
  shows "\<exists>em. request = ReqSendMessage em"
  using assms
  by (cases request)
    (auto simp: draw_message_eq draw_endpoint_eq propose_for_edge_def Let_def case_prod_beta split: option.splits sum.splits prod.splits)

text \<open>
  (C21) The replies of a server are well-typed: only a request to send a message is answered later, and
  whenever the answer to a request is there and is not an error, it is the response of the kind that
  belongs to the request.
\<close>

theorem edge_replies_typed:
  assumes "handle_edge_request r from request n = Inr (reply, n')"
  shows "((\<exists>h. reply = AwaitAck h) \<longrightarrow> (\<exists>em. request = ReqSendMessage em)) \<and>
    (\<forall>n'' resp. finish_request n'' reply = Some (Inr resp) \<longrightarrow> answers_request request resp)"
proof (intro conjI impI allI)
  assume "\<exists>h. reply = AwaitAck h"
  then show "\<exists>em. request = ReqSendMessage em"
    using assms request_kind_waits by (auto simp: handle_edge_request_def split: option.splits sum.splits)
qed (rule handled_request_answered [OF assms])

text \<open>One call up to the socket: the request is queued and the sending task takes it.\<close>

definition client_call :: "edge_request_enum \<Rightarrow> client_node \<Rightarrow> client_node" where
  "client_call request c = tx_turn True (snd (client_send_request request c))"

lemma client_call_sent:
  assumes "cn_tx_alive c" "cn_queue c = []"
  shows "client_send_request request c = (Inr (cn_next c), snd (client_send_request request c))"
    "cn_sent (client_call request c) = cn_sent c @ [PayloadRequest \<lparr>rq_seq_id = cn_seq c, rq_request = request\<rparr>]"
    "response_pool (client_call request c) = hm_insert (cn_seq c) (cn_next c) (response_pool c)"
    "cn_queue (client_call request c) = []" "cn_tx_alive (client_call request c)"
    "cn_rx_alive (client_call request c) = cn_rx_alive c" "cn_results (client_call request c) = cn_results c"
    "cn_seq (client_call request c) = cn_seq c + 1" "cn_next (client_call request c) = Suc (cn_next c)"
    "cn_dropped (client_call request c) = cn_dropped c \<union> set_option (hm_get (response_pool c) (cn_seq c))"
  using assms by (simp_all add: client_call_def client_send_request_def tx_turn_def Let_def split: option.split)

lemma rx_response:
  assumes "hm_get (response_pool c) seq = Some rx"
  shows "client_response (rx_turn (PayloadResponse (edge_response_from_result seq result)) c) rx =
    Some (map_sum ClientEdge id result)"
  using assms
  by (cases result) (simp_all add: pool_take_def client_response_def edge_response_from_result_def)

text \<open>What the caller of the client makes of the response to its request.\<close>

fun call_outcome :: "edge_request_enum \<Rightarrow> client_error + edge_response_enum \<Rightarrow> client_error + unit" where
  "call_outcome (ReqSendMessage _) r = map_sum id (\<lambda>_. ()) (send_message_reply r)"
| "call_outcome (ReqEndpointOnline _) r = map_sum id (\<lambda>_. ()) (send_ep_online_reply r)"
| "call_outcome (ReqEndpointOffline _) r = send_ep_offline_reply r"
| "call_outcome (ReqEndpointInterest _) r = send_ep_interests_reply r"
| "call_outcome (ReqSetState _) r = send_single_ack_reply r"

lemmas client_replies = send_message_reply_def send_ep_online_reply_def send_ep_offline_reply_def
  send_ep_interests_reply_def send_single_ack_reply_def

lemma answers_expected:
  "answers_request request resp \<Longrightarrow> call_outcome request (Inr resp) \<noteq> Inl (UnexpectedResponse resp')"
  by (cases "(request, resp)" rule: answers_request.cases) (auto simp: client_replies split: sum.split)

text \<open>
  (C19) A call of the client composed with the server: a connected client with an idle channel puts
  exactly one request on the socket, and the response the server computes for that request, whenever
  its handle is ready, reaches the responder of this call, whatever other calls are waiting.  A
  successful response is of the kind the call expects, so the caller never sees
  \<open>UnexpectedResponse\<close>.
\<close>

theorem client_call_roundtrip:
  assumes "cn_tx_alive c" "cn_queue c = []" "client_send_request request c = (Inr rx, c1)"
    and "tx_turn True c1 = c2" "last (cn_sent c2) = PayloadRequest rq"
    and "handle_edge_request r from (rq_request rq) n = Inr (reply, n')" "finish_request n'' reply = Some result"
  shows "client_response (rx_turn (PayloadResponse (edge_response_from_result (rq_seq_id rq) result)) c2) rx =
      Some (map_sum ClientEdge id result) \<and>
    call_outcome request (map_sum ClientEdge id result) \<noteq> Inl (UnexpectedResponse resp)"
proof -
  have c2: "c2 = client_call request c" and rx: "rx = cn_next c"
    using assms(3,4) client_call_sent(1) [OF assms(1,2), of request] by (simp_all add: client_call_def)
  have rq: "rq = \<lparr>rq_seq_id = cn_seq c, rq_request = request\<rparr>"
    using assms(5) client_call_sent(2) [OF assms(1,2), of request] by (simp add: c2)
  have "hm_get (response_pool c2) (rq_seq_id rq) = Some rx"
    by (simp add: c2 rq rx client_call_sent(3) [OF assms(1,2)])
  moreover have "call_outcome request (map_sum ClientEdge id result) \<noteq> Inl (UnexpectedResponse resp)"
  proof (cases result)
    case (Inl e)
    then show ?thesis by (cases request) (simp_all add: client_replies)
  next
    case (Inr a)
    then have "answers_request request a"
      using handled_request_answered [of r "from" request n reply n' n'' a] assms(6,7) by (simp add: rq)
    then show ?thesis using Inr answers_expected by simp
  qed
  ultimately show ?thesis using rx_response by blast
qed

lemma example_refused:
  "\<exists>e. handle_edge_request (single_node_raft (NodeId [1])) (NodeId [8])
      (ReqEndpointOffline \<lparr>eoff_topic_code = example_topic, eoff_endpoint = EndpointAddr [1]\<rparr>) example_server
    = Inr (Reply (Inl e), example_server)"
proof -
  have "hm_get (edge_routing example_server) (EndpointAddr [1]) = Some (NodeId [7], example_topic)"
    "sn_edge_auth example_server = None"
    by (simp_all add: example_server_def)
  then show ?thesis
    by (simp add: handle_edge_request_def check_ep_auth_def get_edge_routing_def split: option.split)
qed

theorem edge_replies_typed_witness:
  "\<exists>reply n'. handle_edge_request (single_node_raft (NodeId [1])) (NodeId [8])
      (ReqEndpointOffline \<lparr>eoff_topic_code = example_topic, eoff_endpoint = EndpointAddr [1]\<rparr>) example_server = Inr (reply, n') \<and>
    \<not> (\<exists>h. reply = AwaitAck h)"
  using example_refused edge_replies_typed [of "single_node_raft (NodeId [1])" "NodeId [8]"] by blast

theorem client_call_roundtrip_witness:
  "\<exists>e. client_response (rx_turn (PayloadResponse (edge_response_from_result 0 (Inl e)))
      (tx_turn True (snd (client_send_request
        (ReqEndpointOffline \<lparr>eoff_topic_code = example_topic, eoff_endpoint = EndpointAddr [1]\<rparr>) client_connect)))) 0
    = Some (Inl (ClientEdge e))"
proof -
  let ?rq = "ReqEndpointOffline \<lparr>eoff_topic_code = example_topic, eoff_endpoint = EndpointAddr [1]\<rparr>"
  let ?s = "client_send_request ?rq client_connect"
  obtain e where "handle_edge_request (single_node_raft (NodeId [1])) (NodeId [8]) ?rq example_server
      = Inr (Reply (Inl e), example_server)" using example_refused by blast
  then have "client_response (rx_turn (PayloadResponse (edge_response_from_result 0 (Inl e))) (tx_turn True (snd ?s))) 0
      = Some (map_sum ClientEdge id (Inl e))"
    using client_call_roundtrip [of client_connect ?rq 0 "snd ?s" "tx_turn True (snd ?s)" "\<lparr>rq_seq_id = 0, rq_request = ?rq\<rparr>"
        "single_node_raft (NodeId [1])" "NodeId [8]" example_server "Reply (Inl e)" example_server example_server "Inl e"]
    by (simp add: client_connect_def client_send_request_def tx_turn_def finish_request_def Let_def)
  then show ?thesis by auto
qed

section \<open>What gets lost\<close>

text \<open>
  A message the server pushes to an endpoint as soon as it is online, before the client has
  entered the endpoint in its map, is lost: it reaches no mailbox, and the endpoint the client then
  returns waits at an empty mailbox.
\<close>

theorem early_push_lost:
  assumes "hm_get (endpoint_map c) addr = None" "open_mailbox c = (mb, c1)"
    and "finish_create_endpoint code is mb (Inr addr) (rx_turn (PayloadPush (PushMessage [addr] m)) c1) = (Inr e, c2)"
  shows "ce_addr e = addr \<and> ce_mailbox e = mb \<and> hm_get (cn_mail c2) mb = Some [] \<and>
    client_next_message e c2 = (None, c2) \<and>
    cn_mail c2 = cn_mail c1"
  using assms
  by (auto simp: open_mailbox_def finish_create_endpoint_def deliver_def client_next_message_def)

theorem early_push_lost_witness:
  "(case open_mailbox client_connect of (mb, c1) \<Rightarrow>
     case finish_create_endpoint example_topic {} mb (Inr (EndpointAddr [1]))
            (rx_turn (PayloadPush (PushMessage [EndpointAddr [1]] (example_message 3 Online))) c1) of
       (Inr e, c2) \<Rightarrow> client_next_message e c2 = (None, c2)
     | _ \<Rightarrow> False)"
proof -
  let ?o = "open_mailbox client_connect"
  let ?f = "finish_create_endpoint example_topic {} (fst ?o) (Inr (EndpointAddr [1]))
    (rx_turn (PayloadPush (PushMessage [EndpointAddr [1]] (example_message 3 Online))) (snd ?o))"
  obtain e c2 where f: "?f = (Inr e, c2)" by (simp add: finish_create_endpoint_def)
  have "hm_get (endpoint_map client_connect) (EndpointAddr [1]) = None" by (simp add: client_connect_def)
  from early_push_lost [OF this _ f] have "client_next_message e c2 = (None, c2)" by simp
  with f show ?thesis by (simp add: case_prod_beta)
qed

lemma calls_keep_waiting:
  assumes "cn_tx_alive c" "cn_queue c = []" "\<forall>k < length rs. cn_seq c + of_nat k \<noteq> seq"
    and "hm_get (response_pool c) seq = Some rx" "client_response c rx = None"
    and "\<forall>s. s \<noteq> seq \<longrightarrow> hm_get (response_pool c) s \<noteq> Some rx" "rx < cn_next c"
  shows "client_response (fold client_call rs c) rx = None \<and> cn_tx_alive (fold client_call rs c) \<and>
    cn_queue (fold client_call rs c) = [] \<and> cn_rx_alive (fold client_call rs c) = cn_rx_alive c \<and>
    cn_seq (fold client_call rs c) = cn_seq c + of_nat (length rs) \<and>
    hm_get (response_pool (fold client_call rs c)) seq = Some rx"
  using assms
proof (induction rs arbitrary: c)
  case (Cons q rs)
  note sent = client_call_sent [OF Cons.prems(1,2), of q]
  have ne: "cn_seq c \<noteq> seq" and "\<forall>k < length rs. cn_seq c + 1 + of_nat k \<noteq> seq"
    using Cons.prems(3) by (force, auto dest: spec [of _ "Suc _"] simp: add.assoc)
  moreover have "client_response (client_call q c) rx = None"
    using Cons.prems(5,6) ne sent(7,10)
    by (auto simp: client_response_def split: option.splits sum.splits if_splits)
  moreover have "\<forall>s. s \<noteq> seq \<longrightarrow> hm_get (response_pool (client_call q c)) s \<noteq> Some rx"
    using Cons.prems(6,7) by (simp add: sent(3))
  ultimately show ?case
    using Cons.prems(4,7) Cons.IH [of "client_call q c"] by (simp add: sent add.assoc)
qed simp

text \<open>
  When the server closes the socket, a call that is waiting is not told: it waits through any
  number of further calls, none of which is answered either, until a write to the socket fails;
  only then is it answered with \<open>Disconnected\<close>.
\<close>

theorem waiting_call_not_told:
  assumes "cn_tx_alive c" "cn_queue c = []" "hm_get (response_pool c) seq = Some rx" "client_response c rx = None"
    and "\<forall>s. s \<noteq> seq \<longrightarrow> hm_get (response_pool c) s \<noteq> Some rx" "rx < cn_next c"
    and "\<forall>k \<le> length rs. cn_seq c + of_nat k \<noteq> seq"
  shows "client_response (fold client_call rs (rx_closed c)) rx = None \<and>
    client_response (tx_turn False (snd (client_send_request q (fold client_call rs (rx_closed c))))) rx = Some (Inl Disconnected)"
proof -
  let ?c = "rx_closed c"
  have c: "?c = c\<lparr>cn_rx_alive := False\<rparr>" using assms(1) by (simp add: rx_closed_def release_pool_def)
  have keep: "client_response (fold client_call rs ?c) rx = None \<and> cn_tx_alive (fold client_call rs ?c) \<and>
      cn_queue (fold client_call rs ?c) = [] \<and> cn_rx_alive (fold client_call rs ?c) = cn_rx_alive ?c \<and>
      cn_seq (fold client_call rs ?c) = cn_seq ?c + of_nat (length rs) \<and>
      hm_get (response_pool (fold client_call rs ?c)) seq = Some rx"
    by (rule calls_keep_waiting) (use assms in \<open>simp_all add: c client_response_def split: option.splits if_splits\<close>)
  then have none: "client_response (fold client_call rs ?c) rx = None" by blast
  have d: "cn_tx_alive (fold client_call rs ?c)" "cn_queue (fold client_call rs ?c) = []"
      "\<not> cn_rx_alive (fold client_call rs ?c)" "cn_seq (fold client_call rs ?c) \<noteq> seq"
      "hm_get (response_pool (fold client_call rs ?c)) seq = Some rx"
    using keep assms(7) by (simp_all add: c)
  have "(seq, rx) \<in> set (hm_insert (cn_seq (fold client_call rs ?c)) (cn_next (fold client_call rs ?c))
      (response_pool (fold client_call rs ?c)))"
    using d(4,5) by (intro map_of_SomeD) simp
  then have "rx \<in> snd ` set (hm_insert (cn_seq (fold client_call rs ?c)) (cn_next (fold client_call rs ?c))
      (response_pool (fold client_call rs ?c)))" by force
  moreover have "hm_get (cn_results (fold client_call rs ?c)) rx = None"
    using none by (auto simp: client_response_def split: option.splits sum.splits)
  ultimately have "client_response (tx_turn False (snd (client_send_request q (fold client_call rs ?c)))) rx = Some (Inl Disconnected)"
    using d(1-3) by (simp add: client_send_request_def tx_turn_def release_pool_def client_response_def Let_def)
  with none show ?thesis by blast
qed

theorem waiting_call_not_told_witness:
  "(let q = ReqSetState \<lparr>ss_topic = example_topic, ss_update = \<lparr>upd_message_id = MessageId [1], upd_status = []\<rparr>\<rparr>;
        c = rx_closed (client_call q client_connect)
    in client_response (client_call q c) 0 = None \<and>
       client_response (tx_turn False (snd (client_send_request q (client_call q c)))) 0 = Some (Inl Disconnected))"
proof -
  define q where "q = ReqSetState \<lparr>ss_topic = example_topic, ss_update = \<lparr>upd_message_id = MessageId [1], upd_status = []\<rparr>\<rparr>"
  have "(1::u32) + of_nat k \<noteq> 0" if "k \<le> 1" for k
  proof (cases k)
    case (Suc j)
    with that show ?thesis by simp
  qed simp
  then have seq: "\<forall>k \<le> 1. (1::u32) + of_nat k \<noteq> 0" by blast
  define c where "c = client_call q client_connect"
  have c: "cn_tx_alive c" "cn_queue c = []" "response_pool c = [(0, 0)]" "cn_next c = 1" "cn_seq c = 1" "client_response c 0 = None"
    by (simp_all add: c_def client_call_def client_connect_def client_send_request_def tx_turn_def client_response_def Let_def)
  have "client_response (fold client_call [q] (rx_closed c)) 0 = None \<and>
      client_response (tx_turn False (snd (client_send_request q (fold client_call [q] (rx_closed c))))) 0 = Some (Inl Disconnected)"
    by (rule waiting_call_not_told [of c 0]) (use c seq in simp_all)
  then show ?thesis unfolding q_def [symmetric] c_def by (simp add: Let_def)
qed

end
