(* ===== verification/MQ_Cluster.thy ===== *)
theory MQ_Cluster
  imports MQ_Node
begin

text \<open>
  How a node becomes a member of a cluster: \<open>MaybeLoadingRaft\<close> (\<open>raft.rs\<close>), the cluster providers
  (\<open>raft/cluster.rs\<close>, \<open>raft/cluster/static.rs\<close>), \<open>Node::new\<close> and \<open>Node::init_raft\<close> with the task
  that follows the provider (\<open>node.rs\<close>).

  Raft itself is openraft: its constructor, \<open>initialize\<close>, \<open>current_leader\<close> and \<open>change_membership\<close>
  are arguments.
\<close>

section \<open>MaybeLoadingRaft (raft.rs)\<close>

text \<open>
  A caller of \<open>get\<close> looks at the cell, and when it is empty creates a \<open>Notified\<close> future and waits on
  it.  These are two steps, and other threads run between them.
\<close>

datatype 'r waiter = Looking | Registering | Waiting | Got 'r

record 'r maybe_loading_raft =
  loading :: "'r option"
  ml_waiters :: "(nat, 'r waiter) hash_map"

definition mlr_new :: "'r maybe_loading_raft" where
  "mlr_new = \<lparr>loading = None, ml_waiters = []\<rparr>"

text \<open>\<open>notify_waiters\<close> wakes those whose future exists.\<close>

definition notify_waiters :: "'r maybe_loading_raft \<Rightarrow> 'r maybe_loading_raft" where
  "notify_waiters m = m\<lparr>ml_waiters := hm_map_values (\<lambda>_ w. if w = Waiting then Looking else w) (ml_waiters m)\<rparr>"

text \<open>The cell takes the first value only.\<close>

definition mlr_set :: "'r \<Rightarrow> 'r maybe_loading_raft \<Rightarrow> 'r maybe_loading_raft" where
  "mlr_set raft m =
    (case loading m of
       None \<Rightarrow> notify_waiters (m\<lparr>loading := Some raft\<rparr>)
     | Some _ \<Rightarrow> m)"

definition mlr_get_opt :: "'r maybe_loading_raft \<Rightarrow> 'r option" where
  "mlr_get_opt m = loading m"

text \<open>The steps of \<open>get\<close> in the caller \<open>i\<close>.\<close>

definition mlr_get_start :: "nat \<Rightarrow> 'r maybe_loading_raft \<Rightarrow> 'r maybe_loading_raft" where
  "mlr_get_start i m = m\<lparr>ml_waiters := hm_insert i Looking (ml_waiters m)\<rparr>"

definition mlr_get_look :: "nat \<Rightarrow> 'r maybe_loading_raft \<Rightarrow> 'r maybe_loading_raft" where
  "mlr_get_look i m =
    m\<lparr>ml_waiters := hm_insert i (case loading m of Some raft \<Rightarrow> Got raft | None \<Rightarrow> Registering) (ml_waiters m)\<rparr>"

definition mlr_get_register :: "nat \<Rightarrow> 'r maybe_loading_raft \<Rightarrow> 'r maybe_loading_raft" where
  "mlr_get_register i m = m\<lparr>ml_waiters := hm_insert i Waiting (ml_waiters m)\<rparr>"

text \<open>All interleavings of callers and of \<open>set\<close>.\<close>

inductive mlr_step :: "'r maybe_loading_raft \<Rightarrow> 'r maybe_loading_raft \<Rightarrow> bool" where
  start: "hm_get (ml_waiters m) i = None \<Longrightarrow> mlr_step m (mlr_get_start i m)"
| look: "hm_get (ml_waiters m) i = Some Looking \<Longrightarrow> mlr_step m (mlr_get_look i m)"
| register: "hm_get (ml_waiters m) i = Some Registering \<Longrightarrow> mlr_step m (mlr_get_register i m)"
| set: "mlr_step m (mlr_set raft m)"

section \<open>Cluster providers (raft/cluster.rs, raft/cluster/static.rs)\<close>

text \<open>
  The nodes of a cluster with their addresses.  A provider gives the nodes at the start and then
  updates; \<open>next_update\<close> of the static provider never completes, which is \<open>None\<close>.
\<close>

type_synonym 'a members = "(node_id, 'a) hash_map"

record 'a static_provider =
  sp_nodes :: "'a members"

definition static_provider_new :: "'a members \<Rightarrow> 'a static_provider" where
  "static_provider_new nodes = \<lparr>sp_nodes = nodes\<rparr>"

record 'a node_config =
  nc_id :: node_id
  nc_addr :: 'a
  nc_durable :: bool
  nc_edge_auth :: "edge_auth_service option"

text \<open>The address is \<open>DEFAULT_TCP_SOCKET_ADDR\<close>; the default of a node id is sixteen zeros.\<close>

definition node_config_default :: "'a \<Rightarrow> 'a node_config" where
  "node_config_default default_addr =
    \<lparr>nc_id = NodeId (replicate 16 0), nc_addr = default_addr, nc_durable = False, nc_edge_auth = None\<rparr>"

definition static_provider_singleton :: "'a node_config \<Rightarrow> 'a static_provider" where
  "static_provider_singleton config = \<lparr>sp_nodes = hm_insert (nc_id config) (nc_addr config) []\<rparr>"

definition static_next_update :: "'a static_provider \<Rightarrow> (server_error + 'a members) option" where
  "static_next_update p = None"

definition static_pristine_nodes :: "'a static_provider \<Rightarrow> server_error + 'a members" where
  "static_pristine_nodes p = Inr (sp_nodes p)"

section \<open>Node::new and Node::init\_raft (node.rs)\<close>

text \<open>The thread's source of identifiers, the platform and the codecs come from outside.\<close>

definition node_new :: "platform \<Rightarrow> snowflakes \<Rightarrow> codec_registry \<Rightarrow> 'a node_config \<Rightarrow> server_node" where
  "node_new pf ids codecs config =
    \<lparr>sn_inner = \<lparr>node_config_id = nc_id config, node_durable = nc_durable config, node_topics = [], topic_handles = [],
       next_handle = 0, durable_commands_queue = [], spawned = [], node_platform = pf, clock_reads = 0\<rparr>,
     sn_data = \<lparr>topics = []\<rparr>, sn_network = [], sn_edge_auth = nc_edge_auth config, sn_codecs = codecs,
     edge_connections = [], edge_routing = [], sn_locals = [], sn_oneshots = [], sn_next = 0, sn_topics_held = {},
     sn_ids = ids, durable_calls = []\<rparr>"

text \<open>
  \<open>init_raft\<close> up to the membership task: the result is the members the task starts with, or nothing
  when the node has its raft already.
\<close>

definition init_raft ::
  "string + unit \<Rightarrow> string + 'r \<Rightarrow> server_error + 'a members \<Rightarrow> ('a members \<Rightarrow> string + unit) \<Rightarrow> 'r maybe_loading_raft
    \<Rightarrow> (server_error + node_id set option) \<times> 'r maybe_loading_raft" where
  "init_raft validated created pristine initialize m =
    (if mlr_get_opt m \<noteq> None then (Inr None, m)
     else
       case validated of
         Inl e \<Rightarrow> (Inl (contextual_custom ''validate raft config'' e), m)
       | Inr _ \<Rightarrow>
           (case created of
              Inl e \<Rightarrow> (Inl (contextual_custom ''create raft node'' e), m)
            | Inr raft \<Rightarrow>
                (case pristine of
                   Inl e \<Rightarrow> (Inl e, m)
                 | Inr members \<Rightarrow>
                     (case initialize members of
                        Inl e \<Rightarrow> (Inl (contextual_custom ''init raft node'' e), m)
                      | Inr _ \<Rightarrow> (Inr (Some (set (hm_keys members))), mlr_set raft m)))))"

text \<open>The membership task: openraft's part of it, and one update of the provider.\<close>

datatype 'a change_members =
    AddNodes "'a members"
  | AddVoterIds "node_id set"
  | RemoveVoters "node_id set"
  | RemoveNodes "node_id set"

record ('a, 's) raft_membership =
  current_leader :: "'s \<Rightarrow> node_id option"
  change_membership :: "'a change_members \<Rightarrow> bool \<Rightarrow> 's \<Rightarrow> (string + unit) \<times> 's"

definition add_members :: "('a, 's) raft_membership \<Rightarrow> 'a members \<Rightarrow> node_id set \<Rightarrow> 's \<Rightarrow> 's" where
  "add_members r members added s =
    (if added = {} then s
     else
       let (_, s) = change_membership r (AddNodes (filter (\<lambda>(i, _). i \<in> added) members)) False s;
           (_, s) = change_membership r (AddVoterIds added) False s
       in s)"

definition remove_members :: "('a, 's) raft_membership \<Rightarrow> node_id set \<Rightarrow> 's \<Rightarrow> 's" where
  "remove_members r removed s =
    (if removed = {} then s
     else
       let (_, s) = change_membership r (RemoveVoters removed) False s;
           (_, s) = change_membership r (RemoveNodes removed) False s
       in s)"

definition membership_update ::
  "('a, 's) raft_membership \<Rightarrow> node_id \<Rightarrow> 'a members \<Rightarrow> node_id set \<times> 's \<Rightarrow> node_id set \<times> 's" where
  "membership_update r i members = (\<lambda>(prev_members, s).
    let now_members = set (hm_keys members);
        is_modified = now_members \<noteq> prev_members;
        is_leader = current_leader r s = Some i;
        s = (if is_modified \<and> is_leader
             then remove_members r (prev_members - now_members) (add_members r members (now_members - prev_members) s)
             else s)
    in (if is_modified then now_members else prev_members, s))"

text \<open>The loop, over what the provider yields: an error is logged and the loop goes on.\<close>

fun membership_task ::
  "('a, 's) raft_membership \<Rightarrow> node_id \<Rightarrow> (server_error + 'a members) list \<Rightarrow> node_id set \<times> 's \<Rightarrow> node_id set \<times> 's" where
  "membership_task r i [] st = st"
| "membership_task r i (Inl e # us) st = membership_task r i us st"
| "membership_task r i (Inr members # us) st = membership_task r i us (membership_update r i members st)"

section \<open>Waiting for the raft\<close>

inductive_cases mlr_step_cases: "mlr_step m m'"

text \<open>What \<open>get\<close> returns is the value of the cell.\<close>

definition mlr_inv :: "'r maybe_loading_raft \<Rightarrow> bool" where
  "mlr_inv m \<longleftrightarrow> (\<forall>i raft. hm_get (ml_waiters m) i = Some (Got raft) \<longrightarrow> loading m = Some raft)"

lemma mlr_step_inv: "mlr_step m m' \<Longrightarrow> mlr_inv m \<Longrightarrow> mlr_inv m'"
  by (induction rule: mlr_step.induct)
    (auto simp: mlr_inv_def mlr_get_start_def mlr_get_look_def mlr_get_register_def mlr_set_def notify_waiters_def
      split: option.splits if_splits)

lemma mlr_reachable_inv: "mlr_step\<^sup>*\<^sup>* mlr_new m \<Longrightarrow> mlr_inv m"
proof (induction rule: rtranclp_induct)
  case base
  then show ?case by (simp add: mlr_inv_def mlr_new_def)
qed (rule mlr_step_inv)

lemma mlr_step_loaded: "mlr_step m m' \<Longrightarrow> loading m = Some raft \<Longrightarrow> loading m' = Some raft"
  by (induction rule: mlr_step.induct)
    (auto simp: mlr_get_start_def mlr_get_look_def mlr_get_register_def mlr_set_def split: option.splits)

lemma mlr_step_stuck:
  "mlr_step m m' \<Longrightarrow> loading m = Some raft \<Longrightarrow> hm_get (ml_waiters m) i = Some Waiting
    \<Longrightarrow> hm_get (ml_waiters m') i = Some Waiting"
  by (induction rule: mlr_step.induct)
    (auto simp: mlr_get_start_def mlr_get_look_def mlr_get_register_def mlr_set_def split: option.splits)

lemma mlr_stuck_forever:
  "mlr_step\<^sup>*\<^sup>* m m' \<Longrightarrow> loading m = Some raft \<Longrightarrow> hm_get (ml_waiters m) i = Some Waiting
    \<Longrightarrow> hm_get (ml_waiters m') i = Some Waiting \<and> loading m' = Some raft"
  by (induction rule: rtranclp_induct) (auto dest: mlr_step_stuck mlr_step_loaded)

text \<open>
  (C36) A caller of \<open>MaybeLoadingRaft::get\<close> only ever gets the raft that was set, and one that is
  already waiting when the raft is set, or that has yet to look, finds it at its next look.  But one
  that has found the cell empty and has not yet created its future when the raft is set misses the
  notification: it waits for ever, whatever happens afterwards.
\<close>

theorem raft_get_may_miss_set:
  assumes "mlr_step\<^sup>*\<^sup>* mlr_new m" "loading m = None"
  shows "(hm_get (ml_waiters m) i = Some Waiting \<or> hm_get (ml_waiters m) i = Some Looking \<longrightarrow>
      hm_get (ml_waiters (mlr_get_look i (mlr_set raft m))) i = Some (Got raft) \<and>
      mlr_step (mlr_set raft m) (mlr_get_look i (mlr_set raft m))) \<and>
    (hm_get (ml_waiters m) i = Some Registering \<longrightarrow>
      mlr_step (mlr_set raft m) (mlr_get_register i (mlr_set raft m)) \<and>
      (\<forall>m'. mlr_step\<^sup>*\<^sup>* (mlr_get_register i (mlr_set raft m)) m' \<longrightarrow>
         hm_get (ml_waiters m') i = Some Waiting \<and> loading m' = Some raft)) \<and>
    (\<forall>raft'. hm_get (ml_waiters m) i \<noteq> Some (Got raft'))"
proof -
  have set: "loading (mlr_set raft m) = Some raft"
      "hm_get (ml_waiters (mlr_set raft m)) i = map_option (\<lambda>w. if w = Waiting then Looking else w) (hm_get (ml_waiters m) i)"
    using assms(2) by (simp_all add: mlr_set_def notify_waiters_def)
  have "mlr_step (mlr_set raft m) (mlr_get_look i (mlr_set raft m))"
    if "hm_get (ml_waiters m) i = Some Waiting \<or> hm_get (ml_waiters m) i = Some Looking"
    using that by (intro mlr_step.look) (auto simp: set)
  moreover have "mlr_step (mlr_set raft m) (mlr_get_register i (mlr_set raft m))"
    if "hm_get (ml_waiters m) i = Some Registering"
    using that by (intro mlr_step.register) (simp add: set)
  moreover have "hm_get (ml_waiters m') i = Some Waiting \<and> loading m' = Some raft"
    if "mlr_step\<^sup>*\<^sup>* (mlr_get_register i (mlr_set raft m)) m'" for m'
    by (rule mlr_stuck_forever [OF that]) (simp_all add: mlr_get_register_def set(1))
  ultimately show ?thesis
    using mlr_reachable_inv [OF assms(1)] assms(2) by (auto simp: mlr_get_look_def set(1) mlr_inv_def)
qed

theorem raft_get_may_miss_set_witness:
  "hm_get (ml_waiters (mlr_set 6 (mlr_get_register 0 (mlr_set (5 :: nat) (mlr_get_look 0 (mlr_get_start 0 mlr_new)))))) 0
    = Some Waiting"
proof -
  let ?m = "mlr_get_look 0 (mlr_get_start 0 (mlr_new :: nat maybe_loading_raft))"
  let ?m' = "mlr_get_register 0 (mlr_set 5 ?m)"
  have "mlr_step mlr_new (mlr_get_start 0 (mlr_new :: nat maybe_loading_raft))" "mlr_step (mlr_get_start 0 mlr_new) ?m"
    by (rule mlr_step.start, simp add: mlr_new_def) (rule mlr_step.look, simp add: mlr_get_start_def)
  then have "mlr_step\<^sup>*\<^sup>* mlr_new ?m" by auto
  moreover have "loading ?m = None" "hm_get (ml_waiters ?m) 0 = Some Registering"
    by (simp_all add: mlr_get_look_def mlr_get_start_def mlr_new_def)
  moreover have "mlr_step\<^sup>*\<^sup>* ?m' (mlr_set 6 ?m')" by (rule r_into_rtranclp, rule mlr_step.set)
  ultimately show ?thesis using raft_get_may_miss_set [of ?m 0 5] by blast
qed

section \<open>Following the cluster provider\<close>

text \<open>
  What openraft documents of \<open>change_membership\<close> on the leader \<open>i\<close>: \<open>AddNodes\<close> adds learners,
  \<open>AddVoterIds\<close> makes known nodes voters, \<open>RemoveVoters\<close> removes voters, \<open>RemoveNodes\<close> drops nodes
  that do not vote; the leader stays leader unless it removes itself.
\<close>

definition membership_contract ::
  "('s \<Rightarrow> node_id set) \<Rightarrow> ('s \<Rightarrow> node_id set) \<Rightarrow> ('a, 's) raft_membership \<Rightarrow> node_id \<Rightarrow> bool" where
  "membership_contract voters nodes r i \<longleftrightarrow>
    (\<forall>ms b s. current_leader r s = Some i \<longrightarrow>
       (let s' = snd (change_membership r (AddNodes ms) b s)
        in voters s' = voters s \<and> nodes s' = nodes s \<union> set (hm_keys ms) \<and> current_leader r s' = Some i)) \<and>
    (\<forall>A b s. current_leader r s = Some i \<and> A \<subseteq> nodes s \<longrightarrow>
       (let s' = snd (change_membership r (AddVoterIds A) b s)
        in voters s' = voters s \<union> A \<and> current_leader r s' = Some i)) \<and>
    (\<forall>R b s. current_leader r s = Some i \<and> i \<notin> R \<longrightarrow>
       (let s' = snd (change_membership r (RemoveVoters R) b s)
        in voters s' = voters s - R \<and> current_leader r s' = Some i)) \<and>
    (\<forall>R b s. current_leader r s = Some i \<and> R \<inter> voters s = {} \<longrightarrow>
       (let s' = snd (change_membership r (RemoveNodes R) b s)
        in voters s' = voters s \<and> current_leader r s' = Some i))"

lemma add_members_correct:
  assumes "membership_contract voters nodes r i" "current_leader r s = Some i" "added \<subseteq> set (hm_keys members)"
  shows "voters (add_members r members added s) = voters s \<union> added \<and> current_leader r (add_members r members added s) = Some i"
proof (cases "added = {}")
  case False
  define s1 where "s1 = snd (change_membership r (AddNodes (filter (\<lambda>(j, _). j \<in> added) members)) False s)"
  have "set (hm_keys (filter (\<lambda>(j, _). j \<in> added) members)) = added" using assms(3) by force
  then have "voters s1 = voters s" "added \<subseteq> nodes s1" "current_leader r s1 = Some i"
    using assms(1,2) unfolding membership_contract_def s1_def Let_def by auto
  moreover have "add_members r members added s = snd (change_membership r (AddVoterIds added) False s1)"
    using False by (simp add: add_members_def s1_def case_prod_beta Let_def)
  ultimately show ?thesis using assms(1) unfolding membership_contract_def Let_def by metis
qed (simp add: add_members_def assms(2))

lemma remove_members_correct:
  assumes "membership_contract voters nodes r i" "current_leader r s = Some i" "i \<notin> removed"
  shows "voters (remove_members r removed s) = voters s - removed \<and> current_leader r (remove_members r removed s) = Some i"
proof (cases "removed = {}")
  case False
  define s1 where "s1 = snd (change_membership r (RemoveVoters removed) False s)"
  have s1: "voters s1 = voters s - removed" "current_leader r s1 = Some i"
    using assms unfolding membership_contract_def s1_def Let_def by auto
  then have "removed \<inter> voters s1 = {}" by blast
  moreover have "remove_members r removed s = snd (change_membership r (RemoveNodes removed) False s1)"
    using False by (simp add: remove_members_def s1_def case_prod_beta Let_def)
  ultimately show ?thesis using assms(1) s1 unfolding membership_contract_def Let_def by metis
qed (simp add: remove_members_def assms(2))

lemma membership_update_correct:
  assumes "membership_contract voters nodes r i" "current_leader r s = Some i" "i \<in> set (hm_keys members)"
    and "membership_update r i members (voters s, s) = (prev', s')"
  shows "prev' = set (hm_keys members) \<and> voters s' = set (hm_keys members) \<and> current_leader r s' = Some i"
proof (cases "set (hm_keys members) = voters s")
  case True
  then show ?thesis using assms(2,4) by (auto simp: membership_update_def Let_def)
next
  case False
  let ?now = "set (hm_keys members)"
  let ?s1 = "add_members r members (?now - voters s) s"
  have s1: "voters ?s1 = voters s \<union> ?now" "current_leader r ?s1 = Some i"
    using add_members_correct [OF assms(1,2), of "?now - voters s" members] by auto
  have "s' = remove_members r (voters s - ?now) ?s1" "prev' = ?now"
    using assms(2,4) False by (auto simp: membership_update_def Let_def)
  then show ?thesis
    using remove_members_correct [OF assms(1) s1(2), of "voters s - ?now"] s1(1) assms(3) by auto
qed

text \<open>The members the provider last reported.\<close>

fun wanted_members :: "node_id set \<Rightarrow> (server_error + 'a members) list \<Rightarrow> node_id set" where
  "wanted_members prev [] = prev"
| "wanted_members prev (Inl e # us) = wanted_members prev us"
| "wanted_members prev (Inr members # us) = wanted_members (set (hm_keys members)) us"

lemma membership_task_voters:
  assumes "membership_contract voters nodes r i" "current_leader r s = Some i"
    and "\<forall>members. Inr members \<in> set us \<longrightarrow> i \<in> set (hm_keys members)"
    and "membership_task r i us (voters s, s) = (prev', s')"
  shows "voters s' = wanted_members (voters s) us \<and> prev' = voters s' \<and> current_leader r s' = Some i"
  using assms(2-4)
proof (induction us arbitrary: s)
  case (Cons u us)
  show ?case
  proof (cases u)
    case (Inr members)
    obtain p t where u: "membership_update r i members (voters s, s) = (p, t)" by fastforce
    have "p = set (hm_keys members)" "voters t = set (hm_keys members)" "current_leader r t = Some i"
      using membership_update_correct [OF assms(1) Cons.prems(1) _ u] Cons.prems(2) Inr by auto
    then show ?thesis using Cons.IH [of t] Cons.prems u Inr by simp
  next
    case (Inl e)
    then show ?thesis using Cons.IH [of s] Cons.prems by simp
  qed
qed simp

text \<open>
  (C22) On a node that is the leader and stays among the members, the membership task makes the
  voters of the cluster those the provider last reported, through any sequence of updates and
  provider errors.
\<close>

theorem membership_follows_provider:
  assumes "membership_contract voters nodes r i" "current_leader r s = Some i"
    and "\<forall>members. Inr members \<in> set us \<longrightarrow> i \<in> set (hm_keys members)"
    and "membership_task r i us (voters s, s) = (prev', s')"
  shows "voters s' = wanted_members (voters s) us \<and> prev' = voters s' \<and> current_leader r s' = Some i"
  by (rule membership_task_voters [OF assms])

text \<open>
  An update that arrives while the node is not the leader is taken as done: the cluster is not
  changed, and when the node becomes the leader later, no repetition of the update makes it change
  the membership.
\<close>

theorem membership_change_missed:
  assumes "current_leader r s \<noteq> Some i"
  shows "membership_update r i members (prev, s) = (set (hm_keys members), s) \<and>
    membership_task r i (replicate k (Inr members)) (set (hm_keys members), s') = (set (hm_keys members), s')"
proof -
  have "membership_update r i members (set (hm_keys members), t) = (set (hm_keys members), t)" for t
    by (simp add: membership_update_def Let_def)
  then have "membership_task r i (replicate k (Inr members)) (set (hm_keys members), s') = (set (hm_keys members), s')"
    by (induction k) simp_all
  then show ?thesis using assms by (simp add: membership_update_def Let_def)
qed

text \<open>A raft that always agrees: its state is the leader, the voters and the nodes.\<close>

definition agreeing_raft :: "(nat, node_id option \<times> node_id set \<times> node_id set) raft_membership" where
  "agreeing_raft =
    \<lparr>current_leader = fst,
     change_membership = (\<lambda>c _ (l, voters, nodes).
       case c of
         AddNodes ms \<Rightarrow> (Inr (), l, voters, nodes \<union> set (hm_keys ms))
       | AddVoterIds A \<Rightarrow> (Inr (), l, voters \<union> A, nodes)
       | RemoveVoters R \<Rightarrow> (Inr (), l, voters - R, nodes - R)
       | RemoveNodes R \<Rightarrow> (Inr (), l, voters, nodes - R))\<rparr>"

theorem membership_follows_provider_witness:
  "fst (snd (snd (membership_task agreeing_raft (NodeId [1]) [Inr [(NodeId [1], 10), (NodeId [3], 30)]]
     ({NodeId [1], NodeId [2]}, Some (NodeId [1]), {NodeId [1], NodeId [2]}, {NodeId [1], NodeId [2]})))) =
   {NodeId [1], NodeId [3]}"
proof -
  have "membership_contract (fst \<circ> snd) (snd \<circ> snd) agreeing_raft (NodeId [1])"
    by (auto simp: membership_contract_def agreeing_raft_def)
  moreover obtain p s' where t: "membership_task agreeing_raft (NodeId [1]) [Inr [(NodeId [1], 10), (NodeId [3], 30)]]
     ({NodeId [1], NodeId [2]}, Some (NodeId [1]), {NodeId [1], NodeId [2]}, {NodeId [1], NodeId [2]}) = (p, s')"
    using prod.exhaust by blast
  ultimately have "(fst \<circ> snd) s' = {NodeId [1], NodeId [3]}"
    using membership_follows_provider [of "fst \<circ> snd" "snd \<circ> snd" agreeing_raft "NodeId [1]"
        "(Some (NodeId [1]), {NodeId [1], NodeId [2]}, {NodeId [1], NodeId [2]})" "[Inr [(NodeId [1], 10), (NodeId [3], 30)]]" p s']
    by (simp add: agreeing_raft_def)
  then show ?thesis by (simp only: t) simp
qed

theorem membership_change_missed_witness:
  "membership_task agreeing_raft (NodeId [1]) (replicate 3 (Inr [(NodeId [1], 10), (NodeId [3], 30)]))
     ({NodeId [1], NodeId [3]}, Some (NodeId [1]), {NodeId [1]}, {NodeId [1]}) =
   ({NodeId [1], NodeId [3]}, Some (NodeId [1]), {NodeId [1]}, {NodeId [1]})"
  using membership_change_missed [of agreeing_raft "(Some (NodeId [2]), {NodeId [1]}, {NodeId [1]})" "NodeId [1]"
      "[(NodeId [1], 10), (NodeId [3], 30)]" "{NodeId [1]}" 3 "(Some (NodeId [1]), {NodeId [1]}, {NodeId [1]})"]
  by (simp add: agreeing_raft_def del: replicate_Suc)

end
