(* ===== verification/MQ_K8s.thy ===== *)
theory MQ_K8s
  imports MQ_Cluster
begin

text \<open>
  The cluster provider for kubernetes (\<open>raft/cluster/k8s.rs\<close>): a service tells the port, its endpoints
  tell the pods, and each pod becomes a member whose identifier is a hash of its uid.

  The objects of the kubernetes API are records with the fields the code reads; what the API answers,
  the parser of socket addresses and SHA-256 are arguments.  Every \<open>expect\<close> is a panic.
\<close>

section \<open>Integers and text\<close>

type_synonym u16 = "16 word"
type_synonym i32 = "32 word"

abbreviation digit_value :: "char \<Rightarrow> nat" where "digit_value c \<equiv> of_char c - 48"
abbreviation is_digit :: "char \<Rightarrow> bool" where "is_digit c \<equiv> 48 \<le> (of_char c :: nat) \<and> (of_char c :: nat) \<le> 57"

definition digits_value :: "string \<Rightarrow> nat" where
  "digits_value ds = foldl (\<lambda>n c. 10 * n + digit_value c) 0 ds"

text \<open>\<open>str::parse::<u16>\<close>: an optional plus sign, then digits, within the range.\<close>

definition parse_u16 :: "string \<Rightarrow> u16 option" where
  "parse_u16 s =
    (let ds = (case s of c # r \<Rightarrow> if c = CHR ''+'' then r else s | [] \<Rightarrow> []) in
     if ds = [] \<or> \<not> list_all is_digit ds then None
     else if digits_value ds < 2 ^ 16 then Some (of_nat (digits_value ds)) else None)"

text \<open>How an integer prints.\<close>

fun show_nat :: "nat \<Rightarrow> string" where
  "show_nat n = (if n < 10 then [char_of (48 + n)] else show_nat (n div 10) @ [char_of (48 + n mod 10)])"

declare show_nat.simps [simp del]

definition show_u16 :: "u16 \<Rightarrow> string" where
  "show_u16 w = show_nat (unat w)"

section \<open>The objects of the API\<close>

datatype int_or_string = IntPort i32 | StringPort string

record service_port =
  target_port :: "int_or_string option"
  service_port_number :: i32

record service_spec =
  spec_ports :: "service_port list option"

record k8s_service =
  service_spec_of :: "service_spec option"

record endpoint_address =
  address_ip :: string
  target_uid :: "bytes option option"   \<comment> \<open>the uid of the target reference, if there is one\<close>

record endpoint_subset =
  ready_addresses :: "endpoint_address list option"
  not_ready_addresses :: "endpoint_address list option"

record k8s_endpoints =
  endpoint_subsets :: "endpoint_subset list option"

section \<open>K8sClusterProvider\<close>

record k8s_provider =
  kp_namespace :: string
  kp_service :: string
  kp_next_update :: nat
  kp_poll_interval :: nat
  kp_port :: u16

definition expect_some :: "'a option \<Rightarrow> 'a outcome" where
  "expect_some x = (case x of Some v \<Rightarrow> Inr v | None \<Rightarrow> Inl DecodeFailed)"

definition is_space :: "char \<Rightarrow> bool" where
  "is_space c \<longleftrightarrow> of_char c \<in> {9, 10, 11, 12, 13, 32 :: nat}"

definition namespace_from_file :: "string option \<Rightarrow> string outcome" where
  "namespace_from_file content =
    and_then (expect_some content) (\<lambda>s. Inr (rev (dropWhile is_space (rev (dropWhile is_space s)))))"

definition k8s_provider_new :: "string option \<Rightarrow> bool \<Rightarrow> nat \<Rightarrow> string \<Rightarrow> u16 \<Rightarrow> k8s_provider outcome" where
  "k8s_provider_new namespace_file client now service port =
    and_then (expect_some (if client then Some () else None)) (\<lambda>_.
    and_then (namespace_from_file namespace_file) (\<lambda>namespace.
      Inr \<lparr>kp_namespace = namespace, kp_service = service, kp_next_update = now, kp_poll_interval = 1000, kp_port = port\<rparr>))"

definition port_matches :: "u16 \<Rightarrow> service_port \<Rightarrow> bool" where
  "port_matches port p =
    (case target_port p of
       None \<Rightarrow> False
     | Some (IntPort target) \<Rightarrow> target = ucast port
     | Some (StringPort target) \<Rightarrow> parse_u16 target = Some port)"

definition port_mapped :: "u16 \<Rightarrow> k8s_service \<Rightarrow> u16 outcome" where
  "port_mapped port service =
    and_then (expect_some (service_spec_of service)) (\<lambda>spec.
    and_then (expect_some (spec_ports spec)) (\<lambda>ports.
    and_then (expect_some (find (port_matches port) ports)) (\<lambda>p. Inr (ucast (service_port_number p)))))"

definition pod_member ::
  "(string \<Rightarrow> 'a option) \<Rightarrow> (bytes \<Rightarrow> bytes) \<Rightarrow> u16 \<Rightarrow> endpoint_address \<Rightarrow> ('a \<times> node_id) outcome" where
  "pod_member parse_addr sha256 port address =
    and_then (expect_some (target_uid address)) (\<lambda>uid.
    and_then (expect_some (parse_addr (address_ip address @ '':'' @ show_u16 port))) (\<lambda>addr.
    and_then (expect_some uid) (\<lambda>uid.
    and_then (node_id_sha256 sha256 uid) (\<lambda>i. Inr (addr, i)))))"

text \<open>The addresses in the order of the iterator: subset by subset, those that are not ready first.\<close>

definition listed_addresses :: "k8s_endpoints \<Rightarrow> endpoint_address list" where
  "listed_addresses eps =
    concat (map (\<lambda>subset. (case not_ready_addresses subset of Some as \<Rightarrow> as | None \<Rightarrow> []) @
                          (case ready_addresses subset of Some as \<Rightarrow> as | None \<Rightarrow> []))
      (case endpoint_subsets eps of Some subsets \<Rightarrow> subsets | None \<Rightarrow> []))"

definition insert_pod ::
  "(string \<Rightarrow> 'a option) \<Rightarrow> (bytes \<Rightarrow> bytes) \<Rightarrow> u16 \<Rightarrow> endpoint_address \<Rightarrow> 'a members \<Rightarrow> 'a members outcome" where
  "insert_pod parse_addr sha256 port address nodes =
    and_then (pod_member parse_addr sha256 port address) (\<lambda>(addr, i). Inr (hm_insert i addr nodes))"

text \<open>
  One update: the provider waits until \<open>next_update\<close>, moves it by the interval, asks the API for the
  service and for its endpoints (\<open>None\<close> if the request fails), and collects the nodes.
\<close>

definition k8s_next_update ::
  "(string \<Rightarrow> 'a option) \<Rightarrow> (bytes \<Rightarrow> bytes) \<Rightarrow> k8s_service option \<Rightarrow> k8s_endpoints option \<Rightarrow> k8s_provider
    \<Rightarrow> (server_error + 'a members) outcome \<times> k8s_provider" where
  "k8s_next_update parse_addr sha256 get_service get_endpoints p =
    (and_then (expect_some get_service) (\<lambda>service.
     and_then (port_mapped (kp_port p) service) (\<lambda>port.
     and_then (expect_some get_endpoints) (\<lambda>eps.
     and_then (fold_outcome (insert_pod parse_addr sha256 port) (listed_addresses eps) []) (\<lambda>nodes.
       Inr (Inr nodes))))),
     p\<lparr>kp_next_update := kp_next_update p + kp_poll_interval p\<rparr>)"

text \<open>What the API shows at each poll, and the updates the membership task gets.\<close>

type_synonym api_view = "k8s_service option \<times> k8s_endpoints option"

fun k8s_updates ::
  "(string \<Rightarrow> 'a option) \<Rightarrow> (bytes \<Rightarrow> bytes) \<Rightarrow> api_view list \<Rightarrow> k8s_provider
    \<Rightarrow> (server_error + 'a members) list outcome" where
  "k8s_updates parse_addr sha256 [] p = Inr []"
| "k8s_updates parse_addr sha256 ((service, eps) # views) p =
    (case k8s_next_update parse_addr sha256 service eps p of
       (update, p') \<Rightarrow>
         and_then update (\<lambda>u.
         and_then (k8s_updates parse_addr sha256 views p') (\<lambda>us. Inr (u # us))))"

section \<open>Printing and parsing a port\<close>

lemma show_nat_digits: "list_all is_digit (show_nat n) \<and> show_nat n \<noteq> []"
proof (induction n rule: show_nat.induct)
  case (1 n)
  have d: "is_digit (char_of (48 + k))" if "k < 10" for k :: nat using that by (simp add: of_char_of)
  show ?case
  proof (cases "n < 10")
    case True
    then show ?thesis using d [of n] by (simp add: show_nat.simps [of n])
  next
    case False
    then show ?thesis using 1 d [of "n mod 10"] by (simp add: show_nat.simps [of n])
  qed
qed

lemma digits_value_show: "digits_value (show_nat n) = n"
proof (induction n rule: show_nat.induct)
  case (1 n)
  have v: "digit_value (char_of (48 + k)) = k" if "k < 10" for k :: nat using that by (simp add: of_char_of)
  show ?case
  proof (cases "n < 10")
    case True
    then show ?thesis using v [of n] by (simp add: show_nat.simps [of n] digits_value_def)
  next
    case False
    then show ?thesis using 1 v [of "n mod 10"] by (simp add: show_nat.simps [of n] digits_value_def)
  qed
qed

text \<open>A port that is printed is read back.\<close>

lemma parse_show_u16: "parse_u16 (show_u16 w) = Some w"
proof -
  obtain c r where s: "show_nat (unat w) = c # r" using show_nat_digits [of "unat w"] by (cases "show_nat (unat w)") auto
  have "is_digit c" using show_nat_digits [of "unat w"] by (simp add: s)
  then have "c \<noteq> CHR ''+''" by auto
  moreover have "unat w < 2 ^ 16" using unsigned_less [of w] by simp
  ultimately show ?thesis
    using show_nat_digits [of "unat w"] digits_value_show [of "unat w"] by (simp add: parse_u16_def show_u16_def s Let_def)
qed

section \<open>The members of an update\<close>

text \<open>The identifier of a pod.\<close>

abbreviation pod_id :: "(bytes \<Rightarrow> bytes) \<Rightarrow> bytes \<Rightarrow> node_id" where
  "pod_id sha256 uid \<equiv> NodeId (1 # take 15 (sha256 uid))"

lemma node_id_sha256_eq: "length (sha256 uid) = 32 \<Longrightarrow> node_id_sha256 sha256 uid = Inr (pod_id sha256 uid)"
  by (simp add: node_id_sha256_def copy_from_slice_def replicate_16_set_first)

text \<open>An address the provider can make a member of: it refers to a pod with a uid, and its text parses.\<close>

definition usable :: "(string \<Rightarrow> 'a option) \<Rightarrow> u16 \<Rightarrow> endpoint_address \<Rightarrow> bool" where
  "usable parse_addr port a \<longleftrightarrow>
    (\<exists>uid addr. target_uid a = Some (Some uid) \<and> parse_addr (address_ip a @ '':'' @ show_u16 port) = Some addr)"

lemma pod_member_iff:
  assumes "\<And>uid. length (sha256 uid) = 32"
  shows "pod_member parse_addr sha256 port a = Inr (addr, i) \<longleftrightarrow>
    (\<exists>uid. target_uid a = Some (Some uid) \<and> parse_addr (address_ip a @ '':'' @ show_u16 port) = Some addr \<and> i = pod_id sha256 uid)"
  using node_id_sha256_eq [of sha256, OF assms]
  by (auto simp: pod_member_def expect_some_def and_then_Inr_iff split: option.splits)

lemma insert_pods:
  assumes sha: "\<And>uid. length (sha256 uid) = 32"
  shows "fold_outcome (insert_pod parse_addr sha256 port) as nodes = Inr nodes' \<longleftrightarrow>
    (\<forall>a \<in> set as. usable parse_addr port a) \<and>
    nodes' = fold (\<lambda>a. hm_insert (pod_id sha256 (the (the (target_uid a))))
      (the (parse_addr (address_ip a @ '':'' @ show_u16 port)))) as nodes"
proof (induction as arbitrary: nodes)
  case (Cons a as)
  have "insert_pod parse_addr sha256 port a nodes = Inr n1 \<longleftrightarrow> usable parse_addr port a \<and>
      n1 = hm_insert (pod_id sha256 (the (the (target_uid a)))) (the (parse_addr (address_ip a @ '':'' @ show_u16 port))) nodes" for n1
    by (auto simp: insert_pod_def and_then_Inr_iff pod_member_iff [of sha256, OF sha] usable_def)
  then show ?case using Cons by (auto simp: and_then_Inr_iff)
qed auto

lemma insert_pods_panic:
  assumes sha: "\<And>uid. length (sha256 uid) = 32"
  shows "fold_outcome (insert_pod parse_addr sha256 port) as nodes = Inl e \<Longrightarrow> e = DecodeFailed"
proof (induction as arbitrary: nodes)
  case (Cons a as)
  have "insert_pod parse_addr sha256 port a nodes = Inl e \<Longrightarrow> e = DecodeFailed"
    using node_id_sha256_eq [of sha256, OF sha]
    by (auto simp: insert_pod_def pod_member_def expect_some_def split: option.splits)
  then show ?case using Cons by (cases "insert_pod parse_addr sha256 port a nodes") auto
qed simp

lemma find_in_set: "find P xs = Some x \<Longrightarrow> x \<in> set xs"
  by (induction xs) (auto split: if_splits)

lemma fold_hm_insert_get:
  "hm_get (fold (\<lambda>a. hm_insert (f a) (g a)) as m) k =
    (case find (\<lambda>a. f a = k) (rev as) of Some a \<Rightarrow> Some (g a) | None \<Rightarrow> hm_get m k)"
  by (induction as rule: rev_induct) auto

text \<open>The port the members are reached at: that of the first port of the service which forwards to ours.\<close>

definition forwards :: "u16 \<Rightarrow> k8s_service \<Rightarrow> u16 \<Rightarrow> bool" where
  "forwards port service mapped \<longleftrightarrow>
    (\<exists>spec ports p. service_spec_of service = Some spec \<and> spec_ports spec = Some ports \<and>
      find (port_matches port) ports = Some p \<and> mapped = ucast (service_port_number p))"

lemma port_mapped_iff: "port_mapped port service = Inr mapped \<longleftrightarrow> forwards port service mapped"
  by (auto simp: port_mapped_def forwards_def expect_some_def and_then_Inr_iff split: option.splits)

text \<open>What an update needs of the answers of the API.\<close>

definition readable :: "(string \<Rightarrow> 'a option) \<Rightarrow> u16 \<Rightarrow> api_view \<Rightarrow> u16 \<Rightarrow> k8s_endpoints \<Rightarrow> bool" where
  "readable parse_addr port view mapped eps \<longleftrightarrow>
    (\<exists>service. fst view = Some service \<and> forwards port service mapped) \<and> snd view = Some eps \<and>
    (\<forall>a \<in> set (listed_addresses eps). usable parse_addr mapped a)"

text \<open>The address under which the endpoints list the pod with an identifier, the last one if there are more.\<close>

definition pod_address ::
  "(string \<Rightarrow> 'a option) \<Rightarrow> (bytes \<Rightarrow> bytes) \<Rightarrow> u16 \<Rightarrow> k8s_endpoints \<Rightarrow> node_id \<Rightarrow> 'a option" where
  "pod_address parse_addr sha256 mapped eps i =
    Option.bind (find (\<lambda>a. map_option (pod_id sha256) (the (target_uid a)) = Some i) (rev (listed_addresses eps)))
      (\<lambda>a. parse_addr (address_ip a @ '':'' @ show_u16 mapped))"

lemma k8s_update_returns:
  assumes sha: "\<And>uid. length (sha256 uid) = 32" and ok: "readable parse_addr (kp_port p) (service, endpoints) mapped eps"
  obtains members where "fst (k8s_next_update parse_addr sha256 service endpoints p) = Inr (Inr members)"
    "hm_get members = pod_address parse_addr sha256 mapped eps"
proof -
  obtain svc where svc: "service = Some svc" "port_mapped (kp_port p) svc = Inr mapped" "endpoints = Some eps"
    "\<forall>a \<in> set (listed_addresses eps). usable parse_addr mapped a"
    using ok by (auto simp: readable_def port_mapped_iff)
  let ?f = "\<lambda>a. pod_id sha256 (the (the (target_uid a)))" and ?g = "\<lambda>a. the (parse_addr (address_ip a @ '':'' @ show_u16 mapped))"
  define members where "members = fold (\<lambda>a. hm_insert (?f a) (?g a)) (listed_addresses eps) []"
  have "fold_outcome (insert_pod parse_addr sha256 mapped) (listed_addresses eps) [] = Inr members"
    using svc(4) by (simp add: insert_pods [of sha256, OF sha] members_def)
  then have "fst (k8s_next_update parse_addr sha256 service endpoints p) = Inr (Inr members)"
    by (simp add: k8s_next_update_def svc expect_some_def)
  moreover have "hm_get members i = pod_address parse_addr sha256 mapped eps i" for i
  proof -
    have "find (\<lambda>a. ?f a = i) (rev (listed_addresses eps)) =
        find (\<lambda>a. map_option (pod_id sha256) (the (target_uid a)) = Some i) (rev (listed_addresses eps))"
      by (rule find_cong) (use svc(4) in \<open>auto simp: usable_def\<close>)
    moreover have "usable parse_addr mapped a" if "find Q (rev (listed_addresses eps)) = Some a" for Q a
      using find_in_set [OF that] svc(4) by simp
    ultimately show ?thesis
      by (auto simp: members_def fold_hm_insert_get pod_address_def usable_def split: option.split)
  qed
  ultimately show thesis using that by blast
qed

lemma k8s_update_panics:
  assumes sha: "\<And>uid. length (sha256 uid) = 32" and bad: "\<nexists>mapped eps. readable parse_addr (kp_port p) (service, endpoints) mapped eps"
  shows "fst (k8s_next_update parse_addr sha256 service endpoints p) = Inl DecodeFailed"
proof -
  have port: "port_mapped (kp_port p) svc = Inl e \<Longrightarrow> e = DecodeFailed" for svc e
    by (auto simp: port_mapped_def expect_some_def split: option.splits)
  show ?thesis
  proof (cases service)
    case (Some svc)
    show ?thesis
    proof (cases "port_mapped (kp_port p) svc")
      case (Inr mapped)
      have "\<exists>a \<in> set (listed_addresses eps). \<not> usable parse_addr mapped a" if "endpoints = Some eps" for eps
        using bad that Some Inr by (auto simp: readable_def port_mapped_iff)
      then have "\<exists>e. fold_outcome (insert_pod parse_addr sha256 mapped) (listed_addresses eps) [] = Inl e" if "endpoints = Some eps" for eps
        using that insert_pods [of sha256 parse_addr mapped "listed_addresses eps" "[]", OF sha] by (metis sum.exhaust)
      then show ?thesis using Some Inr insert_pods_panic [of sha256, OF sha]
        by (cases endpoints) (fastforce simp: k8s_next_update_def expect_some_def)+
    qed (use Some port in \<open>simp add: k8s_next_update_def expect_some_def\<close>)
  qed (simp add: k8s_next_update_def expect_some_def)
qed

text \<open>
  An update of the kubernetes provider: it returns if and only if the API answers, the service has
  a port that forwards to ours, and every address of the endpoints refers to a pod with a uid and
  parses; otherwise it panics.  When it returns, the members are the pods of all addresses, the ones
  that are not ready included, each under the hash of its uid and with the address that was listed last.
\<close>

theorem k8s_update_correct:
  assumes sha: "\<And>uid. length (sha256 uid) = 32"
  shows "if \<exists>mapped eps. readable parse_addr (kp_port p) (service, endpoints) mapped eps
    then \<exists>mapped eps members. readable parse_addr (kp_port p) (service, endpoints) mapped eps \<and>
      fst (k8s_next_update parse_addr sha256 service endpoints p) = Inr (Inr members) \<and>
      hm_get members = pod_address parse_addr sha256 mapped eps
    else fst (k8s_next_update parse_addr sha256 service endpoints p) = Inl DecodeFailed"
proof (cases "\<exists>mapped eps. readable parse_addr (kp_port p) (service, endpoints) mapped eps")
  case True
  then obtain mapped eps where r: "readable parse_addr (kp_port p) (service, endpoints) mapped eps" by blast
  obtain members where "fst (k8s_next_update parse_addr sha256 service endpoints p) = Inr (Inr members)"
    "hm_get members = pod_address parse_addr sha256 mapped eps"
    by (rule k8s_update_returns [OF sha r])
  then show ?thesis using r by auto
qed (simp add: k8s_update_panics [OF sha])

section \<open>A cluster of pods\<close>

lemma readable_unique:
  "readable parse_addr port v m e \<Longrightarrow> readable parse_addr port v m' e' \<Longrightarrow> m' = m \<and> e' = e"
  by (auto simp: readable_def forwards_def)

text \<open>The updates the membership task gets while every answer of the API can be read.\<close>

definition shows_pods ::
  "(string \<Rightarrow> 'a option) \<Rightarrow> (bytes \<Rightarrow> bytes) \<Rightarrow> u16 \<Rightarrow> api_view \<Rightarrow> server_error + 'a members \<Rightarrow> bool" where
  "shows_pods parse_addr sha256 port v u \<longleftrightarrow> (\<exists>mapped eps members. readable parse_addr port v mapped eps \<and>
    u = Inr members \<and> hm_get members = pod_address parse_addr sha256 mapped eps)"

lemma k8s_updates_pods:
  assumes sha: "\<And>uid. length (sha256 uid) = 32"
    and "\<forall>v \<in> set views. \<exists>mapped eps. readable parse_addr (kp_port p) v mapped eps"
  obtains us where "k8s_updates parse_addr sha256 views p = Inr us" "list_all2 (shows_pods parse_addr sha256 (kp_port p)) views us"
  using assms(2)
proof (induction views arbitrary: p thesis)
  case (Cons v views)
  obtain service endpoints where v: "v = (service, endpoints)" by fastforce
  obtain mapped eps where r: "readable parse_addr (kp_port p) (service, endpoints) mapped eps" using Cons.prems(2) v by auto
  obtain members where u: "fst (k8s_next_update parse_addr sha256 service endpoints p) = Inr (Inr members)"
    "hm_get members = pod_address parse_addr sha256 mapped eps"
    by (rule k8s_update_returns [OF sha r])
  let ?p = "snd (k8s_next_update parse_addr sha256 service endpoints p)"
  have port: "kp_port ?p = kp_port p" by (simp add: k8s_next_update_def)
  obtain us where us: "k8s_updates parse_addr sha256 views ?p = Inr us"
    "list_all2 (shows_pods parse_addr sha256 (kp_port ?p)) views us"
    using Cons.IH [of ?p] Cons.prems(2) port by auto
  have "k8s_updates parse_addr sha256 (v # views) p = Inr (Inr members # us)"
    using u(1) us(1) by (simp add: v case_prod_beta)
  moreover have "shows_pods parse_addr sha256 (kp_port p) v (Inr members)" using r u(2) v by (auto simp: shows_pods_def)
  ultimately show ?case using Cons.prems(1) us(2) port by simp
qed simp

lemma member_keys: "set (hm_keys members) = {j. hm_get members j \<noteq> None}"
  using hm.set_keys [of members] by (simp only: dom_def)

lemma wanted_last: "us \<noteq> [] \<Longrightarrow> last us = Inr members \<Longrightarrow> wanted_members prev us = set (hm_keys members)"
  by (induction prev us rule: wanted_members.induct) (auto split: if_splits)

text \<open>
  (C23) The voters of a cluster in kubernetes are its pods.  On a leader whose own pod is always listed,
  while the API shows any sequence of readable states, the provider never panics, and in the end
  the voters are exactly the pods the last state lists.
\<close>

theorem k8s_voters_are_pods:
  assumes raft: "membership_contract voters nodes r i" "current_leader r s = Some i"
    and sha: "\<And>uid. length (sha256 uid) = 32"
    and views: "views \<noteq> []" "readable parse_addr (kp_port p) (last views) mapped eps"
      "\<forall>v \<in> set views. \<exists>m e. readable parse_addr (kp_port p) v m e \<and> pod_address parse_addr sha256 m e i \<noteq> None"
  shows "\<exists>us. k8s_updates parse_addr sha256 views p = Inr us \<and>
    voters (snd (membership_task r i us (voters s, s))) = {j. pod_address parse_addr sha256 mapped eps j \<noteq> None}"
proof -
  have "\<forall>v \<in> set views. \<exists>m e. readable parse_addr (kp_port p) v m e" using views(3) by blast
  then obtain us where us: "k8s_updates parse_addr sha256 views p = Inr us"
    "list_all2 (shows_pods parse_addr sha256 (kp_port p)) views us" by (rule k8s_updates_pods [OF sha])
  have mine: "i \<in> set (hm_keys members)" if m: "Inr members \<in> set us" for members
  proof -
    obtain k where k: "k < length us" "us ! k = Inr members" using m [unfolded in_set_conv_nth] by blast
    then have "shows_pods parse_addr sha256 (kp_port p) (views ! k) (Inr members)" "views ! k \<in> set views"
      using us(2) by (auto simp: list_all2_conv_all_nth)
    then obtain m e m' e' where "readable parse_addr (kp_port p) (views ! k) m e" "hm_get members = pod_address parse_addr sha256 m e"
      "readable parse_addr (kp_port p) (views ! k) m' e'" "pod_address parse_addr sha256 m' e' i \<noteq> None"
      using views(3) by (auto simp: shows_pods_def)
    then show ?thesis using readable_unique [of parse_addr "kp_port p" "views ! k" m e m' e'] unfolding member_keys by simp
  qed
  have "us \<noteq> []" using us(2) views(1) by auto
  then have "shows_pods parse_addr sha256 (kp_port p) (last views) (last us)"
    using us(2) views(1) by (auto simp: list_all2_conv_all_nth last_conv_nth)
  then obtain members where m: "last us = Inr members" "hm_get members = pod_address parse_addr sha256 mapped eps"
    using views(2) readable_unique unfolding shows_pods_def by blast
  obtain prev' s' where t: "membership_task r i us (voters s, s) = (prev', s')" by fastforce
  have "voters s' = wanted_members (voters s) us" using membership_task_voters [OF raft _ t] mine by blast
  also have "\<dots> = set (hm_keys members)" by (rule wanted_last [OF \<open>us \<noteq> []\<close> m(1)])
  finally show ?thesis using us(1) unfolding member_keys m(2) by (simp add: t)
qed

text \<open>
  A pod with an IPv6 address: the text of the socket address is made without the brackets that the
  parser of the standard library asks for, so it is refused and the provider panics, and the task
  that follows the cluster with it.
\<close>

theorem k8s_ipv6_panics:
  assumes parser: "\<And>text. 2 \<le> length (filter (\<lambda>c. c = CHR '':'') text) \<Longrightarrow> hd text \<noteq> CHR ''['' \<Longrightarrow> parse_addr text = None"
    and sha: "\<And>uid. length (sha256 uid) = 32"
    and ip: "a \<in> set (listed_addresses eps)" "CHR '':'' \<in> set (address_ip a)" "hd (address_ip a) \<noteq> CHR ''[''"
  shows "fst (k8s_next_update parse_addr sha256 service (Some eps) p) = Inl DecodeFailed"
proof (rule k8s_update_panics [OF sha])
  have "\<not> usable parse_addr mapped a" for mapped
  proof -
    have "filter (\<lambda>c. c = CHR '':'') (address_ip a) \<noteq> []" using ip(2) by (simp add: filter_empty_conv)
    then have "1 \<le> length (filter (\<lambda>c. c = CHR '':'') (address_ip a))"
      by (cases "filter (\<lambda>c. c = CHR '':'') (address_ip a)") simp_all
    then have "2 \<le> length (filter (\<lambda>c. c = CHR '':'') (address_ip a @ '':'' @ show_u16 mapped))" by simp
    moreover have "hd (address_ip a @ '':'' @ show_u16 mapped) \<noteq> CHR ''[''" using ip(2,3) by (cases "address_ip a") auto
    ultimately show ?thesis using parser by (simp add: usable_def)
  qed
  then show "\<nexists>mapped e. readable parse_addr (kp_port p) (service, Some eps) mapped e"
    using ip(1) by (auto simp: readable_def)
qed

section \<open>Witnesses\<close>

text \<open>A service that forwards port 80 to 9559, with one pod that is ready and one that is not.\<close>

definition example_service :: k8s_service where
  "example_service = \<lparr>service_spec_of = Some \<lparr>spec_ports = Some
    [\<lparr>target_port = None, service_port_number = 1\<rparr>, \<lparr>target_port = Some (StringPort ''9559''), service_port_number = 80\<rparr>]\<rparr>\<rparr>"

definition example_pods :: k8s_endpoints where
  "example_pods = \<lparr>endpoint_subsets = Some
    [\<lparr>ready_addresses = Some [\<lparr>address_ip = ''10.0.0.1'', target_uid = Some (Some [7])\<rparr>],
      not_ready_addresses = Some [\<lparr>address_ip = ''10.0.0.2'', target_uid = Some (Some [8])\<rparr>]\<rparr>]\<rparr>"

definition example_sha :: "bytes \<Rightarrow> bytes" where
  "example_sha bs = take 32 (bs @ replicate 32 0)"

definition example_provider :: k8s_provider where
  "example_provider = \<lparr>kp_namespace = ''mq'', kp_service = ''mq'', kp_next_update = 0, kp_poll_interval = 1000, kp_port = 9559\<rparr>"

definition example_parse :: "string \<Rightarrow> nat option" where
  "example_parse text = Some (length text)"

lemma example_sha_length: "length (example_sha uid) = 32"
  by (simp add: example_sha_def)

lemma example_readable:
  "readable example_parse (kp_port example_provider) (Some example_service, Some example_pods) 80 example_pods"
proof -
  have "parse_u16 ''9559'' = Some 9559" by (simp add: parse_u16_def digits_value_def)
  then have "forwards 9559 example_service 80" by (simp add: forwards_def example_service_def port_matches_def)
  moreover have "\<forall>a \<in> set (listed_addresses example_pods). usable example_parse 80 a"
    by (simp add: listed_addresses_def example_pods_def usable_def example_parse_def)
  ultimately show ?thesis by (simp add: readable_def example_provider_def)
qed

lemma example_pod_address:
  "{j. pod_address example_parse example_sha m example_pods j \<noteq> None} = {pod_id example_sha [7], pod_id example_sha [8]}"
  by (auto simp: pod_address_def listed_addresses_def example_pods_def example_parse_def split: if_splits)

theorem k8s_update_correct_witness:
  "\<exists>members. fst (k8s_next_update example_parse example_sha (Some example_service) (Some example_pods) example_provider) = Inr (Inr members)"
  using k8s_update_correct [of example_sha example_parse example_provider "Some example_service" "Some example_pods", OF example_sha_length]
    example_readable by (metis (no_types, lifting))

theorem k8s_voters_are_pods_witness:
  "\<exists>us. k8s_updates example_parse example_sha [(Some example_service, Some example_pods)] example_provider = Inr us \<and>
    (fst \<circ> snd) (snd (membership_task agreeing_raft (pod_id example_sha [7]) us
      ({NodeId [2]}, Some (pod_id example_sha [7]), {NodeId [2]}, {NodeId [2]}))) = {pod_id example_sha [7], pod_id example_sha [8]}"
proof -
  let ?i = "pod_id example_sha [7]" and ?s = "(Some (pod_id example_sha [7]), {NodeId [2]}, {NodeId [2]})"
  have raft: "membership_contract (fst \<circ> snd) (snd \<circ> snd) agreeing_raft ?i" "current_leader agreeing_raft ?s = Some ?i"
    by (auto simp: membership_contract_def agreeing_raft_def)
  let ?views = "[(Some example_service, Some example_pods)]"
  have "pod_address example_parse example_sha 80 example_pods ?i \<noteq> None" using example_pod_address [of 80] by blast
  then have views: "?views \<noteq> []" "readable example_parse (kp_port example_provider) (last ?views) 80 example_pods"
    "\<forall>v \<in> set ?views. \<exists>m e. readable example_parse (kp_port example_provider) v m e \<and> pod_address example_parse example_sha m e ?i \<noteq> None"
    using example_readable by auto
  have "(fst \<circ> snd) ?s = {NodeId [2]}" by simp
  then show ?thesis
    using k8s_voters_are_pods [OF raft example_sha_length views] unfolding example_pod_address by simp
qed

end
