(* ===== verification/MQ_Log.thy ===== *)
theory MQ_Log
  imports MQ_Prelude
begin

text \<open>
  The Raft log in memory: \<open>LogStorageInner\<close> (\<open>raft/log_storage.rs\<close>).  \<open>LogStorage\<close> is the same
  behind a lock.

  Log identifiers (\<open>LogId\<close>), votes and entries are those of openraft: the type variables \<open>'l\<close>
  (ordered, as \<open>LogId\<close> is), \<open>'v\<close> and \<open>'e\<close>, with the parameters \<open>get_log_id\<close> and \<open>index\<close> for the
  two accessors the source calls.
\<close>

section \<open>Ranges of a BTreeMap\<close>

datatype bound = Included u64 | Excluded u64 | Unbounded

fun above :: "bound \<Rightarrow> u64 \<Rightarrow> bool" where
  "above (Included a) k \<longleftrightarrow> a \<le> k"
| "above (Excluded a) k \<longleftrightarrow> a < k"
| "above Unbounded k \<longleftrightarrow> True"

fun below :: "bound \<Rightarrow> u64 \<Rightarrow> bool" where
  "below (Included a) k \<longleftrightarrow> k \<le> a"
| "below (Excluded a) k \<longleftrightarrow> k < a"
| "below Unbounded k \<longleftrightarrow> True"

text \<open>\<open>BTreeMap::range\<close> panics if the start is behind the end, or both exclude the same key.\<close>

fun bad_range :: "bound \<Rightarrow> bound \<Rightarrow> bool" where
  "bad_range Unbounded _ \<longleftrightarrow> False"
| "bad_range _ Unbounded \<longleftrightarrow> False"
| "bad_range (Excluded a) (Excluded b) \<longleftrightarrow> b \<le> a"
| "bad_range (Included a) (Included b) \<longleftrightarrow> b < a"
| "bad_range (Included a) (Excluded b) \<longleftrightarrow> b < a"
| "bad_range (Excluded a) (Included b) \<longleftrightarrow> b < a"

definition bt_range :: "bound \<Rightarrow> bound \<Rightarrow> (u64, 'e) btree_map \<Rightarrow> (u64, 'e) btree_map outcome" where
  "bt_range lo hi m =
    (if bad_range lo hi then Inl BadRange else Inr (filter (\<lambda>p. above lo (fst p) \<and> below hi (fst p)) m))"

section \<open>LogStorageInner\<close>

record ('l, 'e, 'v) log_storage =
  last_purged_log_id :: "'l option"
  log :: "(u64, 'e) btree_map"
  committed :: "'l option"
  vote :: "'v option"

definition log_storage_new :: "('l, 'e, 'v) log_storage" where
  "log_storage_new = \<lparr>last_purged_log_id = None, log = [], committed = None, vote = None\<rparr>"

definition try_get_log_entries :: "bound \<Rightarrow> bound \<Rightarrow> ('l, 'e, 'v) log_storage \<Rightarrow> 'e list outcome" where
  "try_get_log_entries lo hi s = and_then (bt_range lo hi (log s)) (\<lambda>r. Inr (map snd r))"

record 'l log_state =
  ls_last_purged_log_id :: "'l option"
  ls_last_log_id :: "'l option"

definition get_log_state :: "('e \<Rightarrow> 'l) \<Rightarrow> ('l, 'e, 'v) log_storage \<Rightarrow> 'l log_state" where
  "get_log_state get_log_id s =
    (let last_entry = (if log s = [] then None else Some (get_log_id (snd (last (log s)))));
         last_purged = last_purged_log_id s
     in \<lparr>ls_last_purged_log_id = last_purged,
         ls_last_log_id = (case last_entry of None \<Rightarrow> last_purged | Some x \<Rightarrow> Some x)\<rparr>)"

definition save_committed :: "'l option \<Rightarrow> ('l, 'e, 'v) log_storage \<Rightarrow> ('l, 'e, 'v) log_storage" where
  "save_committed c s = s\<lparr>committed := c\<rparr>"

definition read_committed :: "('l, 'e, 'v) log_storage \<Rightarrow> 'l option" where
  "read_committed s = committed s"

definition save_vote :: "'v \<Rightarrow> ('l, 'e, 'v) log_storage \<Rightarrow> ('l, 'e, 'v) log_storage" where
  "save_vote v s = s\<lparr>vote := Some v\<rparr>"

definition read_vote :: "('l, 'e, 'v) log_storage \<Rightarrow> 'v option" where
  "read_vote s = vote s"

text \<open>The callback is told that the write is complete once every entry is in the map.\<close>

definition log_append ::
  "('e \<Rightarrow> 'l) \<Rightarrow> ('l \<Rightarrow> u64) \<Rightarrow> 'e list \<Rightarrow> ('l, 'e, 'v) log_storage \<Rightarrow> ('l, 'e, 'v) log_storage" where
  "log_append get_log_id index entries s =
    s\<lparr>log := fold (\<lambda>e. bt_insert (index (get_log_id e)) e) entries (log s)\<rparr>"

definition truncate :: "('l \<Rightarrow> u64) \<Rightarrow> 'l \<Rightarrow> ('l, 'e, 'v) log_storage \<Rightarrow> ('l, 'e, 'v) log_storage outcome" where
  "truncate index log_id s =
    and_then (bt_range (Included (index log_id)) Unbounded (log s)) (\<lambda>r.
    Inr (s\<lparr>log := fold bt_remove (map fst r) (log s)\<rparr>))"

text \<open>\<open>Option\<close> orders \<open>None\<close> before every \<open>Some\<close>.\<close>

fun option_le :: "'l :: linorder option \<Rightarrow> 'l option \<Rightarrow> bool" where
  "option_le None _ \<longleftrightarrow> True"
| "option_le (Some _) None \<longleftrightarrow> False"
| "option_le (Some a) (Some b) \<longleftrightarrow> a \<le> b"

definition purge ::
  "('l :: linorder \<Rightarrow> u64) \<Rightarrow> 'l \<Rightarrow> ('l, 'e, 'v) log_storage \<Rightarrow> ('l, 'e, 'v) log_storage outcome" where
  "purge index log_id s =
    (if \<not> option_le (last_purged_log_id s) (Some log_id) then Inl AssertFailed
     else
       (let s' = s\<lparr>last_purged_log_id := Some log_id\<rparr> in
        and_then (bt_range Unbounded (Included (index log_id)) (log s')) (\<lambda>r.
        Inr (s'\<lparr>log := fold bt_remove (map fst r) (log s')\<rparr>))))"

section \<open>Ordered maps\<close>

lemma remove_range: "fold bt_remove (map fst (filter (\<lambda>p. P (fst p)) m)) m = filter (\<lambda>p. \<not> P (fst p)) m"
  unfolding fold_bt_remove by (rule filter_cong) auto

lemma bt_insert_last: "\<forall>p \<in> set m. fst p < k \<Longrightarrow> bt_insert k v m = m @ [(k, v)]"
  by (induction k v m rule: bt_insert.induct) auto

lemma fold_bt_insert:
  "bt_sorted m \<Longrightarrow> bt_sorted (fold (\<lambda>e. bt_insert (ix e) e) es m)"
  "map_of (fold (\<lambda>e. bt_insert (ix e) e) es m) = fold (\<lambda>e f. f(ix e \<mapsto> e)) es (map_of m)"
  by (induction es arbitrary: m) (simp_all add: bt_sorted_insert map_of_bt_insert)

section \<open>The log as a partial map\<close>

text \<open>
  What Raft needs of a log, with \<open>view\<close> the entries by index: appending overrides, truncating
  cuts a suffix, purging a prefix, and a range reads the entries in the order of their indexes.
\<close>

locale raft_log =
  fixes inv :: "'s \<Rightarrow> bool" and view :: "'s \<Rightarrow> u64 \<rightharpoonup> 'e" and ix :: "'e \<Rightarrow> u64" and idx :: "'l \<Rightarrow> u64"
    and append :: "'e list \<Rightarrow> 's \<Rightarrow> 's" and trunc :: "'l \<Rightarrow> 's \<Rightarrow> 's outcome"
  assumes append_inv: "inv s \<Longrightarrow> inv (append es s)"
    and append_view: "inv s \<Longrightarrow> view (append es s) = fold (\<lambda>e f. f(ix e \<mapsto> e)) es (view s)"
    and trunc_view: "inv s \<Longrightarrow> \<exists>s'. trunc l s = Inr s' \<and> inv s' \<and> view s' = view s |` {..<idx l}"
begin

lemma fold_upd_other: "k \<notin> ix ` set es \<Longrightarrow> fold (\<lambda>e f. f(ix e \<mapsto> e)) es f k = f k"
  by (induction es arbitrary: f) auto

lemma fold_upd_hit: "distinct (map ix es) \<Longrightarrow> e \<in> set es \<Longrightarrow> fold (\<lambda>e f. f(ix e \<mapsto> e)) es f (ix e) = Some e"
proof (induction es arbitrary: f)
  case (Cons d es)
  show ?case
  proof (cases "e \<in> set es")
    case False
    then have "ix e \<notin> ix ` set es" "e = d" using Cons.prems by auto
    then show ?thesis 
      using fold_upd_other [of "ix e" es "f(ix d \<mapsto> d)"] by (simp del: fun_upd_apply) simp
  qed (use Cons in simp)
qed simp

text \<open>Raft's repair of a conflicting suffix: cut it off, then append the leader's entries.\<close>

lemma replace_suffix:
  assumes "inv s" "distinct (map ix es)" "\<forall>e \<in> set es. idx l \<le> ix e"
  shows "\<exists>s'. trunc l s = Inr s' \<and> inv (append es s') \<and>
    (\<forall>i < idx l. view (append es s') i = view s i) \<and> (\<forall>e \<in> set es. view (append es s') (ix e) = Some e) \<and>
    (\<forall>i \<ge> idx l. i \<notin> ix ` set es \<longrightarrow> view (append es s') i = None)"
proof -
  obtain s' where s': "trunc l s = Inr s'" "inv s'" "view s' = view s |` {..<idx l}"
    using trunc_view [OF assms(1)] by blast
  have low: "i \<notin> ix ` set es" if "i < idx l" for i using assms(3) that by force
  have "view (append es s') i = view s i" if "i < idx l" for i
    unfolding append_view [OF s'(2)] fold_upd_other [OF low [OF that]] s'(3) using that by simp
  moreover have "view (append es s') (ix e) = Some e" if "e \<in> set es" for e
    unfolding append_view [OF s'(2)] by (rule fold_upd_hit [OF assms(2) that])
  moreover have "view (append es s') i = None" if "idx l \<le> i" "i \<notin> ix ` set es" for i
    unfolding append_view [OF s'(2)] fold_upd_other [OF that(2)] s'(3) using that(1) by simp
  ultimately show ?thesis using s'(1) append_inv [OF s'(2)] by blast
qed

end

definition log_inv :: "('e \<Rightarrow> 'l) \<Rightarrow> ('l \<Rightarrow> u64) \<Rightarrow> ('l, 'e, 'v) log_storage \<Rightarrow> bool" where
  "log_inv get_log_id index s \<longleftrightarrow> bt_sorted (log s) \<and> (\<forall>(k, e) \<in> set (log s). index (get_log_id e) = k)"

lemma set_bt_insert_entries: "set (bt_insert k v m) \<subseteq> insert (k, v) (set m)"
  by (induction k v m rule: bt_insert.induct) auto

lemma fold_bt_insert_set:
  "set (fold (\<lambda>e. bt_insert (ix e) e) es m) \<subseteq> set m \<union> (\<lambda>e. (ix e, e)) ` set es"
proof (induction es arbitrary: m)
  case (Cons d es)
  then show ?case using set_bt_insert_entries [of "ix d" d m] Cons.IH [of "bt_insert (ix d) d m"] by auto
qed simp

lemma log_inv_append: "log_inv g index s \<Longrightarrow> log_inv g index (log_append g index es s)"
  using fold_bt_insert_set [of "\<lambda>e. index (g e)" es "log s"]
  by (fastforce simp: log_inv_def log_append_def fold_bt_insert(1))

lemma truncate_eq: "truncate index l s = Inr (s\<lparr>log := filter (\<lambda>p. fst p < index l) (log s)\<rparr>)"
  using remove_range [of "\<lambda>k. index l \<le> k" "log s"]
  by (simp add: truncate_def bt_range_def not_le)

lemma log_inv_filter: "log_inv g index s \<Longrightarrow> log_inv g index (s\<lparr>log := filter P (log s)\<rparr>)"
  by (auto simp: log_inv_def sorted_wrt_filter)

interpretation rl: raft_log "log_inv g index" "\<lambda>s. map_of (log s)" "\<lambda>e. index (g e)" index
  "log_append g index" "truncate index" for g index
proof unfold_locales
  show "log_inv g index (log_append g index es s)" if "log_inv g index s" for s es
    using that by (rule log_inv_append)
  show "map_of (log (log_append g index es s)) = fold (\<lambda>e f. f(index (g e) \<mapsto> e)) es (map_of (log s))" for s es
    by (simp add: log_append_def fold_bt_insert(2))
  show "\<exists>s'. truncate index l s = Inr s' \<and> log_inv g index s' \<and> map_of (log s') = map_of (log s) |` {..<index l}"
    if "log_inv g index s" for s l
    unfolding truncate_eq using log_inv_filter [OF that]
    by (auto simp: map_of_filter_keys [where P = "\<lambda>x. x < index l"] restrict_map_def fun_eq_iff)
qed

section \<open>What the log promises\<close>

text \<open>
  (C31) The repair of a follower's log: after \<open>truncate\<close> at a log identifier and \<open>append\<close> of entries
  from its index on, every earlier entry is as before, the appended entries are in place and
  nothing of the old suffix is left.
\<close>

lemma log_conflict_repaired:
  assumes "log_inv get_log_id index s" "distinct (map (\<lambda>e. index (get_log_id e)) es)"
    "\<forall>e \<in> set es. index l \<le> index (get_log_id e)"
  shows "\<exists>s'. truncate index l s = Inr s' \<and> log_inv get_log_id index (log_append get_log_id index es s') \<and>
    (\<forall>i < index l. map_of (log (log_append get_log_id index es s')) i = map_of (log s) i) \<and>
    (\<forall>e \<in> set es. map_of (log (log_append get_log_id index es s')) (index (get_log_id e)) = Some e) \<and>
    (\<forall>i \<ge> index l. i \<notin> (\<lambda>e. index (get_log_id e)) ` set es \<longrightarrow>
      map_of (log (log_append get_log_id index es s')) i = None)"
  using rl.replace_suffix [OF assms] .

lemma log_append_increasing:
  assumes "sorted_wrt (<) (map ix es)" "\<forall>p \<in> set m. \<forall>e \<in> set es. fst p < ix e"
  shows "fold (\<lambda>e. bt_insert (ix e) e) es m = m @ map (\<lambda>e. (ix e, e)) es"
  using assms
proof (induction es arbitrary: m)
  case (Cons d es)
  have "bt_insert (ix d) d m = m @ [(ix d, d)]" using Cons.prems by (intro bt_insert_last) simp
  then show ?case using Cons.prems Cons.IH [of "m @ [(ix d, d)]"] by auto
qed simp

text \<open>
  (C32) Entries appended behind the log in increasing order are read back from the first new index on
  exactly as they were given, whatever upper end the range has at or above them, and the last of
  them is the last log identifier of the state that is reported.
\<close>

theorem log_read_back:
  assumes "es \<noteq> []" "sorted_wrt (<) (map (\<lambda>e. index (get_log_id e)) es)"
    "\<forall>p \<in> set (log s). \<forall>e \<in> set es. fst p < index (get_log_id e)"
  shows "try_get_log_entries (Included (index (get_log_id (hd es)))) Unbounded (log_append get_log_id index es s) = Inr es \<and>
    try_get_log_entries Unbounded (Excluded (index (get_log_id (hd es)))) (log_append get_log_id index es s)
      = Inr (map snd (log s)) \<and>
    ls_last_log_id (get_log_state get_log_id (log_append get_log_id index es s)) = Some (get_log_id (last es))"
proof -
  let ?ix = "\<lambda>e. index (get_log_id e)"
  have app: "log (log_append get_log_id index es s) = log s @ map (\<lambda>e. (?ix e, e)) es"
    using log_append_increasing [OF assms(2,3)] by (simp add: log_append_def)
  have hd: "hd es \<in> set es" "\<forall>e \<in> set es. ?ix (hd es) \<le> ?ix e"
    using assms(1,2) by (cases es; auto intro: less_imp_le)+
  have "filter (\<lambda>p. ?ix (hd es) \<le> fst p) (log s) = []" "filter (\<lambda>p. fst p < ?ix (hd es)) (log s) = log s"
    using assms(3) hd(1) by (auto simp: filter_empty_conv not_le filter_id_conv)
  moreover have "filter (\<lambda>p. ?ix (hd es) \<le> fst p) (map (\<lambda>e. (?ix e, e)) es) = map (\<lambda>e. (?ix e, e)) es"
    "filter (\<lambda>p. fst p < ?ix (hd es)) (map (\<lambda>e. (?ix e, e)) es) = []"
    using hd(2) by (auto simp: filter_empty_conv not_less filter_id_conv)
  ultimately show ?thesis using assms(1)
    by (simp add: try_get_log_entries_def bt_range_def app get_log_state_def last_map comp_def)
qed

text \<open>
  Purging up to a log identifier removes exactly the entries up to its index and records the
  identifier, which an emptied log then reports as its last; purging backwards fails the assertion.
\<close>

theorem purge_correct:
  assumes "log_inv get_log_id index s"
  shows "purge index l s =
    (if option_le (last_purged_log_id s) (Some l)
     then Inr (s\<lparr>last_purged_log_id := Some l, log := filter (\<lambda>p. index l < fst p) (log s)\<rparr>)
     else Inl AssertFailed) \<and>
    (\<forall>s'. purge index l s = Inr s' \<longrightarrow> log_inv get_log_id index s' \<and>
      map_of (log s') = map_of (log s) |` {index l <..} \<and>
      (log s' = [] \<longrightarrow> ls_last_log_id (get_log_state get_log_id s') = Some l) \<and>
      (\<forall>lo hi es. try_get_log_entries lo hi s' = Inr es \<longrightarrow> (\<forall>e \<in> set es. index l < index (get_log_id e))))"
proof -
  have eq: "purge index l s =
    (if option_le (last_purged_log_id s) (Some l)
     then Inr (s\<lparr>last_purged_log_id := Some l, log := filter (\<lambda>p. index l < fst p) (log s)\<rparr>)
     else Inl AssertFailed)"
    using remove_range [of "\<lambda>k. k \<le> index l" "log s"]
    by (simp add: purge_def bt_range_def not_le)
  moreover have "log_inv get_log_id index (s\<lparr>last_purged_log_id := x, log := filter P (log s)\<rparr>)" for x P
    using log_inv_filter [OF assms, of P] by (simp add: log_inv_def)
  moreover have "map_of (filter (\<lambda>p. index l < fst p) (log s)) = map_of (log s) |` {index l <..}"
    by (auto simp: map_of_filter_keys [where P = "\<lambda>x. index l < x"] restrict_map_def fun_eq_iff)
  moreover have "index l < index (get_log_id e)" if "(k, e) \<in> set (log s)" "index l < k" for k e
    using assms that by (auto simp: log_inv_def)
  ultimately show ?thesis
    by (auto simp: get_log_state_def try_get_log_entries_def bt_range_def Let_def split: if_splits)
qed

section \<open>Witnesses\<close>

text \<open>A log of entries that are pairs of a log identifier (a term and an index) and a payload.\<close>

definition example_log :: "(nat \<times> u64, (nat \<times> u64) \<times> nat, nat) log_storage" where
  "example_log = log_append fst snd [((1, 1), 10), ((1, 2), 20), ((1, 3), 30)] log_storage_new"

lemma log_conflict_repaired_witness:
  "\<exists>s'. truncate snd (1, 2) example_log = Inr s' \<and>
    map_of (log (log_append fst snd [((2, 2), 99)] s')) 1 = Some ((1, 1), 10) \<and>
    map_of (log (log_append fst snd [((2, 2), 99)] s')) 2 = Some ((2, 2), 99) \<and>
    map_of (log (log_append fst snd [((2, 2), 99)] s')) 3 = None"
proof -
  have inv: "log_inv fst snd example_log"
    by (simp add: example_log_def log_append_def log_storage_new_def log_inv_def)
  have "map_of (log example_log) 1 = Some ((1, 1), 10)"
    by (simp add: example_log_def log_append_def log_storage_new_def)
  then show ?thesis
    using log_conflict_repaired [OF inv, of "[((2, 2), 99)]" "(1, 2)"] by auto
qed

theorem log_read_back_witness:
  "try_get_log_entries (Included 4) Unbounded (log_append fst snd [((1, 4), 40), ((2, 5), 50)] example_log)
    = Inr [((1, 4), 40), ((2, 5), 50)]"
  using log_read_back [of "[((1, 4), 40), ((2, 5), 50)]" snd fst example_log]
  by (simp add: example_log_def log_append_def log_storage_new_def)

text \<open>Log identifiers that compare by index only stand for the order of \<open>LogId\<close>.\<close>

theorem purge_correct_witness:
  "\<exists>s'. purge id 2 (log_append id id [1, 2, 3] (log_storage_new :: (u64, u64, nat) log_storage)) = Inr s' \<and>
    map_of (log s') 2 = None \<and> map_of (log s') 3 = Some 3"
proof -
  let ?s = "log_append id id [1, 2, 3] (log_storage_new :: (u64, u64, nat) log_storage)"
  have inv: "log_inv id id ?s"
    by (rule log_inv_append) (simp add: log_inv_def log_storage_new_def)
  have none: "last_purged_log_id ?s = None" and three: "map_of (log ?s) 3 = Some 3"
    by (simp_all add: log_append_def log_storage_new_def)
  have "option_le (last_purged_log_id ?s) (Some 2)" unfolding none by simp
  with purge_correct [OF inv, of 2] obtain s' where "purge id 2 ?s = Inr s'"
    and "map_of (log s') = map_of (log ?s) |` {id 2 <..}" by metis
  then show ?thesis using three by (auto simp: restrict_map_def)
qed

end
