(* ===== verification/MQ_Log_Store.thy ===== *)
theory MQ_Log_Store
  imports MQ_Log
begin

text \<open>
  \<open>LogStorage\<close> (\<open>log_storage.rs\<close>): the log as raft holds it, a reference to a log behind a mutex.  A
  clone, and so the reader that raft is given, refers to the same log.  The logs are a store from
  addresses to values; each method locks the mutex for one operation of \<open>LogStorageInner\<close>.
\<close>

section \<open>References to a log\<close>

datatype log_handle = LogStorage nat

record ('l, 'e, 'v) log_store =
  logs :: "nat \<Rightarrow> ('l, 'e, 'v) log_storage option"
  next_log :: nat

definition log_storage_default :: "('l, 'e, 'v) log_store \<Rightarrow> log_handle \<times> ('l, 'e, 'v) log_store" where
  "log_storage_default m =
    (LogStorage (next_log m), \<lparr>logs = (logs m)(next_log m \<mapsto> log_storage_new), next_log = Suc (next_log m)\<rparr>)"

definition get_log_reader :: "log_handle \<Rightarrow> log_handle" where
  "get_log_reader h = h"

text \<open>
  Taking the lock for an operation that reads, and for one that writes.  A reference keeps its log
  alive, so there always is one; a panic inside drops the guard and leaves the log as it was.
\<close>

fun lock_read :: "log_handle \<Rightarrow> (('l, 'e, 'v) log_storage \<Rightarrow> 'r) \<Rightarrow> ('l, 'e, 'v) log_store \<Rightarrow> 'r option" where
  "lock_read (LogStorage a) f m = map_option f (logs m a)"

fun lock_write ::
  "log_handle \<Rightarrow> (('l, 'e, 'v) log_storage \<Rightarrow> ('l, 'e, 'v) log_storage outcome) \<Rightarrow> ('l, 'e, 'v) log_store
    \<Rightarrow> ('l, 'e, 'v) log_store outcome option" where
  "lock_write (LogStorage a) f m =
    map_option (\<lambda>s. and_then (f s) (\<lambda>s'. Inr (m\<lparr>logs := (logs m)(a \<mapsto> s')\<rparr>))) (logs m a)"

section \<open>The methods\<close>

definition store_try_get_log_entries :: "log_handle \<Rightarrow> bound \<Rightarrow> bound \<Rightarrow> ('l, 'e, 'v) log_store \<Rightarrow> 'e list outcome option" where
  "store_try_get_log_entries h lo hi m = lock_read h (try_get_log_entries lo hi) m"

definition store_get_log_state :: "('e \<Rightarrow> 'l) \<Rightarrow> log_handle \<Rightarrow> ('l, 'e, 'v) log_store \<Rightarrow> 'l log_state option" where
  "store_get_log_state g h m = lock_read h (get_log_state g) m"

definition store_read_committed :: "log_handle \<Rightarrow> ('l, 'e, 'v) log_store \<Rightarrow> 'l option option" where
  "store_read_committed h m = lock_read h read_committed m"

definition store_read_vote :: "log_handle \<Rightarrow> ('l, 'e, 'v) log_store \<Rightarrow> 'v option option" where
  "store_read_vote h m = lock_read h read_vote m"

definition store_append ::
  "('e \<Rightarrow> 'l) \<Rightarrow> ('l \<Rightarrow> u64) \<Rightarrow> log_handle \<Rightarrow> 'e list \<Rightarrow> ('l, 'e, 'v) log_store \<Rightarrow> ('l, 'e, 'v) log_store outcome option" where
  "store_append g index h entries m = lock_write h (\<lambda>s. Inr (log_append g index entries s)) m"

definition store_purge ::
  "('l :: linorder \<Rightarrow> u64) \<Rightarrow> log_handle \<Rightarrow> 'l \<Rightarrow> ('l, 'e, 'v) log_store \<Rightarrow> ('l, 'e, 'v) log_store outcome option" where
  "store_purge index h l m = lock_write h (purge index l) m"

definition store_save_committed ::
  "log_handle \<Rightarrow> 'l option \<Rightarrow> ('l, 'e, 'v) log_store \<Rightarrow> ('l, 'e, 'v) log_store outcome option" where
  "store_save_committed h c m = lock_write h (\<lambda>s. Inr (save_committed c s)) m"

definition store_save_vote :: "log_handle \<Rightarrow> 'v \<Rightarrow> ('l, 'e, 'v) log_store \<Rightarrow> ('l, 'e, 'v) log_store outcome option" where
  "store_save_vote h v m = lock_write h (\<lambda>s. Inr (save_vote v s)) m"

definition store_truncate ::
  "('l \<Rightarrow> u64) \<Rightarrow> log_handle \<Rightarrow> 'l \<Rightarrow> ('l, 'e, 'v) log_store \<Rightarrow> ('l, 'e, 'v) log_store outcome option" where
  "store_truncate index h l m = lock_write h (MQ_Log.truncate index l) m"

section \<open>Calls of several tasks\<close>

datatype ('l, 'e, 'v) log_call =
    CallAppend "'e list" | CallPurge 'l | CallTruncate 'l | CallSaveVote 'v | CallSaveCommitted "'l option"

fun store_call ::
  "('e \<Rightarrow> 'l :: linorder) \<Rightarrow> ('l \<Rightarrow> u64) \<Rightarrow> log_handle \<Rightarrow> ('l, 'e, 'v) log_call \<Rightarrow> ('l, 'e, 'v) log_store
    \<Rightarrow> ('l, 'e, 'v) log_store outcome option" where
  "store_call g index h (CallAppend es) m = store_append g index h es m"
| "store_call g index h (CallPurge l) m = store_purge index h l m"
| "store_call g index h (CallTruncate l) m = store_truncate index h l m"
| "store_call g index h (CallSaveVote v) m = store_save_vote h v m"
| "store_call g index h (CallSaveCommitted c) m = store_save_committed h c m"

fun log_call_on ::
  "('e \<Rightarrow> 'l :: linorder) \<Rightarrow> ('l \<Rightarrow> u64) \<Rightarrow> ('l, 'e, 'v) log_call \<Rightarrow> ('l, 'e, 'v) log_storage \<Rightarrow> ('l, 'e, 'v) log_storage outcome" where
  "log_call_on g index (CallAppend es) s = Inr (log_append g index es s)"
| "log_call_on g index (CallPurge l) s = purge index l s"
| "log_call_on g index (CallTruncate l) s = MQ_Log.truncate index l s"
| "log_call_on g index (CallSaveVote v) s = Inr (save_vote v s)"
| "log_call_on g index (CallSaveCommitted c) s = Inr (save_committed c s)"

text \<open>Calls through several references, one after the other as they get the lock.\<close>

inductive store_run ::
  "('e \<Rightarrow> 'l :: linorder) \<Rightarrow> ('l \<Rightarrow> u64) \<Rightarrow> ('l, 'e, 'v) log_store \<Rightarrow> (log_handle \<times> ('l, 'e, 'v) log_call) list
    \<Rightarrow> ('l, 'e, 'v) log_store \<Rightarrow> bool" for g index m where
  idle: "store_run g index m [] m"
| called: "store_run g index m calls m' \<Longrightarrow> store_call g index h c m' = Some (Inr m'') \<Longrightarrow>
    store_run g index m (calls @ [(h, c)]) m''"

section \<open>Properties\<close>

lemma store_call_locks: "store_call g index h c m = lock_write h (log_call_on g index c) m"
  by (cases c; cases h) (simp_all add: store_append_def store_purge_def store_truncate_def store_save_vote_def
      store_save_committed_def)

lemma fold_outcome_append: "fold_outcome f (xs @ ys) s = and_then (fold_outcome f xs s) (fold_outcome f ys)"
  by (induction xs arbitrary: s) (auto simp: and_then_assoc intro: and_then_cong)

lemma log_call_inv:
  assumes "log_call_on g index c s = Inr s'" "log_inv g index s"
  shows "log_inv g index s'"
proof (cases c)
  case (CallAppend es)
  then show ?thesis using assms by (auto intro: log_inv_append)
next
  case (CallPurge l)
  then show ?thesis using assms purge_correct [OF assms(2), of l] by auto
next
  case (CallTruncate l)
  then show ?thesis using assms by (auto simp: truncate_eq intro: log_inv_filter)
qed (use assms in \<open>auto simp: save_vote_def save_committed_def log_inv_def\<close>)

text \<open>
  The calls of several tasks through several references act, on each log, as the calls through the
  references to it one after the other, in the order of the lock; other logs are not touched, every
  log keeps its invariant, and the reader that raft was given sees the result.
\<close>

theorem log_handles_linear:
  assumes "store_run g index m calls m'" "logs m a = Some s"
  shows "\<exists>s'. logs m' a = Some s' \<and>
    fold_outcome (log_call_on g index) (map snd (filter (\<lambda>hc. fst hc = LogStorage a) calls)) s = Inr s' \<and>
    (log_inv g index s \<longrightarrow> log_inv g index s') \<and>
    store_get_log_state g (get_log_reader (LogStorage a)) m' = Some (get_log_state g s') \<and>
    store_try_get_log_entries (get_log_reader (LogStorage a)) lo hi m' = Some (try_get_log_entries lo hi s')"
  using assms(1)
proof (induction rule: store_run.induct)
  case idle
  then show ?case using assms(2) by (simp add: store_get_log_state_def store_try_get_log_entries_def get_log_reader_def)
next
  case (called calls m' h c m'')
  obtain b where h: "h = LogStorage b" by (cases h)
  obtain t t' where t: "logs m' b = Some t" "log_call_on g index c t = Inr t'" "m'' = m'\<lparr>logs := (logs m')(b \<mapsto> t')\<rparr>"
    using called.hyps(2) by (auto simp: store_call_locks h and_then_Inr_iff)
  show ?case using called.IH t log_call_inv [OF t(2)]
    by (cases "a = b") (auto simp: h fold_outcome_append store_get_log_state_def store_try_get_log_entries_def
        get_log_reader_def)
qed

text \<open>A log of its own, appended to by its owner and read by the reader.\<close>

lemma reader_sees_append:
  "\<exists>h m m'. log_storage_default \<lparr>logs = Map.empty, next_log = 0\<rparr> = (h, m) \<and>
    store_run id id m [(h, CallAppend [1, 2 :: u64])] (m' :: (u64, u64, nat) log_store) \<and>
    store_try_get_log_entries (get_log_reader h) Unbounded Unbounded m' = Some (Inr [1, 2])"
proof -
  obtain h and m :: "(u64, u64, nat) log_store" where hm: "log_storage_default \<lparr>logs = Map.empty, next_log = 0\<rparr> = (h, m)"
    by (rule prod.exhaust)
  then have h: "h = LogStorage 0" "logs m 0 = Some log_storage_new" by (auto simp: log_storage_default_def)
  then obtain m' where "store_call id id h (CallAppend [1, 2]) m = Some (Inr m')" by (simp add: store_call_locks)
  then have run: "store_run id id m ([] @ [(h, CallAppend [1, 2])]) m'" by (rule store_run.called [OF store_run.idle])
  have "store_try_get_log_entries (get_log_reader h) Unbounded Unbounded m' = Some (Inr [1, 2])"
    using log_handles_linear [OF run h(2), of Unbounded Unbounded]
    by (auto simp: h(1) log_append_def log_storage_new_def try_get_log_entries_def bt_range_def)
  then show ?thesis using hm run by auto
qed

end
