(* ===== verification/MQ_Serde.thy ===== *)
theory MQ_Serde
  imports MQ_Interest
begin

text \<open>
  The text of the model crate and its hand-written \<open>Serialize\<close> and \<open>Deserialize\<close>: subjects, interests
  and topic codes as strings (\<open>interest.rs\<close>, \<open>topic.rs\<close>), identifiers and payloads in base64 where the
  format is human readable and as bytes where it is not (\<open>message.rs\<close>, \<open>node.rs\<close>, \<open>endpoint.rs\<close>,
  \<open>util.rs\<close>), the names of the states, the digest and the clock behind the identifiers.  The
  serializers, deserializers and the base64 engine belong to other packages and are parameters.
\<close>

section \<open>Strings\<close>

text \<open>A \<open>str\<close> is its UTF-8 bytes; a character of a \<open>string\<close> is one of them.\<close>

definition str_of_bytes :: "bytes \<Rightarrow> string" where
  "str_of_bytes bs = map (\<lambda>b. char_of (unat b)) bs"

definition bytes_of_str :: "string \<Rightarrow> bytes" where
  "bytes_of_str s = map of_char s"

lemma bytes_of_str_of_bytes [simp]: "bytes_of_str (str_of_bytes bs) = bs"
  using char_codec_inverse [of bs]
  by (simp add: bytes_of_str_def str_of_bytes_def char_codec_decode_def char_codec_encode_def)

lemma str_of_bytes_inject: "str_of_bytes bs = str_of_bytes cs \<longleftrightarrow> bs = cs"
  by (metis bytes_of_str_of_bytes)

definition utf8_cont :: "byte \<Rightarrow> bool" where
  "utf8_cont b \<longleftrightarrow> 0x80 \<le> b \<and> b \<le> 0xBF"

text \<open>The second byte of a sequence of three, and of one of four.\<close>

definition utf8_second3 :: "byte \<Rightarrow> byte \<Rightarrow> bool" where
  "utf8_second3 a b \<longleftrightarrow> utf8_cont b \<and> (a = 0xE0 \<longrightarrow> 0xA0 \<le> b) \<and> (a = 0xED \<longrightarrow> b \<le> 0x9F)"

definition utf8_second4 :: "byte \<Rightarrow> byte \<Rightarrow> bool" where
  "utf8_second4 a b \<longleftrightarrow> utf8_cont b \<and> (a = 0xF0 \<longrightarrow> 0x90 \<le> b) \<and> (a = 0xF4 \<longrightarrow> b \<le> 0x8F)"

fun utf8_valid :: "bytes \<Rightarrow> bool" where
  "utf8_valid [] = True"
| "utf8_valid (a # bs) =
    (if a < 0x80 then utf8_valid bs
     else case bs of [] \<Rightarrow> False | b # cs \<Rightarrow>
       if 0xC2 \<le> a \<and> a \<le> 0xDF then utf8_cont b \<and> utf8_valid cs
       else case cs of [] \<Rightarrow> False | c # ds \<Rightarrow>
         if 0xE0 \<le> a \<and> a \<le> 0xEF then utf8_second3 a b \<and> utf8_cont c \<and> utf8_valid ds
         else case ds of [] \<Rightarrow> False | d # es \<Rightarrow>
           0xF0 \<le> a \<and> a \<le> 0xF4 \<and> utf8_second4 a b \<and> utf8_cont c \<and> utf8_cont d \<and> utf8_valid es)"

text \<open>\<open>from_utf8_unchecked\<close>: on bytes that are no UTF-8 the behaviour is undefined, which is \<open>None\<close>.\<close>

definition from_utf8_unchecked :: "bytes \<Rightarrow> string option" where
  "from_utf8_unchecked bs = (if utf8_valid bs then Some (str_of_bytes bs) else None)"

section \<open>Subjects, interests and topic codes\<close>

definition subject_new :: "bytes \<Rightarrow> subject" where
  "subject_new bs = Subject bs"

definition subject_from_str :: "string \<Rightarrow> subject" where
  "subject_from_str s = Subject (bytes_of_str s)"

definition subject_as_str :: "subject \<Rightarrow> string option" where
  "subject_as_str s = from_utf8_unchecked (subject_bytes s)"

definition subject_display :: "subject \<Rightarrow> string option" where
  "subject_display s = from_utf8_unchecked (subject_bytes s)"

definition interest_new :: "bytes \<Rightarrow> interest" where
  "interest_new bs = Interest bs"

definition topic_code_new :: "string \<Rightarrow> topic_code" where
  "topic_code_new s = TopicCode (bytes_of_str s)"

definition topic_code_from_slice :: "bytes \<Rightarrow> topic_code" where
  "topic_code_from_slice bs = TopicCode bs"

definition topic_code_display :: "topic_code \<Rightarrow> string option" where
  "topic_code_display t = from_utf8_unchecked (topic_code_bytes t)"

datatype owned_interest_segment = OwnedSpecific bytes | OwnedAny | OwnedRecursiveAny

fun segment_to_owned :: "interest_segment \<Rightarrow> owned_interest_segment" where
  "segment_to_owned (Specific s) = OwnedSpecific s"
| "segment_to_owned Any = OwnedAny"
| "segment_to_owned RecursiveAny = OwnedRecursiveAny"

section \<open>Names of the states\<close>

fun status_display :: "message_status_kind \<Rightarrow> string" where
  "status_display Sending = ''Sending''"
| "status_display Unsent = ''Unsent''"
| "status_display Sent = ''Sent''"
| "status_display Received = ''Received''"
| "status_display Processed = ''Processed''"
| "status_display Failed = ''Failed''"
| "status_display Unreachable = ''Unreachable''"

fun ack_display :: "message_ack_expect_kind \<Rightarrow> string" where
  "ack_display AckSent = ''Sent''"
| "ack_display AckReceived = ''Received''"
| "ack_display AckProcessed = ''Processed''"

section \<open>Where identifiers come from (util.rs)\<close>

text \<open>
  \<open>executor_digest\<close> hashes the thread and the machine once per thread: the machine is the one of the
  system, else that of the environment variable, else the call panics and the cell stays empty.
\<close>

definition executor_digest ::
  "(nat \<Rightarrow> string \<Rightarrow> u64) \<Rightarrow> nat \<Rightarrow> string option \<Rightarrow> string option \<Rightarrow> u64 option \<Rightarrow> u64 outcome \<times> u64 option" where
  "executor_digest hasher thread machine_uid env_var mach_id =
    (case mach_id of
       Some d \<Rightarrow> (Inr d, Some d)
     | None \<Rightarrow>
         (case (case machine_uid of Some m \<Rightarrow> Some m | None \<Rightarrow> env_var) of
            None \<Rightarrow> (Inl DecodeFailed, None)
          | Some mach \<Rightarrow> (Inr (hasher thread mach), Some (hasher thread mach))))"

text \<open>The system time in nanoseconds since 1970, negative before; \<open>as_secs\<close> as a \<open>u64\<close>.\<close>

definition timestamp_sec :: "int \<Rightarrow> u64 outcome" where
  "timestamp_sec now = (if now < 0 then Inl DecodeFailed else Inr (word_of_int (now div 10 ^ 9)))"

definition endpoint_addr_hash64 :: "(bytes \<Rightarrow> u64) \<Rightarrow> endpoint_addr \<Rightarrow> u64" where
  "endpoint_addr_hash64 hasher ep = hasher (endpoint_addr_bytes ep)"

definition node_id_debug :: "node_id \<Rightarrow> string" where
  "node_id_debug n =
    (let b = node_id_bytes n in
     ''NodeId('' @ dashed [hex (sub_slice 0 1 b), hex (sub_slice 1 9 b), hex (sub_slice 9 10 b), hex (sub_slice 10 16 b)] @ '')'')"

section \<open>Serializers and deserializers\<close>

text \<open>
  What the hand-written code uses of a format.  \<open>de_str\<close> is \<open><&'de str>::deserialize\<close>, which succeeds
  only where the input lends the string, and \<open>de_string\<close> is \<open>String::deserialize\<close>.
\<close>

record ('e, 'o) serializer =
  ser_human_readable :: bool
  ser_str :: "string \<Rightarrow> 'e + 'o"
  ser_array :: "bytes \<Rightarrow> 'e + 'o"
  ser_bytes :: "bytes \<Rightarrow> 'e + 'o"

record 'e deserializer =
  de_human_readable :: bool
  de_str :: "'e + string"
  de_string :: "'e + string"
  de_array :: "'e + bytes"
  de_bytes :: "'e + bytes"
  de_custom :: "string \<Rightarrow> 'e"

record base64_engine =
  b64_encode :: "bytes \<Rightarrow> string"
  b64_decode :: "string \<Rightarrow> bytes option"
  b64_show :: "base64_error \<Rightarrow> string"

text \<open>\<open>map_err(D::Error::custom)\<close>\<close>

definition custom_error :: "('r \<Rightarrow> string) \<Rightarrow> 'e deserializer \<Rightarrow> 'r + 'v \<Rightarrow> 'e + 'v" where
  "custom_error show d r = map_sum (\<lambda>e. de_custom d (show e)) (\<lambda>v. v) r"

definition message_id_ser :: "base64_engine \<Rightarrow> ('e, 'o) serializer \<Rightarrow> message_id \<Rightarrow> 'e + 'o" where
  "message_id_ser b64 s m =
    (if ser_human_readable s then ser_str s (message_id_to_base64 (b64_encode b64) m)
     else ser_array s (message_id_bytes m))"

definition message_id_de :: "base64_engine \<Rightarrow> 'e deserializer \<Rightarrow> ('e + message_id) outcome" where
  "message_id_de b64 d =
    (if de_human_readable d then
       (case de_str d of
          Inl e \<Rightarrow> Inr (Inl e)
        | Inr s \<Rightarrow> and_then (message_id_from_base64 (b64_decode b64) s) (\<lambda>r. Inr (custom_error (b64_show b64) d r)))
     else Inr (map_sum (\<lambda>e. e) MessageId (de_array d)))"

definition node_id_ser :: "base64_engine \<Rightarrow> ('e, 'o) serializer \<Rightarrow> node_id \<Rightarrow> 'e + 'o" where
  "node_id_ser b64 s n =
    (if ser_human_readable s then ser_str s (node_id_to_base64 (b64_encode b64) n)
     else ser_array s (node_id_bytes n))"

definition node_id_de :: "base64_engine \<Rightarrow> 'e deserializer \<Rightarrow> ('e + node_id) outcome" where
  "node_id_de b64 d =
    (if de_human_readable d then
       (case de_str d of
          Inl e \<Rightarrow> Inr (Inl e)
        | Inr s \<Rightarrow> and_then (node_id_from_base64 (b64_decode b64) s) (\<lambda>r. Inr (custom_error (b64_show b64) d r)))
     else Inr (map_sum (\<lambda>e. e) NodeId (de_array d)))"

definition endpoint_addr_ser :: "base64_engine \<Rightarrow> ('e, 'o) serializer \<Rightarrow> endpoint_addr \<Rightarrow> 'e + 'o" where
  "endpoint_addr_ser b64 s ep =
    (if ser_human_readable s then ser_str s (endpoint_addr_serialize (b64_encode b64) ep)
     else ser_array s (endpoint_addr_bytes ep))"

text \<open>The wrong length is reported with a text of its own.\<close>

definition endpoint_addr_de :: "base64_engine \<Rightarrow> 'e deserializer \<Rightarrow> ('e + endpoint_addr) outcome" where
  "endpoint_addr_de b64 d =
    (if de_human_readable d then
       (case de_string d of
          Inl e \<Rightarrow> Inr (Inl e)
        | Inr s \<Rightarrow> and_then (endpoint_addr_deserialize (b64_decode b64) s) (\<lambda>r. Inr (custom_error
            (\<lambda>e. case e of InvalidLength _ \<Rightarrow> ''invalid length'' | DecodeError \<Rightarrow> b64_show b64 e) d r)))
     else Inr (map_sum (\<lambda>e. e) EndpointAddr (de_array d)))"

definition payload_ser :: "base64_engine \<Rightarrow> ('e, 'o) serializer \<Rightarrow> bytes \<Rightarrow> 'e + 'o" where
  "payload_ser b64 s bs = (if ser_human_readable s then ser_str s (b64_encode b64 bs) else ser_bytes s bs)"

definition payload_de :: "base64_engine \<Rightarrow> 'e deserializer \<Rightarrow> 'e + bytes" where
  "payload_de b64 d =
    (if de_human_readable d then
       (case de_str d of
          Inl e \<Rightarrow> Inl e
        | Inr s \<Rightarrow>
            (case b64_decode b64 s of
               None \<Rightarrow> Inl (de_custom d (b64_show b64 DecodeError))
             | Some bs \<Rightarrow> Inr bs))
     else de_bytes d)"

definition subject_ser :: "('e, 'o) serializer \<Rightarrow> subject \<Rightarrow> ('e + 'o) option" where
  "subject_ser s x = map_option (ser_str s) (from_utf8_unchecked (subject_bytes x))"

definition subject_de :: "'e deserializer \<Rightarrow> 'e + subject" where
  "subject_de d = map_sum (\<lambda>e. e) (\<lambda>s. Subject (bytes_of_str s)) (de_string d)"

definition interest_ser :: "('e, 'o) serializer \<Rightarrow> interest \<Rightarrow> ('e + 'o) option" where
  "interest_ser s x = map_option (ser_str s) (from_utf8_unchecked (interest_bytes x))"

definition interest_de :: "'e deserializer \<Rightarrow> 'e + interest" where
  "interest_de d = map_sum (\<lambda>e. e) (\<lambda>s. Interest (bytes_of_str s)) (de_string d)"

definition topic_code_ser :: "('e, 'o) serializer \<Rightarrow> topic_code \<Rightarrow> ('e + 'o) option" where
  "topic_code_ser s x = map_option (ser_str s) (from_utf8_unchecked (topic_code_bytes x))"

definition topic_code_de :: "'e deserializer \<Rightarrow> 'e + topic_code" where
  "topic_code_de d = map_sum (\<lambda>e. e) (\<lambda>s. TopicCode (bytes_of_str s)) (de_string d)"

section \<open>The contract of a format\<close>

definition b64_ok :: "base64_engine \<Rightarrow> bool" where
  "b64_ok b64 \<longleftrightarrow> (\<forall>bs. b64_decode b64 (b64_encode b64 bs) = Some bs)"

text \<open>A format reads back what it wrote; both sides agree on whether it is human readable.\<close>

definition format_ok :: "('e, 'o) serializer \<Rightarrow> ('o \<Rightarrow> 'e deserializer) \<Rightarrow> bool" where
  "format_ok s read \<longleftrightarrow>
    (\<forall>x. de_human_readable (read x) = ser_human_readable s) \<and>
    (\<forall>t. \<exists>x. ser_str s t = Inr x \<and> de_string (read x) = Inr t) \<and>
    (\<forall>bs. length bs = 16 \<longrightarrow> (\<exists>x. ser_array s bs = Inr x \<and> de_array (read x) = Inr bs)) \<and>
    (\<forall>bs. \<exists>x. ser_bytes s bs = Inr x \<and> de_bytes (read x) = Inr bs)"

text \<open>The input lends the base64 texts; JSON does where the text has no escape sequence.\<close>

definition lends :: "('e, 'o) serializer \<Rightarrow> ('o \<Rightarrow> 'e deserializer) \<Rightarrow> base64_engine \<Rightarrow> bool" where
  "lends s read b64 \<longleftrightarrow> (\<forall>bs x. ser_str s (b64_encode b64 bs) = Inr x \<longrightarrow> de_str (read x) = Inr (b64_encode b64 bs))"

lemma format_okD:
  assumes "format_ok s read"
  shows "de_human_readable (read x) = ser_human_readable s"
    "\<exists>x. ser_str s t = Inr x \<and> de_string (read x) = Inr t"
    "length bs = 16 \<Longrightarrow> \<exists>x. ser_array s bs = Inr x \<and> de_array (read x) = Inr bs"
    "\<exists>x. ser_bytes s bs = Inr x \<and> de_bytes (read x) = Inr bs"
  using assms unfolding format_ok_def by blast+

text \<open>A value that a format carries, if it lends its texts.\<close>

locale wire_type =
  fixes ser :: "base64_engine \<Rightarrow> ('e, 'o) serializer \<Rightarrow> 'v \<Rightarrow> ('e + 'o) option"
    and de :: "base64_engine \<Rightarrow> 'e deserializer \<Rightarrow> ('e + 'v) outcome"
    and valid :: "'v \<Rightarrow> bool"
  assumes read_back: "b64_ok b64 \<Longrightarrow> format_ok s read \<Longrightarrow> lends s read b64 \<Longrightarrow> valid v \<Longrightarrow>
    \<exists>x. ser b64 s v = Some (Inr x) \<and> de b64 (read x) = Inr (Inr v)"
begin

text \<open>No two values have the same form.\<close>

lemma form_inject:
  assumes "b64_ok b64" "format_ok s read" "lends s read b64" "valid v" "valid w" "ser b64 s v = ser b64 s w"
  shows "v = w"
  using read_back [OF assms(1-3) assms(4)] read_back [OF assms(1-3) assms(5)] assms(6) by auto

text \<open>A sequence of values is read back in order.\<close>

lemma all_read_back:
  assumes "b64_ok b64" "format_ok s read" "lends s read b64" "\<forall>v \<in> set vs. valid v"
  shows "\<exists>xs. map (ser b64 s) vs = map (\<lambda>x. Some (Inr x)) xs \<and> map (\<lambda>x. de b64 (read x)) xs = map (\<lambda>v. Inr (Inr v)) vs"
  using assms(4)
proof (induction vs)
  case (Cons v vs)
  then obtain xs where xs: "map (ser b64 s) vs = map (\<lambda>x. Some (Inr x)) xs"
    "map (\<lambda>x. de b64 (read x)) xs = map (\<lambda>v. Inr (Inr v)) vs" by auto
  obtain x where "ser b64 s v = Some (Inr x)" "de b64 (read x) = Inr (Inr v)"
    using read_back [OF assms(1-3), of v] Cons.prems by auto
  then show ?case using xs by (intro exI [of _ "x # xs"]) simp
qed simp

end

text \<open>A value that is read as a borrowed string where the format is human readable.\<close>

locale lent_type = wire_type +
  assumes not_lent: "de_human_readable d \<Longrightarrow> de_str d = Inl e \<Longrightarrow> de b64 d = Inr (Inl e)"

text \<open>A value that is read whether or not the text can be lent.\<close>

locale owned_type =
  fixes ser :: "base64_engine \<Rightarrow> ('e, 'o) serializer \<Rightarrow> 'v \<Rightarrow> ('e + 'o) option"
    and de :: "base64_engine \<Rightarrow> 'e deserializer \<Rightarrow> ('e + 'v) outcome"
    and valid :: "'v \<Rightarrow> bool"
  assumes read_back_owned: "b64_ok b64 \<Longrightarrow> format_ok s read \<Longrightarrow> valid v \<Longrightarrow>
    \<exists>x. ser b64 s v = Some (Inr x) \<and> de b64 (read x) = Inr (Inr v)"

sublocale owned_type \<subseteq> wire_type
  by unfold_locales (rule read_back_owned)

interpretation wmid: lent_type "\<lambda>b64 s m. Some (message_id_ser b64 s m)" message_id_de "\<lambda>m. length (message_id_bytes m) = 16"
proof unfold_locales
  fix b64 :: base64_engine and s :: "('e, 'o) serializer" and read m
  assume a: "b64_ok b64" "format_ok s read" "lends s read b64" "length (message_id_bytes m) = 16"
  show "\<exists>x. Some (message_id_ser b64 s m) = Some (Inr x) \<and> message_id_de b64 (read x) = Inr (Inr m)"
    using format_okD(1) [OF a(2)] format_okD(2) [OF a(2), of "b64_encode b64 (message_id_bytes m)"]
      format_okD(3) [OF a(2) a(4)] a(1,3,4)
    by (cases m) (auto simp: message_id_ser_def message_id_de_def message_id_to_base64_def message_id_from_base64_def
        custom_error_def b64_ok_def lends_def)
qed (simp add: message_id_de_def)

interpretation wnid: lent_type "\<lambda>b64 s n. Some (node_id_ser b64 s n)" node_id_de "\<lambda>n. length (node_id_bytes n) = 16"
proof unfold_locales
  fix b64 :: base64_engine and s :: "('e, 'o) serializer" and read n
  assume a: "b64_ok b64" "format_ok s read" "lends s read b64" "length (node_id_bytes n) = 16"
  show "\<exists>x. Some (node_id_ser b64 s n) = Some (Inr x) \<and> node_id_de b64 (read x) = Inr (Inr n)"
    using format_okD(1) [OF a(2)] format_okD(2) [OF a(2), of "b64_encode b64 (node_id_bytes n)"]
      format_okD(3) [OF a(2) a(4)] a(1,3,4)
    by (cases n) (auto simp: node_id_ser_def node_id_de_def node_id_to_base64_def node_id_from_base64_def
        custom_error_def b64_ok_def lends_def)
qed (simp add: node_id_de_def)

interpretation wpay: lent_type "\<lambda>b64 s bs. Some (payload_ser b64 s bs)" "\<lambda>b64 d. Inr (payload_de b64 d)" "\<lambda>_. True"
proof unfold_locales
  fix b64 :: base64_engine and s :: "('e, 'o) serializer" and read bs
  assume a: "b64_ok b64" "format_ok s read" "lends s read b64"
  show "\<exists>x. Some (payload_ser b64 s bs) = Some (Inr x) \<and> Inr (payload_de b64 (read x)) = Inr (Inr bs)"
    using format_okD(1) [OF a(2)] format_okD(2) [OF a(2), of "b64_encode b64 bs"] format_okD(4) [OF a(2), of bs] a(1,3)
    by (auto simp: payload_ser_def payload_de_def b64_ok_def lends_def)
qed (simp add: payload_de_def)

interpretation wep: owned_type "\<lambda>b64 s ep. Some (endpoint_addr_ser b64 s ep)" endpoint_addr_de
  "\<lambda>ep. length (endpoint_addr_bytes ep) = 16"
proof unfold_locales
  fix b64 :: base64_engine and s :: "('e, 'o) serializer" and read ep
  assume a: "b64_ok b64" "format_ok s read" "length (endpoint_addr_bytes ep) = 16"
  show "\<exists>x. Some (endpoint_addr_ser b64 s ep) = Some (Inr x) \<and> endpoint_addr_de b64 (read x) = Inr (Inr ep)"
    using format_okD(1) [OF a(2)] format_okD(2) [OF a(2), of "b64_encode b64 (endpoint_addr_bytes ep)"]
      format_okD(3) [OF a(2) a(3)] a(1,3)
    by (cases ep) (auto simp: endpoint_addr_ser_def endpoint_addr_de_def endpoint_addr_serialize_def
        endpoint_addr_deserialize_def custom_error_def b64_ok_def)
qed

text \<open>The three kinds of text: they have to be UTF-8, and no base64 is involved.\<close>

lemma text_read_back:
  assumes "format_ok s read" "utf8_valid (get v)" "mk (get v) = v"
  shows "\<exists>x. map_option (ser_str s) (from_utf8_unchecked (get v)) = Some (Inr x) \<and>
    Inr (map_sum (\<lambda>e. e) (\<lambda>t. mk (bytes_of_str t)) (de_string (read x))) = (Inr (Inr v) :: ('e + 'v) outcome)"
  using format_okD(2) [OF assms(1), of "str_of_bytes (get v)"] assms(2,3) by (auto simp: from_utf8_unchecked_def)

interpretation wsubj: owned_type "\<lambda>_. subject_ser" "\<lambda>_ d. Inr (subject_de d)" "\<lambda>x. utf8_valid (subject_bytes x)"
  by unfold_locales (unfold subject_ser_def subject_de_def, rule text_read_back, simp_all)

interpretation wint: owned_type "\<lambda>_. interest_ser" "\<lambda>_ d. Inr (interest_de d)" "\<lambda>x. utf8_valid (interest_bytes x)"
  by unfold_locales (unfold interest_ser_def interest_de_def, rule text_read_back, simp_all)

interpretation wcode: owned_type "\<lambda>_. topic_code_ser" "\<lambda>_ d. Inr (topic_code_de d)" "\<lambda>x. utf8_valid (topic_code_bytes x)"
  by unfold_locales (unfold topic_code_ser_def topic_code_de_def, rule text_read_back, simp_all)

section \<open>Properties\<close>

lemma status_display_inject: "status_display a = status_display b \<longleftrightarrow> a = b"
  by (cases a; cases b) simp_all

lemma ack_display_is_status [simp]: "status_display (status_from_ack k) = ack_display k"
  by (cases k) simp_all

lemma segment_to_owned_inject: "segment_to_owned a = segment_to_owned b \<longleftrightarrow> a = b"
  by (cases a; cases b) simp_all

text \<open>Once a thread has its digest, it keeps it, whatever becomes of the machine id.\<close>

lemma executor_digest_stable:
  assumes "executor_digest hasher thread uid env cell = (Inr d, cell')"
  shows "executor_digest hasher thread uid' env' cell' = (Inr d, cell')"
  using assms by (auto simp: executor_digest_def split: option.splits)

lemma executor_digest_panics:
  "fst (executor_digest hasher thread uid env cell) = Inl DecodeFailed \<longleftrightarrow> cell = None \<and> uid = None \<and> env = None"
  by (auto simp: executor_digest_def split: option.splits)

text \<open>A clock that does not go backward gives time stamps that do not, until the year the seconds leave 64 bits.\<close>

lemma timestamp_sec_mono:
  assumes "timestamp_sec a = Inr s" "timestamp_sec b = Inr t" "a \<le> b" "b < 2 ^ 64 * 10 ^ 9"
  shows "s \<le> t"
proof -
  have ab: "0 \<le> a" "0 \<le> b" "s = word_of_int (a div 10 ^ 9)" "t = word_of_int (b div 10 ^ 9)"
    using assms(1,2) by (auto simp: timestamp_sec_def split: if_splits)
  have "b div 10 ^ 9 < 2 ^ 64" using assms(4) by (simp add: div_less_iff_less_mult)
  moreover have "a div 10 ^ 9 \<le> b div 10 ^ 9" using assms(3) by (rule zdiv_mono1) simp
  ultimately show ?thesis
    using ab(1,2) by (simp add: ab(3,4) word_le_def uint_word_of_int take_bit_eq_mod)
qed

text \<open>What comes from a string of the standard library has a text, and the text is that string's bytes.\<close>

lemma subject_from_str_text:
  assumes "utf8_valid (bytes_of_str s)"
  shows "subject_as_str (subject_from_str s) = Some (str_of_bytes (bytes_of_str s))"
  using assms by (simp add: subject_as_str_def subject_from_str_def from_utf8_unchecked_def)

text \<open>
  (C38) Every value of the wire format is read back.  For every format that reads back what it wrote,
  human readable or not, and lends the base64 texts it wrote, and for base64 engines that decode what
  they encode: message ids, node ids and endpoint addresses of 16 bytes, payloads, and subjects,
  interests and topic codes that are UTF-8 are serialised without an error and deserialised, without a
  panic, to the same value.
\<close>

theorem wire_values_read_back:
  assumes "format_ok s read" "b64_ok std" "b64_ok url" "lends s read std" "lends s read url"
    and "length (message_id_bytes m) = 16" "length (node_id_bytes n) = 16" "length (endpoint_addr_bytes ep) = 16"
    and "utf8_valid (subject_bytes su)" "utf8_valid (interest_bytes i)" "utf8_valid (topic_code_bytes t)"
  shows "(\<exists>x. message_id_ser std s m = Inr x \<and> message_id_de std (read x) = Inr (Inr m)) \<and>
    (\<exists>x. node_id_ser url s n = Inr x \<and> node_id_de url (read x) = Inr (Inr n)) \<and>
    (\<exists>x. endpoint_addr_ser url s ep = Inr x \<and> endpoint_addr_de url (read x) = Inr (Inr ep)) \<and>
    (\<exists>x. payload_ser std s p = Inr x \<and> payload_de std (read x) = Inr p) \<and>
    (\<exists>x. subject_ser s su = Some (Inr x) \<and> subject_de (read x) = Inr su) \<and>
    (\<exists>x. interest_ser s i = Some (Inr x) \<and> interest_de (read x) = Inr i) \<and>
    (\<exists>x. topic_code_ser s t = Some (Inr x) \<and> topic_code_de (read x) = Inr t)"
  using wmid.read_back [OF assms(2,1,4,6)] wnid.read_back [OF assms(3,1,5,7)] wep.read_back_owned [OF assms(3,1,8)]
    wpay.read_back [OF assms(2,1,4) TrueI, of p] wsubj.read_back_owned [OF assms(2,1,9)]
    wint.read_back_owned [OF assms(2,1,10)] wcode.read_back_owned [OF assms(2,1,11)]
  by auto

text \<open>
  Message ids, node ids and payloads are read as borrowed strings: from a human-readable input that
  cannot lend a string (a reader, a value in memory, or a text in which the \<open>/\<close> of the base64 alphabet is
  written as an escape sequence) each of them is refused with the error of the format, although the
  same input gives the string; endpoint addresses and topic codes are read from it.
\<close>

theorem borrowed_text_required:
  assumes "format_ok s read" "ser_human_readable s" "\<forall>x. de_str (read x) = Inl e" "b64_ok b64"
    and "length (endpoint_addr_bytes ep) = 16" "utf8_valid (topic_code_bytes t)"
  shows "message_id_de b64 (read x) = Inr (Inl e) \<and> node_id_de b64 (read x) = Inr (Inl e) \<and>
    payload_de b64 (read x) = Inl e \<and>
    (\<exists>x. message_id_ser b64 s m = Inr x \<and> de_string (read x) = Inr (message_id_to_base64 (b64_encode b64) m)) \<and>
    (\<exists>x. endpoint_addr_ser b64 s ep = Inr x \<and> endpoint_addr_de b64 (read x) = Inr (Inr ep)) \<and>
    (\<exists>x. topic_code_ser s t = Some (Inr x) \<and> topic_code_de (read x) = Inr t)"
proof -
  have d: "de_human_readable (read x)" "de_str (read x) = Inl e"
    using format_okD(1) [OF assms(1)] assms(2,3) by simp_all
  have "\<exists>x. message_id_ser b64 s m = Inr x \<and> de_string (read x) = Inr (message_id_to_base64 (b64_encode b64) m)"
    using format_okD(2) [OF assms(1)] assms(2) by (simp add: message_id_ser_def)
  then show ?thesis
    using wmid.not_lent [OF d] wnid.not_lent [OF d] wpay.not_lent [OF d] wep.read_back_owned [OF assms(4,1,5)]
      wcode.read_back_owned [OF assms(4,1,6)] by auto
qed

section \<open>Witnesses\<close>

text \<open>A human-readable format whose documents are a string or bytes.\<close>

definition example_serializer :: "(string, string + bytes) serializer" where
  "example_serializer = \<lparr>ser_human_readable = True, ser_str = \<lambda>t. Inr (Inl t), ser_array = \<lambda>bs. Inr (Inr bs),
     ser_bytes = \<lambda>bs. Inr (Inr bs)\<rparr>"

definition example_read :: "bool \<Rightarrow> string + bytes \<Rightarrow> string deserializer" where
  "example_read lend x =
    (let str = (case x of Inl t \<Rightarrow> Inr t | Inr _ \<Rightarrow> Inl ''expected a string'');
         arr = (case x of Inl _ \<Rightarrow> Inl ''expected bytes'' | Inr bs \<Rightarrow> Inr bs)
     in \<lparr>de_human_readable = True, de_str = if lend then str else Inl ''expected a borrowed string'', de_string = str,
         de_array = arr, de_bytes = arr, de_custom = \<lambda>t. t\<rparr>)"

definition example_base64 :: base64_engine where
  "example_base64 = \<lparr>b64_encode = char_codec_encode, b64_decode = char_codec_decode, b64_show = \<lambda>_. ''decode''\<rparr>"

lemma example_format [simp]:
  "format_ok example_serializer (example_read lend)" "lends example_serializer (example_read True) example_base64"
  "b64_ok example_base64"
  by (simp_all add: format_ok_def lends_def b64_ok_def example_serializer_def example_read_def example_base64_def
      char_codec_inverse Let_def)

theorem wire_values_read_back_witness:
  "\<exists>x. message_id_ser example_base64 example_serializer (MessageId (replicate 16 7)) = Inr x \<and>
    message_id_de example_base64 (example_read True x) = Inr (Inr (MessageId (replicate 16 7)))"
  using wire_values_read_back [of example_serializer "example_read True" example_base64 example_base64
      "MessageId (replicate 16 7)" "NodeId (replicate 16 7)" "EndpointAddr (replicate 16 7)"
      "Subject []" "Interest []" "TopicCode []"] by simp

theorem borrowed_text_required_witness:
  "message_id_de example_base64 (example_read False (Inl [])) = Inr (Inl ''expected a borrowed string'')"
proof -
  have "\<forall>x. de_str (example_read False x) = Inl ''expected a borrowed string''"
    by (simp add: example_read_def Let_def)
  moreover have "ser_human_readable example_serializer" by (simp add: example_serializer_def)
  ultimately show ?thesis
    using borrowed_text_required [of example_serializer "example_read False" "''expected a borrowed string''"
        example_base64 "EndpointAddr (replicate 16 7)" "TopicCode []"] by simp
qed

end
