(* ===== verification/Spec2Isabelle.thy ===== *)
theory Spec2Isabelle
  imports MQ_Agreement MQ_Commit MQ_Codec MQ_Delivery MQ_Recovery MQ_Session MQ_Tcp MQ_Link MQ_Client MQ_Events MQ_K8s MQ_Log_Store MQ_Serde
begin

text \<open>
  A verification of asteroid-mq, a message queue for a cluster of servers and the edge nodes that
  connect to them.

  \<^bold>\<open>The program.\<close>  Servers form a Raft cluster (openraft).  What the cluster agrees on is a log of
  proposals: a message is sent, an acknowledgement is reported, a topic is loaded or unloaded, an
  endpoint comes online, changes its interests or goes offline.  Every server applies the log to
  its own copy of the state, a map from topic codes to topics.  A topic has a queue of held
  messages, a table that says which endpoints live at which server, and an index from subjects to
  the endpoints that are interested in them.  Applying a proposal has side effects on the server
  that applies it: tasks that dispatch a message to an endpoint, that answer a waiting sender, or
  that tell the durable service.  Edge nodes talk to one server in packets; applications use local
  endpoints, the event loop on top of them, or the client library.

  \<^bold>\<open>The theories\<close>, with the files under \<open>src/\<close> they model, in the order they build on each other:

  \<^item> \<open>MQ_Prelude\<close>: bytes, panics as values (\<open>outcome\<close>), hash maps, pools of waiting requests; the
    locales \<open>keyed_map\<close> and \<open>wait_pool\<close> with their interpretations.
  \<^item> \<open>MQ_Model\<close> (\<open>model/src\<close>): states and acknowledgement kinds, identifiers and their snowflakes
    (locale \<open>snowflake\<close>, interpreted for message, endpoint and packet identifiers), base64 forms,
    headers and builders.
  \<^item> \<open>MQ_Serde\<close> (\<open>model/src\<close>, the hand-written \<open>Serialize\<close>, \<open>Deserialize\<close>, \<open>FromStr\<close> and \<open>Display\<close>): the
    text of subjects, interests and topic codes, the forms of identifiers and payloads; the locales
    \<open>wire_type\<close>, \<open>lent_type\<close> and \<open>owned_type\<close> are interpreted for the seven types.
  \<^item> \<open>MQ_Interest\<close> (\<open>model/src/interest.rs\<close>, \<open>server/src/protocol/interest.rs\<close>): segments, the radix
    tree, the interest map; the locale \<open>interest_index\<close> is what a topic relies on, and the tree is
    shown to implement a plain table of subscriptions.
  \<^item> \<open>MQ_Context\<close> (\<open>raft/proposal.rs\<close> and its directory, \<open>topic/config.rs\<close>): proposals and the
    context in which they are applied, with the tasks it spawns.
  \<^item> \<open>MQ_Queue\<close> (\<open>util.rs\<close>, \<open>wait_ack.rs\<close>, \<open>message_queue.rs\<close>): the queue with every operation, its
    invariant, the locale \<open>fifo\<close>.
  \<^item> \<open>MQ_Topic\<close> (\<open>state_machine/topic.rs\<close>): the operations of a topic; the locale \<open>topic_operation\<close> is
    the contract they share, and it is interpreted for each of them.  \<open>MQ_Effect\<close>: the change of routes,
    interests and held messages that each operation is for, as one predicate per operation.
  \<^item> \<open>MQ_State_Machine\<close> (\<open>state_machine/node.rs\<close>, \<open>state_machine.rs\<close>, \<open>response.rs\<close>): the application of
    log entries, snapshots.
  \<^item> \<open>MQ_Replica\<close>: a specification of a topic that knows no clock, no iteration order and no node, and
    the refinement of every operation of a topic to it.  \<open>MQ_Agreement\<close>: the locale
    \<open>replicated_operation\<close>, which extends \<open>topic_operation\<close> by that specification and is interpreted for
    the five operations; its lift to proposals and to the log.
  \<^item> \<open>MQ_Log\<close> (\<open>log_storage.rs\<close>): the log, with the locale \<open>raft_log\<close>; \<open>MQ_Log_Store\<close>: the references to
    it that raft holds, as addresses in a store of logs, and the calls through them.
  \<^item> \<open>MQ_Edge\<close> (\<open>model/src/edge.rs\<close>, \<open>edge/packet.rs\<close>, \<open>edge/codec.rs\<close>, \<open>edge/auth.rs\<close>): the protocol
    with the edge nodes.
  \<^item> \<open>MQ_Durable\<close> (\<open>topic/durable_message.rs\<close>, the task of \<open>raft/proposal.rs\<close>): durable commands and
    the reading of stored messages page by page.
  \<^item> \<open>MQ_Store\<close> (\<open>topic/durable_message.rs\<close>, \<open>tests/test_durable_service.rs\<close>): the trait \<open>Durable\<close>,
    \<open>DurableService\<close> and the provider \<open>MemoryDurable\<close>; the locale \<open>durable_store\<close> is what a node relies
    on, interpreted for \<open>MemoryDurable\<close>.  \<open>MQ_Recovery\<close>: the commands of a topic follow its queue, so a
    node that starts again finds what it held (locale \<open>followed_operation\<close>, interpreted for the five
    operations of a topic).  \<open>MQ_Commit\<close>: the tasks that carry the commands, step by step, with their
    locks (\<open>get_durable_lock\<close>), as the relations \<open>commit_step\<close> and \<open>commit_run\<close>.
  \<^item> \<open>MQ_Node\<close> (\<open>node.rs\<close>, \<open>topic.rs\<close>, \<open>endpoint.rs\<close>, \<open>edge/connection.rs\<close>, \<open>error.rs\<close>): the server
    around its replica: proposing, requests of edge nodes, waiting for acknowledgements, local
    endpoints, connections and the tasks.
  \<^item> \<open>MQ_Gateway\<close>: what the server promises, over the definitions of \<open>MQ_Node\<close>; the runs of a server
    are the relations \<open>node_step\<close> and \<open>node_run\<close>.  \<open>MQ_Delivery\<close>: one message from the sender's request
    to the receiver's connection and back to the sender.
  \<^item> \<open>MQ_Session\<close> (\<open>EdgeConnectionInstance::init\<close> in \<open>edge/connection.rs\<close>): one edge connection with the
    loop of its task and the tasks of its requests.
  \<^item> \<open>MQ_Tcp\<close> (\<open>edge/connection/tokio_tcp.rs\<close>): packets over a TCP stream.
  \<^item> \<open>MQ_Net\<close> (\<open>raft/network.rs\<close>, \<open>raft/network_factory.rs\<close>): calls between servers.
    \<open>MQ_Link\<close> (\<open>RaftTcpConnection::from_tokio_tcp_stream\<close>): both ends of a connection with their read, write
    and answer tasks and the bytes between them, as the relations \<open>link_step\<close> and \<open>link_run\<close>.
  \<^item> \<open>MQ_Client\<close> (\<open>sdk/rust/src\<close>): the client library.
  \<^item> \<open>MQ_Events\<close> (\<open>event_handler.rs\<close>): typed events and their handlers.  \<open>MQ_Codec\<close> (\<open>edge/codec/\<close>,
    \<open>event_handler/json.rs\<close>): the codecs of payloads and of events; the locale \<open>payload_codec\<close> is
    interpreted for the three of them.
  \<^item> \<open>MQ_Cluster\<close> (\<open>raft.rs\<close>, \<open>raft/cluster/static.rs\<close>, \<open>Node::new\<close> and \<open>Node::init_raft\<close>): waiting for
    the raft, and the task that follows the cluster provider.  \<open>MQ_K8s\<close> (\<open>raft/cluster/k8s.rs\<close>): the
    provider that reads the pods of a service.

  \<^bold>\<open>How the code is modelled.\<close>  A struct is a record, an enum a datatype, an operation a function
  from the state to the new state.  A panic is the value \<open>Inl\<close> of the type \<open>outcome\<close>, an error of
  the code the value \<open>Inl\<close> of a result; every early return is a branch.  Integers have their width
  (\<open>u32\<close> and \<open>u64\<close> are words), so the wrap-around of counters is part of the model; the checked
  subtraction of a \<open>usize\<close> is a panic.  A \<open>HashMap\<close> is an association list whose order is the order
  of its iterator, which the theorems leave open.  A spawned task is a value in the list of tasks
  of the node, and what it does is a definition of its own (\<open>run_task\<close>): so any order of tasks can
  be looked at.  A call that waits is split where it waits.

  The clock, the hash function and the iteration order of hash sets are the record \<open>platform\<close>, with
  \<open>platform_ok\<close> for what the standard library promises of them.  Raft's answers are the record
  \<open>raft_env\<close>; where a theorem needs that a write is committed, it says so (\<open>commits_alone\<close>), and a
  cluster of one node is its example.  Codecs, the formats of serde, bincode, base64, SHA-256, the
  authentication service, the durable provider, the cluster provider and the answers of the kubernetes
  API are arguments too.

  \<^bold>\<open>What is shown.\<close>
  \<^item> The queue and the topic: the invariants \<open>queue_inv\<close> and \<open>topic_inv\<close> hold in every run; no operation
    panics but for the target kind that is not implemented; along every run each accepted message
    is either held or has been answered exactly once; a flush ends and releases exactly what is
    done, in time order on a blocking queue; on a non-blocking topic a status update that finishes its
    message releases and answers it at once; targets are exactly the interested endpoints.
  \<^item> Routing: the radix tree refines a table of subscriptions, through any sequence of insertions
    and deletions, and survives serialisation.
  \<^item> Replication: two servers that apply the same log with different clocks, iteration orders, identities
    and local endpoints give the same responses and end with the same topics, up to which of them has
    sent a message already, as long as their clocks move and nothing expires on the way.
  \<^item> The state machine: proposals return, keep it well-formed, have the effect they are for and touch one
    topic only; a log is applied entry by entry; a snapshot carries the whole state to another replica.  The log:
    appending, truncating, purging and reading back.
  \<^item> The server: an endpoint belongs to the edge node that brought it online, whatever the others
    ask for; requests for foreign endpoints are refused; messages go to the connection of the owner; a
    disconnect takes the endpoints offline; a message for nobody is answered through the state
    machine, the task and the waiting handle, or held if it is \<open>Durable\<close>; a message for one endpoint at
    another edge node reaches its connection, and once it has the status its sender expects it leaves
    the queue and the sender gets that status; loading a topic; every reply
    has the type that belongs to its request.  On an edge connection each request that came in is
    waiting or answered, once, and other packets keep their order.
  \<^item> Durability: paging through the stored messages ends and finds each once; after any run of a topic
    that throws nothing out, the commands carried to any store that meets the contract and loaded
    back give the messages the topic held; the tasks that carry them exclude each other within a topic,
    come to an end, and issue every command once and in order.
  \<^item> The wire: packets are received however TCP cuts the stream; calls between servers refine a list
    of calls with their answers, and when both sides run their tasks in any order, with the stream cut
    anywhere and the tasks ended at any time, a call only gets an answer to its own request; a call of
    the client gets the server's response, of the kind it expects; every value with a hand-written form
    is read back.  Identifiers of a thread repeat exactly when the clock stands still and the counter
    has wrapped.
  \<^item> The cluster: on the leader the voters follow the provider; with kubernetes they are the pods.
  \<^item> Where the code does not do what it means to, a theorem shows it: a message pushed within the same
    tick of the clock is lost, a blocking topic starves after an overflow, a snapshot forgets the waiting
    senders, the packet writer panics and its reader spins at the end of the stream, a waiter of
    the raft may miss its notification, a membership change is missed while the node is not the
    leader, a failing event handler leaves its message unresolved, a message dropped by \<open>DropOld\<close> stays
    in the durable store and comes back, the kubernetes provider panics on an IPv6 pod, identifiers and
    payloads are refused where the input cannot lend its strings, replicas come apart when a message
    expires or a clock steps back, tasks of two topics race for the commands of one, and others.

  \<^bold>\<open>Bounds and fuel.\<close>  Loops of the code are structural or have a measure (\<open>flush_blocking\<close>,
  \<open>retrieve_pages\<close>), so they end.  \<open>poll_next\<close> and \<open>poll_flush\<close> have fuel, since they wait for a socket:
  for \<open>poll_next\<close> more fuel than bytes to come is enough (\<open>frames_received\<close>), and at the end of the
  stream no fuel is (\<open>eof_spins\<close>).  Facts about identifiers and sequence numbers hold up to the
  wrap-around of their counters, \<open>2^32\<close> and \<open>2^64\<close>.

  \<^bold>\<open>Not modelled.\<close>  What \<open>derive\<close> generates is not written out, and the formats of the serialisation
  crates are not.  \<open>Debug\<close> of the large structs, weak and strong references, logging,
  the crate roots, the tests, and the client in TypeScript are left out.  Back pressure of bounded
  channels shows only in what is in the channel once a send has completed; cancellation tokens
  only in the client and in the tasks of a connection between servers.  The removal of a call from its
  pool, which the code spawns as a task, happens together with the end of the call.  A request of an
  edge node is one step, although the code waits for raft between the check of the owner and the
  change of the routes; requests interleave with each other and with the tasks as whole steps.  A
  server has one generator of identifiers, where the code has one per worker thread: what is shown of
  identifiers is shown per thread.  The size of a queue is a natural number: it counts messages in
  memory and does not reach \<open>2^64\<close>.  Base64 is an argument, and both directions take the same engine, as
  the code fixes \<open>STANDARD\<close> for both.  The results on membership suppose that openraft accepts the
  changes a leader asks for.
\<close>

end
